(* ===== verification/Prelude.thy ===== *)
theory Prelude
  imports Main "HOL-Library.Word"
begin

unbundle bit_operations_syntax

text \<open>
  Shared vocabulary of the development: the machine integers of the C sources, the errno
  values their functions return, byte order (loads and stores of \<open>u16\<close>, \<open>u32\<close> and
  \<open>u64\<close>), rotations, bytewise exclusive or, C strings, and the generic list lemmas the
  components use. Byte order, rotations, \<open>memcpy\<close>, \<open>memset\<close> and \<open>crypto_xor\<close> are the
  compiler's and the platform's primitives: they are given their documented meaning here, once.
\<close>

section \<open>Machine integers and error codes\<close>

type_synonym u8 = "8 word"
type_synonym u16 = "16 word"
type_synonym u32 = "32 word"
type_synonym u64 = "64 word"
type_synonym bytes = "u8 list"

datatype errno = EINVAL | ENOSPC | EBUSY | EINPROGRESS | EBADMSG | ENOMEM | EAGAIN | EFAULT
  | EKEYREJECTED | ENOKEY | EOVERFLOW | ENOENT | EEXIST | EOPNOTSUPP | ENOTSUPP | ENAMETOOLONG | EMSGSIZE | ENOPKG

named_theorems word_load \<open>byte order: the loads and stores unfolded\<close>
named_theorems codec \<open>round trips of the byte order primitives\<close>
named_theorems xor_simps \<open>cancellation laws of bytewise exclusive or\<close>

section \<open>Operations that may fail\<close>

text \<open>\<open>bind_err\<close> is the operator \<open>?:\<close> between two calls: the first error ends the sequence.\<close>

fun bind_err :: "errno + 'a \<Rightarrow> ('a \<Rightarrow> errno + 'b) \<Rightarrow> errno + 'b" where
  "bind_err (Inl e) f = Inl e"
| "bind_err (Inr x) f = f x"

lemma bind_err_eq_Inr: "bind_err x f = Inr y \<longleftrightarrow> (\<exists>v. x = Inr v \<and> f v = Inr y)"
  by (cases x) simp_all

section \<open>Rotations\<close>

definition rol32 :: "u32 \<Rightarrow> nat \<Rightarrow> u32" where
  "rol32 x n = word_rotl n x"

definition ror32 :: "u32 \<Rightarrow> nat \<Rightarrow> u32" where
  "ror32 x n = word_rotr n x"

definition rol64 :: "u64 \<Rightarrow> nat \<Rightarrow> u64" where
  "rol64 x n = word_rotl n x"

definition ror64 :: "u64 \<Rightarrow> nat \<Rightarrow> u64" where
  "ror64 x n = word_rotr n x"

lemma ror32_rol32 [simp]: "ror32 (rol32 x n) n = x"
  by (simp add: ror32_def rol32_def)

lemma rol32_ror32 [simp]: "rol32 (ror32 x n) n = x"
  by (simp add: ror32_def rol32_def)

section \<open>Byte order\<close>

text \<open>
  A little-endian load reads the first byte as the least significant one, for any width; the
  fixed-width loads and stores of the sources are its instances, and the big-endian ones read
  or write the same bytes in reverse.
\<close>

fun get_le :: "bytes \<Rightarrow> 'a::len word" where
  "get_le [] = 0"
| "get_le (b # bs) = ucast b OR push_bit 8 (get_le bs)"

fun put_le :: "nat \<Rightarrow> 'a::len word \<Rightarrow> bytes" where
  "put_le 0 w = []"
| "put_le (Suc n) w = ucast w # put_le n (drop_bit 8 w)"

definition get_le16 :: "bytes \<Rightarrow> u16" where "get_le16 bs = get_le (take 2 bs)"
definition get_le32 :: "bytes \<Rightarrow> u32" where "get_le32 bs = get_le (take 4 bs)"
definition get_le64 :: "bytes \<Rightarrow> u64" where "get_le64 bs = get_le (take 8 bs)"
definition get_be32 :: "bytes \<Rightarrow> u32" where "get_be32 bs = get_le (rev (take 4 bs))"
definition get_be64 :: "bytes \<Rightarrow> u64" where "get_be64 bs = get_le (rev (take 8 bs))"

definition put_le16 :: "u16 \<Rightarrow> bytes" where "put_le16 w = put_le 2 w"
definition put_le32 :: "u32 \<Rightarrow> bytes" where "put_le32 w = put_le 4 w"
definition put_le64 :: "u64 \<Rightarrow> bytes" where "put_le64 w = put_le 8 w"
definition put_be32 :: "u32 \<Rightarrow> bytes" where "put_be32 w = rev (put_le 4 w)"
definition put_be64 :: "u64 \<Rightarrow> bytes" where "put_be64 w = rev (put_le 8 w)"

lemma length_put_le [simp]: "length (put_le n w) = n"
  by (induction n w rule: put_le.induct) auto

lemma nth_put_le: "i < n \<Longrightarrow> put_le n w ! i = ucast (drop_bit (8 * i) w)"
proof (induction n w arbitrary: i rule: put_le.induct)
  case (2 n w)
  then show ?case by (cases i) (auto simp: add.commute)
qed simp

lemma bit_get_le:
  "bit (get_le bs :: 'a::len word) i \<longleftrightarrow>
     i < LENGTH('a) \<and> i div 8 < length bs \<and> bit (bs ! (i div 8)) (i mod 8)"
proof (induction bs arbitrary: i)
  case (Cons b bs)
  show ?case
  proof (cases "i < 8")
    case True
    then show ?thesis by (auto simp: bit_simps)
  next
    case False
    then have "i div 8 = Suc ((i - 8) div 8)" "i mod 8 = (i - 8) mod 8"
      by (simp_all add: le_div_geq le_mod_geq)
    with False show ?thesis
      using bit_imp_le_length [of b i] by (auto simp: bit_simps Cons.IH)
  qed
qed simp

lemma get_put_le: "LENGTH('a::len) \<le> 8 * n \<Longrightarrow> get_le (put_le n w) = (w :: 'a word)"
  by (rule bit_word_eqI) (auto simp: bit_get_le nth_put_le bit_simps mult.commute)

lemma put_get_le:
  assumes "length bs = n" "8 * n \<le> LENGTH('a::len)"
  shows "put_le n (get_le bs :: 'a word) = bs"
proof (rule nth_equalityI)
  fix i assume i: "i < length (put_le n (get_le bs :: 'a word))"
  with assms have n: "8 * i + 8 \<le> LENGTH('a)" by simp
  show "put_le n (get_le bs :: 'a word) ! i = bs ! i"
    using i n assms
    by (intro bit_word_eqI) (auto simp: bit_get_le nth_put_le bit_simps add.commute)
qed (use assms in simp)

lemmas word_defs = get_le16_def get_le32_def get_le64_def get_be32_def get_be64_def
  put_le16_def put_le32_def put_le64_def put_be32_def put_be64_def

lemma length_put [simp]:
  "length (put_le16 w2) = 2" "length (put_le32 w) = 4" "length (put_be32 w) = 4"
  "length (put_le64 v) = 8" "length (put_be64 v) = 8"
  by (simp_all add: word_defs)

lemma get_put_word [codec, simp]:
  "get_le16 (put_le16 w2) = w2" "get_le32 (put_le32 w) = w" "get_be32 (put_be32 w) = w"
  "get_le64 (put_le64 v) = v" "get_be64 (put_be64 v) = v"
  "get_le16 (put_le16 w2 @ xs) = w2" "get_le32 (put_le32 w @ xs) = w" "get_be32 (put_be32 w @ xs) = w"
  "get_le64 (put_le64 v @ xs) = v" "get_be64 (put_be64 v @ xs) = v"
  by (simp_all add: word_defs get_put_le)

lemma put_get_word [codec]:
  "length bs = 2 \<Longrightarrow> put_le16 (get_le16 bs) = bs"
  "length bs = 4 \<Longrightarrow> put_le32 (get_le32 bs) = bs"
  "length bs = 4 \<Longrightarrow> put_be32 (get_be32 bs) = bs"
  "length bs = 8 \<Longrightarrow> put_le64 (get_le64 bs) = bs"
  "length bs = 8 \<Longrightarrow> put_be64 (get_be64 bs) = bs"
  by (simp_all add: word_defs put_get_le)

lemma get_word_take [simp]:
  "4 \<le> n \<Longrightarrow> get_le32 (take n bs) = get_le32 bs" "4 \<le> n \<Longrightarrow> get_be32 (take n bs) = get_be32 bs"
  "8 \<le> n \<Longrightarrow> get_le64 (take n bs) = get_le64 bs" "8 \<le> n \<Longrightarrow> get_be64 (take n bs) = get_be64 bs"
  by (simp_all add: word_defs min_def)

lemma put_get_word_take [codec]:
  "4 \<le> length bs \<Longrightarrow> put_le32 (get_le32 bs) = take 4 bs"
  "4 \<le> length bs \<Longrightarrow> put_be32 (get_be32 bs) = take 4 bs"
  "8 \<le> length bs \<Longrightarrow> put_le64 (get_le64 bs) = take 8 bs"
  "8 \<le> length bs \<Longrightarrow> put_be64 (get_be64 bs) = take 8 bs"
  using put_get_word(2-5) [of "take 4 bs"] put_get_word(4,5) [of "take 8 bs"] by simp_all

section \<open>The number a byte string stands for\<close>

fun le_val :: "bytes \<Rightarrow> nat" where
  "le_val [] = 0"
| "le_val (b # bs) = unat b + 256 * le_val bs"

definition be_val :: "bytes \<Rightarrow> nat" where
  "be_val bs = le_val (rev bs)"

lemma le_val_append: "le_val (xs @ ys) = le_val xs + 256 ^ length xs * le_val ys"
  by (induction xs) (auto simp: algebra_simps)

lemma be_val_append: "be_val (xs @ ys) = be_val xs * 256 ^ length ys + be_val ys"
  by (simp add: be_val_def le_val_append mult.commute)

lemma be_val_Nil [simp]: "be_val [] = 0"
  by (simp add: be_val_def)

lemma be_val_single [simp]: "be_val [b] = unat b"
  by (simp add: be_val_def)

lemma unat_byte_less: "unat (b :: u8) < 256"
  using unsigned_less [of b] by simp

lemma unat_succ: "w + 1 \<noteq> (0 :: 'a::len word) \<Longrightarrow> unat (w + 1) = unat w + 1"
  by (metis Suc_eq_plus1 add.commute unatSuc)

lemma unat_succ_wrap: "w + 1 = (0 :: 'a::len word) \<Longrightarrow> unat w + 1 = 2 ^ LENGTH('a)"
proof -
  assume "w + 1 = 0"
  then have "w = -1" by (simp add: eq_neg_iff_add_eq_0)
  then show ?thesis by (simp add: unsigned_minus_1_eq_mask mask_eq_exp_minus_1)
qed

lemma le_val_less: "le_val bs < 256 ^ length bs"
proof (induction bs)
  case (Cons b bs)
  have "unat b + 256 * le_val bs < 256 * (le_val bs + 1)" using unat_byte_less [of b] by simp
  also have "\<dots> \<le> 256 * 256 ^ length bs" using Cons by (intro mult_le_mono2) simp
  finally show ?case by simp
qed simp

lemma be_val_less: "be_val bs < 256 ^ length bs"
  using le_val_less [of "rev bs"] by (simp add: be_val_def)

lemma le_val_inj: "length xs = length ys \<Longrightarrow> le_val xs = le_val ys \<Longrightarrow> xs = ys"
proof (induction xs ys rule: list_induct2)
  case (Cons x xs y ys)
  have "unat x = (unat x + 256 * le_val xs) mod 256" "unat y = (unat y + 256 * le_val ys) mod 256"
    using unat_byte_less [of x] unat_byte_less [of y] by simp_all
  with Cons.prems have "unat x = unat y" by simp
  with Cons show ?case by (simp add: word_unat_eq_iff)
qed simp

lemma be_val_inj: "length xs = length ys \<Longrightarrow> be_val xs = be_val ys \<Longrightarrow> xs = ys"
  using le_val_inj [of "rev xs" "rev ys"] by (simp add: be_val_def)

lemma unat_get_le:
  "8 * length bs \<le> LENGTH('a::len) \<Longrightarrow> unat (get_le bs :: 'a word) = le_val bs"
proof (induction bs)
  case (Cons b bs)
  let ?w = "get_le bs :: 'a word"
  have l: "8 * length bs + 8 \<le> LENGTH('a)" using Cons.prems by simp
  have d: "(ucast b :: 'a word) OR push_bit 8 ?w = ucast b + push_bit 8 ?w"
    by (rule disjunctive_add [symmetric]) (use bit_imp_le_length [of b] in \<open>force simp: bit_simps\<close>)
  have w: "unat ?w = le_val bs" using Cons by simp
  have "unat (ucast b :: 'a word) = unat b"
  proof -
    have "(2::nat) ^ 8 \<le> 2 ^ LENGTH('a)" using l by (intro power_increasing) auto
    then show ?thesis using unat_byte_less [of b] by (simp add: unsigned_ucast_eq take_bit_eq_mod)
  qed
  moreover have p: "256 * le_val bs + 256 \<le> 2 ^ LENGTH('a)"
  proof -
    have "256 * (le_val bs + 1) \<le> 256 * 256 ^ length bs"
      using le_val_less [of bs] by (intro mult_le_mono2) simp
    also have "\<dots> = 2 ^ (8 * length bs + 8)" by (simp add: power_add power_mult)
    also have "\<dots> \<le> 2 ^ LENGTH('a)" using l by (intro power_increasing) auto
    finally show ?thesis by simp
  qed
  moreover have "unat (push_bit 8 ?w) = 256 * le_val bs"
  proof -
    have "unat (push_bit 8 ?w) = take_bit LENGTH('a) (push_bit 8 (unat ?w))"
      by (rule unsigned_push_bit_eq)
    with w p show ?thesis by (simp add: push_bit_eq_mult take_bit_eq_mod mult.commute)
  qed
  ultimately show ?case
    unfolding get_le.simps d using unat_byte_less [of b] by (simp add: unat_word_ariths)
qed simp

lemma unat_get_be32: "length bs = 4 \<Longrightarrow> unat (get_be32 bs) = be_val bs"
  by (simp add: get_be32_def be_val_def unat_get_le)

lemma unat_get_be64: "length bs = 8 \<Longrightarrow> unat (get_be64 bs) = be_val bs"
  by (simp add: get_be64_def be_val_def unat_get_le)

lemma unat_get_le64: "length bs = 8 \<Longrightarrow> unat (get_le64 bs) = le_val bs"
  by (simp add: get_le64_def unat_get_le)

lemma be_val_put_be32 [simp]: "be_val (put_be32 w) = unat w"
  using unat_get_be32 [of "put_be32 w"] by simp

section \<open>Bytewise exclusive or\<close>

text \<open>\<open>crypto_xor (dst, src, len)\<close> and \<open>crypto_xor_cpy\<close>: both operands have the same length.\<close>

definition xor_bytes :: "bytes \<Rightarrow> bytes \<Rightarrow> bytes" where
  "xor_bytes xs ys = map2 (XOR) xs ys"

lemma length_xor_bytes [simp]: "length (xor_bytes xs ys) = min (length xs) (length ys)"
  by (simp add: xor_bytes_def)

lemma nth_xor_bytes [simp]:
  "i < length xs \<Longrightarrow> i < length ys \<Longrightarrow> xor_bytes xs ys ! i = xs ! i XOR ys ! i"
  by (simp add: xor_bytes_def)

lemma word_xor_cancel [xor_simps, simp]:
  "(a XOR b) XOR b = (a :: 'a::len word)" "b XOR (a XOR b) = a" "b XOR (b XOR a) = a" "(b XOR a) XOR b = a"
  by (auto intro!: bit_word_eqI simp: bit_simps)

lemma xor_bytes_cancel [xor_simps, simp]:
  "length xs = length ys \<Longrightarrow> xor_bytes (xor_bytes xs ys) ys = xs"
  "length xs = length ys \<Longrightarrow> xor_bytes ys (xor_bytes xs ys) = xs"
  "length xs = length ys \<Longrightarrow> xor_bytes (xor_bytes ys xs) ys = xs"
  "length xs = length ys \<Longrightarrow> xor_bytes ys (xor_bytes ys xs) = xs"
  by (auto intro!: nth_equalityI)

lemma xor_bytes_commute: "xor_bytes xs ys = xor_bytes ys xs"
  by (auto intro!: nth_equalityI simp: xor.commute)

lemma xor_bytes_assoc: "xor_bytes (xor_bytes xs ys) zs = xor_bytes xs (xor_bytes ys zs)"
  by (auto intro!: nth_equalityI simp: xor.assoc)

lemma xor_bytes_append:
  "length xs = length ys \<Longrightarrow> xor_bytes (xs @ xs') (ys @ ys') = xor_bytes xs ys @ xor_bytes xs' ys'"
  by (simp add: xor_bytes_def)

lemma xor_bytes_Nil [simp]: "xor_bytes [] ys = []" "xor_bytes xs [] = []"
  by (simp_all add: xor_bytes_def)

lemma xor_bytes_zeros: "length xs \<le> n \<Longrightarrow> xor_bytes xs (replicate n 0) = xs"
  by (rule nth_equalityI) simp_all

lemma take_xor_bytes: "take n (xor_bytes xs ys) = xor_bytes (take n xs) (take n ys)"
  by (simp add: xor_bytes_def take_map take_zip)

lemma xor_bytes_take_left: "length ys \<le> n \<Longrightarrow> xor_bytes (take n xs) ys = xor_bytes xs ys"
  by (intro nth_equalityI) simp_all

end
