(* ===== verification/Server6.thy ===== *)
theory Server6
  imports Prelude
begin

text \<open>
  The cloning echo server (\<open>server6.c\<close>, \<open>server66.c\<close>, \<open>socket6.h\<close>): the per-client echo
  loop \<open>handle_client\<close>, the child's entry point \<open>childfunc\<close>, the argument parsing and socket
  set-up of \<open>main\<close>, and its accept/clone/wait loop. The operating system is the environment:
  each system call's result is an input of the model, each descriptor the parent holds is part
  of the state.
\<close>

section \<open>Constants and C strings\<close>

definition TCPv6_PORT :: nat where "TCPv6_PORT = 7777"
definition MSGBUFLEN :: nat where "MSGBUFLEN = 8192"

text \<open>
  \<open>strlen\<close> of a buffer: the index of the first NUL, \<open>None\<close> when the buffer holds none, in
  which case the C call reads past its end.
\<close>

definition c_strlen :: "bytes \<Rightarrow> nat option" where
  "c_strlen buf = (let n = length (takeWhile (\<lambda>b. b \<noteq> 0) buf) in
     if n < length buf then Some n else None)"

section \<open>The echo loop\<close>

text \<open>
  The result of one \<open>recv\<close>: an error (\<open>-1\<close>), or the bytes received (none at end of
  stream; never more than the buffer's size).
\<close>

datatype recv_result = RecvErr | RecvData bytes

fun recv_size :: "recv_result \<Rightarrow> int" where
  "recv_size RecvErr = -1"
| "recv_size (RecvData d) = int (length d)"

text \<open>\<open>buf\<close> is zeroed before each \<open>recv\<close>; \<open>recv\<close> overwrites its front.\<close>

fun recv_buf :: "recv_result \<Rightarrow> bytes" where
  "recv_buf RecvErr = replicate MSGBUFLEN 0"
| "recv_buf (RecvData d) = take MSGBUFLEN d @ replicate (MSGBUFLEN - length d) 0"

text \<open>
  How \<open>handle_client\<close> leaves its loop: it returns its byte total, it reads past \<open>buf\<close>, or
  it is still inside \<open>recv\<close> when the given results are used up. Each outcome carries the
  chunks passed to \<open>send\<close> so far.
\<close>

datatype client_run =
    Returned nat "bytes list"
  | Overread nat "bytes list"
  | InRecv nat "bytes list"

fun handle_loop :: "int \<Rightarrow> recv_result list \<Rightarrow> nat \<Rightarrow> bytes list \<Rightarrow> client_run" where
  "handle_loop c_sd rs bytestotal sent =
     (if 0 < c_sd \<and> bytestotal \<le> 64 then
        (case rs of
           [] \<Rightarrow> InRecv bytestotal sent
         | r # rs' \<Rightarrow>
             (if recv_size r = 0 then Returned bytestotal sent
              else case c_strlen (recv_buf r) of
                     None \<Rightarrow> Overread bytestotal sent
                   | Some n \<Rightarrow>
                       handle_loop c_sd rs' (bytestotal + n) (sent @ [take n (recv_buf r)])))
      else Returned bytestotal sent)"

declare handle_loop.simps [simp del]

text \<open>The parameter \<open>csd\<close> is never read: the loop uses the global \<open>c_sd\<close>.\<close>

definition handle_client :: "int \<Rightarrow> int \<Rightarrow> recv_result list \<Rightarrow> client_run" where
  "handle_client c_sd csd rs = handle_loop c_sd rs 0 []"

text \<open>The child: its exit code and the descriptors it closes; \<open>None\<close> while it has not finished.\<close>

definition childfunc :: "int \<Rightarrow> recv_result list \<Rightarrow> (int \<times> int list) option" where
  "childfunc c_sd rs =
     (if c_sd > 0 then
        (case handle_client c_sd c_sd rs of
           Returned byteslen sent \<Rightarrow> Some (0, [c_sd])
         | _ \<Rightarrow> None)
      else Some (-1, []))"

lemma handle_loop_stop: "\<not> (0 < c \<and> t \<le> 64) \<Longrightarrow> handle_loop c rs t s = Returned t s"
  by (subst handle_loop.simps) auto

lemma c_strlen_replicate0 [simp]: "0 < n \<Longrightarrow> c_strlen (replicate n 0) = Some 0"
  by (cases n) (simp_all add: c_strlen_def)

lemma takeWhile_nonzero_app:
  "0 \<notin> set d \<Longrightarrow> takeWhile (\<lambda>b. b \<noteq> (0::u8)) (d @ ys) = d @ takeWhile (\<lambda>b. b \<noteq> 0) ys"
  by (induction d) auto

lemma takeWhile_replicate0 [simp]: "takeWhile (\<lambda>b. b \<noteq> (0::u8)) (replicate n 0) = []"
  by (cases n) auto

lemma recv_buf_fits:
  assumes "0 \<notin> set d" "length d < MSGBUFLEN"
  shows "c_strlen (recv_buf (RecvData d)) = Some (length d)"
    "take (length d) (recv_buf (RecvData d)) = d"
  using assms by (simp_all add: c_strlen_def takeWhile_nonzero_app)

lemma recv_buf_full:
  assumes "0 \<notin> set d" "length d = MSGBUFLEN"
  shows "c_strlen (recv_buf (RecvData d)) = None"
proof -
  have e: "takeWhile (\<lambda>b. b \<noteq> 0) d = d"
    using assms(1) unfolding takeWhile_eq_all_conv by metis
  show ?thesis using assms(2) by (simp add: c_strlen_def e)
qed

lemma handle_loop_data:
  assumes "0 < c" "t \<le> 64" "d \<noteq> []" "0 \<notin> set d" "length d < MSGBUFLEN"
  shows "handle_loop c (RecvData d # rs) t s = handle_loop c rs (t + length d) (s @ [d])"
  using assms recv_buf_fits [of d]
  by (simp add: handle_loop.simps [of c "_ # _"] del: recv_buf.simps)

lemma handle_loop_Nil: "0 < c \<Longrightarrow> t \<le> 64 \<Longrightarrow> handle_loop c [] t s = InRecv t s"
  by (simp add: handle_loop.simps)

definition echo_chunk :: "bytes \<Rightarrow> bool" where
  "echo_chunk d \<longleftrightarrow> d \<noteq> [] \<and> 0 \<notin> set d \<and> length d < MSGBUFLEN"

text \<open>The chunks the loop takes when \<open>t\<close> bytes are already counted: up to the first that
  lifts the total above 64.\<close>

fun echo_taken :: "nat \<Rightarrow> bytes list \<Rightarrow> bytes list" where
  "echo_taken t [] = []"
| "echo_taken t (d # ds) = (if t \<le> 64 then d # echo_taken (t + length d) ds else [])"

lemma handle_loop_echo:
  assumes "0 < c" "\<forall>d \<in> set ds. echo_chunk d"
  shows "handle_loop c (map RecvData ds) t s =
    (let n = t + length (concat (echo_taken t ds)) in
     if n \<le> 64 then InRecv n (s @ echo_taken t ds) else Returned n (s @ echo_taken t ds))"
  using assms
proof (induction ds arbitrary: t s)
  case Nil
  then show ?case by (cases "t \<le> 64") (auto simp: handle_loop_Nil handle_loop_stop Let_def)
next
  case (Cons d ds)
  show ?case
  proof (cases "t \<le> 64")
    case True
    with Cons show ?thesis
      by (simp add: handle_loop_data echo_chunk_def Let_def add.assoc)
  next
    case False
    then show ?thesis by (simp add: handle_loop_stop)
  qed
qed

lemma echo_taken_all: "t + length (concat ds) \<le> 64 \<Longrightarrow> echo_taken t ds = ds"
  by (induction ds arbitrary: t) auto

lemma echo_taken_prefix:
  "t \<le> 64 \<Longrightarrow> 64 < t + length (concat ds) \<Longrightarrow>
   \<exists>k < length ds. echo_taken t ds = take (Suc k) ds \<and>
     t + length (concat (take k ds)) \<le> 64 \<and> 64 < t + length (concat (take (Suc k) ds))"
proof (induction ds arbitrary: t)
  case (Cons d ds)
  show ?case
  proof (cases "t + length d \<le> 64")
    case True
    with Cons.prems Cons.IH [of "t + length d"] obtain k where k: "k < length ds"
      "echo_taken (t + length d) ds = take (Suc k) ds"
      "t + length d + length (concat (take k ds)) \<le> 64"
      "64 < t + length d + length (concat (take (Suc k) ds))" by auto
    with Cons.prems show ?thesis by (intro exI [of _ "Suc k"]) auto
  next
    case False
    then have "echo_taken (t + length d) ds = []" by (cases ds) auto
    with False Cons.prems show ?thesis by (intro exI [of _ 0]) auto
  qed
qed simp

lemma handle_loop_recv_err:
  "0 < c \<Longrightarrow> t \<le> 64 \<Longrightarrow>
   handle_loop c (replicate n RecvErr @ rs) t s = handle_loop c rs t (s @ replicate n [])"
proof (induction n arbitrary: s)
  case (Suc n)
  have "handle_loop c (RecvErr # replicate n RecvErr @ rs) t s =
      handle_loop c (replicate n RecvErr @ rs) t (s @ [[]])"
    using Suc.prems by (simp add: handle_loop.simps [of c "_ # _"] MSGBUFLEN_def)
  with Suc show ?case by simp
qed simp

fun run_sent :: "client_run \<Rightarrow> bytes list" where
  "run_sent (Returned t s) = s"
| "run_sent (Overread t s) = s"
| "run_sent (InRecv t s) = s"

fun run_total :: "client_run \<Rightarrow> nat" where
  "run_total (Returned t s) = t"
| "run_total (Overread t s) = t"
| "run_total (InRecv t s) = t"

lemma c_strlen_take: "c_strlen buf = Some n \<Longrightarrow> n < length buf \<and> 0 \<notin> set (take n buf)"
  unfolding c_strlen_def Let_def
  by (auto split: if_splits dest: set_takeWhileD simp flip: takeWhile_eq_take)

lemma length_recv_buf [simp]: "length (recv_buf r) = MSGBUFLEN"
  by (cases r) auto

text \<open>Every chunk sent is a C string, the total counts the bytes sent, and it is bounded.\<close>

lemma handle_loop_sent:
  "(\<forall>m \<in> set s. 0 \<notin> set m) \<Longrightarrow> t = length (concat s) \<Longrightarrow> t < 64 + MSGBUFLEN \<Longrightarrow>
   (let run = handle_loop c rs t s in (\<forall>m \<in> set (run_sent run). 0 \<notin> set m) \<and>
      run_total run = length (concat (run_sent run)) \<and> run_total run < 64 + MSGBUFLEN)"
proof (induction c rs t s rule: handle_loop.induct)
  case (1 c rs t s)
  show ?case
  proof (cases "0 < c \<and> t \<le> 64 \<and> (\<exists>r rs'. rs = r # rs' \<and> recv_size r \<noteq> 0 \<and>
      c_strlen (recv_buf r) \<noteq> None)")
    case False
    with 1(2-) show ?thesis
      by (simp add: handle_loop.simps [of c rs] Let_def split: list.splits option.splits) auto
  next
    case True
    then obtain r rs' n where r: "0 < c" "t \<le> 64" "rs = r # rs'" "recv_size r \<noteq> 0"
      "c_strlen (recv_buf r) = Some n" by auto
    have "handle_loop c rs t s = handle_loop c rs' (t + n) (s @ [take n (recv_buf r)])"
      using r by (subst handle_loop.simps) simp
    then show ?thesis
      using 1(1) [OF conjI [OF r(1,2)] r(3,4,5)] 1(2-) c_strlen_take [OF r(5)] r(2) by auto
  qed
qed

section \<open>The command line\<close>

definition c_isspace :: "char \<Rightarrow> bool" where
  "c_isspace c \<longleftrightarrow> of_char c = (32::nat) \<or> (9::nat) \<le> of_char c \<and> of_char c \<le> (13::nat)"

definition c_isdigit :: "char \<Rightarrow> bool" where
  "c_isdigit c \<longleftrightarrow> (48::nat) \<le> of_char c \<and> of_char c \<le> (57::nat)"

fun atol_digits :: "int \<Rightarrow> string \<Rightarrow> int" where
  "atol_digits acc [] = acc"
| "atol_digits acc (c # cs) =
     (if c_isdigit c then atol_digits (10 * acc + (of_char c - 48)) cs else acc)"

text \<open>The standard library's \<open>atol\<close>, where the number fits a \<open>long\<close>.\<close>

definition c_atol :: "string \<Rightarrow> int" where
  "c_atol s = (case dropWhile c_isspace s of
       [] \<Rightarrow> 0
     | c # cs \<Rightarrow> if c = CHR ''-'' then - atol_digits 0 cs
                  else if c = CHR ''+'' then atol_digits 0 cs
                  else atol_digits 0 (c # cs))"

text \<open>\<open>(uint16_t) atol(arg)\<close>, replaced by the default port when it is below 2.\<close>

definition port_of_arg :: "string \<Rightarrow> nat" where
  "port_of_arg arg =
     (let tcp6port = nat (c_atol arg mod 65536) in
      if tcp6port < 2 then TCPv6_PORT else tcp6port)"

definition server_args :: "string list \<Rightarrow> string \<times> nat" where
  "server_args argv =
     (if length argv > 1 then
        (argv ! 1, if length argv > 2 then port_of_arg (argv ! 2) else TCPv6_PORT)
      else (''2600:1f18:7a3f:a700::6291'', TCPv6_PORT))"

section \<open>The parent process\<close>

text \<open>
  \<open>open_fds\<close> are the descriptors the parent holds, newest first; \<open>children\<close> are the child
  processes it has started and not yet waited for.
\<close>

record parent =
  p_s_sd :: int
  p_c_sd :: int
  p_done :: nat
  open_fds :: "int list"
  stack_mapped :: bool
  children :: "int list"

definition close_fd :: "int \<Rightarrow> parent \<Rightarrow> parent" where
  "close_fd fd p = p\<lparr>open_fds := remove1 fd (open_fds p)\<rparr>"

definition munmap_stack :: "parent \<Rightarrow> parent" where
  "munmap_stack p = p\<lparr>stack_mapped := False\<rparr>"

text \<open>The results of the set-up system calls of \<open>main\<close>.\<close>

record boot_env =
  socket_ret :: int
  setsockopt_ret :: int
  bind_ret :: int
  listen_ret :: int
  mmap_failed :: bool

text \<open>
  \<open>usemsg\<close> prints and exits: an exit carries the exit code and the descriptors the process
  still holds. A server that has been set up carries the parent's first state.
\<close>

datatype boot_result = BootExit int "int list" | Booted parent

definition server_boot :: "boot_env \<Rightarrow> boot_result" where
  "server_boot e =
     (let s = socket_ret e in
      if s = -1 then BootExit 1 []
      else if setsockopt_ret e = -1 then BootExit 1 [s]
      else if bind_ret e = -1 then BootExit 1 []
      else if listen_ret e = -1 then BootExit 1 []
      else if mmap_failed e then BootExit 1 []
      else Booted \<lparr>p_s_sd = s, p_c_sd = -1, p_done = nat (listen_ret e), open_fds = [s],
             stack_mapped = True, children = []\<rparr>)"

datatype wait_result = WaitErr | Exited int | Signaled int | Stopped int | Continued

text \<open>What the environment answers in one round of the accept loop.\<close>

record round_env =
  accept_ret :: int
  clone_ret :: int
  fork_ret :: int
  waits :: "wait_result list"
  child_recvs :: "recv_result list"

text \<open>
  How a round ends: at the head of the accept loop again, with \<open>exit\<close>, in the forked child's
  copy of the code (with what \<open>childfunc\<close> did), or still inside \<open>waitpid\<close>.
\<close>

datatype round_result =
    Continue parent
  | ExitServer int parent
  | InChild "(int \<times> int list) option"
  | InWait parent

text \<open>The wait loop: \<open>for (done = 0; done == 0;)\<close>.\<close>

fun wait_loop :: "parent \<Rightarrow> int \<Rightarrow> wait_result list \<Rightarrow> round_result" where
  "wait_loop p pid [] = InWait p"
| "wait_loop p pid (WaitErr # ws) =
     ExitServer 1 (munmap_stack (close_fd (p_c_sd p) (close_fd (p_s_sd p) p)))"
| "wait_loop p pid (Exited st # ws) =
     Continue (p\<lparr>p_done := Suc (p_done p), children := remove1 pid (children p)\<rparr>)"
| "wait_loop p pid (Signaled sig # ws) =
     Continue (p\<lparr>p_done := Suc (p_done p), children := remove1 pid (children p)\<rparr>)"
| "wait_loop p pid (Stopped sig # ws) = wait_loop p pid ws"
| "wait_loop p pid (Continued # ws) = wait_loop p pid ws"

text \<open>
  Accepting a client and starting its child: \<open>clone\<close> first, \<open>fork\<close> when that fails. The
  parent closes the client's descriptor on the \<open>fork\<close> path only.
\<close>

definition dispatch :: "parent \<Rightarrow> round_env \<Rightarrow> round_result + parent \<times> int" where
  "dispatch p r =
     (let c = accept_ret r; p1 = p\<lparr>p_c_sd := c\<rparr> in
      if c = -1 then Inl (ExitServer 1 (close_fd (p_s_sd p1) p1))
      else
        (let p2 = p1\<lparr>open_fds := c # open_fds p1\<rparr> in
         if clone_ret r = -1 then
           (if fork_ret r = -1 then
              Inl (ExitServer 1 (munmap_stack (close_fd c (close_fd (p_s_sd p2) p2))))
            else if fork_ret r = 0 then Inl (InChild (childfunc c (child_recvs r)))
            else Inr ((close_fd c p2)\<lparr>children := fork_ret r # children p2\<rparr>, fork_ret r))
         else Inr (p2\<lparr>children := clone_ret r # children p2\<rparr>, clone_ret r)))"

definition server6_round :: "parent \<Rightarrow> round_env \<Rightarrow> round_result" where
  "server6_round p r =
     (case dispatch p r of
        Inl res \<Rightarrow> res
      | Inr (p', pid) \<Rightarrow> wait_loop (p'\<lparr>p_done := 0\<rparr>) pid (waits r))"

text \<open>\<open>server66.c\<close> is the same program with the wait loop commented out.\<close>

definition server66_round :: "parent \<Rightarrow> round_env \<Rightarrow> round_result" where
  "server66_round p r =
     (case dispatch p r of Inl res \<Rightarrow> res | Inr (p', pid) \<Rightarrow> Continue p')"

fun server_run :: "(parent \<Rightarrow> round_env \<Rightarrow> round_result) \<Rightarrow> parent \<Rightarrow> round_env list \<Rightarrow> round_result"
  where
  "server_run step p [] = Continue p"
| "server_run step p (r # rs) =
     (case step p r of Continue p' \<Rightarrow> server_run step p' rs | res \<Rightarrow> res)"

text \<open>The states at the head of \<open>server6.c\<close>'s accept loop.\<close>

inductive server6_reach :: "parent \<Rightarrow> bool" where
  boot: "server_boot e = Booted p \<Longrightarrow> server6_reach p"
| round: "server6_reach p \<Longrightarrow> server6_round p r = Continue p' \<Longrightarrow> server6_reach p'"

definition cloned :: "round_env \<Rightarrow> bool" where
  "cloned r \<longleftrightarrow> clone_ret r \<noteq> -1"

definition started_pid :: "round_env \<Rightarrow> int" where
  "started_pid r = (if cloned r then clone_ret r else fork_ret r)"

lemma dispatch_Inr:
  "dispatch p r = Inr (p', pid) \<Longrightarrow>
     accept_ret r \<noteq> -1 \<and> pid = started_pid r \<and> children p' = pid # children p \<and>
     open_fds p' = (if cloned r then accept_ret r # open_fds p else open_fds p) \<and>
     p_s_sd p' = p_s_sd p \<and> stack_mapped p' = stack_mapped p \<and> p_c_sd p' = accept_ret r"
  by (auto simp: dispatch_def Let_def cloned_def started_pid_def close_fd_def split: if_splits)

lemma dispatch_Inl_not_Continue: "dispatch p r = Inl res \<Longrightarrow> res \<noteq> Continue q"
  by (auto simp: dispatch_def Let_def split: if_splits)

lemma wait_loop_Continue:
  "wait_loop p pid ws = Continue p' \<Longrightarrow>
     p' = p\<lparr>p_done := Suc (p_done p), children := remove1 pid (children p)\<rparr> \<and>
     (\<exists>st. Exited st \<in> set ws \<or> Signaled st \<in> set ws)"
  by (induction p pid ws rule: wait_loop.induct) auto

lemma server6_round_Continue:
  assumes "server6_round p r = Continue p'"
  shows "accept_ret r \<noteq> -1 \<and> children p' = children p \<and>
    open_fds p' = (if cloned r then accept_ret r # open_fds p else open_fds p) \<and>
    p_s_sd p' = p_s_sd p \<and> stack_mapped p' = stack_mapped p \<and> p_done p' = 1 \<and>
    (\<exists>st. Exited st \<in> set (waits r) \<or> Signaled st \<in> set (waits r))"
proof (cases "dispatch p r")
  case (Inl res)
  with assms dispatch_Inl_not_Continue show ?thesis by (auto simp: server6_round_def)
next
  case (Inr q)
  then obtain q' pid where q: "dispatch p r = Inr (q', pid)" by (cases q) auto
  with assms have "wait_loop (q'\<lparr>p_done := 0\<rparr>) pid (waits r) = Continue p'"
    by (simp add: server6_round_def)
  from wait_loop_Continue [OF this] dispatch_Inr [OF q] show ?thesis by auto
qed

lemma server66_round_Continue:
  assumes "server66_round p r = Continue p'"
  shows "accept_ret r \<noteq> -1 \<and> children p' = started_pid r # children p \<and>
    open_fds p' = (if cloned r then accept_ret r # open_fds p else open_fds p)"
  using assms dispatch_Inr [of p r] dispatch_Inl_not_Continue [of p r]
  by (auto simp: server66_round_def split: sum.splits)

lemma server_run_fds:
  assumes "\<And>p r p'. step p r = Continue p' \<Longrightarrow>
     open_fds p' = (if cloned r then accept_ret r # open_fds p else open_fds p)"
  shows "server_run step p rs = Continue p' \<Longrightarrow>
     open_fds p' = rev (map accept_ret (filter cloned rs)) @ open_fds p"
proof (induction rs arbitrary: p)
  case (Cons r rs)
  then show ?case by (auto split: round_result.splits dest: assms)
qed simp

lemma atol_digits_digits:
  "(\<forall>c \<in> set cs. c_isdigit c) \<Longrightarrow>
   atol_digits acc cs = foldl (\<lambda>a c. 10 * a + (of_char c - 48)) acc cs"
  by (induction cs arbitrary: acc) auto

lemma c_atol_digits:
  assumes "cs \<noteq> []" "\<forall>c \<in> set cs. c_isdigit c"
  shows "c_atol cs = foldl (\<lambda>a c. 10 * a + (of_char c - 48)) 0 cs"
proof -
  obtain c ds where cs: "cs = c # ds" using assms(1) by (cases cs) auto
  have "c_isdigit c" using assms(2) cs by simp
  then have "\<not> c_isspace c" "c \<noteq> CHR ''-''" "c \<noteq> CHR ''+''"
    by (auto simp: c_isdigit_def c_isspace_def)
  then show ?thesis
    using atol_digits_digits [OF assms(2), of 0] cs by (simp add: c_atol_def)
qed

section \<open>Properties\<close>

text \<open>
  C1: for a connected client that sends chunks without NUL bytes, each shorter than the
  buffer, \<open>handle_client\<close> echoes every chunk back unchanged and in order; it returns after
  the first chunk that lifts the total above 64 bytes, and returns that total, and it keeps
  receiving while the total is at most 64.
\<close>

theorem handle_client_echoes:
  assumes "0 < c_sd" "\<forall>d \<in> set ds. echo_chunk d"
  shows "if length (concat ds) \<le> 64
    then handle_client c_sd csd (map RecvData ds) = InRecv (length (concat ds)) ds
    else \<exists>k < length ds. handle_client c_sd csd (map RecvData ds) =
        Returned (length (concat (take (Suc k) ds))) (take (Suc k) ds) \<and>
      length (concat (take k ds)) \<le> 64 \<and> 64 < length (concat (take (Suc k) ds))"
proof (cases "length (concat ds) \<le> 64")
  case True
  with handle_loop_echo [OF assms, of 0 "[]"] echo_taken_all [of 0 ds] show ?thesis
    by (simp add: handle_client_def)
next
  case False
  with echo_taken_prefix [of 0 ds] obtain k where k: "k < length ds"
    "echo_taken 0 ds = take (Suc k) ds" "length (concat (take k ds)) \<le> 64"
    "64 < length (concat (take (Suc k) ds))" by auto
  with handle_loop_echo [OF assms, of 0 "[]"] False show ?thesis
    unfolding handle_client_def by (intro if_not_P [THEN iffD2] exI [of _ k] conjI) (simp_all add: Let_def)
qed

theorem handle_client_echoes_witness:
  "handle_client 4 4 (map RecvData [[104, 105], replicate 70 33, [1]]) =
     Returned 72 [[104, 105], replicate 70 33]"
proof -
  let ?ds = "[[104, 105], replicate 70 33, [1]] :: bytes list"
  have h: "\<forall>d \<in> set ?ds. echo_chunk d"
    by (simp add: echo_chunk_def MSGBUFLEN_def)
  have "\<not> length (concat ?ds) \<le> 64" by simp
  with handle_client_echoes [of 4 ?ds 4, OF _ h] obtain k where k: "k < length ?ds"
    "handle_client 4 4 (map RecvData ?ds) = Returned (length (concat (take (Suc k) ?ds))) (take (Suc k) ?ds)"
    "length (concat (take k ?ds)) \<le> 64" "64 < length (concat (take (Suc k) ?ds))" by auto
  from k(1) have "k = 0 \<or> k = 1 \<or> k = 2" by auto
  with k(2-) show ?thesis by auto
qed

text \<open>
  Whatever the peer sends and whether or not \<open>recv\<close> fails, every chunk \<open>handle_client\<close>
  passes to \<open>send\<close> is free of NUL bytes, the total it keeps is the number of bytes passed to
  \<open>send\<close>, and that total stays below 64 plus the buffer size.
\<close>

theorem handle_client_total_bounded:
  "let run = handle_client c_sd csd rs in
     (\<forall>m \<in> set (run_sent run). 0 \<notin> set m) \<and>
     run_total run = length (concat (run_sent run)) \<and> run_total run < 64 + MSGBUFLEN"
  using handle_loop_sent [of "[]" 0 c_sd rs]
  by (simp add: handle_client_def MSGBUFLEN_def)

lemma handle_client_total_bounded_witness:
  "let run = handle_client 4 4 [RecvData [104, 105], RecvErr, RecvData [33]] in
     (\<forall>m \<in> set (run_sent run). 0 \<notin> set m) \<and>
     run_total run = length (concat (run_sent run)) \<and> run_total run < 64 + MSGBUFLEN"
  by (rule handle_client_total_bounded)

text \<open>
  A failing \<open>recv\<close> does not end the echo loop: its result \<open>-1\<close> is not the \<open>0\<close> the code
  tests for, so the loop sends an empty message and calls \<open>recv\<close> again, however often it fails.
\<close>

theorem handle_client_ignores_recv_errors:
  assumes "0 < c_sd"
  shows "handle_client c_sd csd (replicate n RecvErr) = InRecv 0 (replicate n [])"
  using handle_loop_recv_err [OF assms, of 0 n "[]" "[]"] handle_loop_Nil [OF assms]
  by (simp add: handle_client_def)

theorem handle_client_ignores_recv_errors_witness:
  "handle_client 4 4 (replicate 3 RecvErr) = InRecv 0 [[], [], []]"
  using handle_client_ignores_recv_errors [of 4 4 3] by (simp add: numeral_eq_Suc)

text \<open>
  C27: a first message that fills the whole buffer without a NUL byte makes \<open>strlen(buf)\<close> read
  past the end of \<open>buf\<close>: \<open>recv\<close> is given the full buffer size and no terminator is added.
\<close>

theorem handle_client_overreads_full_buffer:
  assumes "0 < c_sd" "length d = MSGBUFLEN" "0 \<notin> set d"
  shows "handle_client c_sd csd (RecvData d # rs) = Overread 0 []"
  using assms recv_buf_full [of d]
  by (simp add: handle_client_def handle_loop.simps MSGBUFLEN_def del: recv_buf.simps)

theorem handle_client_overreads_full_buffer_witness:
  "handle_client 4 4 [RecvData (replicate 8192 65)] = Overread 0 []"
  by (rule handle_client_overreads_full_buffer) (simp_all add: MSGBUFLEN_def)

text \<open>
  C23: whenever \<open>server6\<close> is back at the head of its accept loop, every child it started has
  terminated and been waited for, the listening socket is still open and the child stack is
  still mapped: clients are served strictly one after the other.
\<close>

theorem server6_serves_one_client_at_a_time:
  assumes "server6_reach p"
  shows "children p = [] \<and> p_s_sd p \<in> set (open_fds p) \<and> stack_mapped p"
  using assms
proof (induction rule: server6_reach.induct)
  case (boot e p)
  then show ?case by (auto simp: server_boot_def Let_def split: if_splits)
next
  case (round p r p')
  with server6_round_Continue [of p r p'] show ?case by auto
qed

theorem server6_serves_one_client_at_a_time_witness:
  "server6_reach \<lparr>p_s_sd = 3, p_c_sd = 4, p_done = 1, open_fds = [4, 3], stack_mapped = True,
     children = []\<rparr> \<and> (3::int) \<in> set [4, 3]"
proof -
  let ?e = "\<lparr>socket_ret = 3, setsockopt_ret = 0, bind_ret = 0, listen_ret = 0, mmap_failed = False\<rparr>"
  let ?r = "\<lparr>accept_ret = 4, clone_ret = 100, fork_ret = -1, waits = [Stopped 19, Continued, Exited 0],
    child_recvs = []\<rparr>"
  let ?p = "\<lparr>p_s_sd = 3, p_c_sd = 4, p_done = 1, open_fds = [4, 3], stack_mapped = True, children = []\<rparr>"
  have "server6_reach \<lparr>p_s_sd = 3, p_c_sd = -1, p_done = 0, open_fds = [3], stack_mapped = True,
     children = []\<rparr>"
    by (rule server6_reach.boot [where e = ?e]) (simp add: server_boot_def)
  then have "server6_reach ?p"
    by (rule server6_reach.round [where r = ?r]) (simp add: server6_round_def dispatch_def)
  with server6_serves_one_client_at_a_time [OF this] show ?thesis by simp
qed

text \<open>
  C28: the parent never closes the descriptor of a client whose child \<open>clone\<close> started: after
  any number of completed rounds of \<open>server6\<close> it holds one open descriptor more for each
  client served that way, and none for those served by a forked child.
\<close>

theorem server6_leaks_cloned_descriptors:
  assumes "server_run server6_round p rs = Continue p'"
  shows "open_fds p' = rev (map accept_ret (filter cloned rs)) @ open_fds p"
  using server_run_fds [of server6_round, OF _ assms] server6_round_Continue by blast

theorem server6_leaks_cloned_descriptors_witness:
  "open_fds \<lparr>p_s_sd = 3, p_c_sd = 5, p_done = 1, open_fds = [5, 4, 3], stack_mapped = True,
     children = []\<rparr> = [5, 4] @ [3]"
proof -
  let ?p = "\<lparr>p_s_sd = 3, p_c_sd = -1, p_done = 0, open_fds = [3], stack_mapped = True, children = []\<rparr>"
  let ?r = "\<lambda>c. \<lparr>accept_ret = c, clone_ret = 100, fork_ret = -1, waits = [Exited 0], child_recvs = []\<rparr>"
  have "server_run server6_round ?p [?r 4, ?r 5] = Continue (?p\<lparr>p_c_sd := 5, p_done := 1, open_fds := [5, 4, 3]\<rparr>)"
    by (simp add: server6_round_def dispatch_def)
  from server6_leaks_cloned_descriptors [OF this] show ?thesis by (simp add: cloned_def)
qed

text \<open>
  \<open>server66\<close>, whose wait loop is commented out, never waits for a child: after any number
  of completed rounds the children it has not reaped are all those it started, and it leaks
  descriptors as \<open>server6\<close> does.
\<close>

theorem server66_never_reaps:
  assumes "server_run server66_round p rs = Continue p'"
  shows "children p' = rev (map started_pid rs) @ children p \<and>
    open_fds p' = rev (map accept_ret (filter cloned rs)) @ open_fds p"
proof -
  have "server_run server66_round p rs = Continue p' \<Longrightarrow>
      children p' = rev (map started_pid rs) @ children p" for p
  proof (induction rs arbitrary: p)
    case (Cons r rs)
    then show ?case by (auto split: round_result.splits dest: server66_round_Continue)
  qed simp
  with assms server_run_fds [of server66_round, OF _ assms] server66_round_Continue
  show ?thesis by blast
qed

theorem server66_never_reaps_witness:
  "children \<lparr>p_s_sd = 3, p_c_sd = 5, p_done = 0, open_fds = [5, 4, 3], stack_mapped = True,
     children = [101, 100]\<rparr> = [101, 100] @ []"
proof -
  let ?p = "\<lparr>p_s_sd = 3, p_c_sd = -1, p_done = 0, open_fds = [3], stack_mapped = True, children = []\<rparr>"
  let ?r = "\<lambda>c k. \<lparr>accept_ret = c, clone_ret = k, fork_ret = -1, waits = [], child_recvs = []\<rparr>"
  have "server_run server66_round ?p [?r 4 100, ?r 5 101] =
      Continue (?p\<lparr>p_c_sd := 5, open_fds := [5, 4, 3], children := [101, 100]\<rparr>)"
    by (simp add: server66_round_def dispatch_def)
  from server66_never_reaps [OF this] show ?thesis by (simp add: started_pid_def cloned_def)
qed

text \<open>
  The port the server binds is between 2 and 65535 whatever the argument; for a string of
  decimal digits it is the number reduced modulo 65536, or the default 7777 when that is 0 or 1.
\<close>

lemma port_of_arg_range:
  "2 \<le> port_of_arg arg \<and> port_of_arg arg < 65536 \<and>
   (arg \<noteq> [] \<and> (\<forall>c \<in> set arg. c_isdigit c) \<longrightarrow>
     (let n = foldl (\<lambda>a c. 10 * a + (of_char c - 48)) 0 arg mod (65536 :: int) in
      port_of_arg arg = (if n < 2 then 7777 else nat n)))"
proof -
  have n: "nat (c_atol arg mod 65536) < 65536" by simp
  moreover have "0 \<le> c_atol arg mod 65536" by simp
  ultimately show ?thesis
    by (auto simp: port_of_arg_def TCPv6_PORT_def Let_def c_atol_digits)
qed

end
