(* ===== verification/Client6.thy ===== *)
theory Client6
  imports Server6
begin

text \<open>
  The echo client (\<open>client6.c\<close>): the message assembled from the command line into the stack
  buffer \<open>outmsg\<close>, the exchange in \<open>ping\<close>, and \<open>main\<close>'s connection set-up. A buffer is a list of
  optional bytes, \<open>None\<close> for a byte the program has not written yet.
\<close>

section \<open>Stack buffers\<close>

type_synonym buffer = "u8 option list"

definition fresh_buffer :: buffer where
  "fresh_buffer = replicate MSGBUFLEN None"

text \<open>Writing bytes at an offset; \<open>None\<close> when a byte would land outside the buffer.\<close>

definition write_buf :: "buffer \<Rightarrow> nat \<Rightarrow> bytes \<Rightarrow> buffer option" where
  "write_buf buf off bs =
     (if off + length bs \<le> length buf
      then Some (take off buf @ map Some bs @ drop (off + length bs) buf) else None)"

text \<open>Reading a C string from a buffer, as \<open>"%s"\<close> and \<open>strlen\<close> do.\<close>

datatype cstr = Str bytes | Uninit nat | PastEnd

fun read_cstr :: "nat \<Rightarrow> buffer \<Rightarrow> cstr" where
  "read_cstr n [] = PastEnd"
| "read_cstr n (None # bs) = Uninit n"
| "read_cstr n (Some b # bs) =
     (if b = 0 then Str [] else
      case read_cstr (Suc n) bs of Str s \<Rightarrow> Str (b # s) | other \<Rightarrow> other)"

section \<open>Assembling the message\<close>

text \<open>
  One round of the loop over \<open>argv[3..]\<close>: \<open>strncpy\<close> of \<open>strlen(argv[ac])\<close> bytes (so without the
  terminator), then one blank. The loop stops at the first argument that does not fit.
\<close>

fun build_msg :: "bytes list \<Rightarrow> nat \<Rightarrow> buffer \<Rightarrow> (nat \<times> buffer) option" where
  "build_msg [] outlen buf = Some (outlen, buf)"
| "build_msg (a # as) outlen buf =
     (if outlen + length a < MSGBUFLEN then
        (case write_buf buf outlen a of
           None \<Rightarrow> None
         | Some buf1 \<Rightarrow>
             (case write_buf buf1 (outlen + length a) [32] of
                None \<Rightarrow> None
              | Some buf2 \<Rightarrow> build_msg as (outlen + length a + 1) buf2))
      else Some (outlen, buf))"

section \<open>The exchange\<close>

text \<open>
  \<open>ping\<close>: \<open>sprintf\<close> appends CR LF and a NUL to the message in \<open>inbuf\<close>; the string is sent; the
  answer is received into \<open>outbuf\<close> and measured with \<open>strlen\<close>.
\<close>

datatype ping_run = SprintfOverflow | StrlenUninit bytes nat | StrlenPastEnd bytes | Answer bytes bytes

definition ping :: "bytes \<Rightarrow> recv_result \<Rightarrow> ping_run" where
  "ping msg r =
     (case write_buf fresh_buffer 0 (msg @ [13, 10, 0]) of
        None \<Rightarrow> SprintfOverflow
      | Some inbuf \<Rightarrow>
          (case read_cstr 0 inbuf of
             Str sent \<Rightarrow>
               (let outbuf = (case r of RecvErr \<Rightarrow> fresh_buffer
                    | RecvData d \<Rightarrow> map Some (take MSGBUFLEN d) @ drop (length d) fresh_buffer) in
                case read_cstr 0 outbuf of
                  Str s \<Rightarrow> Answer sent s
                | Uninit n \<Rightarrow> StrlenUninit sent n
                | PastEnd \<Rightarrow> StrlenPastEnd sent)
           | _ \<Rightarrow> SprintfOverflow))"

section \<open>The client's main\<close>

record client_env =
  cl_socket :: int
  cl_pton :: int
  cl_connect :: int

definition client_args :: "string list \<Rightarrow> string \<times> nat" where
  "client_args argv =
     (if length argv > 1 then argv ! 1 else ''::1'',
      if length argv > 2 then port_of_arg (argv ! 2) else TCPv6_PORT)"

text \<open>How \<open>main\<close> gets as far as the exchange: its exit, or the socket and the message string.\<close>

datatype client_result = ClientExit int "int list" | MsgOverflow | Connected int cstr

definition client_main :: "bytes list \<Rightarrow> client_env \<Rightarrow> client_result" where
  "client_main args e =
     (case build_msg args 0 fresh_buffer of
        None \<Rightarrow> MsgOverflow
      | Some (outlen, outmsg) \<Rightarrow>
          if cl_socket e < 1 then ClientExit (-1) (if cl_socket e < 0 then [] else [cl_socket e])
          else if cl_pton e = -1 then ClientExit (-1) []
          else if cl_connect e = -1 then ClientExit (-1) []
          else Connected (cl_socket e) (read_cstr 0 outmsg))"

section \<open>Lemmas\<close>

lemma length_fresh_buffer [simp]: "length fresh_buffer = MSGBUFLEN"
  by (simp add: fresh_buffer_def)

lemma read_cstr_nonzero_app:
  "0 \<notin> set d \<Longrightarrow> read_cstr n (map Some d @ rest) =
    (case read_cstr (n + length d) rest of Str s \<Rightarrow> Str (d @ s) | other \<Rightarrow> other)"
  by (induction d arbitrary: n) (auto split: cstr.splits)

lemma read_cstr_no_nul: "0 \<notin> set d \<Longrightarrow> read_cstr n (map Some d) = PastEnd"
  using read_cstr_nonzero_app [of d n "[]"] by simp

text \<open>The written part of \<open>outmsg\<close> has no NUL and is followed by untouched bytes.\<close>

definition msg_inv :: "nat \<Rightarrow> buffer \<Rightarrow> bool" where
  "msg_inv outlen buf \<longleftrightarrow> (\<exists>d. 0 \<notin> set d \<and> length d = outlen \<and> outlen \<le> MSGBUFLEN \<and>
     buf = map Some d @ replicate (MSGBUFLEN - outlen) None)"

lemma msg_inv_write:
  assumes "msg_inv n buf" "n + length bs \<le> MSGBUFLEN" "0 \<notin> set bs"
  shows "\<exists>buf'. write_buf buf n bs = Some buf' \<and> msg_inv (n + length bs) buf'"
proof -
  from assms(1) obtain d where d: "0 \<notin> set d" "length d = n" "n \<le> MSGBUFLEN"
    "buf = map Some d @ replicate (MSGBUFLEN - n) None" by (auto simp: msg_inv_def)
  then have "write_buf buf n bs =
      Some (map Some (d @ bs) @ replicate (MSGBUFLEN - (n + length bs)) None)"
    using assms(2) by (simp add: write_buf_def)
  moreover have "msg_inv (n + length bs) (map Some (d @ bs) @ replicate (MSGBUFLEN - (n + length bs)) None)"
    unfolding msg_inv_def using d assms by (intro exI [of _ "d @ bs"]) auto
  ultimately show ?thesis by blast
qed

lemma build_msg_inv:
  "msg_inv n buf \<Longrightarrow> \<forall>a \<in> set as. 0 \<notin> set a \<Longrightarrow>
   \<exists>n' buf'. build_msg as n buf = Some (n', buf') \<and> msg_inv n' buf'"
proof (induction as arbitrary: n buf)
  case (Cons a as)
  show ?case
  proof (cases "n + length a < MSGBUFLEN")
    case True
    with Cons.prems msg_inv_write [of n buf a] obtain b1 where
      b1: "write_buf buf n a = Some b1" "msg_inv (n + length a) b1" by auto
    with True msg_inv_write [of "n + length a" b1 "[32]"] obtain b2 where
      b2: "write_buf b1 (n + length a) [32] = Some b2" "msg_inv (n + length a + 1) b2" by auto
    with True b1 Cons show ?thesis by simp
  next
    case False
    with Cons.prems show ?thesis by simp
  qed
qed simp

lemma msg_inv_fresh: "msg_inv 0 fresh_buffer"
  by (auto simp: msg_inv_def fresh_buffer_def)

lemma msg_inv_read:
  "msg_inv n buf \<Longrightarrow> read_cstr 0 buf = (if n < MSGBUFLEN then Uninit n else PastEnd)"
proof -
  assume "msg_inv n buf"
  then obtain d where d: "0 \<notin> set d" "length d = n" "n \<le> MSGBUFLEN"
    "buf = map Some d @ replicate (MSGBUFLEN - n) None" by (auto simp: msg_inv_def)
  then show ?thesis
    by (cases "MSGBUFLEN - n") (auto simp: read_cstr_nonzero_app read_cstr_no_nul)
qed

lemma ping_sends:
  assumes "0 \<notin> set msg" "length msg + 3 \<le> MSGBUFLEN"
  shows "\<exists>inbuf. write_buf fresh_buffer 0 (msg @ [13, 10, 0]) = Some inbuf \<and>
    read_cstr 0 inbuf = Str (msg @ [13, 10])"
  using assms by (auto simp: write_buf_def read_cstr_nonzero_app)

section \<open>Properties\<close>

text \<open>
  Whatever the arguments (NUL-free, as the operating system passes them), assembling the
  message never writes outside \<open>outmsg\<close>, but no terminator is ever written: reading \<open>outmsg\<close> as
  a string, as the following \<open>printf\<close> and \<open>ping\<close> do, always reaches uninitialised bytes or the
  buffer's end.
\<close>

theorem client_message_never_terminated:
  assumes "\<forall>a \<in> set args. 0 \<notin> set a" "1 \<le> cl_socket e" "cl_pton e \<noteq> -1" "cl_connect e \<noteq> -1"
  shows "\<exists>n \<le> MSGBUFLEN. client_main args e =
     Connected (cl_socket e) (if n < MSGBUFLEN then Uninit n else PastEnd)"
proof -
  obtain n buf where b: "build_msg args 0 fresh_buffer = Some (n, buf)" "msg_inv n buf"
    using build_msg_inv [OF msg_inv_fresh assms(1)] by blast
  have "n \<le> MSGBUFLEN" using b(2) by (auto simp: msg_inv_def)
  with assms b msg_inv_read [OF b(2)] show ?thesis
    by (intro exI [of _ n]) (simp add: client_main_def)
qed

theorem client_message_never_terminated_witness:
  "\<exists>n \<le> MSGBUFLEN. client_main [[104, 105], [33]] \<lparr>cl_socket = 3, cl_pton = 1, cl_connect = 0\<rparr> =
     Connected 3 (if n < MSGBUFLEN then Uninit n else PastEnd)"
  using client_message_never_terminated [of "[[104, 105], [33]]"
      "\<lparr>cl_socket = 3, cl_pton = 1, cl_connect = 0\<rparr>"] by simp

text \<open>
  C29: against the echo server, \<open>ping\<close> never obtains an answer string: it sends the message
  followed by CR LF, and whichever chunk the server's echo loop sends back, the \<open>strlen\<close> of the
  answer runs into bytes \<open>recv\<close> did not write, or past the buffer, because the server echoes
  no terminator. A message of more than 8189 bytes overflows \<open>inbuf\<close> before anything is sent.
\<close>

theorem ping_against_echo_server:
  assumes "0 \<notin> set msg" "answer \<in> set (run_sent (handle_client c_sd csd rs))"
    "length answer \<le> MSGBUFLEN"
  shows "ping msg (RecvData answer) =
    (if MSGBUFLEN < length msg + 3 then SprintfOverflow
     else if length answer < MSGBUFLEN then StrlenUninit (msg @ [13, 10]) (length answer)
     else StrlenPastEnd (msg @ [13, 10]))"
proof (cases "MSGBUFLEN < length msg + 3")
  case True
  then show ?thesis by (simp add: ping_def write_buf_def)
next
  case False
  have "0 \<notin> set answer"
    using assms(2) handle_loop_sent [of "[]" 0 c_sd rs]
    by (auto simp: handle_client_def Let_def MSGBUFLEN_def)
  then have "read_cstr 0 (map Some (take MSGBUFLEN answer) @ drop (length answer) fresh_buffer) =
      (if length answer < MSGBUFLEN then Uninit (length answer) else PastEnd)"
    using assms(3) by (cases "MSGBUFLEN - length answer")
      (auto simp: read_cstr_nonzero_app read_cstr_no_nul fresh_buffer_def)
  with False ping_sends [OF assms(1)] show ?thesis
    by (auto simp: ping_def)
qed

theorem ping_against_echo_server_witness:
  "ping [104] (RecvData [104, 13, 10]) = StrlenUninit [104, 13, 10] 3"
proof -
  have "handle_client 4 4 (map RecvData [[104, 13, 10]]) = InRecv 3 [[104, 13, 10]]"
    unfolding handle_client_def
    using handle_loop_echo [of 4 "[[104, 13, 10]]" 0 "[]"] by (simp add: echo_chunk_def MSGBUFLEN_def)
  then show ?thesis
    using ping_against_echo_server [of "[104]" "[104, 13, 10]" 4 4 "map RecvData [[104, 13, 10]]"]
    by (simp add: MSGBUFLEN_def)
qed

end
