(* ===== verification/CryptoQueue.thy ===== *)
theory CryptoQueue
  imports Prelude
begin

text \<open>
  The request queue with backlog of \<open>kernel-crypto/algapi.c\<close> (\<open>crypto_init_queue\<close>,
  \<open>crypto_enqueue_request\<close>, \<open>crypto_enqueue_request_head\<close>, \<open>crypto_dequeue_request\<close>), kept with
  its pointers: the circular list is the list of its nodes, and \<open>backlog\<close> is a node or the list
  head (\<open>None\<close>). The specification is a pair of lists, the admitted and the backlogged requests.
\<close>

section \<open>The queue\<close>

record request =
  req_id :: nat
  may_backlog :: bool

record crypto_queue =
  q_list :: "request list"
  q_backlog :: "nat option"
  q_qlen :: nat
  q_max_qlen :: nat

fun node_before :: "nat option \<Rightarrow> nat list \<Rightarrow> nat \<Rightarrow> nat option" where
  "node_before p [] b = None"
| "node_before p (x # xs) b = (if x = b then p else node_before (Some x) xs b)"

text \<open>The \<open>prev\<close> and \<open>next\<close> pointers of a node, or of the list head.\<close>

fun list_prev :: "nat list \<Rightarrow> nat option \<Rightarrow> nat option" where
  "list_prev ids None = (if ids = [] then None else Some (last ids))"
| "list_prev ids (Some b) = node_before None ids b"

fun list_next :: "nat list \<Rightarrow> nat option \<Rightarrow> nat option" where
  "list_next ids None = (if ids = [] then None else Some (hd ids))"
| "list_next [] (Some b) = None"
| "list_next (x # xs) (Some b) =
     (if x = b then (if xs = [] then None else Some (hd xs)) else list_next xs (Some b))"

definition q_ids :: "crypto_queue \<Rightarrow> nat list" where
  "q_ids q = map req_id (q_list q)"

definition crypto_init_queue :: "nat \<Rightarrow> crypto_queue" where
  "crypto_init_queue max_qlen =
     \<lparr>q_list = [], q_backlog = None, q_qlen = 0, q_max_qlen = max_qlen\<rparr>"

definition crypto_enqueue_request :: "crypto_queue \<Rightarrow> request \<Rightarrow> errno \<times> crypto_queue" where
  "crypto_enqueue_request q r =
     (let add = (\<lambda>q. q\<lparr>q_qlen := q_qlen q + 1, q_list := q_list q @ [r]\<rparr>) in
      if q_qlen q \<ge> q_max_qlen q then
        (if \<not> may_backlog r then (ENOSPC, q)
         else (EBUSY, add (if q_backlog q = None then q\<lparr>q_backlog := Some (req_id r)\<rparr> else q)))
      else (EINPROGRESS, add q))"

definition crypto_enqueue_request_head :: "crypto_queue \<Rightarrow> request \<Rightarrow> crypto_queue" where
  "crypto_enqueue_request_head q r =
     (let q1 = (if q_qlen q \<ge> q_max_qlen q
                then q\<lparr>q_backlog := list_prev (q_ids q) (q_backlog q)\<rparr> else q) in
      q1\<lparr>q_qlen := q_qlen q1 + 1, q_list := r # q_list q1\<rparr>)"

definition crypto_dequeue_request :: "crypto_queue \<Rightarrow> request option \<times> crypto_queue" where
  "crypto_dequeue_request q =
     (if q_qlen q = 0 then (None, q)
      else
        (let q1 = q\<lparr>q_qlen := q_qlen q - 1\<rparr>;
             q2 = (if q_backlog q1 \<noteq> None
                   then q1\<lparr>q_backlog := list_next (q_ids q1) (q_backlog q1)\<rparr> else q1) in
         (case q_list q2 of [] \<Rightarrow> (None, q2) | x # xs \<Rightarrow> (Some x, q2\<lparr>q_list := xs\<rparr>))))"

section \<open>The specification: admitted and backlogged requests\<close>

record spec_queue =
  admitted :: "request list"
  backlogged :: "request list"

definition spec_enqueue :: "nat \<Rightarrow> spec_queue \<Rightarrow> request \<Rightarrow> errno \<times> spec_queue" where
  "spec_enqueue m s r =
     (if length (admitted s) < m then (EINPROGRESS, s\<lparr>admitted := admitted s @ [r]\<rparr>)
      else if may_backlog r then (EBUSY, s\<lparr>backlogged := backlogged s @ [r]\<rparr>)
      else (ENOSPC, s))"

text \<open>Taking a request admits the first backlogged one in its place.\<close>

definition spec_dequeue :: "spec_queue \<Rightarrow> request option \<times> spec_queue" where
  "spec_dequeue s =
     (case admitted s of
        [] \<Rightarrow> (None, s)
      | r # rs \<Rightarrow> (Some r, \<lparr>admitted = rs @ take 1 (backlogged s), backlogged = drop 1 (backlogged s)\<rparr>))"

text \<open>Putting a request back in front sends the last admitted one back when the queue is full.\<close>

definition spec_enqueue_head :: "nat \<Rightarrow> spec_queue \<Rightarrow> request \<Rightarrow> spec_queue" where
  "spec_enqueue_head m s r =
     (if length (admitted s) < m then s\<lparr>admitted := r # admitted s\<rparr>
      else \<lparr>admitted = r # butlast (admitted s), backlogged = last (admitted s) # backlogged s\<rparr>)"

text \<open>The refinement relation, which is also the queue's invariant.\<close>

definition q_rel :: "crypto_queue \<Rightarrow> spec_queue \<Rightarrow> bool" where
  "q_rel q s \<longleftrightarrow> q_list q = admitted s @ backlogged s \<and>
     q_backlog q = (if backlogged s = [] then None else Some (req_id (hd (backlogged s)))) \<and>
     q_qlen q = length (q_list q) \<and> distinct (q_ids q) \<and>
     0 < q_max_qlen q \<and> length (admitted s) \<le> q_max_qlen q \<and>
     (backlogged s \<noteq> [] \<longrightarrow> length (admitted s) = q_max_qlen q)"

lemma q_relD:
  assumes "q_rel q s"
  shows "q_list q = admitted s @ backlogged s"
    "q_backlog q = (if backlogged s = [] then None else Some (req_id (hd (backlogged s))))"
    "q_qlen q = length (admitted s) + length (backlogged s)"
    "distinct (map req_id (admitted s @ backlogged s))" "0 < q_max_qlen q"
    "length (admitted s) \<le> q_max_qlen q"
    "backlogged s \<noteq> [] \<Longrightarrow> length (admitted s) = q_max_qlen q"
  using assms unfolding q_rel_def q_ids_def by (metis length_append)+

lemma q_rel_full: "q_rel q s \<Longrightarrow> q_max_qlen q \<le> q_qlen q \<longleftrightarrow> \<not> length (admitted s) < q_max_qlen q"
  by (auto simp: q_rel_def)

lemma node_before_app:
  "b \<notin> set xs \<Longrightarrow> node_before p (xs @ b # ys) b = (if xs = [] then p else Some (last xs))"
  by (induction xs arbitrary: p) auto

lemma list_next_app:
  "b \<notin> set xs \<Longrightarrow> list_next (xs @ b # ys) (Some b) = (if ys = [] then None else Some (hd ys))"
  by (induction xs) auto

lemma init_rel: "0 < m \<Longrightarrow> q_rel (crypto_init_queue m) \<lparr>admitted = [], backlogged = []\<rparr>"
  by (simp add: q_rel_def crypto_init_queue_def q_ids_def)

lemma enqueue_rel:
  assumes "q_rel q s" "req_id r \<notin> set (q_ids q)"
  shows "fst (crypto_enqueue_request q r) = fst (spec_enqueue (q_max_qlen q) s r)"
    "q_rel (snd (crypto_enqueue_request q r)) (snd (spec_enqueue (q_max_qlen q) s r))"
    "q_max_qlen (snd (crypto_enqueue_request q r)) = q_max_qlen q"
  using q_relD [OF assms(1)] assms(2) q_rel_full [OF assms(1)]
  by (auto simp: crypto_enqueue_request_def spec_enqueue_def Let_def q_rel_def q_ids_def)

lemma enqueue_head_rel:
  assumes "q_rel q s" "req_id r \<notin> set (q_ids q)"
  shows "q_rel (crypto_enqueue_request_head q r) (spec_enqueue_head (q_max_qlen q) s r)"
proof (cases "length (admitted s) < q_max_qlen q")
  case True
  with q_relD [OF assms(1)] assms(2) q_rel_full [OF assms(1)] show ?thesis
    by (auto simp: crypto_enqueue_request_head_def spec_enqueue_head_def q_rel_def q_ids_def)
next
  case False
  note d = q_relD [OF assms(1)]
  from False d(5,6) obtain ys y where ys: "admitted s = ys @ [y]"
    by (cases "admitted s" rule: rev_cases) auto
  have "list_prev (q_ids q) (q_backlog q) = Some (req_id y)"
  proof (cases "backlogged s")
    case Nil
    with d(1,2) ys show ?thesis by (simp add: q_ids_def)
  next
    case (Cons b bs)
    with d(4) ys have "req_id b \<notin> set (map req_id (ys @ [y]))" by auto
    from node_before_app [OF this, of None "map req_id bs"] Cons d(1,2) ys show ?thesis
      by (simp add: q_ids_def)
  qed
  with False d assms(2) q_rel_full [OF assms(1)] ys show ?thesis
    by (auto simp: crypto_enqueue_request_head_def spec_enqueue_head_def q_rel_def q_ids_def)
qed

lemma dequeue_rel:
  assumes "q_rel q s"
  shows "fst (crypto_dequeue_request q) = fst (spec_dequeue s)"
    "q_rel (snd (crypto_dequeue_request q)) (snd (spec_dequeue s))"
    "q_max_qlen (snd (crypto_dequeue_request q)) = q_max_qlen q"
proof -
  note d = q_relD [OF assms]
  have "fst (crypto_dequeue_request q) = fst (spec_dequeue s) \<and>
    q_rel (snd (crypto_dequeue_request q)) (snd (spec_dequeue s)) \<and>
    q_max_qlen (snd (crypto_dequeue_request q)) = q_max_qlen q"
  proof (cases "admitted s")
    case Nil
    with d(5,7) have "backlogged s = []" by auto
    with Nil d(3) assms show ?thesis by (simp add: crypto_dequeue_request_def spec_dequeue_def)
  next
    case (Cons r rs)
    show ?thesis
    proof (cases "backlogged s")
      case Nil
      with Cons d assms show ?thesis
        by (auto simp: crypto_dequeue_request_def spec_dequeue_def Let_def q_rel_def q_ids_def)
    next
      case (Cons b bs)
      with d(4) have "req_id b \<notin> set (map req_id (admitted s))" by auto
      from list_next_app [OF this, of "map req_id bs"] Cons \<open>admitted s = r # rs\<close> d assms
      show ?thesis
        by (auto simp: crypto_dequeue_request_def spec_dequeue_def Let_def q_rel_def q_ids_def hd_map)
    qed
  qed
  then show "fst (crypto_dequeue_request q) = fst (spec_dequeue s)"
    "q_rel (snd (crypto_dequeue_request q)) (snd (spec_dequeue s))"
    "q_max_qlen (snd (crypto_dequeue_request q)) = q_max_qlen q" by blast+
qed

section \<open>The contract of a queue with backlog\<close>

text \<open>
  What a client relies on: requests leave in the order they were accepted, admitted ones first,
  and each request that leaves admits the oldest backlogged one. \<open>trail\<close> is the client's view
  of a run: everything accepted, everything that was answered \<open>EBUSY\<close>, everything taken, and
  the backlogged requests seen at the front of the backlog when something was taken.
\<close>

datatype 'r queue_op = Enq 'r | Deq

record ('q, 'r) trail =
  t_queue :: 'q
  t_accepted :: "'r list"
  t_busy :: "'r list"
  t_taken :: "'r list"
  t_promoted :: "'r list"

locale backlog_queue =
  fixes enq :: "'q \<Rightarrow> 'r \<Rightarrow> errno \<times> 'q"
    and deq :: "'q \<Rightarrow> 'r option \<times> 'q"
    and adm :: "'q \<Rightarrow> 'r list"
    and blg :: "'q \<Rightarrow> 'r list"
    and key :: "'r \<Rightarrow> nat"
    and inv :: "'q \<Rightarrow> bool"
  assumes enq_law: "inv q \<Longrightarrow> key r \<notin> key ` set (adm q @ blg q) \<Longrightarrow> enq q r = (e, q') \<Longrightarrow>
      inv q' \<and>
      (e = EINPROGRESS \<and> blg q = [] \<and> adm q' = adm q @ [r] \<and> blg q' = [] \<or>
       e = EBUSY \<and> adm q' = adm q \<and> blg q' = blg q @ [r] \<or>
       e = ENOSPC \<and> q' = q)"
    and deq_law: "inv q \<Longrightarrow> deq q = (x, q') \<Longrightarrow>
      inv q' \<and>
      (adm q = [] \<and> blg q = [] \<and> x = None \<and> q' = q \<or>
       (\<exists>r rs. adm q = r # rs \<and> x = Some r \<and> adm q' = rs @ take 1 (blg q) \<and> blg q' = drop 1 (blg q)))"
begin

definition op_step :: "('q, 'r) trail \<Rightarrow> 'r queue_op \<Rightarrow> ('q, 'r) trail" where
  "op_step t x = (case x of
       Enq r \<Rightarrow> (case enq (t_queue t) r of (e, q') \<Rightarrow>
         if e = ENOSPC then t\<lparr>t_queue := q'\<rparr>
         else t\<lparr>t_queue := q', t_accepted := t_accepted t @ [r],
                t_busy := (if e = EBUSY then t_busy t @ [r] else t_busy t)\<rparr>)
     | Deq \<Rightarrow> (case deq (t_queue t) of
         (None, q') \<Rightarrow> t\<lparr>t_queue := q'\<rparr>
       | (Some r, q') \<Rightarrow> t\<lparr>t_queue := q', t_taken := t_taken t @ [r],
             t_promoted := t_promoted t @ take 1 (blg (t_queue t))\<rparr>))"

definition trail_inv :: "('q, 'r) trail \<Rightarrow> bool" where
  "trail_inv t \<longleftrightarrow> inv (t_queue t) \<and>
     t_accepted t = t_taken t @ adm (t_queue t) @ blg (t_queue t) \<and>
     t_busy t = t_promoted t @ blg (t_queue t)"

definition fresh_op :: "('q, 'r) trail \<Rightarrow> 'r queue_op \<Rightarrow> bool" where
  "fresh_op t x \<longleftrightarrow> (\<forall>r. x = Enq r \<longrightarrow> key r \<notin> key ` set (adm (t_queue t) @ blg (t_queue t)))"

lemma trail_inv_step:
  assumes "trail_inv t" "fresh_op t x"
  shows "trail_inv (op_step t x)"
proof (cases x)
  case (Enq r)
  obtain e q' where e: "enq (t_queue t) r = (e, q')" by (cases "enq (t_queue t) r")
  have "inv (t_queue t)" "key r \<notin> key ` set (adm (t_queue t) @ blg (t_queue t))"
    using assms Enq by (simp_all add: trail_inv_def fresh_op_def)
  from enq_law [OF this e] assms(1) e Enq show ?thesis
    by (auto simp: op_step_def trail_inv_def)
next
  case Deq
  obtain y q' where d: "deq (t_queue t) = (y, q')" by (cases "deq (t_queue t)")
  have "inv (t_queue t)" using assms by (simp add: trail_inv_def)
  from deq_law [OF this d] assms(1) d Deq show ?thesis
    by (auto simp: op_step_def trail_inv_def split: option.splits)
qed

lemma drain:
  assumes "inv q"
  shows "adm (((\<lambda>q. snd (deq q)) ^^ length (adm q @ blg q)) q) = [] \<and>
    blg (((\<lambda>q. snd (deq q)) ^^ length (adm q @ blg q)) q) = []"
  using assms
proof (induction "length (adm q @ blg q)" arbitrary: q)
  case 0
  then show ?case by simp
next
  case (Suc n)
  obtain x q' where d: "deq q = (x, q')" by (cases "deq q")
  from deq_law [OF Suc.prems d] Suc.hyps(2) have i: "inv q'" and n: "n = length (adm q' @ blg q')"
    by (auto simp: min_def)
  have "((\<lambda>q. snd (deq q)) ^^ Suc n) q = ((\<lambda>q. snd (deq q)) ^^ n) q'"
    using d by (simp add: funpow_Suc_right del: funpow.simps)
  with Suc.hyps(1) [OF n i] n Suc.hyps(2) show ?case by simp
qed

end

text \<open>The abstraction as a function of the concrete queue.\<close>

definition q_adm :: "crypto_queue \<Rightarrow> request list" where
  "q_adm q = takeWhile (\<lambda>r. q_backlog q \<noteq> Some (req_id r)) (q_list q)"

definition q_blg :: "crypto_queue \<Rightarrow> request list" where
  "q_blg q = dropWhile (\<lambda>r. q_backlog q \<noteq> Some (req_id r)) (q_list q)"

definition queue_inv :: "crypto_queue \<Rightarrow> bool" where
  "queue_inv q \<longleftrightarrow> q_rel q \<lparr>admitted = q_adm q, backlogged = q_blg q\<rparr>"

lemma q_rel_abs:
  assumes "q_rel q s"
  shows "q_adm q = admitted s" "q_blg q = backlogged s" "queue_inv q"
proof -
  note d = q_relD [OF assms]
  have "q_adm q = admitted s \<and> q_blg q = backlogged s"
  proof (cases "backlogged s")
    case Nil
    with d show ?thesis
      by (simp add: q_adm_def q_blg_def takeWhile_eq_all_conv)
  next
    case (Cons b bs)
    with d(4) have "\<forall>r \<in> set (admitted s). req_id b \<noteq> req_id r" by auto
    with Cons d(1,2) show ?thesis by (simp add: q_adm_def q_blg_def)
  qed
  moreover have "\<lparr>admitted = admitted s, backlogged = backlogged s\<rparr> = s" by (cases s) simp
  ultimately show "q_adm q = admitted s" "q_blg q = backlogged s" "queue_inv q"
    using assms unfolding queue_inv_def by metis+
qed

lemma queue_inv_list: "queue_inv q \<Longrightarrow> q_adm q @ q_blg q = q_list q"
  by (simp add: q_adm_def q_blg_def)

interpretation kq: backlog_queue crypto_enqueue_request crypto_dequeue_request q_adm q_blg
  req_id queue_inv
proof (unfold_locales, goal_cases)
  case (1 q r e q')
  let ?s = "\<lparr>admitted = q_adm q, backlogged = q_blg q\<rparr>"
  have s: "q_rel q ?s" using 1(1) by (simp add: queue_inv_def)
  have "req_id r \<notin> set (q_ids q)" using 1(2) queue_inv_list [OF 1(1)] by (simp add: q_ids_def)
  from enqueue_rel [OF s this] 1(3) have
    r: "e = fst (spec_enqueue (q_max_qlen q) ?s r)" "q_rel q' (snd (spec_enqueue (q_max_qlen q) ?s r))"
    by simp_all
  have "e = ENOSPC \<Longrightarrow> q' = q" "length (q_adm q) < q_max_qlen q \<Longrightarrow> q_blg q = []"
    using 1(3) q_relD(7) [OF s] by (auto simp: crypto_enqueue_request_def Let_def split: if_splits)
  with q_rel_abs [OF r(2)] r(1) show ?case by (auto simp: spec_enqueue_def split: if_splits)
next
  case (2 q x q')
  let ?s = "\<lparr>admitted = q_adm q, backlogged = q_blg q\<rparr>"
  have s: "q_rel q ?s" using 2(1) by (simp add: queue_inv_def)
  from dequeue_rel [OF s] 2(2) have
    r: "x = fst (spec_dequeue ?s)" "q_rel q' (snd (spec_dequeue ?s))" by simp_all
  show ?case
  proof (cases "q_adm q")
    case Nil
    with q_relD [OF s] have "q_blg q = []" "q_qlen q = 0" by auto
    with Nil 2 r show ?thesis by (auto simp: spec_dequeue_def crypto_dequeue_request_def)
  next
    case (Cons y ys)
    with q_rel_abs [OF r(2)] r(1) show ?thesis by (simp add: spec_dequeue_def)
  qed
qed

section \<open>Properties\<close>

text \<open>
  C3: on every queue that satisfies the invariant, the three operations implement their
  specification: enqueueing admits, backlogs or refuses a request exactly as the two-list
  specification says and with its return code, putting a request back in front and dequeueing
  move the backlog pointer so that it keeps separating admitted from backlogged requests, and
  all three preserve the invariant.
\<close>

theorem crypto_queue_refines_spec:
  assumes "q_rel q s" "req_id r \<notin> set (q_ids q)"
  shows "fst (crypto_enqueue_request q r) = fst (spec_enqueue (q_max_qlen q) s r) \<and>
    q_rel (snd (crypto_enqueue_request q r)) (snd (spec_enqueue (q_max_qlen q) s r)) \<and>
    q_rel (crypto_enqueue_request_head q r) (spec_enqueue_head (q_max_qlen q) s r) \<and>
    fst (crypto_dequeue_request q) = fst (spec_dequeue s) \<and>
    q_rel (snd (crypto_dequeue_request q)) (snd (spec_dequeue s))"
  using enqueue_rel [OF assms] enqueue_head_rel [OF assms] dequeue_rel [OF assms(1)] by blast

theorem crypto_queue_refines_spec_witness:
  "fst (crypto_enqueue_request (crypto_init_queue 1) \<lparr>req_id = 7, may_backlog = True\<rparr>) = EINPROGRESS"
  using crypto_queue_refines_spec [OF init_rel [of 1], of "\<lparr>req_id = 7, may_backlog = True\<rparr>"]
  by (simp add: q_ids_def crypto_init_queue_def spec_enqueue_def)

text \<open>
  Putting the request just dequeued back in front of the queue restores the queue exactly,
  backlog pointer included, whether or not the dequeue had promoted a backlogged request.
\<close>

theorem requeue_restores_queue:
  assumes "queue_inv q" "crypto_dequeue_request q = (Some r, q')"
  shows "crypto_enqueue_request_head q' r = q"
proof -
  let ?s = "\<lparr>admitted = q_adm q, backlogged = q_blg q\<rparr>"
  let ?s' = "snd (spec_dequeue ?s)"
  have s: "q_rel q ?s" using assms(1) by (simp add: queue_inv_def)
  from dequeue_rel [OF s] assms(2) have d: "fst (spec_dequeue ?s) = Some r" "q_rel q' ?s'"
    "q_max_qlen q' = q_max_qlen q" by simp_all
  then obtain rs where rs: "q_adm q = r # rs" "?s' = \<lparr>admitted = rs @ take 1 (q_blg q), backlogged = drop 1 (q_blg q)\<rparr>"
    by (auto simp: spec_dequeue_def split: list.splits)
  have fresh: "req_id r \<notin> set (q_ids q')"
    using q_relD(1,4) [OF s] q_relD(1) [OF d(2)] rs by (cases "q_blg q") (auto simp: q_ids_def)
  have "spec_enqueue_head (q_max_qlen q) ?s' r = ?s"
    using q_relD(6,7) [OF s] rs
    by (cases "q_blg q") (auto simp: spec_enqueue_head_def)
  with enqueue_head_rel [OF d(2) fresh] d(3) have e: "q_rel (crypto_enqueue_request_head q' r) ?s" by simp
  have "q_max_qlen (crypto_enqueue_request_head q' r) = q_max_qlen q"
    using d(3) by (simp add: crypto_enqueue_request_head_def Let_def)
  with q_relD(1-3) [OF e] q_relD(1-3) [OF s] show ?thesis
    by (cases q; cases "crypto_enqueue_request_head q' r") simp
qed

theorem requeue_restores_queue_witness:
  "crypto_enqueue_request_head \<lparr>q_list = [\<lparr>req_id = 2, may_backlog = True\<rparr>], q_backlog = None,
      q_qlen = 1, q_max_qlen = 1\<rparr> \<lparr>req_id = 1, may_backlog = False\<rparr> =
   \<lparr>q_list = [\<lparr>req_id = 1, may_backlog = False\<rparr>, \<lparr>req_id = 2, may_backlog = True\<rparr>],
      q_backlog = Some 2, q_qlen = 2, q_max_qlen = 1\<rparr>"
  by (rule requeue_restores_queue)
    (simp_all add: queue_inv_def q_rel_def q_adm_def q_blg_def q_ids_def crypto_dequeue_request_def)

end
