(* ===== verification/Cryptd.thy ===== *)
theory Cryptd
  imports CryptoQueue
begin

text \<open>
  The software crypto daemon's per-CPU queue (\<open>kernel-crypto/cryptd.c\<close>): \<open>cryptd_enqueue_request\<close>
  puts a request on the queue and schedules the worker, \<open>cryptd_queue_worker\<close> takes one request,
  tells the oldest backlogged one that it is admitted now, completes the request and schedules
  itself again while requests are left.
\<close>

section \<open>The daemon\<close>

text \<open>
  \<open>c_work\<close>: the worker is scheduled. \<open>c_refcnt\<close>: the transform's reference count. The four lists
  record what has happened: requests accepted, requests answered \<open>-EBUSY\<close>, requests told
  \<open>-EINPROGRESS\<close> when they left the backlog, and requests completed.
\<close>

record cryptd =
  c_queue :: crypto_queue
  c_work :: bool
  c_refcnt :: nat
  c_accepted :: "request list"
  c_busy :: "request list"
  c_notified :: "request list"
  c_completed :: "request list"

definition cryptd_init :: "nat \<Rightarrow> nat \<Rightarrow> cryptd" where
  "cryptd_init max_cpu_qlen refcnt = \<lparr>c_queue = crypto_init_queue max_cpu_qlen, c_work = False,
     c_refcnt = refcnt, c_accepted = [], c_busy = [], c_notified = [], c_completed = []\<rparr>"

definition cryptd_enqueue_request :: "cryptd \<Rightarrow> request \<Rightarrow> errno \<times> cryptd" where
  "cryptd_enqueue_request s r =
     (case crypto_enqueue_request (c_queue s) r of (err, q') \<Rightarrow>
        let s1 = s\<lparr>c_queue := q'\<rparr> in
        if err = ENOSPC then (err, s1)
        else
          (let s2 = s1\<lparr>c_work := True, c_accepted := c_accepted s1 @ [r],
                 c_busy := (if err = EBUSY then c_busy s1 @ [r] else c_busy s1)\<rparr> in
           if c_refcnt s2 = 0 then (err, s2)
           else (err, s2\<lparr>c_refcnt := c_refcnt s2 + 1\<rparr>)))"

text \<open>The request the backlog pointer points to, if it is not the list head.\<close>

definition crypto_get_backlog :: "crypto_queue \<Rightarrow> request option" where
  "crypto_get_backlog q =
     (case q_backlog q of None \<Rightarrow> None | Some b \<Rightarrow> find (\<lambda>r. req_id r = b) (q_list q))"

definition cryptd_queue_worker :: "cryptd \<Rightarrow> cryptd" where
  "cryptd_queue_worker s =
     (let s0 = s\<lparr>c_work := False\<rparr>; backlog = crypto_get_backlog (c_queue s0) in
      case crypto_dequeue_request (c_queue s0) of
        (None, q') \<Rightarrow> s0\<lparr>c_queue := q'\<rparr>
      | (Some req, q') \<Rightarrow>
          s0\<lparr>c_queue := q',
             c_notified := (case backlog of None \<Rightarrow> c_notified s0 | Some b \<Rightarrow> c_notified s0 @ [b]),
             c_completed := c_completed s0 @ [req],
             c_work := (q_qlen q' \<noteq> 0)\<rparr>)"

text \<open>
  The daemon runs: callers enqueue requests that are not in the queue already, and the worker
  runs whenever it is scheduled, in any order.
\<close>

inductive cryptd_reach :: "cryptd \<Rightarrow> bool" where
  init: "0 < m \<Longrightarrow> cryptd_reach (cryptd_init m n)"
| enqueue: "cryptd_reach s \<Longrightarrow> req_id r \<notin> set (q_ids (c_queue s)) \<Longrightarrow>
    cryptd_reach (snd (cryptd_enqueue_request s r))"
| work: "cryptd_reach s \<Longrightarrow> c_work s \<Longrightarrow> cryptd_reach (cryptd_queue_worker s)"

section \<open>Lemmas\<close>

text \<open>The daemon seen as a client of the queue's contract.\<close>

definition cryptd_trail :: "cryptd \<Rightarrow> (crypto_queue, request) trail" where
  "cryptd_trail s = \<lparr>t_queue = c_queue s, t_accepted = c_accepted s, t_busy = c_busy s,
     t_taken = c_completed s, t_promoted = c_notified s\<rparr>"

lemma find_app: "(\<forall>x \<in> set xs. \<not> P x) \<Longrightarrow> P b \<Longrightarrow> find P (xs @ b # ys) = Some b"
  by (induction xs) auto

lemma get_backlog:
  assumes "queue_inv q"
  shows "crypto_get_backlog q = (case q_blg q of [] \<Rightarrow> None | b # _ \<Rightarrow> Some b)"
proof -
  note d = q_relD [OF assms [unfolded queue_inv_def]]
  show ?thesis
  proof (cases "q_blg q")
    case Nil
    with d(2) show ?thesis by (simp add: crypto_get_backlog_def)
  next
    case (Cons b bs)
    with d(4) have "req_id b \<notin> req_id ` set (q_adm q)" by auto
    then have "\<forall>r \<in> set (q_adm q). req_id r \<noteq> req_id b" by (metis imageI)
    then have "find (\<lambda>r. req_id r = req_id b) (q_adm q @ b # bs) = Some b"
      by (intro find_app) auto
    with Cons d(1,2) show ?thesis by (simp add: crypto_get_backlog_def)
  qed
qed

lemma enqueue_trail:
  "cryptd_trail (snd (cryptd_enqueue_request s r)) = kq.op_step (cryptd_trail s) (Enq r)"
  by (auto simp: cryptd_enqueue_request_def kq.op_step_def cryptd_trail_def Let_def split: prod.splits)

lemma worker_trail:
  assumes "queue_inv (c_queue s)"
  shows "cryptd_trail (cryptd_queue_worker s) = kq.op_step (cryptd_trail s) Deq"
  using get_backlog [OF assms]
  by (auto simp: cryptd_queue_worker_def kq.op_step_def cryptd_trail_def Let_def
      split: prod.splits option.splits list.splits)

lemma queue_inv_qlen: "queue_inv q \<Longrightarrow> q_qlen q = length (q_adm q @ q_blg q)"
  using q_relD(3) [of q "\<lparr>admitted = q_adm q, backlogged = q_blg q\<rparr>"] by (simp add: queue_inv_def)

lemma worker_scheduled:
  assumes "queue_inv (c_queue s)"
  shows "c_work (cryptd_queue_worker s) \<longleftrightarrow> q_qlen (c_queue (cryptd_queue_worker s)) \<noteq> 0"
  using queue_inv_list [OF assms] queue_inv_qlen [OF assms]
  by (auto simp: cryptd_queue_worker_def Let_def crypto_dequeue_request_def split: list.splits)

lemma enqueue_work:
  "c_work (snd (cryptd_enqueue_request s r)) \<longleftrightarrow>
     c_work s \<or> fst (crypto_enqueue_request (c_queue s) r) \<noteq> ENOSPC"
  "fst (crypto_enqueue_request (c_queue s) r) = ENOSPC \<Longrightarrow>
     c_queue (snd (cryptd_enqueue_request s r)) = c_queue s"
  by (auto simp: cryptd_enqueue_request_def Let_def split: prod.splits)
    (simp_all add: crypto_enqueue_request_def Let_def split: if_splits)

lemma reach_inv:
  "cryptd_reach s \<Longrightarrow> kq.trail_inv (cryptd_trail s) \<and> (q_qlen (c_queue s) \<noteq> 0 \<longrightarrow> c_work s)"
proof (induction rule: cryptd_reach.induct)
  case (init m n)
  have "queue_inv (crypto_init_queue m)" using init q_rel_abs [OF init_rel] by simp
  then show ?case
    by (simp add: kq.trail_inv_def cryptd_trail_def cryptd_init_def)
      (simp add: crypto_init_queue_def q_adm_def q_blg_def)
next
  case (enqueue s r)
  have i: "queue_inv (c_queue s)" using enqueue.IH by (simp add: kq.trail_inv_def cryptd_trail_def)
  have "kq.fresh_op (cryptd_trail s) (Enq r)"
    using enqueue.hyps(2) queue_inv_list [OF i]
    by (simp add: kq.fresh_op_def cryptd_trail_def q_ids_def)
  with enqueue.IH have "kq.trail_inv (cryptd_trail (snd (cryptd_enqueue_request s r)))"
    unfolding enqueue_trail by (intro kq.trail_inv_step) blast+
  moreover have "q_qlen (c_queue (snd (cryptd_enqueue_request s r))) \<noteq> 0 \<longrightarrow>
      c_work (snd (cryptd_enqueue_request s r))"
    using enqueue.IH enqueue_work [of s r] by (metis (full_types))
  ultimately show ?case by blast
next
  case (work s)
  have i: "queue_inv (c_queue s)" using work.IH by (simp add: kq.trail_inv_def cryptd_trail_def)
  have "kq.trail_inv (cryptd_trail (cryptd_queue_worker s))"
    unfolding worker_trail [OF i]
    by (rule kq.trail_inv_step) (use work.IH in \<open>auto simp: kq.fresh_op_def\<close>)
  with worker_scheduled [OF i] show ?case by simp
qed

lemma worker_queue: "c_queue (cryptd_queue_worker s) = snd (crypto_dequeue_request (c_queue s))"
  by (auto simp: cryptd_queue_worker_def Let_def split: prod.splits option.splits)

lemma worker_iter_queue:
  "c_queue ((cryptd_queue_worker ^^ n) s) = ((\<lambda>q. snd (crypto_dequeue_request q)) ^^ n) (c_queue s)"
  by (induction n) (simp_all add: worker_queue)

lemma worker_accepted: "c_accepted (cryptd_queue_worker s) = c_accepted s"
  "c_busy (cryptd_queue_worker s) = c_busy s"
  by (auto simp: cryptd_queue_worker_def Let_def split: prod.splits option.splits)

lemma worker_iter_inv:
  "kq.trail_inv (cryptd_trail s) \<Longrightarrow> kq.trail_inv (cryptd_trail ((cryptd_queue_worker ^^ n) s)) \<and>
     c_accepted ((cryptd_queue_worker ^^ n) s) = c_accepted s \<and>
     c_busy ((cryptd_queue_worker ^^ n) s) = c_busy s"
proof (induction n)
  case (Suc n)
  let ?t = "(cryptd_queue_worker ^^ n) s"
  have t: "kq.trail_inv (cryptd_trail ?t)" using Suc by blast
  then have i: "queue_inv (c_queue ?t)" by (simp add: kq.trail_inv_def cryptd_trail_def)
  have "kq.trail_inv (cryptd_trail (cryptd_queue_worker ?t))"
    unfolding worker_trail [OF i] by (rule kq.trail_inv_step [OF t]) (simp add: kq.fresh_op_def)
  with Suc show ?case by (simp add: worker_accepted)
qed simp

section \<open>Properties\<close>

text \<open>
  C2: in every reachable state the requests accepted so far are those completed followed by
  those still queued, in order (first in, first out, none lost, none completed twice); the
  requests answered \<open>-EBUSY\<close> are those already told \<open>-EINPROGRESS\<close> followed by those still
  backlogged; and the worker is scheduled whenever a request is queued.
\<close>

theorem cryptd_fifo_and_no_lost_wakeup:
  assumes "cryptd_reach s"
  shows "c_accepted s = c_completed s @ q_list (c_queue s) \<and>
    c_busy s = c_notified s @ q_blg (c_queue s) \<and>
    (q_list (c_queue s) \<noteq> [] \<longrightarrow> c_work s)"
proof -
  from reach_inv [OF assms] have t: "kq.trail_inv (cryptd_trail s)"
    "q_qlen (c_queue s) \<noteq> 0 \<longrightarrow> c_work s" by blast+
  then have i: "queue_inv (c_queue s)" by (simp add: kq.trail_inv_def cryptd_trail_def)
  with t queue_inv_list [OF i] queue_inv_qlen [OF i] show ?thesis
    by (auto simp: kq.trail_inv_def cryptd_trail_def)
qed

theorem cryptd_fifo_and_no_lost_wakeup_witness:
  "c_work (snd (cryptd_enqueue_request (cryptd_init 1 1) \<lparr>req_id = 5, may_backlog = False\<rparr>))"
proof -
  let ?r = "\<lparr>req_id = 5, may_backlog = False\<rparr>"
  have "cryptd_reach (snd (cryptd_enqueue_request (cryptd_init 1 1) ?r))"
    by (rule cryptd_reach.enqueue [OF cryptd_reach.init])
      (simp_all add: cryptd_init_def crypto_init_queue_def q_ids_def)
  from cryptd_fifo_and_no_lost_wakeup [OF this] show ?thesis
    by (simp add: cryptd_enqueue_request_def cryptd_init_def crypto_init_queue_def
        crypto_enqueue_request_def)
qed

text \<open>
  C26: from every reachable state, if no further request arrives, running the worker once per
  queued request completes every accepted request, tells every \<open>-EBUSY\<close> one of its admission,
  and leaves the queue empty.
\<close>

theorem cryptd_drains:
  assumes "cryptd_reach s"
  shows "let t = (cryptd_queue_worker ^^ q_qlen (c_queue s)) s in
    c_completed t = c_accepted s \<and> c_notified t = c_busy s \<and> q_list (c_queue t) = []"
proof -
  from reach_inv [OF assms] have t: "kq.trail_inv (cryptd_trail s)" by blast
  then have i: "queue_inv (c_queue s)" by (simp add: kq.trail_inv_def cryptd_trail_def)
  let ?u = "(cryptd_queue_worker ^^ q_qlen (c_queue s)) s"
  have e: "q_adm (c_queue ?u) = []" "q_blg (c_queue ?u) = []"
    using kq.drain [OF i] queue_inv_qlen [OF i] by (simp_all add: worker_iter_queue)
  from worker_iter_inv [OF t, of "q_qlen (c_queue s)"] have
    u: "kq.trail_inv (cryptd_trail ?u)" "c_accepted ?u = c_accepted s" "c_busy ?u = c_busy s" by blast+
  then have "queue_inv (c_queue ?u)" by (simp add: kq.trail_inv_def cryptd_trail_def)
  with u e queue_inv_list [of "c_queue ?u"] show ?thesis
    by (simp add: kq.trail_inv_def cryptd_trail_def Let_def)
qed

theorem cryptd_drains_witness:
  "c_completed (cryptd_queue_worker (snd (cryptd_enqueue_request (cryptd_init 1 1)
     \<lparr>req_id = 5, may_backlog = False\<rparr>))) = [\<lparr>req_id = 5, may_backlog = False\<rparr>]"
proof -
  let ?r = "\<lparr>req_id = 5, may_backlog = False\<rparr>"
  let ?s = "snd (cryptd_enqueue_request (cryptd_init 1 1) ?r)"
  have "cryptd_reach ?s"
    by (rule cryptd_reach.enqueue [OF cryptd_reach.init])
      (simp_all add: cryptd_init_def crypto_init_queue_def q_ids_def)
  moreover have "q_qlen (c_queue ?s) = 1" "c_accepted ?s = [?r]"
    by (simp_all add: cryptd_enqueue_request_def cryptd_init_def crypto_init_queue_def
        crypto_enqueue_request_def)
  ultimately show ?thesis using cryptd_drains [of ?s] by (simp add: Let_def)
qed

end
