(* ===== verification/CryptoInc.thy ===== *)
theory CryptoInc
  imports Prelude
begin

text \<open>
  The big-endian counter increment of \<open>kernel-crypto/algapi.c\<close>: \<open>crypto_inc_byte\<close> works byte by
  byte, \<open>crypto_inc\<close> takes four bytes at a time when the platform or the alignment of the buffer
  allows it, and both stop at the first digit that does not wrap around.
\<close>

fun crypto_inc_byte :: "bytes \<Rightarrow> nat \<Rightarrow> bytes" where
  "crypto_inc_byte a 0 = a"
| "crypto_inc_byte a (Suc n) =
     (let c = a ! n + 1; a' = a[n := c] in if c \<noteq> 0 then a' else crypto_inc_byte a' n)"

text \<open>
  \<open>wide\<close> is the condition \<open>CONFIG_HAVE_EFFICIENT_UNALIGNED_ACCESS\<close> or the buffer's end aligned.
\<close>

fun crypto_inc_word :: "bytes \<Rightarrow> nat \<Rightarrow> bytes" where
  "crypto_inc_word a len =
     (if 4 \<le> len then
        (let c = get_be32 (drop (len - 4) a) + 1;
             a' = take (len - 4) a @ put_be32 c @ drop len a in
         if c \<noteq> 0 then a' else crypto_inc_word a' (len - 4))
      else crypto_inc_byte a len)"

declare crypto_inc_word.simps [simp del]

definition crypto_inc :: "bool \<Rightarrow> bytes \<Rightarrow> nat \<Rightarrow> bytes" where
  "crypto_inc wide a len = (if wide then crypto_inc_word a len else crypto_inc_byte a len)"

text \<open>What a run on the first \<open>n\<close> bytes must achieve.\<close>

definition inc_ok :: "bytes \<Rightarrow> nat \<Rightarrow> bytes \<Rightarrow> bool" where
  "inc_ok a n r \<longleftrightarrow> length r = length a \<and> drop n r = drop n a \<and>
     be_val (take n r) = (be_val (take n a) + 1) mod 256 ^ n"

text \<open>A digit of \<open>k\<close> bytes below the value \<open>c - 1\<close> is replaced by \<open>c\<close> and the run stops.\<close>

lemma inc_ok_stop:
  assumes "k \<le> n" "n \<le> length a" "length c = k" "be_val c = be_val (take k (drop (n - k) a)) + 1"
  shows "inc_ok a n (take (n - k) a @ c @ drop n a)"
proof -
  let ?hi = "take (n - k) a" and ?d = "take k (drop (n - k) a)"
  have t: "take n a = ?hi @ ?d" using assms(1) by (simp flip: take_add)
  have "be_val (?hi @ c) < 256 ^ n" using be_val_less [of "?hi @ c"] assms by simp
  moreover have "be_val (?hi @ c) = be_val (take n a) + 1"
    using assms by (simp add: t be_val_append)
  ultimately show ?thesis using assms by (simp add: inc_ok_def)
qed

text \<open>A digit that wraps to zero passes the carry on.\<close>

lemma inc_ok_carry:
  assumes "k \<le> n" "n \<le> length a" "length c = k" "be_val c = 0"
    "be_val (take k (drop (n - k) a)) + 1 = 256 ^ k"
    "inc_ok (take (n - k) a @ c @ drop n a) (n - k) r"
  shows "inc_ok a n r"
proof -
  let ?hi = "take (n - k) a" and ?d = "take k (drop (n - k) a)"
  have t: "take n a = ?hi @ ?d" using assms(1) by (simp flip: take_add)
  from assms have r: "length r = length a" "drop (n - k) r = c @ drop n a"
    "be_val (take (n - k) r) = (be_val ?hi + 1) mod 256 ^ (n - k)"
    by (simp_all add: inc_ok_def)
  have "take n r = take (n - k) r @ take k (drop (n - k) r)" using assms(1) by (simp flip: take_add)
  then have tr: "take n r = take (n - k) r @ c" using r(2) assms(3) by simp
  have "drop n r = drop k (drop (n - k) r)" using assms(1) by simp
  then have "drop n r = drop n a" using r(2) assms(3) by simp
  moreover have "be_val (take n r) = (be_val (take n a) + 1) mod 256 ^ n"
  proof -
    have "be_val (take n a) + 1 = (be_val ?hi + 1) * 256 ^ k"
    proof -
      have "length ?d = k" using assms(1,2) by simp
      then show ?thesis using assms(5) by (simp add: t be_val_append algebra_simps)
    qed
    moreover have "(256 :: nat) ^ n = 256 ^ (n - k) * 256 ^ k"
      using assms(1) by (simp flip: power_add)
    ultimately show ?thesis
      using r(3) assms(3,4) by (simp add: tr be_val_append mult_mod_left)
  qed
  ultimately show ?thesis using r(1) by (simp add: inc_ok_def)
qed

lemma inc_byte_ok: "n \<le> length a \<Longrightarrow> inc_ok a n (crypto_inc_byte a n)"
proof (induction n arbitrary: a)
  case 0
  then show ?case by (simp add: inc_ok_def)
next
  case (Suc n)
  let ?c = "a ! n + 1"
  have d: "take 1 (drop (Suc n - 1) a) = [a ! n]"
    using Suc.prems by (simp add: take_Suc hd_drop_conv_nth)
  have u: "a[n := ?c] = take (Suc n - 1) a @ [?c] @ drop (Suc n) a"
    using Suc.prems by (simp add: upd_conv_take_nth_drop)
  show ?case
  proof (cases "?c = 0")
    case False
    then have "unat ?c = unat (a ! n) + 1" by (rule unat_succ)
    with inc_ok_stop [of 1 "Suc n" a "[?c]"] Suc.prems d u False show ?thesis by simp
  next
    case True
    then have m: "unat (a ! n) + 1 = 256"
      using unat_succ_wrap [of "a ! n"] by simp
    have "inc_ok (a[n := ?c]) n (crypto_inc_byte (a[n := ?c]) n)"
      using Suc.prems by (intro Suc.IH) simp
    with inc_ok_carry [of 1 "Suc n" a "[?c]"] Suc.prems d u True m show ?thesis by simp
  qed
qed

lemma inc_word_ok: "n \<le> length a \<Longrightarrow> inc_ok a n (crypto_inc_word a n)"
proof (induction a n rule: crypto_inc_word.induct)
  case (1 a n)
  show ?case
  proof (cases "4 \<le> n")
    case False
    with 1 inc_byte_ok show ?thesis by (simp add: crypto_inc_word.simps)
  next
    case True
    let ?w = "get_be32 (drop (n - 4) a)" and ?d = "take 4 (drop (n - 4) a)"
    let ?a' = "take (n - 4) a @ put_be32 (?w + 1) @ drop n a"
    have w: "unat ?w = be_val ?d"
      using unat_get_be32 [of ?d] 1(2) True by simp
    show ?thesis
    proof (cases "?w + 1 = 0")
      case False
      then have "unat (?w + 1) = be_val ?d + 1" by (simp add: unat_succ w)
      then have "inc_ok a n ?a'" using 1(2) True by (intro inc_ok_stop) simp_all
      with True False show ?thesis by (subst crypto_inc_word.simps) simp
    next
      case z: True
      then have "unat ?w + 1 = 256 ^ 4"
        using unat_succ_wrap [of ?w] by simp
      then have m: "be_val ?d + 1 = 256 ^ 4" using w by simp
      have "inc_ok ?a' (n - 4) (crypto_inc_word ?a' (n - 4))"
        using 1(1) [OF True refl refl] z 1(2) by simp
      moreover have "be_val (put_be32 (?w + 1)) = 0" by (simp only: z be_val_put_be32 unsigned_0)
      ultimately have "inc_ok a n (crypto_inc_word ?a' (n - 4))"
        by (intro inc_ok_carry [OF True 1(2) length_put(3) _ m])
      with True z show ?thesis by (subst crypto_inc_word.simps) simp
    qed
  qed
qed

lemma crypto_inc_ok: "n \<le> length a \<Longrightarrow> inc_ok a n (crypto_inc wide a n)"
  by (simp add: crypto_inc_def inc_word_ok inc_byte_ok)

lemma length_crypto_inc [simp]: "n \<le> length a \<Longrightarrow> length (crypto_inc wide a n) = length a"
  using crypto_inc_ok by (simp add: inc_ok_def)

section \<open>Properties\<close>

text \<open>
  \<open>crypto_inc\<close> adds one to the big-endian number in the first \<open>size\<close> bytes of the buffer,
  modulo its range, and leaves the rest of the buffer alone; whether it works on words or on
  bytes makes no difference.
\<close>

theorem crypto_inc_increments:
  assumes "len \<le> length a"
  shows "length (crypto_inc wide a len) = length a \<and>
    drop len (crypto_inc wide a len) = drop len a \<and>
    be_val (take len (crypto_inc wide a len)) = (be_val (take len a) + 1) mod 256 ^ len \<and>
    crypto_inc wide a len = crypto_inc False a len"
proof -
  have i: "inc_ok a len (crypto_inc w a len)" for w by (rule crypto_inc_ok [OF assms])
  then have "take len (crypto_inc wide a len) = take len (crypto_inc False a len)"
    by (intro be_val_inj) (simp_all add: inc_ok_def assms)
  moreover have "drop len (crypto_inc wide a len) = drop len (crypto_inc False a len)"
    using i by (simp add: inc_ok_def)
  ultimately have "crypto_inc wide a len = crypto_inc False a len"
    by (metis append_take_drop_id)
  with i show ?thesis by (simp add: inc_ok_def)
qed

theorem crypto_inc_increments_witness:
  "be_val (take 5 (crypto_inc True [1, 255, 255, 255, 255, 9] 5)) = 2 * 256 ^ 4"
proof -
  let ?a = "[1, 255, 255, 255, 255, 9] :: bytes"
  have l: "5 \<le> length ?a" by simp
  from crypto_inc_increments [OF l, of True]
  have "be_val (take 5 (crypto_inc True ?a 5)) = (be_val (take 5 ?a) + 1) mod 256 ^ 5" by blast
  also have "be_val (take 5 ?a) = 2 * 256 ^ 4 - 1" by (simp add: be_val_def)
  finally show ?thesis by simp
qed

end
