(* ===== verification/BlockCipher.thy ===== *)
theory BlockCipher
  imports Prelude
begin

text \<open>
  The interface between the block ciphers and the modes of operation: what a mode calls
  (\<open>crypto_cipher_encrypt_one\<close>, \<open>crypto_cipher_decrypt_one\<close> and the block size, with the key
  already set) and what it relies on. Every cipher of the development interprets \<open>block_cipher\<close>.
\<close>

locale block_fun =
  fixes bsize :: nat
    and enc :: "bytes \<Rightarrow> bytes"
  assumes bsize_pos: "0 < bsize"
    and bsize_page: "bsize \<le> 4096"
    and length_enc: "length b = bsize \<Longrightarrow> length (enc b) = bsize"

locale block_cipher = block_fun +
  fixes dec :: "bytes \<Rightarrow> bytes"
  assumes length_dec: "length b = bsize \<Longrightarrow> length (dec b) = bsize"
    and dec_enc: "length b = bsize \<Longrightarrow> dec (enc b) = b"

text \<open>Encryption is a permutation of the finitely many blocks, so it inverts decryption too.\<close>

context block_cipher
begin

lemma enc_dec:
  assumes "length b = bsize"
  shows "enc (dec b) = b"
proof -
  let ?B = "{b :: bytes. length b = bsize}"
  have "finite {b :: bytes. set b \<subseteq> UNIV \<and> length b = bsize}"
    by (rule finite_lists_length_eq) (rule finite)
  then have fin: "finite ?B" by simp
  have inj: "inj_on enc ?B" by (rule inj_on_inverseI [of _ dec]) (simp add: dec_enc)
  have "enc ` ?B = ?B" by (rule endo_inj_surj [OF fin _ inj]) (auto simp: length_enc)
  with assms obtain a where "length a = bsize" "b = enc a" by blast
  then show ?thesis by (simp add: dec_enc)
qed

end

text \<open>Most ciphers are given as two-word or four-word functions between a load and a store.\<close>

lemma le32_pair_roundtrip:
  "length b = 8 \<Longrightarrow> put_le32 (get_le32 b) @ put_le32 (get_le32 (drop 4 b)) = b"
  using put_get_word_take(1) [of b] put_get_word_take(1) [of "drop 4 b"] by simp

lemma be32_pair_roundtrip:
  "length b = 8 \<Longrightarrow> put_be32 (get_be32 b) @ put_be32 (get_be32 (drop 4 b)) = b"
  using put_get_word_take(2) [of b] put_get_word_take(2) [of "drop 4 b"] by simp

lemma take4_step: "8 \<le> length b \<Longrightarrow> take 4 (b :: bytes) @ take 4 (drop 4 b) = take 8 b"
  by (metis add_numeral_left numeral_Bit0 numeral_code(2) take_add)

lemma be32_quad_roundtrip:
  assumes "length b = 16"
  shows "put_be32 (get_be32 b) @ put_be32 (get_be32 (drop 4 b)) @
    put_be32 (get_be32 (drop 8 b)) @ put_be32 (get_be32 (drop 12 b)) = b"
  using be32_pair_roundtrip [of "take 8 b"] be32_pair_roundtrip [of "drop 8 b"] assms
  by (simp add: drop_take) (metis append.assoc append_take_drop_id)

lemma le32_quad_roundtrip:
  assumes "length b = 16"
  shows "put_le32 (get_le32 b) @ put_le32 (get_le32 (drop 4 b)) @
    put_le32 (get_le32 (drop 8 b)) @ put_le32 (get_le32 (drop 12 b)) = b"
  using le32_pair_roundtrip [of "take 8 b"] le32_pair_roundtrip [of "drop 8 b"] assms
  by (simp add: drop_take) (metis append.assoc append_take_drop_id)

end
