(* ===== verification/SkcipherWalk.thy ===== *)
theory SkcipherWalk
  imports BlockCipher
begin

text \<open>
  The virtual walk over a request (\<open>skcipher_walk_next\<close>, \<open>skcipher_next_slow\<close>,
  \<open>skcipher_walk_done\<close> in \<open>kernel-crypto/skcipher.c\<close>): how the source and destination
  scatterlists are cut into the chunks a mode of operation is called on. The layout of the
  scatterlists and the allocator are the environment: at each step they say how many bytes are
  contiguous (what \<open>scatterwalk_clamp\<close> of both lists leaves), whether they are misaligned,
  whether source and destination are the same memory and whether an allocation succeeds. The
  contents are the flat sequence of bytes, which is what the slow, copy and fast paths pass to the
  mode and write back. Walks in physical addresses (\<open>SKCIPHER_WALK_PHYS\<close>) are not modelled.
\<close>

section \<open>One step of the walk\<close>

definition PAGE_SIZE :: nat where "PAGE_SIZE = 4096"

record layout =
  contiguous :: "nat \<Rightarrow> nat"
  misaligned :: "nat \<Rightarrow> bool"
  same_memory :: "nat \<Rightarrow> bool"
  page_alloc :: "nat \<Rightarrow> bool"
  heap_alloc :: "nat \<Rightarrow> bool"

text \<open>
  The fields of \<open>struct skcipher_walk\<close> the control flow reads: the bytes of the request still to
  do and of the current chunk, whether the chunk is in the bounce buffer (\<open>SKCIPHER_WALK_SLOW\<close>),
  whether \<open>src.virt.addr = dst.virt.addr\<close>, and whether \<open>page\<close> and \<open>buffer\<close> are set.
\<close>

record walk =
  wk_total :: nat
  wk_nbytes :: nat
  wk_slow :: bool
  wk_same :: bool
  wk_page :: bool
  wk_buffer :: bool

definition skcipher_next_slow :: "nat \<Rightarrow> bool \<Rightarrow> walk \<Rightarrow> errno option \<times> walk" where
  "skcipher_next_slow bsize alloc w =
     (let w1 = w\<lparr>wk_buffer := wk_buffer w \<or> wk_page w\<rparr> in
      if \<not> wk_buffer w1 \<and> \<not> alloc then (Some ENOMEM, w1)
      else (None, w1\<lparr>wk_buffer := True, wk_nbytes := bsize, wk_slow := True, wk_same := True\<rparr>))"

definition skcipher_walk_next :: "nat \<Rightarrow> nat \<Rightarrow> layout \<Rightarrow> nat \<Rightarrow> walk \<Rightarrow> errno option \<times> walk" where
  "skcipher_walk_next blocksize stride env i w0 =
     (let w = w0\<lparr>wk_slow := False, wk_same := False\<rparr>;
          bsize = min stride (max (wk_total w) blocksize);
          n = min (wk_total w) (contiguous env i) in
      if n < bsize then
        (if wk_total w < blocksize then (Some EINVAL, w)
         else skcipher_next_slow bsize (heap_alloc env i) w)
      else if misaligned env i then
        (if \<not> wk_page w \<and> \<not> page_alloc env i then
           skcipher_next_slow bsize (heap_alloc env i) w
         else (None, w\<lparr>wk_page := True, wk_nbytes := min n PAGE_SIZE, wk_same := True\<rparr>))
      else (None, w\<lparr>wk_nbytes := n, wk_same := same_memory env i\<rparr>))"

text \<open>
  \<open>skcipher_walk_done\<close> on the result of a chunk: an error, or the number of bytes left
  unprocessed. In the slow path nothing may be left; otherwise the walk goes on after the bytes
  done, if any remain.
\<close>

definition skcipher_walk_done ::
    "nat \<Rightarrow> nat \<Rightarrow> layout \<Rightarrow> nat \<Rightarrow> errno + nat \<Rightarrow> walk \<Rightarrow> errno option \<times> walk" where
  "skcipher_walk_done blocksize stride env i res w =
     (if wk_nbytes w = 0 then ((case res of Inl e \<Rightarrow> Some e | Inr _ \<Rightarrow> None), w)
      else
        (case res of
           Inl e \<Rightarrow> (Some e, w\<lparr>wk_total := 0, wk_nbytes := 0\<rparr>)
         | Inr left \<Rightarrow>
             (if wk_slow w \<and> 0 < left then (Some EINVAL, w\<lparr>wk_total := 0, wk_nbytes := 0\<rparr>)
              else
                (let nbytes = wk_total w - (wk_nbytes w - left);
                     w1 = w\<lparr>wk_total := nbytes, wk_nbytes := 0\<rparr> in
                 if nbytes \<noteq> 0 then skcipher_walk_next blocksize stride env i w1
                 else (None, w1)))))"

text \<open>\<open>skcipher_walk_virt\<close>: an empty request does not start the walk.\<close>

definition skcipher_walk_virt :: "nat \<Rightarrow> nat \<Rightarrow> layout \<Rightarrow> nat \<Rightarrow> errno option \<times> walk" where
  "skcipher_walk_virt blocksize stride env cryptlen =
     (let w = \<lparr>wk_total = cryptlen, wk_nbytes = 0, wk_slow = False, wk_same = False,
               wk_page = False, wk_buffer = False\<rparr> in
      if cryptlen = 0 then (None, w) else skcipher_walk_next blocksize stride env 0 w)"

section \<open>A mode driven by the walk\<close>

text \<open>
  \<open>while (walk.nbytes >= low) { r = f(...); err = skcipher_walk_done(&walk, r); }\<close>, the modes'
  main loop: \<open>f\<close> is what the mode does with a chunk (the new IV, its output, and an error or the
  bytes it leaves). The result is the error, the walk at loop exit, the IV, the output and the data
  not yet processed.
\<close>

type_synonym 'iv chunk_fun = "walk \<Rightarrow> 'iv \<Rightarrow> bytes \<Rightarrow> 'iv \<times> bytes \<times> (errno + nat)"

fun walk_loop :: "nat \<Rightarrow> 'iv chunk_fun \<Rightarrow> nat \<Rightarrow> nat \<Rightarrow> layout \<Rightarrow> nat \<Rightarrow> nat \<Rightarrow>
    errno option \<times> walk \<Rightarrow> 'iv \<Rightarrow> bytes \<Rightarrow> bytes \<Rightarrow>
    (errno option \<times> walk \<times> 'iv \<times> bytes \<times> bytes) option" where
  "walk_loop low f blocksize stride env fuel i (err, w) iv data out =
     (if wk_nbytes w < low then Some (err, w, iv, out, data)
      else
        (case fuel of
           0 \<Rightarrow> None
         | Suc fuel' \<Rightarrow>
             (case f w iv (take (wk_nbytes w) data) of (iv', chunk, res) \<Rightarrow>
                let step = skcipher_walk_done blocksize stride env (Suc i) res w in
                walk_loop low f blocksize stride env fuel' (Suc i) step iv'
                  (case res of Inl _ \<Rightarrow> drop (length chunk) data | Inr left \<Rightarrow> drop (wk_nbytes w - left) data)
                  (out @ chunk))))"

declare walk_loop.simps [simp del]

text \<open>Every chunk takes at least one byte, so the data's length is fuel enough.\<close>

definition skcipher_walk :: "nat \<Rightarrow> 'iv chunk_fun \<Rightarrow> nat \<Rightarrow> nat \<Rightarrow> layout \<Rightarrow> 'iv \<Rightarrow> bytes \<Rightarrow>
    (errno option \<times> walk \<times> 'iv \<times> bytes \<times> bytes) option" where
  "skcipher_walk low f blocksize stride env iv data =
     walk_loop low f blocksize stride env (length data) 0
       (skcipher_walk_virt blocksize stride env (length data)) iv data []"

text \<open>Only the chaining values that occur matter.\<close>

lemma walk_loop_cong:
  assumes "\<And>w iv chunk. P iv \<Longrightarrow> f w iv chunk = g w iv chunk \<and> P (fst (f w iv chunk))"
  shows "P iv \<Longrightarrow> walk_loop low f bs st env fuel i ew iv data out = walk_loop low g bs st env fuel i ew iv data out"
proof (induction fuel arbitrary: i ew iv data out)
  case 0
  then show ?case by (cases ew) (simp add: walk_loop.simps)
next
  case (Suc fuel)
  obtain err w where ew: "ew = (err, w)" by fastforce
  obtain iv' chunk res where f: "f w iv (take (wk_nbytes w) data) = (iv', chunk, res)"
    by (cases "f w iv (take (wk_nbytes w) data)")
  with assms [OF Suc.prems, of w "take (wk_nbytes w) data"]
  have "g w iv (take (wk_nbytes w) data) = (iv', chunk, res)" "P iv'" by simp_all
  with f Suc.IH [OF this(2)] show ?case
    by (simp add: ew Let_def walk_loop.simps [of low f bs st env "Suc fuel" i err w]
      walk_loop.simps [of low g bs st env "Suc fuel" i err w])
qed

lemma skcipher_walk_cong:
  assumes "\<And>w iv chunk. P iv \<Longrightarrow> f w iv chunk = g w iv chunk \<and> P (fst (f w iv chunk))" "P iv"
  shows "skcipher_walk low f bs st env iv data = skcipher_walk low g bs st env iv data"
  unfolding skcipher_walk_def by (rule walk_loop_cong [of P, OF assms])

section \<open>Block by block\<close>

text \<open>
  The loop the modes run over a chunk, for the body that processes one block:
  \<open>do { body; } while ((nbytes -= bsize) >= bsize)\<close> on a chunk of at least one block.
\<close>

function block_loop :: "nat \<Rightarrow> ('i \<Rightarrow> bytes \<Rightarrow> 'i \<times> bytes) \<Rightarrow> 'i \<Rightarrow> bytes \<Rightarrow> 'i \<times> bytes \<times> nat" where
  "block_loop bsize body iv src =
     (if bsize = 0 \<or> length src < bsize then (iv, [], length src)
      else
        (case body iv (take bsize src) of (iv', blk) \<Rightarrow>
           case block_loop bsize body iv' (drop bsize src) of (iv'', outs, left) \<Rightarrow>
             (iv'', blk @ outs, left)))"
  by pat_completeness auto
termination
  by (relation "measure (\<lambda>(b, f, i, s). length s)") auto

declare block_loop.simps [simp del]

lemma block_loop_short [simp]: "length src < b \<Longrightarrow> block_loop b f iv src = (iv, [], length src)"
  by (simp add: block_loop.simps)

lemma block_loop_cons:
  "length blk = b \<Longrightarrow> 0 < b \<Longrightarrow> block_loop b f iv (blk @ src) =
     (case f iv blk of (iv', o1) \<Rightarrow> case block_loop b f iv' src of (iv'', o2, left) \<Rightarrow> (iv'', o1 @ o2, left))"
  by (subst block_loop.simps) auto

lemma block_loop_step:
  "0 < b \<Longrightarrow> b \<le> length src \<Longrightarrow> block_loop b f iv src =
     (case f iv (take b src) of (iv', o1) \<Rightarrow>
        case block_loop b f iv' (drop b src) of (iv'', o2, left) \<Rightarrow> (iv'', o1 @ o2, left))"
  by (subst block_loop.simps) auto

lemma block_loop_left: "0 < b \<Longrightarrow> snd (snd (block_loop b f iv src)) = length src mod b"
proof (induction b f iv src rule: block_loop.induct)
  case (1 b f iv src)
  show ?case
  proof (cases "length src < b")
    case False
    obtain iv' o1 where f: "f iv (take b src) = (iv', o1)" by (cases "f iv (take b src)")
    obtain iv'' o2 l where r: "block_loop b f iv' (drop b src) = (iv'', o2, l)"
      by (cases "block_loop b f iv' (drop b src)")
    from False 1 f r have "l = (length src - b) mod b" by fastforce
    with False 1(2) f r show ?thesis by (simp add: block_loop_step le_mod_geq)
  qed (use 1(2) in simp)
qed

lemma block_loop_append:
  "0 < b \<Longrightarrow> b dvd length xs \<Longrightarrow> block_loop b f iv (xs @ ys) =
     (case block_loop b f iv xs of (iv', o1, _) \<Rightarrow>
        case block_loop b f iv' ys of (iv'', o2, left) \<Rightarrow> (iv'', o1 @ o2, left))"
proof (induction b f iv xs rule: block_loop.induct)
  case (1 b f iv xs)
  show ?case
  proof (cases "xs = []")
    case False
    with 1(3) have l: "b \<le> length xs" by (simp add: dvd_imp_le)
    obtain iv' o1 where f: "f iv (take b xs) = (iv', o1)" by (cases "f iv (take b xs)")
    have d: "b dvd length (drop b xs)" using 1(3) l by (simp add: dvd_diff_nat)
    obtain iv'' o2 l2 where r: "block_loop b f iv' (drop b xs) = (iv'', o2, l2)"
      by (cases "block_loop b f iv' (drop b xs)")
    obtain iv3 o3 l3 where r3: "block_loop b f iv'' ys = (iv3, o3, l3)"
      by (cases "block_loop b f iv'' ys")
    have "block_loop b f iv' (drop b xs @ ys) = (iv3, o2 @ o3, l3)"
      using 1(1) [OF _ f [symmetric]] 1(2) l d r r3 by simp
    then have "block_loop b f iv (xs @ ys) = (iv3, o1 @ o2 @ o3, l3)"
      using 1(2) l f by (subst block_loop_step) simp_all
    moreover have "block_loop b f iv xs = (iv'', o1 @ o2, l2)"
      using 1(2) l f r by (subst block_loop_step) simp_all
    ultimately show ?thesis using r3 by simp
  qed (use 1(2) in simp)
qed

lemma block_loop_prefix:
  assumes "0 < b"
  shows "block_loop b f iv src =
    (case block_loop b f iv (take (length src - length src mod b) src) of (iv', out, _) \<Rightarrow>
       (iv', out, length src mod b))"
proof -
  let ?k = "length src - length src mod b"
  have k: "b dvd ?k" "?k \<le> length src" by (simp_all add: dvd_minus_mod)
  have r: "length (drop ?k src) < b" using assms by simp
  have "block_loop b f iv (take ?k src @ drop ?k src) =
     (case block_loop b f iv (take ?k src) of (iv', o1, _) \<Rightarrow>
        case block_loop b f iv' (drop ?k src) of (iv'', o2, left) \<Rightarrow> (iv'', o1 @ o2, left))"
    by (rule block_loop_append [OF assms]) (use k in \<open>simp add: min_absorb2\<close>)
  with r show ?thesis by (simp split: prod.splits)
qed

text \<open>A body that undoes another, block by block under the same chaining values, undoes its loop.\<close>

lemma block_loop_inverse:
  assumes "0 < b"
    and body: "\<And>iv blk. P iv \<Longrightarrow> length blk = b \<Longrightarrow>
      (case f iv blk of (iv', c) \<Rightarrow> P iv' \<and> length c = b \<and> g iv c = (iv', blk))"
  shows "P iv \<Longrightarrow> b dvd length src \<Longrightarrow>
    (case block_loop b f iv src of (iv', out, _) \<Rightarrow>
       length out = length src \<and> block_loop b g iv out = (iv', src, 0))"
proof (induction src arbitrary: iv rule: length_induct)
  case (1 src)
  show ?case
  proof (cases "src = []")
    case False
    then have l: "b \<le> length src" using 1(3) by (simp add: dvd_imp_le)
    obtain iv1 c where f: "f iv (take b src) = (iv1, c)" by (cases "f iv (take b src)")
    with body [OF 1(2), of "take b src"] l have c: "P iv1" "length c = b" "g iv c = (iv1, take b src)"
      by auto
    obtain iv2 out l2 where r: "block_loop b f iv1 (drop b src) = (iv2, out, l2)"
      by (cases "block_loop b f iv1 (drop b src)")
    have "length (drop b src) < length src" "b dvd length (drop b src)"
      using False assms(1) 1(3) l by (simp_all add: dvd_diff_nat)
    with 1(1) c(1) r have "length out = length (drop b src)" "block_loop b g iv1 out = (iv2, drop b src, 0)"
      by fastforce+
    with f r l c assms(1) show ?thesis by (simp add: block_loop_step block_loop_cons)
  qed (use assms(1) in simp)
qed

section \<open>The walk does not show\<close>

text \<open>What holds of a walk at the head of the loop, for a request with \<open>len\<close> bytes to do.\<close>

definition walk_ok :: "nat \<Rightarrow> nat \<Rightarrow> nat \<Rightarrow> errno option \<times> walk \<Rightarrow> bool" where
  "walk_ok b blocksize len step =
     (case step of (err, w) \<Rightarrow>
        if wk_nbytes w = 0 then
          (err = Some ENOMEM \<or> (err = Some EINVAL \<and> 0 < len \<and> len < blocksize) \<or> (err = None \<and> len = 0))
        else err = None \<and> wk_total w = len \<and> wk_nbytes w \<le> len \<and>
          (if len < b then wk_nbytes w = len \<and> blocksize \<le> len
           else b \<le> wk_nbytes w \<and> (wk_slow w \<longrightarrow> wk_nbytes w = b)))"

text \<open>When every allocation succeeds the walk itself never runs out of memory.\<close>

definition allocates :: "layout \<Rightarrow> bool" where
  "allocates env \<longleftrightarrow> (\<forall>i. heap_alloc env i)"

lemma allocates_next: "allocates env \<Longrightarrow> fst (skcipher_walk_next bs st env i w) \<noteq> Some ENOMEM"
  by (simp add: allocates_def skcipher_walk_next_def skcipher_next_slow_def Let_def)

lemma allocates_done:
  "allocates env \<Longrightarrow> r \<noteq> Inl ENOMEM \<Longrightarrow> fst (skcipher_walk_done bs st env i r w) \<noteq> Some ENOMEM"
  by (auto simp: skcipher_walk_done_def allocates_next Let_def split: sum.splits)

lemma allocates_virt: "allocates env \<Longrightarrow> fst (skcipher_walk_virt bs st env n) \<noteq> Some ENOMEM"
  by (simp add: skcipher_walk_virt_def allocates_next Let_def)

text \<open>
  A mode that processes whole blocks of the walk's stride, with a body for one block. The block
  size of the algorithm is that of the cipher, or 1 for a stream mode, which stops at the
  tail.
\<close>

locale block_mode =
  fixes b :: nat and blocksize :: nat and low :: nat
    and final :: bool
    and body :: "'iv \<Rightarrow> bytes \<Rightarrow> 'iv \<times> bytes"
    and f :: "'iv chunk_fun"
  assumes b_pos: "0 < b" and b_page: "b \<le> PAGE_SIZE"
    and low: "0 < low" "low \<le> b"
    and blocksize: "blocksize = b \<or> blocksize = 1 \<and> low = b"
    and final: "final \<Longrightarrow> blocksize = b"
    and length_body: "final \<Longrightarrow> length blk = b \<Longrightarrow> length (snd (body iv blk)) = b"
    and chunk: "b \<le> length src \<Longrightarrow> length src = wk_nbytes w \<Longrightarrow> f w iv src =
      (case block_loop b body iv src of (iv', out, left) \<Rightarrow>
         (iv', out, if left \<noteq> 0 \<and> final \<and> wk_nbytes w = wk_total w then Inl EINVAL else Inr left))"
begin

lemma length_block_loop:
  assumes final
  shows "length (fst (snd (block_loop b body iv src))) = length src - length src mod b"
proof (induction src arbitrary: iv rule: length_induct)
  case (1 src)
  show ?case
  proof (cases "length src < b")
    case False
    obtain iv' o1 where f: "body iv (take b src) = (iv', o1)" by (cases "body iv (take b src)")
    have "length o1 = b" using length_body [OF assms, of "take b src" iv] f False by simp
    moreover have "length (fst (snd (block_loop b body iv' (drop b src)))) =
        length (drop b src) - length (drop b src) mod b"
      using 1 b_pos False by auto
    moreover have "(length src - b) mod b = length src mod b" using False by (simp add: le_mod_geq)
    moreover have "(length src - b) mod b \<le> length src - b" by simp
    ultimately show ?thesis using f False b_pos
      by (subst block_loop.simps) (auto split: prod.splits)
  qed simp
qed

lemma next_ok:
  assumes "wk_total w = len" "0 < len" "wk_nbytes w = 0"
  shows "walk_ok b blocksize len (skcipher_walk_next blocksize b env i w)"
proof (cases "blocksize = b")
  case True
  with assms b_pos b_page show ?thesis
    by (simp add: walk_ok_def skcipher_walk_next_def skcipher_next_slow_def Let_def min_def)
next
  case False
  with assms b_pos b_page blocksize show ?thesis
    by (simp add: walk_ok_def skcipher_walk_next_def skcipher_next_slow_def Let_def min_def max_def)
qed

lemma virt_ok: "walk_ok b blocksize len (skcipher_walk_virt blocksize b env len)"
  using next_ok by (auto simp: skcipher_walk_virt_def Let_def walk_ok_def)

definition chunk_result :: "walk \<Rightarrow> errno + nat" where
  "chunk_result w =
     (if wk_nbytes w mod b \<noteq> 0 \<and> final \<and> wk_nbytes w = wk_total w then Inl EINVAL
      else Inr (wk_nbytes w mod b))"

lemma done_ok:
  assumes "walk_ok b blocksize len (err, w)" "b \<le> wk_nbytes w"
  shows "walk_ok b blocksize (len - (wk_nbytes w - wk_nbytes w mod b))
    (skcipher_walk_done blocksize b env i (chunk_result w) w)"
proof -
  from assms b_pos have w: "wk_total w = len" "wk_nbytes w \<le> len" "wk_nbytes w \<noteq> 0"
    "wk_slow w \<Longrightarrow> wk_nbytes w mod b = 0"
    by (auto simp: walk_ok_def split: if_splits)
  show ?thesis
  proof (cases "chunk_result w")
    case (Inl e)
    with w have "e = EINVAL" "len - (wk_nbytes w - wk_nbytes w mod b) = len mod b" "len mod b \<noteq> 0" final
      by (auto simp: chunk_result_def split: if_splits)
    with Inl w final b_pos show ?thesis by (simp add: skcipher_walk_done_def walk_ok_def)
  next
    case (Inr left)
    then have "left = wk_nbytes w mod b" by (simp add: chunk_result_def split: if_splits)
    with Inr w next_ok [of "w\<lparr>wk_total := len - (wk_nbytes w - wk_nbytes w mod b), wk_nbytes := 0\<rparr>"]
    show ?thesis by (auto simp: skcipher_walk_done_def Let_def walk_ok_def)
  qed
qed

lemma full_chunk:
  assumes "walk_ok b blocksize len (err, w)" "low \<le> wk_nbytes w"
  shows "b \<le> wk_nbytes w" "wk_nbytes w \<le> len"
  using assms low blocksize by (auto simp: walk_ok_def split: if_splits)

text \<open>
  Whatever the layout, the loop ends within its fuel, having done some whole number of blocks
  exactly as the flat loop does them.
\<close>

lemma walk_loop_flat:
  assumes "walk_ok b blocksize (length data) (err, w)" "length data \<le> fuel"
  shows "\<exists>err' w' iv' out' k.
    walk_loop low f blocksize b env fuel i (err, w) iv data out =
      Some (err', w', iv', out @ out', drop k data) \<and>
    k \<le> length data \<and> b dvd k \<and> block_loop b body iv (take k data) = (iv', out', 0) \<and>
    walk_ok b blocksize (length data - k) (err', w') \<and> wk_nbytes w' < low \<and>
    (allocates env \<longrightarrow> err \<noteq> Some ENOMEM \<longrightarrow> err' \<noteq> Some ENOMEM)"
  using assms
proof (induction fuel arbitrary: err w i iv data out)
  case 0
  then have "wk_nbytes w < low" using low by (auto simp: walk_ok_def split: if_splits)
  moreover have "block_loop b body iv (take 0 data) = (iv, [], 0)" using b_pos by simp
  ultimately show ?case using 0 by (subst walk_loop.simps) (auto intro!: exI [of _ 0])
next
  case (Suc fuel)
  show ?case
  proof (cases "wk_nbytes w < low")
    case True
    moreover have "block_loop b body iv (take 0 data) = (iv, [], 0)" using b_pos by simp
    ultimately show ?thesis using Suc.prems by (subst walk_loop.simps) (auto intro!: exI [of _ 0])
  next
    case False
    let ?n = "wk_nbytes w" let ?m = "?n - ?n mod b"
    from False full_chunk [OF Suc.prems(1)] have n: "b \<le> ?n" "?n \<le> length data" by simp_all
    then have m: "0 < ?m" "?m \<le> length data" "b dvd ?m" "?m \<le> ?n"
      using b_pos by (auto simp: dvd_minus_mod) (meson mod_less_eq_dividend less_le_trans mod_less_divisor not_le)
    obtain iv1 o1 l1 where r: "block_loop b body iv (take ?m data) = (iv1, o1, l1)"
      by (cases "block_loop b body iv (take ?m data)")
    have l1: "l1 = 0"
      using block_loop_left [OF b_pos, of body iv "take ?m data"] r m by (simp add: min_absorb2)
    have o1: "length o1 = ?m" if final
      using length_block_loop [OF that, of iv "take ?m data"] r m by (simp add: min_absorb2)
    have c: "f w iv (take ?n data) = (iv1, o1, chunk_result w)"
      using n m r chunk [of "take ?n data" w iv] block_loop_prefix [OF b_pos, of body iv "take ?n data"]
      by (simp add: min_absorb1 min_absorb2 chunk_result_def)
    have rest: "(case chunk_result w of Inl _ \<Rightarrow> drop (length o1) data
        | Inr left \<Rightarrow> drop (?n - left) data) = drop ?m data"
      using o1 by (simp add: chunk_result_def)
    obtain e2 w2 where d: "skcipher_walk_done blocksize b env (Suc i) (chunk_result w) w = (e2, w2)"
      by (cases "skcipher_walk_done blocksize b env (Suc i) (chunk_result w) w")
    have ok: "walk_ok b blocksize (length (drop ?m data)) (e2, w2)"
      using done_ok [OF Suc.prems(1) n(1), of env "Suc i"] d by simp
    have "length (drop ?m data) \<le> fuel" using Suc.prems(2) m by simp
    from Suc.IH [OF ok this, of "Suc i" iv1 "out @ o1"] obtain err' w' iv' out' k where IH:
      "walk_loop low f blocksize b env fuel (Suc i) (e2, w2) iv1 (drop ?m data) (out @ o1) =
        Some (err', w', iv', (out @ o1) @ out', drop k (drop ?m data))"
      "k \<le> length (drop ?m data)" "b dvd k"
      "block_loop b body iv1 (take k (drop ?m data)) = (iv', out', 0)"
      "walk_ok b blocksize (length (drop ?m data) - k) (err', w')" "wk_nbytes w' < low"
      "allocates env \<longrightarrow> e2 \<noteq> Some ENOMEM \<longrightarrow> err' \<noteq> Some ENOMEM"
      by blast
    have nomem: "chunk_result w \<noteq> Inl ENOMEM" by (simp add: chunk_result_def)
    have e2: "allocates env \<Longrightarrow> e2 \<noteq> Some ENOMEM"
      using allocates_done [of env "chunk_result w" blocksize b "Suc i" w] d nomem by simp
    have "walk_loop low f blocksize b env (Suc fuel) i (err, w) iv data out =
        Some (err', w', iv', out @ (o1 @ out'), drop (?m + k) data)"
      using False c d rest IH(1) by (subst walk_loop.simps) (simp add: Let_def add.commute)
    moreover have "block_loop b body iv (take (?m + k) data) = (iv', o1 @ out', 0)"
      unfolding take_add
      using block_loop_append [OF b_pos, of "take ?m data" body iv "take k (drop ?m data)"] m r IH(4)
      by (simp add: min_absorb2 del: append_take_drop_id)
    moreover have "b dvd ?m + k" by (rule dvd_add [OF m(3) IH(3)])
    moreover have "?m + k \<le> length data" using m(2) IH(2) by simp
    moreover have "walk_ok b blocksize (length data - (?m + k)) (err', w')"
      using IH(5) by (simp only: length_drop diff_diff_left)
    ultimately show ?thesis using IH(6,7) e2 by blast
  qed
qed

text \<open>
  So a walk that does not run out of memory is the flat loop: whole blocks, then an error (block
  modes) or the tail left in the walk (stream modes).
\<close>

theorem walk_flat:
  fixes data :: bytes
  defines "k \<equiv> length data - length data mod b"
  shows "\<exists>err w iv' out rest. skcipher_walk low f blocksize b env iv data = Some (err, w, iv', out, rest) \<and>
    (err = Some ENOMEM \<or>
      (block_loop b body iv (take k data) = (iv', out, 0) \<and> rest = drop k data \<and>
       wk_nbytes w = (if blocksize = b then 0 else length data mod b) \<and>
       err = (if blocksize = b \<and> length data mod b \<noteq> 0 then Some EINVAL else None) \<and>
       wk_total w * of_bool (wk_nbytes w \<noteq> 0) = wk_nbytes w)) \<and>
    (allocates env \<longrightarrow> err \<noteq> Some ENOMEM) \<and> (err = Some ENOMEM \<longrightarrow> wk_nbytes w = 0)"
proof -
  obtain e0 w0 where v: "skcipher_walk_virt blocksize b env (length data) = (e0, w0)"
    by (cases "skcipher_walk_virt blocksize b env (length data)")
  obtain err w iv' out j where r: "skcipher_walk low f blocksize b env iv data =
      Some (err, w, iv', out, drop j data)" "j \<le> length data" "b dvd j"
    "block_loop b body iv (take j data) = (iv', out, 0)"
    "walk_ok b blocksize (length data - j) (err, w)" "wk_nbytes w < low"
    "allocates env \<longrightarrow> e0 \<noteq> Some ENOMEM \<longrightarrow> err \<noteq> Some ENOMEM"
    using walk_loop_flat [of data e0 w0 "length data" env 0 iv "[]"] virt_ok [of "length data" env] v
    by (simp add: skcipher_walk_def) blast
  have nb: "err = Some ENOMEM \<longrightarrow> wk_nbytes w = 0"
    using r(5) by (auto simp: walk_ok_def split: if_splits)
  have "allocates env \<Longrightarrow> e0 \<noteq> Some ENOMEM"
    using allocates_virt [of env blocksize b "length data"] v by simp
  with r(7) have alloc: "allocates env \<longrightarrow> err \<noteq> Some ENOMEM" by blast
  show ?thesis
  proof (cases "err = Some ENOMEM")
    case False
    have s: "length data - j < b" using r(5,6) False low blocksize b_pos
      by (auto simp: walk_ok_def split: if_splits)
    from r(3) obtain q where "j = b * q" by (elim dvdE)
    with r(2) s have m: "length data mod b = length data - j"
      by (metis le_add_diff_inverse mod_less mod_mult_self4 mult.commute)
    with r(2) have kj: "k = j" by (simp add: k_def)
    have "wk_nbytes w = (if blocksize = b then 0 else length data - j) \<and>
      err = (if blocksize = b \<and> length data - j \<noteq> 0 then Some EINVAL else None) \<and>
      wk_total w * of_bool (wk_nbytes w \<noteq> 0) = wk_nbytes w"
    proof (cases "wk_nbytes w = 0")
      case True
      with r(5) False blocksize show ?thesis by (auto simp: walk_ok_def)
    next
      case nz: False
      with r(5) s have w: "err = None" "wk_total w = length data - j" "wk_nbytes w = length data - j"
        "blocksize \<le> length data - j"
        by (simp_all add: walk_ok_def)
      with s nz show ?thesis by auto
    qed
    with r kj m alloc nb show ?thesis by auto
  qed (use r alloc nb in auto)
qed

lemma walk_flatE:
  obtains err w iv' out rest where
    "skcipher_walk low f blocksize b env iv data = Some (err, w, iv', out, rest)"
    "err \<noteq> Some ENOMEM \<Longrightarrow> block_loop b body iv (take (length data - length data mod b) data) = (iv', out, 0)"
    "err \<noteq> Some ENOMEM \<Longrightarrow> rest = drop (length data - length data mod b) data"
    "err \<noteq> Some ENOMEM \<Longrightarrow> wk_nbytes w = (if blocksize = b then 0 else length data mod b)"
    "err \<noteq> Some ENOMEM \<Longrightarrow> err = (if blocksize = b \<and> length data mod b \<noteq> 0 then Some EINVAL else None)"
    "err \<noteq> Some ENOMEM \<Longrightarrow> wk_nbytes w \<noteq> 0 \<Longrightarrow> wk_total w = wk_nbytes w"
    "allocates env \<Longrightarrow> err \<noteq> Some ENOMEM"
    "err = Some ENOMEM \<Longrightarrow> wk_nbytes w = 0"
proof -
  from walk_flat [of env iv data] obtain err w iv' out rest where
    r: "skcipher_walk low f blocksize b env iv data = Some (err, w, iv', out, rest)" and
    c: "err = Some ENOMEM \<or>
      (block_loop b body iv (take (length data - length data mod b) data) = (iv', out, 0) \<and>
       rest = drop (length data - length data mod b) data \<and>
       wk_nbytes w = (if blocksize = b then 0 else length data mod b) \<and>
       err = (if blocksize = b \<and> length data mod b \<noteq> 0 then Some EINVAL else None) \<and>
       wk_total w * of_bool (wk_nbytes w \<noteq> 0) = wk_nbytes w)"
    and a: "(allocates env \<longrightarrow> err \<noteq> Some ENOMEM) \<and> (err = Some ENOMEM \<longrightarrow> wk_nbytes w = 0)"
    by blast
  from c have "wk_total w = wk_nbytes w" if "err \<noteq> Some ENOMEM" "wk_nbytes w \<noteq> 0"
    using that by auto
  then show ?thesis by (intro that [OF r]) (use c a in blast)+
qed

end

text \<open>A layout that takes every path of the walk, for the witnesses.\<close>

definition ragged :: layout where
  "ragged = \<lparr>contiguous = (\<lambda>i. 5 * i + 3), misaligned = even, same_memory = (\<lambda>i. i mod 3 = 0),
     page_alloc = (\<lambda>i. i < 4), heap_alloc = (\<lambda>i. True)\<rparr>"

lemma ragged_allocates: "allocates ragged"
  by (simp add: allocates_def ragged_def)

end
