(* ===== verification/Tea.thy ===== *)
theory Tea
  imports BlockCipher
begin

text \<open>
  TEA, XTEA and XETA (\<open>kernel-crypto/tea.c\<close>): key schedule, encryption and decryption of one
  8-byte block. TEA counts its rounds; XTEA and XETA loop until the round sum reaches a limit,
  so their loops are partial functions, \<open>None\<close> if the limit is never reached.
\<close>

definition TEA_DELTA :: u32 where "TEA_DELTA = 0x9e3779b9"
definition XTEA_DELTA :: u32 where "XTEA_DELTA = 0x9e3779b9"

definition tea_setkey :: "bytes \<Rightarrow> u32 list" where
  "tea_setkey in_key = [get_le32 in_key, get_le32 (drop 4 in_key), get_le32 (drop 8 in_key),
     get_le32 (drop 12 in_key)]"

definition xtea_setkey :: "bytes \<Rightarrow> u32 list" where
  "xtea_setkey in_key = [get_le32 in_key, get_le32 (drop 4 in_key), get_le32 (drop 8 in_key),
     get_le32 (drop 12 in_key)]"

section \<open>TEA\<close>

definition tea_f :: "u32 list \<Rightarrow> u32 \<Rightarrow> u32 \<Rightarrow> u32" where
  "tea_f k sm z = ((push_bit 4 z + k ! 0) XOR (z + sm)) XOR (drop_bit 5 z + k ! 1)"

definition tea_g :: "u32 list \<Rightarrow> u32 \<Rightarrow> u32 \<Rightarrow> u32" where
  "tea_g k sm y = ((push_bit 4 y + k ! 2) XOR (y + sm)) XOR (drop_bit 5 y + k ! 3)"

fun tea_enc_loop :: "u32 list \<Rightarrow> nat \<Rightarrow> u32 \<Rightarrow> u32 \<Rightarrow> u32 \<Rightarrow> u32 \<times> u32" where
  "tea_enc_loop k 0 sm y z = (y, z)"
| "tea_enc_loop k (Suc n) sm y z =
     (let sm = sm + TEA_DELTA;
          y = y + tea_f k sm z;
          z = z + tea_g k sm y
      in tea_enc_loop k n sm y z)"

fun tea_dec_loop :: "u32 list \<Rightarrow> nat \<Rightarrow> u32 \<Rightarrow> u32 \<Rightarrow> u32 \<Rightarrow> u32 \<times> u32" where
  "tea_dec_loop k 0 sm y z = (y, z)"
| "tea_dec_loop k (Suc n) sm y z =
     (let z = z - tea_g k sm y;
          y = y - tea_f k sm z;
          sm = sm - TEA_DELTA
      in tea_dec_loop k n sm y z)"

definition tea_encrypt :: "u32 list \<Rightarrow> bytes \<Rightarrow> bytes" where
  "tea_encrypt k src =
     (case tea_enc_loop k 32 0 (get_le32 src) (get_le32 (drop 4 src)) of
        (y, z) \<Rightarrow> put_le32 y @ put_le32 z)"

definition tea_decrypt :: "u32 list \<Rightarrow> bytes \<Rightarrow> bytes" where
  "tea_decrypt k src =
     (case tea_dec_loop k 32 (push_bit 5 TEA_DELTA) (get_le32 src) (get_le32 (drop 4 src)) of
        (y, z) \<Rightarrow> put_le32 y @ put_le32 z)"

lemma tea_dec_loop_snoc:
  "tea_dec_loop k (Suc n) sm y z =
     (case tea_dec_loop k n sm y z of (y, z) \<Rightarrow> tea_dec_loop k 1 (sm - of_nat n * TEA_DELTA) y z)"
proof (induction n arbitrary: sm y z)
  case (Suc n)
  have s: "sm - TEA_DELTA - of_nat n * TEA_DELTA = sm - of_nat (Suc n) * TEA_DELTA"
    by (simp add: algebra_simps)
  let ?z = "z - tea_g k sm y"
  let ?y = "y - tea_f k sm ?z"
  have "tea_dec_loop k (Suc (Suc n)) sm y z = tea_dec_loop k (Suc n) (sm - TEA_DELTA) ?y ?z"
    by (simp only: tea_dec_loop.simps Let_def)
  also have "\<dots> = (case tea_dec_loop k n (sm - TEA_DELTA) ?y ?z of (y, z) \<Rightarrow>
      tea_dec_loop k 1 (sm - TEA_DELTA - of_nat n * TEA_DELTA) y z)" by (rule Suc.IH)
  finally show ?case unfolding s by (simp only: tea_dec_loop.simps Let_def)
qed simp

lemma tea_loop_inverse:
  "(case tea_enc_loop k n sm y z of (y', z') \<Rightarrow>
      tea_dec_loop k n (sm + of_nat n * TEA_DELTA) y' z') = (y, z)"
proof (induction n arbitrary: sm y z)
  case (Suc n)
  let ?s = "sm + TEA_DELTA"
  let ?y = "y + tea_f k ?s z"
  let ?z = "z + tea_g k ?s ?y"
  have s: "sm + of_nat (Suc n) * TEA_DELTA = ?s + of_nat n * TEA_DELTA" by (simp add: algebra_simps)
  have e: "tea_enc_loop k (Suc n) sm y z = tea_enc_loop k n ?s ?y ?z" by (simp add: Let_def)
  obtain a b where ab: "tea_enc_loop k n ?s ?y ?z = (a, b)" by (cases "tea_enc_loop k n ?s ?y ?z")
  have "tea_dec_loop k n (?s + of_nat n * TEA_DELTA) a b = (?y, ?z)"
    using Suc.IH [of ?s ?y ?z] ab by simp
  then show ?case unfolding e ab s prod.case tea_dec_loop_snoc [of k n] by (simp add: Let_def)
qed simp

section \<open>XTEA and XETA\<close>

text \<open>
  The two loops \<open>while (sm != limit)\<close> and \<open>while (sm)\<close>, for the round function of each half.
\<close>

partial_function (option) xtea_up_loop ::
    "(u32 \<Rightarrow> u32 \<Rightarrow> u32) \<Rightarrow> (u32 \<Rightarrow> u32 \<Rightarrow> u32) \<Rightarrow> u32 \<Rightarrow> u32 \<Rightarrow> u32 \<Rightarrow> u32 \<Rightarrow> (u32 \<times> u32) option" where
  "xtea_up_loop f g limit sm y z =
     (if sm \<noteq> limit then
        (let y = y + f sm z; sm = sm + XTEA_DELTA; z = z + g sm y in
         xtea_up_loop f g limit sm y z)
      else Some (y, z))"

partial_function (option) xtea_down_loop ::
    "(u32 \<Rightarrow> u32 \<Rightarrow> u32) \<Rightarrow> (u32 \<Rightarrow> u32 \<Rightarrow> u32) \<Rightarrow> u32 \<Rightarrow> u32 \<Rightarrow> u32 \<Rightarrow> (u32 \<times> u32) option" where
  "xtea_down_loop f g sm y z =
     (if sm \<noteq> 0 then
        (let z = z - g sm y; sm = sm - XTEA_DELTA; y = y - f sm z in
         xtea_down_loop f g sm y z)
      else Some (y, z))"

definition xtea_f :: "u32 list \<Rightarrow> u32 \<Rightarrow> u32 \<Rightarrow> u32" where
  "xtea_f key sm z = ((push_bit 4 z XOR drop_bit 5 z) + z) XOR (sm + key ! unat (sm AND 3))"

definition xtea_g :: "u32 list \<Rightarrow> u32 \<Rightarrow> u32 \<Rightarrow> u32" where
  "xtea_g key sm y =
     ((push_bit 4 y XOR drop_bit 5 y) + y) XOR (sm + key ! unat (drop_bit 11 sm AND 3))"

definition xeta_f :: "u32 list \<Rightarrow> u32 \<Rightarrow> u32 \<Rightarrow> u32" where
  "xeta_f key sm z = (push_bit 4 z XOR drop_bit 5 z) + (z XOR sm) + key ! unat (sm AND 3)"

definition xeta_g :: "u32 list \<Rightarrow> u32 \<Rightarrow> u32 \<Rightarrow> u32" where
  "xeta_g key sm y =
     (push_bit 4 y XOR drop_bit 5 y) + (y XOR sm) + key ! unat (drop_bit 11 sm AND 3)"

definition store_pair :: "(u32 \<times> u32) option \<Rightarrow> bytes option" where
  "store_pair r = map_option (\<lambda>(y, z). put_le32 y @ put_le32 z) r"

definition xtea_encrypt :: "u32 list \<Rightarrow> bytes \<Rightarrow> bytes option" where
  "xtea_encrypt key src = store_pair
     (xtea_up_loop (xtea_f key) (xtea_g key) (XTEA_DELTA * 32) 0 (get_le32 src) (get_le32 (drop 4 src)))"

definition xtea_decrypt :: "u32 list \<Rightarrow> bytes \<Rightarrow> bytes option" where
  "xtea_decrypt key src = store_pair
     (xtea_down_loop (xtea_f key) (xtea_g key) (XTEA_DELTA * 32) (get_le32 src) (get_le32 (drop 4 src)))"

definition xeta_encrypt :: "u32 list \<Rightarrow> bytes \<Rightarrow> bytes option" where
  "xeta_encrypt key src = store_pair
     (xtea_up_loop (xeta_f key) (xeta_g key) (XTEA_DELTA * 32) 0 (get_le32 src) (get_le32 (drop 4 src)))"

definition xeta_decrypt :: "u32 list \<Rightarrow> bytes \<Rightarrow> bytes option" where
  "xeta_decrypt key src = store_pair
     (xtea_down_loop (xeta_f key) (xeta_g key) (XTEA_DELTA * 32) (get_le32 src) (get_le32 (drop 4 src)))"

text \<open>The rounds as a counted loop: \<open>n\<close> rounds from the sm after \<open>m\<close> rounds.\<close>

fun xtea_rounds :: "(u32 \<Rightarrow> u32 \<Rightarrow> u32) \<Rightarrow> (u32 \<Rightarrow> u32 \<Rightarrow> u32) \<Rightarrow> nat \<Rightarrow> nat \<Rightarrow> u32 \<Rightarrow> u32 \<Rightarrow> u32 \<times> u32" where
  "xtea_rounds f g m 0 y z = (y, z)"
| "xtea_rounds f g m (Suc n) y z =
     (let y = y + f (of_nat m * XTEA_DELTA) z; z = z + g (of_nat (Suc m) * XTEA_DELTA) y in
      xtea_rounds f g (Suc m) n y z)"

lemma xtea_sum_distinct: "m < 32 \<Longrightarrow> of_nat m * XTEA_DELTA \<noteq> XTEA_DELTA * 32"
  "0 < m \<Longrightarrow> m \<le> 32 \<Longrightarrow> of_nat m * XTEA_DELTA \<noteq> 0"
proof -
  have a: "\<forall>m \<in> set [0..<32]. of_nat m * XTEA_DELTA \<noteq> XTEA_DELTA * 32"
    and b: "\<forall>m \<in> set [1..<33]. of_nat m * XTEA_DELTA \<noteq> 0"
    by (simp_all add: XTEA_DELTA_def upt_rec)
  show "m < 32 \<Longrightarrow> of_nat m * XTEA_DELTA \<noteq> XTEA_DELTA * 32" using a by auto
  show "0 < m \<Longrightarrow> m \<le> 32 \<Longrightarrow> of_nat m * XTEA_DELTA \<noteq> 0" using b by auto
qed

lemma xtea_up_loop_rounds:
  "m + n = 32 \<Longrightarrow> xtea_up_loop f g (XTEA_DELTA * 32) (of_nat m * XTEA_DELTA) y z =
     Some (xtea_rounds f g m n y z)"
proof (induction n arbitrary: m y z)
  case 0
  then show ?case by (subst xtea_up_loop.simps) (simp add: mult.commute)
next
  case (Suc n)
  have s: "of_nat m * XTEA_DELTA + XTEA_DELTA = of_nat (Suc m) * XTEA_DELTA" by (simp add: algebra_simps)
  have "of_nat m * XTEA_DELTA \<noteq> XTEA_DELTA * 32" using Suc.prems by (intro xtea_sum_distinct) simp
  with Suc.IH [of "Suc m"] Suc.prems show ?case
    by (subst xtea_up_loop.simps) (simp add: Let_def s del: of_nat_Suc)
qed

lemma xtea_down_loop_rounds:
  "m \<le> 32 \<Longrightarrow> xtea_down_loop f g (of_nat m * XTEA_DELTA) y z =
     Some (y', z') \<Longrightarrow> m + n \<le> 32 \<Longrightarrow>
   (case xtea_rounds f g m n y z of (a, b) \<Rightarrow>
      xtea_down_loop f g (of_nat (m + n) * XTEA_DELTA) a b) = Some (y', z')"
proof (induction n arbitrary: m y z)
  case (Suc n)
  let ?s = "of_nat (Suc m) * XTEA_DELTA"
  let ?y = "y + f (of_nat m * XTEA_DELTA) z"
  let ?z = "z + g ?s ?y"
  have "?s \<noteq> 0" using Suc.prems by (intro xtea_sum_distinct) simp_all
  moreover have "?s - XTEA_DELTA = of_nat m * XTEA_DELTA" by (simp add: algebra_simps)
  ultimately have "xtea_down_loop f g ?s ?y ?z = Some (y', z')"
    using Suc.prems(2) by (subst xtea_down_loop.simps) (simp add: Let_def del: of_nat_Suc)
  with Suc.IH [of "Suc m" ?y ?z] Suc.prems show ?case by (simp add: Let_def del: of_nat_Suc)
qed simp

lemma xtea_loops_inverse:
  "\<exists>a b. xtea_up_loop f g (XTEA_DELTA * 32) 0 y z = Some (a, b) \<and>
     xtea_down_loop f g (XTEA_DELTA * 32) a b = Some (y, z)"
proof -
  obtain a b where ab: "xtea_rounds f g 0 32 y z = (a, b)" by (cases "xtea_rounds f g 0 32 y z")
  have "xtea_down_loop f g (of_nat 0 * XTEA_DELTA) y z = Some (y, z)"
    by (subst xtea_down_loop.simps) simp
  from xtea_down_loop_rounds [OF _ this, of 32] ab
  have "xtea_down_loop f g (XTEA_DELTA * 32) a b = Some (y, z)" by (simp add: mult.commute)
  with xtea_up_loop_rounds [of 0 32 f g y z] ab show ?thesis by simp
qed

section \<open>The ciphers meet the interface\<close>

lemma tea_inverse: "length b = 8 \<Longrightarrow> tea_decrypt k (tea_encrypt k b) = b"
  using tea_loop_inverse [of k 32 0 "get_le32 b" "get_le32 (drop 4 b)"] le32_pair_roundtrip [of b]
  by (simp add: tea_encrypt_def tea_decrypt_def TEA_DELTA_def split: prod.splits)

lemma length_tea [simp]: "length (tea_encrypt k b) = 8" "length (tea_decrypt k b) = 8"
  by (simp_all add: tea_encrypt_def tea_decrypt_def split: prod.splits)

interpretation tea: block_cipher 8 "tea_encrypt k" "tea_decrypt k" for k
  by unfold_locales (simp_all add: tea_inverse)

lemma xtea_pair_inverse:
  assumes "length b = 8"
  shows "\<exists>c. store_pair (xtea_up_loop f g (XTEA_DELTA * 32) 0 (get_le32 b) (get_le32 (drop 4 b))) = Some c \<and>
    length c = 8 \<and>
    store_pair (xtea_down_loop f g (XTEA_DELTA * 32) (get_le32 c) (get_le32 (drop 4 c))) = Some b"
  using xtea_loops_inverse [of f g "get_le32 b" "get_le32 (drop 4 b)"] le32_pair_roundtrip [OF assms]
  by (auto simp: store_pair_def)

text \<open>
  For every key, TEA decryption undoes TEA encryption on every 8-byte block; the XTEA and
  XETA loops, which run until the round sum equals its limit, terminate, and their decryptions
  undo their encryptions.
\<close>

theorem tea_family_roundtrip:
  assumes "length b = 8"
  shows "tea_decrypt k (tea_encrypt k b) = b \<and>
    (\<exists>c. xtea_encrypt k b = Some c \<and> length c = 8 \<and> xtea_decrypt k c = Some b) \<and>
    (\<exists>c. xeta_encrypt k b = Some c \<and> length c = 8 \<and> xeta_decrypt k c = Some b)"
  using tea_inverse [OF assms] xtea_pair_inverse [OF assms]
  by (simp add: xtea_encrypt_def xtea_decrypt_def xeta_encrypt_def xeta_decrypt_def)

lemma tea_family_roundtrip_witness:
  "tea_decrypt [1, 2, 3, 4] (tea_encrypt [1, 2, 3, 4] (replicate 8 7)) = replicate 8 7 \<and>
    (\<exists>c. xtea_encrypt [1, 2, 3, 4] (replicate 8 7) = Some c \<and> length c = 8 \<and>
      xtea_decrypt [1, 2, 3, 4] c = Some (replicate 8 7)) \<and>
    (\<exists>c. xeta_encrypt [1, 2, 3, 4] (replicate 8 7) = Some c \<and> length c = 8 \<and>
      xeta_decrypt [1, 2, 3, 4] c = Some (replicate 8 7))"
  by (rule tea_family_roundtrip) simp

interpretation tea_fun: block_fun 8 "tea_encrypt k" for k
  by (rule tea.block_fun_axioms)

end
