(* ===== verification/Ecb.thy ===== *)
theory Ecb
  imports SkcipherWalk Tea
begin

text \<open>
  ECB (\<open>kernel-crypto/ecb.c\<close>) and the two drivers of \<open>kernel-crypto/lskcipher.c\<close> it runs under:
  the one over a scatterlist and the one that copies misaligned linear data through a page.
  A cipher is its block size and its function on one block, with the key set.
\<close>

section \<open>The drivers of linear ciphers\<close>

text \<open>
  A linear cipher's operation: from the IV (and state), the source and the flags
  \<open>CRYPTO_LSKCIPHER_FLAG_CONT\<close> and \<open>CRYPTO_LSKCIPHER_FLAG_FINAL\<close>, the new IV, the output, and an error
  or the bytes not processed.
\<close>

type_synonym lskcipher_crypt = "bytes \<Rightarrow> bytes \<Rightarrow> bool \<Rightarrow> bool \<Rightarrow> bytes \<times> bytes \<times> (errno + nat)"

definition lskcipher_chunk :: "nat \<Rightarrow> nat \<Rightarrow> nat" where
  "lskcipher_chunk cs len =
     (let chunk = min PAGE_SIZE len in if cs < chunk then chunk - chunk mod cs else chunk)"

lemma lskcipher_chunk_bounds:
  assumes "0 < cs" "0 < len"
  shows "0 < lskcipher_chunk cs len" "lskcipher_chunk cs len \<le> len" "lskcipher_chunk cs len \<le> PAGE_SIZE"
proof -
  let ?c = "min PAGE_SIZE len"
  have "0 < ?c" using assms by (simp add: PAGE_SIZE_def)
  moreover have "?c mod cs < ?c" if "cs < ?c" using assms(1) that by (meson less_trans mod_less_divisor)
  ultimately show "0 < lskcipher_chunk cs len"
    by (auto simp: lskcipher_chunk_def Let_def simp del: min_less_iff_conj)
qed (auto simp: lskcipher_chunk_def Let_def)

lemma lskcipher_chunk_dvd:
  "cs \<le> len \<Longrightarrow> cs \<le> PAGE_SIZE \<Longrightarrow> cs dvd lskcipher_chunk cs len"
  by (auto simp: lskcipher_chunk_def Let_def dvd_minus_mod min_def)

text \<open>The loop of \<open>crypto_lskcipher_crypt_unaligned\<close>; the error is the outer \<open>err\<close>, see below.\<close>

function unaligned_loop :: "lskcipher_crypt \<Rightarrow> nat \<Rightarrow> nat \<Rightarrow> bytes \<Rightarrow> bytes \<Rightarrow> bytes \<Rightarrow>
    errno option \<times> bytes \<times> bytes" where
  "unaligned_loop crypt bs cs tiv src dst =
     (if bs = 0 \<or> cs = 0 \<or> length src < bs then
        (if src \<noteq> [] then Some EINVAL else None, tiv, dst)
      else
        (let chunk = lskcipher_chunk cs (length src) in
         case crypt tiv (take chunk src) False True of (tiv', out, res) \<Rightarrow>
           if res \<noteq> Inr 0 then (Some ENOMEM, tiv', dst)
           else unaligned_loop crypt bs cs tiv' (drop chunk src) (dst @ out)))"
  by pat_completeness auto

text \<open>
  The rounding of a chunk is \<open>chunk & ~(cs - 1)\<close> in the code, for a power of two \<open>cs\<close>. When an
  allocation fails or \<open>crypt\<close> returns an error the code jumps to \<open>out\<close> with the outer \<open>err\<close>,
  which then holds \<open>-ENOMEM\<close>: the error of \<open>crypt\<close> is in a variable of the loop's own scope.
\<close>

termination
proof (relation "measure (\<lambda>(c, bs, cs, tiv, src, dst). length src)", goal_cases)
  case (2 crypt bs cs tiv src dst)
  then have "0 < length src" "0 < cs" by auto
  with 2 lskcipher_chunk_bounds(1) [of cs "length src"] show ?case
    by (simp del: length_greater_0_conv)
qed simp

declare unaligned_loop.simps [simp del]

definition crypto_lskcipher_crypt_unaligned :: "lskcipher_crypt \<Rightarrow> nat \<Rightarrow> nat \<Rightarrow> bool \<Rightarrow> bool \<Rightarrow>
    bytes \<Rightarrow> bytes \<Rightarrow> errno option \<times> bytes \<times> bytes" where
  "crypto_lskcipher_crypt_unaligned crypt bs cs tiv_alloc p_alloc iv src =
     (if \<not> tiv_alloc \<or> \<not> p_alloc then (Some ENOMEM, iv, [])
      else unaligned_loop crypt bs cs iv src [])"

definition crypto_lskcipher_crypt :: "lskcipher_crypt \<Rightarrow> nat \<Rightarrow> nat \<Rightarrow> bool \<Rightarrow> bool \<Rightarrow> bool \<Rightarrow>
    bytes \<Rightarrow> bytes \<Rightarrow> errno option \<times> bytes \<times> bytes" where
  "crypto_lskcipher_crypt crypt bs cs unaligned tiv_alloc p_alloc iv src =
     (if unaligned then crypto_lskcipher_crypt_unaligned crypt bs cs tiv_alloc p_alloc iv src
      else (case crypt iv src False True of (iv', out, res) \<Rightarrow>
        ((case res of Inl e \<Rightarrow> Some e | Inr _ \<Rightarrow> None), iv', out)))"

text \<open>
  \<open>crypto_lskcipher_crypt_sg\<close>: the final flag only on the chunk that is all that is left, and on a
  request that is itself final.
\<close>

definition crypto_lskcipher_crypt_sg :: "lskcipher_crypt \<Rightarrow> nat \<Rightarrow> layout \<Rightarrow> bool \<Rightarrow> bool \<Rightarrow>
    bytes \<Rightarrow> bytes \<Rightarrow> (errno option \<times> bytes \<times> bytes) option" where
  "crypto_lskcipher_crypt_sg crypt bsize env req_cont req_notfinal iv data =
     (case skcipher_walk 1
        (\<lambda>w (ivs, cont) chunk.
           case crypt ivs chunk cont (\<not> req_notfinal \<and> wk_nbytes w = wk_total w) of
             (ivs', out, res) \<Rightarrow> ((ivs', True), out, res))
        bsize bsize env (iv, req_cont) data of
        None \<Rightarrow> None
      | Some (err, w, (ivs, cont), out, rest) \<Rightarrow> Some (err, ivs, out))"

section \<open>ECB\<close>

definition crypto_ecb_crypt :: "nat \<Rightarrow> (bytes \<Rightarrow> bytes) \<Rightarrow> lskcipher_crypt" where
  "crypto_ecb_crypt bsize fn iv src cont final =
     (case block_loop bsize (\<lambda>iv blk. (iv, fn blk)) iv src of (iv', out, nbytes) \<Rightarrow>
        (iv', out, if nbytes \<noteq> 0 \<and> final then Inl EINVAL else Inr nbytes))"

definition ecb_sg :: "nat \<Rightarrow> (bytes \<Rightarrow> bytes) \<Rightarrow> layout \<Rightarrow> bytes \<Rightarrow> (errno option \<times> bytes \<times> bytes) option" where
  "ecb_sg bsize fn env data = crypto_lskcipher_crypt_sg (crypto_ecb_crypt bsize fn) bsize env False False [] data"

section \<open>Whole blocks\<close>

text \<open>The blocks of a message, each through \<open>fn\<close>.\<close>

fun map_blocks :: "nat \<Rightarrow> (bytes \<Rightarrow> bytes) \<Rightarrow> nat \<Rightarrow> bytes \<Rightarrow> bytes" where
  "map_blocks b fn 0 src = []"
| "map_blocks b fn (Suc n) src = fn (take b src) @ map_blocks b fn n (drop b src)"

lemma block_loop_const_iv:
  "0 < b \<Longrightarrow> length src = n * b + r \<Longrightarrow> r < b \<Longrightarrow>
     block_loop b (\<lambda>iv blk. (iv, fn blk)) iv src = (iv, map_blocks b fn n src, r)"
  by (induction n arbitrary: src) (simp_all add: block_loop_step)

lemma length_map_blocks:
  "(\<And>blk. length blk = b \<Longrightarrow> length (fn blk) = b) \<Longrightarrow> n * b \<le> length src \<Longrightarrow>
     length (map_blocks b fn n src) = n * b"
  by (induction n arbitrary: src) simp_all

lemma map_blocks_take: "map_blocks b fn n (take (n * b) src) = map_blocks b fn n src"
proof (induction n arbitrary: src)
  case (Suc n)
  then show ?case by (simp add: drop_take)
qed simp

lemma map_blocks_add:
  "map_blocks b fn (m + n) src = map_blocks b fn m src @ map_blocks b fn n (drop (m * b) src)"
  by (induction m arbitrary: src) (simp_all add: add.commute)

lemma map_blocks_inverse:
  assumes "\<And>blk. length blk = b \<Longrightarrow> length (fn blk) = b \<and> gn (fn blk) = blk"
  shows "n * b \<le> length src \<Longrightarrow> map_blocks b gn n (map_blocks b fn n src) = take (n * b) src"
proof (induction n arbitrary: src)
  case (Suc n)
  then have l: "length (take b src) = b" by simp
  with assms [OF this] Suc show ?case by (simp add: take_add)
qed simp

section \<open>ECB over a scatterlist\<close>

lemma block_loop_ecb_cont:
  assumes "0 < b"
  shows "b \<le> length src \<Longrightarrow> block_loop b (\<lambda>(iv, c) blk. ((iv, True), fn blk)) (iv, c) src =
    ((iv, True), fst (snd (block_loop b (\<lambda>iv blk. (iv, fn blk)) iv src)), length src mod b)"
proof (induction src arbitrary: c rule: length_induct)
  case (1 src)
  let ?g = "\<lambda>(iv, c) blk. ((iv, True), fn blk)" and ?h = "\<lambda>iv blk. (iv, fn blk)"
  show ?case
  proof (cases "b \<le> length (drop b src)")
    case True
    with 1 assms have "block_loop b ?g (iv, True) (drop b src) =
        ((iv, True), fst (snd (block_loop b ?h iv (drop b src))), length (drop b src) mod b)" by auto
    with 1 assms show ?thesis by (simp add: block_loop_step le_mod_geq split: prod.splits)
  next
    case False
    with 1 assms show ?thesis by (simp add: block_loop_step le_mod_geq)
  qed
qed

context block_cipher
begin

lemma ecb_mode:
  assumes "\<And>blk. length blk = bsize \<Longrightarrow> length (fn blk) = bsize"
  shows "block_mode bsize bsize 1 True (\<lambda>(iv, c) blk. ((iv, True), fn blk))
    (\<lambda>w (ivs, cont) chunk.
           case crypto_ecb_crypt bsize fn ivs chunk cont (\<not> False \<and> wk_nbytes w = wk_total w) of
             (ivs', out, res) \<Rightarrow> ((ivs', True), out, res))"
proof
  fix src :: bytes and w :: walk and iv :: "bytes \<times> bool"
  assume l: "bsize \<le> length src" "length src = wk_nbytes w"
  obtain v c where iv: "iv = (v, c)" by fastforce
  obtain n where "length src = n * bsize + length src mod bsize" by (metis div_mult_mod_eq)
  with bsize_pos have b: "block_loop bsize (\<lambda>iv blk. (iv, fn blk)) v src =
      (v, map_blocks bsize fn n src, length src mod bsize)"
    by (intro block_loop_const_iv) simp_all
  show "(case iv of (ivs, cont) \<Rightarrow> \<lambda>chunk.
           case crypto_ecb_crypt bsize fn ivs chunk cont (\<not> False \<and> wk_nbytes w = wk_total w) of
             (ivs', out, res) \<Rightarrow> ((ivs', True), out, res)) src =
      (case block_loop bsize (\<lambda>(iv, c) blk. ((iv, True), fn blk)) iv src of (iv', out, left) \<Rightarrow>
         (iv', out, if left \<noteq> 0 \<and> True \<and> wk_nbytes w = wk_total w then Inl EINVAL else Inr left))"
    using l b bsize_pos by (simp add: iv block_loop_ecb_cont crypto_ecb_crypt_def)
qed (use bsize_pos bsize_page assms in \<open>auto simp: PAGE_SIZE_def\<close>)

lemma ecb_sg_flat:
  assumes "\<And>blk. length blk = bsize \<Longrightarrow> length (fn blk) = bsize"
  shows "\<exists>err v out. ecb_sg bsize fn env data = Some (err, v, out) \<and>
    (err = Some ENOMEM \<or>
     (out = map_blocks bsize fn (length data div bsize) data \<and>
      err = (if bsize dvd length data then None else Some EINVAL))) \<and>
    (allocates env \<longrightarrow> err \<noteq> Some ENOMEM)"
proof -
  let ?f = "\<lambda>w (ivs, cont) chunk.
      case crypto_ecb_crypt bsize fn ivs chunk cont (\<not> False \<and> wk_nbytes w = wk_total w) of
        (ivs', out, res) \<Rightarrow> ((ivs', True), out, res)"
  let ?n = "length data div bsize" and ?h = "\<lambda>iv blk. (iv, fn blk)"
  have k: "length data - length data mod bsize = ?n * bsize" by (metis minus_mod_eq_div_mult)
  obtain err w iv' out rest where r: "skcipher_walk 1 ?f bsize bsize env ([], False) data =
      Some (err, w, iv', out, rest)"
    "err \<noteq> Some ENOMEM \<Longrightarrow> block_loop bsize (\<lambda>(iv, c) blk. ((iv, True), fn blk)) ([], False)
        (take (?n * bsize) data) = (iv', out, 0)"
    "err \<noteq> Some ENOMEM \<Longrightarrow> err = (if bsize = bsize \<and> length data mod bsize \<noteq> 0 then Some EINVAL else None)"
    "allocates env \<Longrightarrow> err \<noteq> Some ENOMEM"
    by (rule block_mode.walk_flatE [OF ecb_mode [where fn = fn, OF assms],
          where env = env and iv = "([], False)" and data = data, unfolded k]) (assumption, rule that)
  have "ecb_sg bsize fn env data = Some (err, fst iv', out)"
    using r(1) by (simp add: ecb_sg_def crypto_lskcipher_crypt_sg_def split: prod.splits)
  moreover have "out = map_blocks bsize fn ?n data" if "err \<noteq> Some ENOMEM"
  proof (cases "?n = 0")
    case True
    with r(2) [OF that] bsize_pos show ?thesis by simp
  next
    case False
    then have "bsize \<le> length (take (?n * bsize) data)" by (simp add: div_times_less_eq_dividend)
    moreover have "length (take (?n * bsize) data) = ?n * bsize + 0" by simp
    ultimately show ?thesis
      using r(2) [OF that] block_loop_ecb_cont [OF bsize_pos, of "take (?n * bsize) data" fn "[] :: bytes" False]
        block_loop_const_iv [OF bsize_pos, of "take (?n * bsize) data" ?n 0 fn "[] :: bytes"] bsize_pos
      by (auto simp: map_blocks_take)
  qed
  ultimately show ?thesis
    using r(3,4) by (auto simp: dvd_eq_mod_eq_0)
qed

text \<open>The copying driver for misaligned data does what the direct call does.\<close>

lemma ecb_unaligned_loop:
  assumes "\<And>blk. length blk = bsize \<Longrightarrow> length (fn blk) = bsize"
  shows "unaligned_loop (crypto_ecb_crypt bsize fn) bsize bsize iv src dst =
    (if bsize dvd length src then None else Some EINVAL, iv,
     dst @ map_blocks bsize fn (length src div bsize) src)"
proof (induction src arbitrary: dst rule: length_induct)
  case (1 src)
  show ?case
  proof (cases "length src < bsize")
    case True
    then have "bsize dvd length src \<longleftrightarrow> src = []" by (auto dest: dvd_imp_le)
    with True show ?thesis by (subst unaligned_loop.simps) simp
  next
    case False
    let ?c = "lskcipher_chunk bsize (length src)" let ?q = "?c div bsize"
    from False bsize_pos have "0 < length src" by (cases src) auto
    with False bsize_pos have c: "0 < ?c" "?c \<le> length src" "bsize dvd ?c"
      using lskcipher_chunk_bounds [of bsize "length src"] lskcipher_chunk_dvd [of bsize "length src"] bsize_page
      by (simp_all add: PAGE_SIZE_def)
    then have q: "?q * bsize = ?c" by simp
    have b: "block_loop bsize (\<lambda>iv blk. (iv, fn blk)) iv (take ?c src) = (iv, map_blocks bsize fn ?q src, 0)"
      using block_loop_const_iv [OF bsize_pos, of "take ?c src" ?q 0 fn iv] c
        map_blocks_take [of bsize fn ?q src] bsize_pos
      by (simp add: min_absorb2)
    have "length (drop ?c src) < length src" using c by simp
    with 1 have "unaligned_loop (crypto_ecb_crypt bsize fn) bsize bsize iv (drop ?c src)
        (dst @ map_blocks bsize fn ?q src) =
      (if bsize dvd length (drop ?c src) then None else Some EINVAL, iv,
       (dst @ map_blocks bsize fn ?q src) @
         map_blocks bsize fn (length (drop ?c src) div bsize) (drop ?c src))"
      by blast
    moreover have "bsize dvd length (drop ?c src) \<longleftrightarrow> bsize dvd length src"
      using c by (metis dvd_add_right_iff le_add_diff_inverse length_drop)
    moreover have "?q + length (drop ?c src) div bsize = length src div bsize"
      using div_plus_div_distrib_dvd_left [OF c(3), of "length src - ?c"] c(2) by simp
    then have "map_blocks bsize fn ?q src @ map_blocks bsize fn (length (drop ?c src) div bsize) (drop ?c src) =
        map_blocks bsize fn (length src div bsize) src"
      using map_blocks_add [of bsize fn ?q "length (drop ?c src) div bsize" src] q by simp
    ultimately show ?thesis
      using False bsize_pos b
      by (subst unaligned_loop.simps) (simp add: Let_def crypto_ecb_crypt_def)
  qed
qed

end

text \<open>
  For ECB with any block cipher the driver that copies misaligned data page by page computes
  what the direct call computes, error and partial output included.
\<close>

theorem ecb_unaligned_equivalent:
  assumes "block_cipher n enc dec"
  shows "crypto_lskcipher_crypt (crypto_ecb_crypt n enc) n n True True True iv src =
    crypto_lskcipher_crypt (crypto_ecb_crypt n enc) n n False True True iv src"
proof -
  have enc: "length blk = n \<Longrightarrow> length (enc blk) = n" and n: "0 < n" for blk
    using assms by (simp_all add: block_cipher_def block_fun_def block_cipher_axioms_def)
  have "block_loop n (\<lambda>iv blk. (iv, enc blk)) iv src =
      (iv, map_blocks n enc (length src div n) src, length src mod n)"
    using n by (intro block_loop_const_iv) simp_all
  then show ?thesis
    using block_cipher.ecb_unaligned_loop [OF assms, of enc iv src "[]"] enc
    by (simp add: crypto_lskcipher_crypt_def crypto_lskcipher_crypt_unaligned_def crypto_ecb_crypt_def
        dvd_eq_mod_eq_0)
qed

theorem ecb_unaligned_equivalent_witness:
  "crypto_lskcipher_crypt (crypto_ecb_crypt 8 (tea_encrypt [1, 2, 3, 4])) 8 8 True True True [] (replicate 12 65) =
   crypto_lskcipher_crypt (crypto_ecb_crypt 8 (tea_encrypt [1, 2, 3, 4])) 8 8 False True True [] (replicate 12 65)"
  by (rule ecb_unaligned_equivalent [OF tea.block_cipher_axioms])

text \<open>
  An error of the cipher on misaligned data is lost: when the first chunk fails with any error,
  the copying driver returns \<open>-ENOMEM\<close>, where the direct call on that chunk returns the error.
\<close>

theorem lskcipher_unaligned_loses_error:
  assumes "0 < bs" "0 < cs" "bs \<le> length src"
    and "crypt iv (take (lskcipher_chunk cs (length src)) src) False True = (iv', out, Inl e)"
  shows "fst (crypto_lskcipher_crypt crypt bs cs True True True iv src) = Some ENOMEM \<and>
    fst (crypto_lskcipher_crypt crypt bs cs False True True iv
      (take (lskcipher_chunk cs (length src)) src)) = Some e"
  using assms
  by (simp add: crypto_lskcipher_crypt_def crypto_lskcipher_crypt_unaligned_def unaligned_loop.simps Let_def)

theorem lskcipher_unaligned_loses_error_witness:
  "fst (crypto_lskcipher_crypt (\<lambda>iv src cont final. (iv, [], Inl ENOKEY)) 8 8 True True True [] (replicate 8 0)) =
     Some ENOMEM"
  using lskcipher_unaligned_loses_error [of 8 8 "replicate 8 0" "\<lambda>iv src cont final. (iv, [], Inl ENOKEY)"
      "[]" "[]" "[]" ENOKEY] by simp

text \<open>
  ECB over scatterlists, for any block cipher: whatever the two layouts, and with memory for
  the bounce buffer, encryption ends with success on a message of whole blocks and with \<open>-EINVAL\<close>
  on any other, having encrypted the whole blocks, and decryption of its output over another layout
  succeeds and gives those blocks back.
\<close>

theorem ecb_sg_roundtrip:
  assumes "block_cipher n enc dec" "allocates env" "allocates env'"
  shows "\<exists>c v v'. ecb_sg n enc env data =
      Some (if n dvd length data then None else Some EINVAL, v, c) \<and>
    ecb_sg n dec env' c = Some (None, v', take (length data - length data mod n) data)"
proof -
  have enc: "length blk = n \<Longrightarrow> length (enc blk) = n \<and> dec (enc blk) = blk"
    and dec: "length blk = n \<Longrightarrow> length (dec blk) = n" for blk
    using assms(1) by (simp_all add: block_cipher_def block_fun_def block_cipher_axioms_def)
  let ?q = "length data div n" let ?c = "map_blocks n enc ?q data"
  obtain v where c: "ecb_sg n enc env data = Some (if n dvd length data then None else Some EINVAL, v, ?c)"
    using block_cipher.ecb_sg_flat [OF assms(1), of enc env data] enc assms(2) by auto
  have lc: "length ?c = ?q * n" using length_map_blocks [of n enc ?q data] enc by simp
  obtain v' where "ecb_sg n dec env' ?c = Some (None, v', map_blocks n dec (length ?c div n) ?c)"
    using block_cipher.ecb_sg_flat [OF assms(1), of dec env' ?c] dec lc assms(3)
    by (auto split: if_splits)
  moreover have "map_blocks n dec (length ?c div n) ?c = take (length data - length data mod n) data"
    using lc enc map_blocks_inverse [of n enc dec ?q data] by (cases "n = 0") (simp_all add: minus_mod_eq_div_mult)
  ultimately show ?thesis using c by auto
qed

theorem ecb_sg_roundtrip_witness:
  "\<exists>c v v'. ecb_sg 8 (tea_encrypt [1, 2, 3, 4]) ragged (replicate 27 65) = Some (Some EINVAL, v, c) \<and>
    ecb_sg 8 (tea_decrypt [1, 2, 3, 4]) ragged c = Some (None, v', replicate 24 65)"
  using ecb_sg_roundtrip [OF tea.block_cipher_axioms ragged_allocates ragged_allocates,
      of "[1, 2, 3, 4]" "replicate 27 65"]
  by (simp add: take_replicate)

text \<open>The mode on TEA, in the direction of encryption.\<close>

interpretation tea_ecb: block_mode 8 8 1 True "\<lambda>(iv, c) blk. ((iv, True), tea_encrypt k blk)"
  "\<lambda>w (ivs, cont) chunk.
    case crypto_ecb_crypt 8 (tea_encrypt k) ivs chunk cont (\<not> False \<and> wk_nbytes w = wk_total w) of
      (ivs', out, res) \<Rightarrow> ((ivs', True), out, res)" for k
  by (rule tea.ecb_mode [OF tea.length_enc])

end
