(* ===== verification/Pcbc.thy ===== *)
theory Pcbc
  imports SkcipherWalk Tea
begin

text \<open>
  PCBC (\<open>kernel-crypto/pcbc.c\<close>) over any block cipher: the loops on one chunk of the walk, with
  separate buffers and in place, and the requests.
\<close>

definition crypto_pcbc_encrypt_segment :: "nat \<Rightarrow> (bytes \<Rightarrow> bytes) \<Rightarrow> bytes \<Rightarrow> bytes \<Rightarrow> bytes \<times> bytes \<times> nat" where
  "crypto_pcbc_encrypt_segment bsize enc =
     block_loop bsize (\<lambda>iv src.
       let iv1 = xor_bytes iv src;
           dst = enc iv1
       in (xor_bytes dst src, dst))"

definition crypto_pcbc_encrypt_inplace :: "nat \<Rightarrow> (bytes \<Rightarrow> bytes) \<Rightarrow> bytes \<Rightarrow> bytes \<Rightarrow> bytes \<times> bytes \<times> nat" where
  "crypto_pcbc_encrypt_inplace bsize enc =
     block_loop bsize (\<lambda>iv src.
       let tmpbuf = src;
           iv1 = xor_bytes iv src;
           src1 = enc iv1
       in (xor_bytes tmpbuf src1, src1))"

definition crypto_pcbc_encrypt :: "nat \<Rightarrow> (bytes \<Rightarrow> bytes) \<Rightarrow> layout \<Rightarrow> bytes \<Rightarrow> bytes \<Rightarrow>
    (errno option \<times> bytes \<times> bytes) option" where
  "crypto_pcbc_encrypt bsize enc env iv data =
     (case skcipher_walk 1
        (\<lambda>w iv chunk.
           case (if wk_same w then crypto_pcbc_encrypt_inplace bsize enc iv chunk
                 else crypto_pcbc_encrypt_segment bsize enc iv chunk) of
             (iv', out, nbytes) \<Rightarrow> (iv', out, Inr nbytes))
        bsize bsize env iv data of
        None \<Rightarrow> None
      | Some (err, w, iv', out, rest) \<Rightarrow> Some (err, iv', out))"

definition crypto_pcbc_decrypt_segment :: "nat \<Rightarrow> (bytes \<Rightarrow> bytes) \<Rightarrow> bytes \<Rightarrow> bytes \<Rightarrow> bytes \<times> bytes \<times> nat" where
  "crypto_pcbc_decrypt_segment bsize dec =
     block_loop bsize (\<lambda>iv src.
       let dst = dec src;
           dst1 = xor_bytes dst iv
       in (xor_bytes dst1 src, dst1))"

definition crypto_pcbc_decrypt_inplace :: "nat \<Rightarrow> (bytes \<Rightarrow> bytes) \<Rightarrow> bytes \<Rightarrow> bytes \<Rightarrow> bytes \<times> bytes \<times> nat" where
  "crypto_pcbc_decrypt_inplace bsize dec =
     block_loop bsize (\<lambda>iv src.
       let tmpbuf = src;
           src1 = dec src;
           src2 = xor_bytes src1 iv
       in (xor_bytes src2 tmpbuf, src2))"

definition crypto_pcbc_decrypt :: "nat \<Rightarrow> (bytes \<Rightarrow> bytes) \<Rightarrow> layout \<Rightarrow> bytes \<Rightarrow> bytes \<Rightarrow>
    (errno option \<times> bytes \<times> bytes) option" where
  "crypto_pcbc_decrypt bsize dec env iv data =
     (case skcipher_walk 1
        (\<lambda>w iv chunk.
           case (if wk_same w then crypto_pcbc_decrypt_inplace bsize dec iv chunk
                 else crypto_pcbc_decrypt_segment bsize dec iv chunk) of
             (iv', out, nbytes) \<Rightarrow> (iv', out, Inr nbytes))
        bsize bsize env iv data of
        None \<Rightarrow> None
      | Some (err, w, iv', out, rest) \<Rightarrow> Some (err, iv', out))"

lemma pcbc_inplace:
  "crypto_pcbc_encrypt_inplace bsize enc = crypto_pcbc_encrypt_segment bsize enc"
  "crypto_pcbc_decrypt_inplace bsize dec = crypto_pcbc_decrypt_segment bsize dec"
  by (simp_all add: crypto_pcbc_encrypt_inplace_def crypto_pcbc_encrypt_segment_def
      crypto_pcbc_decrypt_inplace_def crypto_pcbc_decrypt_segment_def Let_def xor_bytes_commute)

context block_cipher
begin

lemma pcbc_encrypt_mode:
  "block_mode bsize bsize 1 False (\<lambda>iv src. let iv1 = xor_bytes iv src; dst = enc iv1 in (xor_bytes dst src, dst))
    (\<lambda>w iv chunk. case (if wk_same w then crypto_pcbc_encrypt_inplace bsize enc iv chunk
                 else crypto_pcbc_encrypt_segment bsize enc iv chunk) of
             (iv', out, nbytes) \<Rightarrow> (iv', out, Inr nbytes))"
  by unfold_locales (use bsize_pos bsize_page in
      \<open>simp_all add: pcbc_inplace PAGE_SIZE_def crypto_pcbc_encrypt_segment_def\<close>)

lemma pcbc_decrypt_mode:
  "block_mode bsize bsize 1 False (\<lambda>iv src. let dst = dec src; dst1 = xor_bytes dst iv in (xor_bytes dst1 src, dst1))
    (\<lambda>w iv chunk. case (if wk_same w then crypto_pcbc_decrypt_inplace bsize dec iv chunk
                 else crypto_pcbc_decrypt_segment bsize dec iv chunk) of
             (iv', out, nbytes) \<Rightarrow> (iv', out, Inr nbytes))"
  by unfold_locales (use bsize_pos bsize_page in
      \<open>simp_all add: pcbc_inplace PAGE_SIZE_def crypto_pcbc_decrypt_segment_def\<close>)

lemma pcbc_encrypt_flat:
  obtains err iv' out where "crypto_pcbc_encrypt bsize enc env iv data = Some (err, iv', out)"
    "err \<noteq> Some ENOMEM \<Longrightarrow> crypto_pcbc_encrypt_segment bsize enc iv
      (take (length data - length data mod bsize) data) = (iv', out, 0)"
    "err \<noteq> Some ENOMEM \<Longrightarrow> err = (if bsize dvd length data then None else Some EINVAL)"
    "allocates env \<Longrightarrow> err \<noteq> Some ENOMEM"
  by (rule block_mode.walk_flatE [OF pcbc_encrypt_mode, where env = env and iv = iv and data = data])
    (rule that, simp_all add: crypto_pcbc_encrypt_def crypto_pcbc_encrypt_segment_def dvd_eq_mod_eq_0)

lemma pcbc_decrypt_flat:
  obtains err iv' out where "crypto_pcbc_decrypt bsize dec env iv data = Some (err, iv', out)"
    "err \<noteq> Some ENOMEM \<Longrightarrow> crypto_pcbc_decrypt_segment bsize dec iv
      (take (length data - length data mod bsize) data) = (iv', out, 0)"
    "err \<noteq> Some ENOMEM \<Longrightarrow> err = (if bsize dvd length data then None else Some EINVAL)"
    "allocates env \<Longrightarrow> err \<noteq> Some ENOMEM"
  by (rule block_mode.walk_flatE [OF pcbc_decrypt_mode, where env = env and iv = iv and data = data])
    (rule that, simp_all add: crypto_pcbc_decrypt_def crypto_pcbc_decrypt_segment_def dvd_eq_mod_eq_0)

lemma pcbc_segment_inverse:
  assumes "length iv = bsize" "bsize dvd length src"
  shows "case crypto_pcbc_encrypt_segment bsize enc iv src of (iv', out, _) \<Rightarrow>
    length out = length src \<and> crypto_pcbc_decrypt_segment bsize dec iv out = (iv', src, 0)"
  unfolding crypto_pcbc_encrypt_segment_def crypto_pcbc_decrypt_segment_def
  by (rule block_loop_inverse [where P = "\<lambda>iv. length iv = bsize", OF bsize_pos _ assms])
    (simp add: Let_def length_enc dec_enc xor_bytes_commute)

end

text \<open>
  C22: PCBC for any block cipher and any two layouts with memory: encryption gives success on whole
  blocks and \<open>-EINVAL\<close> otherwise, and decryption of its output gives the whole blocks back and
  leaves the same chaining value, in place or not, however the scatterlists cut the message.
\<close>

theorem pcbc_roundtrip:
  assumes "block_cipher n enc dec" "length iv = n" "allocates env" "allocates env'"
  shows "\<exists>c iv'. crypto_pcbc_encrypt n enc env iv data =
      Some (if n dvd length data then None else Some EINVAL, iv', c) \<and>
    crypto_pcbc_decrypt n dec env' iv c =
      Some (None, iv', take (length data - length data mod n) data)"
proof -
  let ?src = "take (length data - length data mod n) data"
  have "n dvd length ?src" by (simp add: dvd_minus_mod)
  note inv = block_cipher.pcbc_segment_inverse [OF assms(1,2) this]
  obtain iv' c where e: "crypto_pcbc_encrypt n enc env iv data =
      Some (if n dvd length data then None else Some EINVAL, iv', c)"
    "crypto_pcbc_encrypt_segment n enc iv ?src = (iv', c, 0)"
    by (rule block_cipher.pcbc_encrypt_flat [OF assms(1), of env iv data]) (use assms(3) in auto)
  with inv have c: "length c = length ?src" "crypto_pcbc_decrypt_segment n dec iv c = (iv', ?src, 0)" by auto
  then have "n dvd length c" "take (length c - length c mod n) c = c" by (simp_all add: dvd_minus_mod)
  then have "crypto_pcbc_decrypt n dec env' iv c = Some (None, iv', ?src)"
    by (rule_tac block_cipher.pcbc_decrypt_flat [OF assms(1), of env' iv c]) (use assms(4) c in auto)
  with e show ?thesis by blast
qed

theorem pcbc_roundtrip_witness:
  "\<exists>c iv'. crypto_pcbc_encrypt 8 (tea_encrypt [1, 2, 3, 4]) ragged (replicate 8 7) (replicate 27 65) =
      Some (Some EINVAL, iv', c) \<and>
    crypto_pcbc_decrypt 8 (tea_decrypt [1, 2, 3, 4]) ragged (replicate 8 7) c =
      Some (None, iv', replicate 24 65)"
  using pcbc_roundtrip [OF tea.block_cipher_axioms _ ragged_allocates ragged_allocates,
      of "replicate 8 7" "[1, 2, 3, 4]" "replicate 27 65"]
  by (simp add: take_replicate)

text \<open>Both directions of the mode on TEA.\<close>

interpretation tea_pcbc_enc: block_mode 8 8 1 False
  "\<lambda>iv src. let iv1 = xor_bytes iv src; dst = tea_encrypt k iv1 in (xor_bytes dst src, dst)"
  "\<lambda>w iv chunk. case (if wk_same w then crypto_pcbc_encrypt_inplace 8 (tea_encrypt k) iv chunk
      else crypto_pcbc_encrypt_segment 8 (tea_encrypt k) iv chunk) of
    (iv', out, nbytes) \<Rightarrow> (iv', out, Inr nbytes)" for k
  by (rule tea.pcbc_encrypt_mode)

interpretation tea_pcbc_dec: block_mode 8 8 1 False
  "\<lambda>iv src. let dst = tea_decrypt k src; dst1 = xor_bytes dst iv in (xor_bytes dst1 src, dst1)"
  "\<lambda>w iv chunk. case (if wk_same w then crypto_pcbc_decrypt_inplace 8 (tea_decrypt k) iv chunk
      else crypto_pcbc_decrypt_segment 8 (tea_decrypt k) iv chunk) of
    (iv', out, nbytes) \<Rightarrow> (iv', out, Inr nbytes)" for k
  by (rule tea.pcbc_decrypt_mode)

end
