(* ===== verification/Ctr.thy ===== *)
theory Ctr
  imports SkcipherWalk CryptoInc Tea
begin

text \<open>
  Counter mode (\<open>kernel-crypto/ctr.c\<close>) over any block cipher, and RFC 3686 on top of it: the loops
  on one chunk, the final partial block, the requests, and the nonce. \<open>wide\<close> is the configuration
  \<open>crypto_inc\<close> works in.
\<close>

section \<open>The mode\<close>

definition crypto_ctr_crypt_final :: "bool \<Rightarrow> nat \<Rightarrow> (bytes \<Rightarrow> bytes) \<Rightarrow> bytes \<Rightarrow> bytes \<Rightarrow> bytes \<times> bytes" where
  "crypto_ctr_crypt_final wide bsize enc ctrblk src =
     (let keystream = enc ctrblk in (crypto_inc wide ctrblk bsize, xor_bytes keystream src))"

definition crypto_ctr_crypt_segment :: "bool \<Rightarrow> nat \<Rightarrow> (bytes \<Rightarrow> bytes) \<Rightarrow> bytes \<Rightarrow> bytes \<Rightarrow> bytes \<times> bytes \<times> nat" where
  "crypto_ctr_crypt_segment wide bsize enc =
     block_loop bsize (\<lambda>ctrblk src.
       let dst = enc ctrblk;
           dst1 = xor_bytes dst src
       in (crypto_inc wide ctrblk bsize, dst1))"

definition crypto_ctr_crypt_inplace :: "bool \<Rightarrow> nat \<Rightarrow> (bytes \<Rightarrow> bytes) \<Rightarrow> bytes \<Rightarrow> bytes \<Rightarrow> bytes \<times> bytes \<times> nat" where
  "crypto_ctr_crypt_inplace wide bsize enc =
     block_loop bsize (\<lambda>ctrblk src.
       let keystream = enc ctrblk;
           src1 = xor_bytes src keystream
       in (crypto_inc wide ctrblk bsize, src1))"

definition crypto_ctr_crypt :: "bool \<Rightarrow> nat \<Rightarrow> (bytes \<Rightarrow> bytes) \<Rightarrow> layout \<Rightarrow> bytes \<Rightarrow> bytes \<Rightarrow>
    (errno option \<times> bytes \<times> bytes) option" where
  "crypto_ctr_crypt wide bsize enc env iv data =
     (case skcipher_walk bsize
        (\<lambda>w iv chunk.
           case (if wk_same w then crypto_ctr_crypt_inplace wide bsize enc iv chunk
                 else crypto_ctr_crypt_segment wide bsize enc iv chunk) of
             (iv', out, nbytes) \<Rightarrow> (iv', out, Inr nbytes))
        1 bsize env iv data of
        None \<Rightarrow> None
      | Some (err, w, iv', out, rest) \<Rightarrow>
          (if wk_nbytes w \<noteq> 0 then
             (case crypto_ctr_crypt_final wide bsize enc iv' (take (wk_nbytes w) rest) of
                (iv'', tail) \<Rightarrow>
                  Some (fst (skcipher_walk_done 1 bsize env 0 (Inr 0) w), iv'', out @ tail))
           else Some (err, iv', out)))"

text \<open>The checks of \<open>crypto_ctr_create\<close> on the cipher's block size.\<close>

definition crypto_ctr_create :: "nat \<Rightarrow> errno option" where
  "crypto_ctr_create cra_blocksize =
     (if cra_blocksize < 4 then Some EINVAL
      else if cra_blocksize mod 4 \<noteq> 0 then Some EINVAL
      else None)"

section \<open>RFC 3686\<close>

definition CTR_RFC3686_NONCE_SIZE :: nat where "CTR_RFC3686_NONCE_SIZE = 4"
definition CTR_RFC3686_IV_SIZE :: nat where "CTR_RFC3686_IV_SIZE = 8"

text \<open>\<open>crypto_rfc3686_setkey\<close>: the nonce is the end of the key, the rest goes to the child's \<open>setkey\<close>.\<close>

definition crypto_rfc3686_setkey :: "(bytes \<Rightarrow> errno + 'key) \<Rightarrow> bytes \<Rightarrow> errno + 'key \<times> bytes" where
  "crypto_rfc3686_setkey child_setkey key =
     (let keylen = length key in
      if keylen < CTR_RFC3686_NONCE_SIZE then Inl EINVAL
      else (let nonce = drop (keylen - CTR_RFC3686_NONCE_SIZE) key in
        case child_setkey (take (keylen - CTR_RFC3686_NONCE_SIZE) key) of
          Inl e \<Rightarrow> Inl e
        | Inr k \<Rightarrow> Inr (k, nonce)))"

definition rfc3686_ctrblk :: "bytes \<Rightarrow> bytes \<Rightarrow> bytes" where
  "rfc3686_ctrblk nonce req_iv =
     take CTR_RFC3686_NONCE_SIZE nonce @ take CTR_RFC3686_IV_SIZE req_iv @ put_be32 1"

definition crypto_rfc3686_crypt :: "bool \<Rightarrow> nat \<Rightarrow> (bytes \<Rightarrow> bytes) \<Rightarrow> layout \<Rightarrow> bytes \<Rightarrow> bytes \<Rightarrow> bytes \<Rightarrow>
    (errno option \<times> bytes \<times> bytes) option" where
  "crypto_rfc3686_crypt wide bsize enc env nonce req_iv data =
     crypto_ctr_crypt wide bsize enc env (rfc3686_ctrblk nonce req_iv) data"

section \<open>The key stream\<close>

text \<open>The counter block after \<open>n\<close> increments, and the key stream of \<open>n\<close> blocks.\<close>

fun ctr_advance :: "bool \<Rightarrow> nat \<Rightarrow> nat \<Rightarrow> bytes \<Rightarrow> bytes" where
  "ctr_advance wide b 0 ctr = ctr"
| "ctr_advance wide b (Suc n) ctr = ctr_advance wide b n (crypto_inc wide ctr b)"

fun ctr_keystream :: "bool \<Rightarrow> nat \<Rightarrow> (bytes \<Rightarrow> bytes) \<Rightarrow> nat \<Rightarrow> bytes \<Rightarrow> bytes" where
  "ctr_keystream wide b enc 0 ctr = []"
| "ctr_keystream wide b enc (Suc n) ctr =
     enc ctr @ ctr_keystream wide b enc n (crypto_inc wide ctr b)"

lemma ctr_keystream_snoc:
  "ctr_keystream wide b enc (Suc n) ctr = ctr_keystream wide b enc n ctr @ enc (ctr_advance wide b n ctr)"
  by (induction n arbitrary: ctr) simp_all

lemma ctr_advance_snoc: "ctr_advance wide b (Suc n) ctr = crypto_inc wide (ctr_advance wide b n ctr) b"
  by (induction n arbitrary: ctr) simp_all

lemma ctr_advance_value:
  assumes "length ctr = b"
  shows "length (ctr_advance wide b n ctr) = b \<and> be_val (ctr_advance wide b n ctr) = (be_val ctr + n) mod 256 ^ b"
proof (induction n)
  case 0
  then show ?case using be_val_less [of ctr] assms by simp
next
  case (Suc n)
  then show ?case
    using crypto_inc_ok [of b "ctr_advance wide b n ctr" wide] ctr_advance_snoc [of wide b n ctr]
    by (simp add: inc_ok_def mod_Suc_eq)
qed

lemma ceil_div:
  assumes "0 < (b :: nat)"
  shows "(m + b - 1) div b = m div b + of_bool (m mod b \<noteq> 0)"
proof -
  have "m + b - 1 = m div b * b + (m mod b + b - 1)" using assms by simp
  then have "(m + b - 1) div b = m div b + (m mod b + b - 1) div b"
    using assms by (metis div_mult_self3 less_numeral_extra(3))
  also have "(m mod b + b - 1) div b = of_bool (m mod b \<noteq> 0)"
  proof (cases "m mod b = 0")
    case False
    then have "m mod b + b - 1 = b + (m mod b - 1)" "m mod b - 1 < b"
      using assms by (auto simp: less_imp_diff_less)
    then have "(m mod b + b - 1) div b = 1 + (m mod b - 1) div b"
      using assms by (metis div_add_self1 add.commute less_numeral_extra(3))
    with False \<open>m mod b - 1 < b\<close> show ?thesis by simp
  qed (use assms in simp)
  finally show ?thesis .
qed

lemma ctr_inplace: "crypto_ctr_crypt_inplace wide bsize enc = crypto_ctr_crypt_segment wide bsize enc"
  by (simp add: crypto_ctr_crypt_inplace_def crypto_ctr_crypt_segment_def Let_def xor_bytes_commute)

context block_fun
begin

lemma length_ctr_keystream:
  "length ctr = bsize \<Longrightarrow> length (ctr_keystream wide bsize enc n ctr) = n * bsize"
  by (induction n arbitrary: ctr) (simp_all add: length_enc)

lemma ctr_segment_keystream:
  "length ctr = bsize \<Longrightarrow> length src = n * bsize \<Longrightarrow>
     crypto_ctr_crypt_segment wide bsize enc ctr src =
       (ctr_advance wide bsize n ctr, xor_bytes (ctr_keystream wide bsize enc n ctr) src, 0)"
proof (induction n arbitrary: ctr src)
  case 0
  then show ?case using bsize_pos by (simp add: crypto_ctr_crypt_segment_def)
next
  case (Suc n)
  then have "crypto_ctr_crypt_segment wide bsize enc (crypto_inc wide ctr bsize) (drop bsize src) =
      (ctr_advance wide bsize n (crypto_inc wide ctr bsize),
       xor_bytes (ctr_keystream wide bsize enc n (crypto_inc wide ctr bsize)) (drop bsize src), 0)"
    by simp
  moreover have "xor_bytes (ctr_keystream wide bsize enc (Suc n) ctr) (take bsize src @ drop bsize src) =
      xor_bytes (enc ctr) (take bsize src) @
      xor_bytes (ctr_keystream wide bsize enc n (crypto_inc wide ctr bsize)) (drop bsize src)"
    using Suc.prems unfolding ctr_keystream.simps by (intro xor_bytes_append) (simp add: length_enc)
  ultimately show ?case
    using Suc.prems bsize_pos by (simp add: crypto_ctr_crypt_segment_def block_loop_step)
qed

lemma ctr_mode:
  "block_mode bsize 1 bsize False
    (\<lambda>ctrblk src. let dst = enc ctrblk; dst1 = xor_bytes dst src in (crypto_inc wide ctrblk bsize, dst1))
    (\<lambda>w iv chunk. case (if wk_same w then crypto_ctr_crypt_inplace wide bsize enc iv chunk
                 else crypto_ctr_crypt_segment wide bsize enc iv chunk) of
             (iv', out, nbytes) \<Rightarrow> (iv', out, Inr nbytes))"
  by unfold_locales (use bsize_pos bsize_page in
      \<open>simp_all add: ctr_inplace PAGE_SIZE_def crypto_ctr_crypt_segment_def\<close>)

lemma ctr_crypt_flat:
  assumes "length iv = bsize"
  shows "\<exists>err iv' out. crypto_ctr_crypt wide bsize enc env iv data = Some (err, iv', out) \<and>
    (err = Some ENOMEM \<or>
     (let n = (length data + bsize - 1) div bsize in
      err = None \<and> iv' = ctr_advance wide bsize n iv \<and>
      out = xor_bytes (take (length data) (ctr_keystream wide bsize enc n iv)) data)) \<and>
    (allocates env \<longrightarrow> err \<noteq> Some ENOMEM)"
proof -
  let ?f = "\<lambda>w iv chunk. case (if wk_same w then crypto_ctr_crypt_inplace wide bsize enc iv chunk
                 else crypto_ctr_crypt_segment wide bsize enc iv chunk) of
             (iv', out, nbytes) \<Rightarrow> (iv', out, Inr nbytes)"
  let ?q = "length data div bsize" and ?r = "length data mod bsize"
  have k: "length data - length data mod bsize = ?q * bsize" by (metis minus_mod_eq_div_mult)
  have len: "length data = ?q * bsize + ?r" by simp
  have seg: "crypto_ctr_crypt_segment wide bsize enc iv (take (?q * bsize) data) =
      (ctr_advance wide bsize ?q iv,
       xor_bytes (ctr_keystream wide bsize enc ?q iv) (take (?q * bsize) data), 0)"
    by (rule ctr_segment_keystream [OF assms]) simp
  obtain err w iv' out rest where r: "skcipher_walk bsize ?f 1 bsize env iv data = Some (err, w, iv', out, rest)"
    "err \<noteq> Some ENOMEM \<Longrightarrow> block_loop bsize
      (\<lambda>ctrblk src. let dst = enc ctrblk; dst1 = xor_bytes dst src in (crypto_inc wide ctrblk bsize, dst1))
      iv (take (?q * bsize) data) = (iv', out, 0)"
    "err \<noteq> Some ENOMEM \<Longrightarrow> rest = drop (?q * bsize) data"
    "err \<noteq> Some ENOMEM \<Longrightarrow> wk_nbytes w = (if 1 = bsize then 0 else ?r)"
    "err \<noteq> Some ENOMEM \<Longrightarrow> err = (if 1 = bsize \<and> ?r \<noteq> 0 then Some EINVAL else None)"
    "err \<noteq> Some ENOMEM \<Longrightarrow> wk_nbytes w \<noteq> 0 \<Longrightarrow> wk_total w = wk_nbytes w"
    "allocates env \<Longrightarrow> err \<noteq> Some ENOMEM" "err = Some ENOMEM \<Longrightarrow> wk_nbytes w = 0"
    by (rule block_mode.walk_flatE [OF ctr_mode, where env = env and iv = iv and data = data, unfolded k])
      (rule that)
  have lks: "length (ctr_keystream wide bsize enc m iv) = m * bsize" for m
    by (rule length_ctr_keystream [OF assms])
  show ?thesis
  proof (cases "err = Some ENOMEM")
    case True
    with r(1,7,8) show ?thesis by (auto simp: crypto_ctr_crypt_def)
  next
    case False
    have io: "iv' = ctr_advance wide bsize ?q iv"
      "out = xor_bytes (ctr_keystream wide bsize enc ?q iv) (take (?q * bsize) data)"
      using r(2) [OF False] seg by (simp_all add: crypto_ctr_crypt_segment_def)
    have nb: "wk_nbytes w = ?r" "err = None" using r(4,5) [OF False] by auto
    have n: "(length data + bsize - 1) div bsize = ?q + of_bool (?r \<noteq> 0)"
      by (rule ceil_div [OF bsize_pos])
    show ?thesis
    proof (cases "?r = 0")
      case True
      then have "take (?q * bsize) data = data" using len by (metis add_0_right order_refl take_all)
      with r(1) io nb lks True have "crypto_ctr_crypt wide bsize enc env iv data =
          Some (None, ctr_advance wide bsize ?q iv,
            xor_bytes (take (length data) (ctr_keystream wide bsize enc ?q iv)) data)"
        by (simp add: crypto_ctr_crypt_def)
      with n True show ?thesis by simp
    next
      case nz: False
      have "xor_bytes (take (length data) (ctr_keystream wide bsize enc (Suc ?q) iv))
          (take (?q * bsize) data @ drop (?q * bsize) data) =
        xor_bytes (ctr_keystream wide bsize enc ?q iv) (take (?q * bsize) data) @
        xor_bytes (take ?r (enc (ctr_advance wide bsize ?q iv))) (drop (?q * bsize) data)"
        unfolding ctr_keystream_snoc using lks [of ?q]
        by (subst xor_bytes_append [symmetric]) (simp_all add: minus_div_mult_eq_mod)
      moreover have "xor_bytes (take ?r ks) (drop (?q * bsize) data) = xor_bytes ks (drop (?q * bsize) data)" for ks
        by (rule xor_bytes_take_left) (simp add: minus_div_mult_eq_mod)
      moreover have "fst (skcipher_walk_done 1 bsize env 0 (Inr 0) w) = None"
        using r(6) [OF False] nb nz by (simp add: skcipher_walk_done_def)
      ultimately have "crypto_ctr_crypt wide bsize enc env iv data =
          Some (None, ctr_advance wide bsize (Suc ?q) iv,
            xor_bytes (take (length data) (ctr_keystream wide bsize enc (Suc ?q) iv)) data)"
        using r(1,3) False io nb nz ctr_advance_snoc [of wide bsize ?q iv]
        by (simp add: crypto_ctr_crypt_def crypto_ctr_crypt_final_def minus_div_mult_eq_mod)
      with n nz show ?thesis by simp
    qed
  qed
qed

end

text \<open>
  C4: counter mode with any block cipher, over any scatterlist layout with memory, always succeeds
  and xors the message, of any length, with the stream of the encrypted counter blocks, counting
  up as a big-endian number modulo \<open>256 ^ n\<close>; the IV ends as the first unused counter block.
\<close>

theorem ctr_crypt_stream:
  assumes "block_cipher n enc dec" "length iv = n" "allocates env"
  shows "\<exists>iv' ks. crypto_ctr_crypt wide n enc env iv data =
      Some (None, iv', xor_bytes (take (length data) ks) data) \<and>
    ks = concat (map (\<lambda>i. enc (ctr_advance wide n i iv)) [0..<(length data + n - 1) div n]) \<and>
    iv' = ctr_advance wide n ((length data + n - 1) div n) iv \<and>
    (\<forall>i. length (ctr_advance wide n i iv) = n \<and>
      be_val (ctr_advance wide n i iv) = (be_val iv + i) mod 256 ^ n)"
proof -
  have f: "block_fun n enc" using assms(1) by (rule block_cipher.axioms(1))
  have "ctr_keystream wide n enc k iv = concat (map (\<lambda>i. enc (ctr_advance wide n i iv)) [0..<k])" for k
  proof (induction k)
    case (Suc k)
    then show ?case unfolding ctr_keystream_snoc by simp
  qed simp
  with block_fun.ctr_crypt_flat [OF f assms(2), of wide env data] assms(3)
    ctr_advance_value [OF assms(2), of wide]
  show ?thesis by (auto simp: Let_def)
qed

theorem ctr_crypt_stream_witness:
  "\<exists>iv' ks. crypto_ctr_crypt True 8 (tea_encrypt [1, 2, 3, 4]) ragged (replicate 8 255) (replicate 19 65) =
      Some (None, iv', xor_bytes (take 19 ks) (replicate 19 65)) \<and>
    iv' = ctr_advance True 8 3 (replicate 8 255)"
  using ctr_crypt_stream [OF tea.block_cipher_axioms _ ragged_allocates,
      of "replicate 8 255" True "[1, 2, 3, 4]" "replicate 19 65"]
  by auto

text \<open>
  Counter mode is its own inverse, whatever the two layouts cut the message into.
\<close>

theorem ctr_crypt_involution:
  assumes "block_cipher n enc dec" "length iv = n" "allocates env" "allocates env'"
  shows "\<exists>iv' c. crypto_ctr_crypt wide n enc env iv data = Some (None, iv', c) \<and>
    length c = length data \<and> crypto_ctr_crypt wide n enc env' iv c = Some (None, iv', data)"
proof -
  have f: "block_fun n enc" using assms(1) by (rule block_cipher.axioms(1))
  then have n: "0 < n" by (simp add: block_fun_def)
  let ?k = "(length data + n - 1) div n"
  let ?ks = "take (length data) (ctr_keystream wide n enc ?k iv)"
  have "length data \<le> ?k * n"
  proof -
    have "length data mod n \<le> of_bool (length data mod n \<noteq> 0) * n" using n by (simp add: less_imp_le)
    then show ?thesis
      unfolding ceil_div [OF n] add_mult_distrib using div_mult_mod_eq [of "length data" n] by linarith
  qed
  then have l: "length ?ks = length data"
    using block_fun.length_ctr_keystream [OF f assms(2), of wide ?k] by simp
  with block_fun.ctr_crypt_flat [OF f assms(2), of wide env data] assms(3)
    block_fun.ctr_crypt_flat [OF f assms(2), of wide env' "xor_bytes ?ks data"] assms(4)
  show ?thesis by (auto simp: Let_def)
qed

theorem ctr_crypt_involution_witness:
  "\<exists>iv' c. crypto_ctr_crypt True 8 (tea_encrypt [1, 2, 3, 4]) ragged (replicate 8 255) (replicate 19 65) =
      Some (None, iv', c) \<and>
    crypto_ctr_crypt True 8 (tea_encrypt [1, 2, 3, 4]) (ragged\<lparr>contiguous := (\<lambda>i. 4096)\<rparr>) (replicate 8 255) c =
      Some (None, iv', replicate 19 65)"
  using ctr_crypt_involution [OF tea.block_cipher_axioms _ ragged_allocates,
      of "replicate 8 255" "ragged\<lparr>contiguous := (\<lambda>i. 4096)\<rparr>" True "[1, 2, 3, 4]" "replicate 19 65"] ragged_allocates
  by (auto simp: allocates_def)

lemma rfc3686_advance:
  assumes "length nonce = 4" "length req_iv = 8" "i + 1 < 2 ^ 32"
  shows "ctr_advance wide 16 i (rfc3686_ctrblk nonce req_iv) = nonce @ req_iv @ put_be32 (of_nat (i + 1))"
proof (rule be_val_inj)
  let ?blk = "rfc3686_ctrblk nonce req_iv"
  have b: "?blk = nonce @ req_iv @ put_be32 1"
    using assms by (simp add: rfc3686_ctrblk_def CTR_RFC3686_NONCE_SIZE_def CTR_RFC3686_IV_SIZE_def)
  then have l: "length ?blk = 16" using assms by simp
  from ctr_advance_value [OF l, of wide i]
  show "length (ctr_advance wide 16 i ?blk) = length (nonce @ req_iv @ put_be32 (of_nat (i + 1)))"
    using assms by simp
  have u: "unat (of_nat (i + 1) :: u32) = i + 1"
    using assms(3) by (simp only: unsigned_of_nat) (simp add: take_bit_nat_eq_self)
  have "be_val (nonce @ req_iv @ put_be32 (of_nat (i + 1))) = be_val ?blk + i"
    unfolding b by (simp only: be_val_append be_val_put_be32 u) simp
  moreover have "be_val (nonce @ req_iv @ put_be32 (of_nat (i + 1))) < 256 ^ 16"
    using be_val_less [of "nonce @ req_iv @ put_be32 (of_nat (i + 1))"] assms by simp
  ultimately show "be_val (ctr_advance wide 16 i ?blk) = be_val (nonce @ req_iv @ put_be32 (of_nat (i + 1)))"
    using ctr_advance_value [OF l, of wide i] by simp
qed

text \<open>
  RFC 3686 over a 16-byte cipher: for a message of at most \<open>2 ^ 32 - 1\<close> blocks, the \<open>i\<close>-th block of the
  key stream is the encryption of nonce, IV and the 32-bit big-endian counter \<open>i + 1\<close>: the counter
  never runs into the IV.
\<close>

theorem rfc3686_keystream:
  assumes "block_cipher 16 enc dec" "length nonce = 4" "length req_iv = 8" "allocates env"
    and "length data \<le> 16 * (2 ^ 32 - 1)"
  shows "\<exists>iv' ks. crypto_rfc3686_crypt wide 16 enc env nonce req_iv data =
      Some (None, iv', xor_bytes (take (length data) ks) data) \<and>
    ks = concat (map (\<lambda>i. enc (nonce @ req_iv @ put_be32 (of_nat (i + 1)))) [0..<(length data + 15) div 16])"
proof -
  have l: "length (rfc3686_ctrblk nonce req_iv) = 16"
    using assms by (simp add: rfc3686_ctrblk_def CTR_RFC3686_NONCE_SIZE_def CTR_RFC3686_IV_SIZE_def)
  have "map (\<lambda>i. enc (ctr_advance wide 16 i (rfc3686_ctrblk nonce req_iv))) [0..<(length data + 15) div 16] =
      map (\<lambda>i. enc (nonce @ req_iv @ put_be32 (of_nat (i + 1)))) [0..<(length data + 15) div 16]"
    using assms(5) by (intro map_cong refl arg_cong [where f = enc] rfc3686_advance assms) auto
  note ks = arg_cong [where f = concat, OF this]
  show ?thesis
    using ctr_crypt_stream [OF assms(1) l assms(4), of wide data] ks
    by (auto simp add: crypto_rfc3686_crypt_def add.commute)
qed

theorem rfc3686_keystream_witness:
  "\<exists>iv' ks. crypto_rfc3686_crypt True 16 (\<lambda>b. b) ragged [1, 2, 3, 4] (replicate 8 5) [9, 9, 9] =
      Some (None, iv', xor_bytes (take 3 ks) [9, 9, 9]) \<and>
    ks = [1, 2, 3, 4, 5, 5, 5, 5, 5, 5, 5, 5, 0, 0, 0, 1]"
proof -
  have c: "block_cipher 16 (\<lambda>b. b) (\<lambda>b. b)" by unfold_locales simp_all
  have l: "length [1, 2, 3, 4 :: u8] = 4" "length (replicate 8 (5 :: u8)) = 8"
    "length [9, 9, 9 :: u8] \<le> 16 * (2 ^ 32 - 1)" by simp_all
  have one: "put_be32 (of_nat (0 + 1)) = [0, 0, 0, 1]" by code_simp
  have upt: "[0..<(3 + 15) div 16] = [0 :: nat]" by simp
  have n: "length [9, 9, 9 :: u8] = 3" by simp
  obtain iv' ks where
    r: "crypto_rfc3686_crypt True 16 (\<lambda>b. b) ragged [1, 2, 3, 4] (replicate 8 5) [9, 9, 9] =
      Some (None, iv', xor_bytes (take 3 ks) [9, 9, 9])"
    and ks: "ks = concat (map (\<lambda>i. [1, 2, 3, 4] @ replicate 8 5 @ put_be32 (of_nat (i + 1))) [0])"
    using rfc3686_keystream [OF c l(1,2) ragged_allocates l(3), of True] unfolding n upt by blast
  have "ks = [1, 2, 3, 4, 5, 5, 5, 5, 5, 5, 5, 5, 0, 0, 0, 1]"
    unfolding ks list.map one by (simp add: numeral_eq_Suc)
  with r show ?thesis by blast
qed

text \<open>The mode on TEA.\<close>

interpretation tea_ctr: block_mode 8 1 8 False
  "\<lambda>ctrblk src. let dst = tea_encrypt k ctrblk; dst1 = xor_bytes dst src in (crypto_inc wide ctrblk 8, dst1)"
  "\<lambda>w iv chunk. case (if wk_same w then crypto_ctr_crypt_inplace wide 8 (tea_encrypt k) iv chunk
      else crypto_ctr_crypt_segment wide 8 (tea_encrypt k) iv chunk) of
    (iv', out, nbytes) \<Rightarrow> (iv', out, Inr nbytes)" for k wide
  by (rule tea.ctr_mode)

end
