(* ===== verification/Feistel.thy ===== *)
theory Feistel
  imports BlockCipher
begin

text \<open>
  Feistel networks, shared by the ciphers built from them: a round mixes a keyed function of one half
  into the other and the halves change roles. The rounds of the code are unrolled with the roles
  of its variables alternating; here the halves are swapped instead.
\<close>

fun feistel :: "('h \<Rightarrow> 'h \<Rightarrow> 'h) \<Rightarrow> ('k \<Rightarrow> 'h \<Rightarrow> 'h) \<Rightarrow> 'k list \<Rightarrow> 'h \<times> 'h \<Rightarrow> 'h \<times> 'h" where
  "feistel mix f [] lr = lr"
| "feistel mix f (k # ks) (l, r) = feistel mix f ks (r, mix l (f k r))"

lemma feistel_append: "feistel mix f (ks @ ks') lr = feistel mix f ks' (feistel mix f ks lr)"
  by (induction ks arbitrary: lr) (auto split: prod.splits)

locale feistel_mix =
  fixes mix :: "'h \<Rightarrow> 'h \<Rightarrow> 'h"
  assumes mix_cancel: "mix (mix a b) b = a"
begin

lemma feistel_rev: "feistel mix f (rev ks) (prod.swap (feistel mix f ks (l, r))) = (r, l)"
proof (induction ks arbitrary: l r)
  case (Cons k ks)
  have "feistel mix f (rev (k # ks)) (prod.swap (feistel mix f (k # ks) (l, r))) =
      feistel mix f [k] (feistel mix f (rev ks) (prod.swap (feistel mix f ks (r, mix l (f k r)))))"
    by (simp add: feistel_append)
  also have "\<dots> = feistel mix f [k] (mix l (f k r), r)" unfolding Cons.IH ..
  also have "\<dots> = (r, l)" by (simp add: mix_cancel)
  finally show ?case .
qed simp

lemma feistel_swap_rev:
  "prod.swap (feistel mix f (rev ks) (prod.swap (feistel mix f ks lr))) = lr"
  by (cases lr) (simp add: feistel_rev)

end

interpretation xor32: feistel_mix "(XOR) :: u32 \<Rightarrow> u32 \<Rightarrow> u32"
  by unfold_locales (simp add: xor_simps)

definition xor32_pair :: "u32 \<times> u32 \<Rightarrow> u32 \<times> u32 \<Rightarrow> u32 \<times> u32" where
  "xor32_pair a b = (fst a XOR fst b, snd a XOR snd b)"

interpretation xor32_pair: feistel_mix xor32_pair
  by unfold_locales (simp add: xor32_pair_def xor_simps)

text \<open>A cipher that is a list of invertible steps is undone by the inverse steps in reverse order.\<close>

lemma fold_inverse:
  "(\<And>x s. x \<in> set xs \<Longrightarrow> g x (f x s) = s) \<Longrightarrow> fold g (rev xs) (fold f xs s) = s"
  by (induction xs arbitrary: s) (auto simp: fold_append)

text \<open>Bytes of a word, as the table-driven ciphers index with.\<close>

definition byte_of :: "u32 \<Rightarrow> nat \<Rightarrow> nat" where
  "byte_of x n = unat (drop_bit (8 * n) x AND 0xff)"

lemma byte_of_less: "byte_of x n < 256"
proof -
  have m: "drop_bit (8 * n) x AND 0xff = take_bit 8 (drop_bit (8 * n) x)"
    by (simp add: take_bit_eq_mask mask_eq_exp_minus_1)
  have "unat (take_bit 8 w) < 256" for w :: u32
    by (simp only: unsigned_take_bit_eq) (simp add: take_bit_eq_mod)
  then show ?thesis unfolding byte_of_def m .
qed

end
