(* ===== verification/Keywrap.thy ===== *)
theory Keywrap
  imports Seed
begin

text \<open>
  Key wrapping (\<open>kernel-crypto/keywrap.c\<close>, RFC 3394) over any cipher with 16-byte blocks. The
  scatterlists are the sequence of 8-byte semiblocks they hold; wrapping walks them forwards,
  unwrapping backwards (\<open>crypto_kw_scatterlist_ff\<close>), six times each. \<open>block.A\<close> is the number its eight
  bytes encode.
\<close>

definition SEMIBSIZE :: nat where "SEMIBSIZE = 8"
definition KW_IV :: u64 where "KW_IV = 0xa6a6a6a6a6a6a6a6"

definition semiblocks :: "bytes \<Rightarrow> bytes list" where
  "semiblocks data = map (\<lambda>i. take 8 (drop (8 * i) data)) [0..<length data div 8]"

text \<open>One round of the outer loop: the semiblocks, the counter \<open>t\<close> and \<open>block.A\<close>.\<close>

fun kw_encrypt_pass :: "(bytes \<Rightarrow> bytes) \<Rightarrow> bytes list \<Rightarrow> u64 \<Rightarrow> u64 \<Rightarrow> bytes list \<times> u64 \<times> u64" where
  "kw_encrypt_pass enc [] t A = ([], t, A)"
| "kw_encrypt_pass enc (R # Rs) t A =
     (let block = enc (put_be64 A @ R);
          A = get_be64 block XOR t in
      case kw_encrypt_pass enc Rs (t + 1) A of (Rs', t', A') \<Rightarrow> (drop 8 block # Rs', t', A'))"

text \<open>The list is in the order of the walk, from the last semiblock to the first.\<close>

fun kw_decrypt_pass :: "(bytes \<Rightarrow> bytes) \<Rightarrow> bytes list \<Rightarrow> u64 \<Rightarrow> u64 \<Rightarrow> bytes list \<times> u64 \<times> u64" where
  "kw_decrypt_pass dec [] t A = ([], t, A)"
| "kw_decrypt_pass dec (R # Rs) t A =
     (let A = A XOR t;
          block = dec (put_be64 A @ R) in
      case kw_decrypt_pass dec Rs (t - 1) (get_be64 block) of (Rs', t', A') \<Rightarrow> (drop 8 block # Rs', t', A'))"

fun kw_encrypt_rounds :: "(bytes \<Rightarrow> bytes) \<Rightarrow> nat \<Rightarrow> bytes list \<Rightarrow> u64 \<Rightarrow> u64 \<Rightarrow> bytes list \<times> u64 \<times> u64" where
  "kw_encrypt_rounds enc 0 Rs t A = (Rs, t, A)"
| "kw_encrypt_rounds enc (Suc n) Rs t A =
     (case kw_encrypt_pass enc Rs t A of (Rs, t, A) \<Rightarrow> kw_encrypt_rounds enc n Rs t A)"

fun kw_decrypt_rounds :: "(bytes \<Rightarrow> bytes) \<Rightarrow> nat \<Rightarrow> bytes list \<Rightarrow> u64 \<Rightarrow> u64 \<Rightarrow> bytes list \<times> u64 \<times> u64" where
  "kw_decrypt_rounds dec 0 Rs t A = (Rs, t, A)"
| "kw_decrypt_rounds dec (Suc n) Rs t A =
     (case kw_decrypt_pass dec (rev Rs) t A of (Rs', t, A) \<Rightarrow> kw_decrypt_rounds dec n (rev Rs') t A)"

text \<open>The requests: an error, or the IV the caller picks up and the output.\<close>

definition crypto_kw_encrypt :: "(bytes \<Rightarrow> bytes) \<Rightarrow> bytes \<Rightarrow> errno + bytes \<times> bytes" where
  "crypto_kw_encrypt enc data =
     (if length data < 2 * SEMIBSIZE \<or> length data mod SEMIBSIZE \<noteq> 0 then Inl EINVAL
      else
        (case kw_encrypt_rounds enc 6 (semiblocks data) 1 KW_IV of (Rs, t, A) \<Rightarrow>
           Inr (put_be64 A, concat Rs)))"

text \<open>Unwrapping writes its output before the check; the error comes with it.\<close>

definition crypto_kw_decrypt :: "(bytes \<Rightarrow> bytes) \<Rightarrow> bytes \<Rightarrow> bytes \<Rightarrow> errno option \<times> bytes" where
  "crypto_kw_decrypt dec iv data =
     (if length data < 2 * SEMIBSIZE \<or> length data mod SEMIBSIZE \<noteq> 0 then (Some EINVAL, [])
      else
        (case kw_decrypt_rounds dec 6 (semiblocks data) (of_nat (6 * (length data div 8))) (get_be64 iv) of
           (Rs, t, A) \<Rightarrow> (if A \<noteq> KW_IV then Some EBADMSG else None, concat Rs)))"

section \<open>Semiblocks\<close>

definition semiblock_list :: "bytes list \<Rightarrow> bool" where
  "semiblock_list Rs \<longleftrightarrow> (\<forall>R\<in>set Rs. length R = 8)"

lemma semiblocks_step: "8 \<le> length data \<Longrightarrow> semiblocks data = take 8 data # semiblocks (drop 8 data)"
proof -
  assume "8 \<le> length data"
  then have "length data div 8 = Suc ((length data - 8) div 8)" by (simp add: le_div_geq)
  then show ?thesis
    by (simp add: semiblocks_def upt_conv_Cons map_Suc_upt [symmetric] add.commute del: upt_Suc)
qed

lemma semiblocks_concat: "8 dvd length data \<Longrightarrow> concat (semiblocks data) = data"
proof (induction data rule: length_induct)
  case (1 data)
  show ?case
  proof (cases "data = []")
    case False
    with 1(2) have "8 \<le> length data" by (simp add: dvd_imp_le)
    with 1 False show ?thesis by (simp add: semiblocks_step dvd_diff_nat)
  qed (simp add: semiblocks_def)
qed

lemma concat_semiblocks: "semiblock_list Rs \<Longrightarrow> semiblocks (concat Rs) = Rs \<and> length (concat Rs) = 8 * length Rs"
  by (induction Rs) (auto simp: semiblock_list_def semiblocks_step, simp add: semiblocks_def)

lemma semiblocks_ok: "semiblock_list (semiblocks data) \<and> length (semiblocks data) = length data div 8"
proof -
  have "8 * i + 8 \<le> length data" if "i < length data div 8" for i
    using that by presburger
  then show ?thesis by (auto simp: semiblock_list_def semiblocks_def)
qed


section \<open>Unwrapping runs the passes backwards\<close>

lemma kw_encrypt_pass_ok:
  "\<lbrakk>semiblock_list Rs; \<And>b. length b = 16 \<Longrightarrow> length (enc b) = 16; kw_encrypt_pass enc Rs t A = (Rs', t', A')\<rbrakk> \<Longrightarrow>
    semiblock_list Rs' \<and> length Rs' = length Rs \<and> t' = t + of_nat (length Rs)"
  by (induction Rs arbitrary: t A Rs' t' A') (fastforce simp: semiblock_list_def Let_def split: prod.splits)+

lemma kw_decrypt_pass_ok:
  "\<lbrakk>semiblock_list Rs; \<And>b. length b = 16 \<Longrightarrow> length (dec b) = 16; kw_decrypt_pass dec Rs t A = (Rs', t', A')\<rbrakk> \<Longrightarrow>
    semiblock_list Rs' \<and> length Rs' = length Rs \<and> t' = t - of_nat (length Rs)"
  by (induction Rs arbitrary: t A Rs' t' A') (fastforce simp: semiblock_list_def Let_def split: prod.splits)+

lemma kw_decrypt_pass_append:
  "kw_decrypt_pass dec (Rs @ Ss) t A =
    (case kw_decrypt_pass dec Rs t A of (Rs', t', A') \<Rightarrow>
       case kw_decrypt_pass dec Ss t' A' of (Ss', t'', A'') \<Rightarrow> (Rs' @ Ss', t'', A''))"
  by (induction Rs arbitrary: t A) (auto simp: Let_def split: prod.splits)

lemma kw_encrypt_pass_append:
  "kw_encrypt_pass enc (Rs @ Ss) t A =
    (case kw_encrypt_pass enc Rs t A of (Rs', t', A') \<Rightarrow>
       case kw_encrypt_pass enc Ss t' A' of (Ss', t'', A'') \<Rightarrow> (Rs' @ Ss', t'', A''))"
  by (induction Rs arbitrary: t A) (auto simp: Let_def split: prod.splits)

lemma kw_pass_inverse:
  assumes "block_cipher 16 enc dec"
  shows "\<lbrakk>semiblock_list Rs; kw_encrypt_pass enc Rs t A = (Rs', t', A')\<rbrakk> \<Longrightarrow>
    kw_decrypt_pass dec (rev Rs') (t' - 1) A' = (rev Rs, t - 1, A)"
proof (induction Rs arbitrary: t A Rs' t' A')
  case (Cons R Rs)
  define block where "block = enc (put_be64 A @ R)"
  from Cons.prems have R: "length R = 8" and Rs: "semiblock_list Rs" by (auto simp: semiblock_list_def)
  then have len: "length (put_be64 A @ R) = 16" by simp
  note lb = block_fun.length_enc [OF block_cipher.axioms(1) [OF assms] len, folded block_def]
  note dec = block_cipher.dec_enc [OF assms len, folded block_def]
  from lb have join: "put_be64 (get_be64 block) @ drop 8 block = block" by (simp add: put_get_word_take)
  obtain Ss s B where step: "kw_encrypt_pass enc Rs (t + 1) (get_be64 block XOR t) = (Ss, s, B)"
    by (cases "kw_encrypt_pass enc Rs (t + 1) (get_be64 block XOR t)")
  with Cons.prems(2) have out: "Rs' = drop 8 block # Ss" "t' = s" "A' = B"
    by (auto simp: Let_def block_def [symmetric])
  from Cons.IH [OF Rs step] out show ?case
    by (simp add: kw_decrypt_pass_append Let_def join dec R xor.assoc)
qed simp

lemma kw_pass_inverse':
  assumes "block_cipher 16 enc dec"
  shows "\<lbrakk>semiblock_list Rs; kw_decrypt_pass dec Rs t A = (Rs', t', A')\<rbrakk> \<Longrightarrow>
    kw_encrypt_pass enc (rev Rs') (t' + 1) A' = (rev Rs, t + 1, A)"
proof (induction Rs arbitrary: t A Rs' t' A')
  case (Cons R Rs)
  define block where "block = dec (put_be64 (A XOR t) @ R)"
  from Cons.prems have R: "length R = 8" and Rs: "semiblock_list Rs" by (auto simp: semiblock_list_def)
  then have len: "length (put_be64 (A XOR t) @ R) = 16" by simp
  note lb = block_cipher.length_dec [OF assms len, folded block_def]
  note enc = block_cipher.enc_dec [OF assms len, folded block_def]
  from lb have join: "put_be64 (get_be64 block) @ drop 8 block = block" by (simp add: put_get_word_take)
  obtain Ss s B where step: "kw_decrypt_pass dec Rs (t - 1) (get_be64 block) = (Ss, s, B)"
    by (cases "kw_decrypt_pass dec Rs (t - 1) (get_be64 block)")
  with Cons.prems(2) have out: "Rs' = drop 8 block # Ss" "t' = s" "A' = B"
    by (auto simp: Let_def block_def [symmetric])
  from Cons.IH [OF Rs step] out show ?case
    by (simp add: kw_encrypt_pass_append Let_def join enc R xor.assoc)
qed simp

lemma kw_encrypt_rounds_snoc:
  "kw_encrypt_rounds enc (Suc n) Rs t A =
    (case kw_encrypt_rounds enc n Rs t A of (Rs, t, A) \<Rightarrow> kw_encrypt_pass enc Rs t A)"
proof (induction n arbitrary: Rs t A)
  case (Suc n)
  obtain Ss s B where "kw_encrypt_pass enc Rs t A = (Ss, s, B)" by (cases "kw_encrypt_pass enc Rs t A")
  with Suc.IH [of Ss s B] show ?case by simp
qed (simp split: prod.splits)

lemma kw_encrypt_rounds_ok:
  "\<lbrakk>semiblock_list Rs; block_cipher 16 enc dec; kw_encrypt_rounds enc n Rs t A = (Rs', t', A')\<rbrakk> \<Longrightarrow>
    semiblock_list Rs' \<and> length Rs' = length Rs \<and> t' = t + of_nat (n * length Rs)"
proof (induction n arbitrary: Rs t A)
  case (Suc n)
  obtain Ss s B where step: "kw_encrypt_pass enc Rs t A = (Ss, s, B)" by (cases "kw_encrypt_pass enc Rs t A")
  note ok = kw_encrypt_pass_ok [OF Suc.prems(1) block_fun.length_enc [OF block_cipher.axioms(1) [OF Suc.prems(2)]] step]
  from Suc.prems step have "kw_encrypt_rounds enc n Ss s B = (Rs', t', A')" by simp
  from Suc.IH [OF _ Suc.prems(2) this] ok show ?case by (simp add: algebra_simps)
qed simp

lemma kw_decrypt_rounds_ok:
  "\<lbrakk>semiblock_list Rs; block_cipher 16 enc dec; kw_decrypt_rounds dec n Rs t A = (Rs', t', A')\<rbrakk> \<Longrightarrow>
    semiblock_list Rs' \<and> length Rs' = length Rs \<and> t' = t - of_nat (n * length Rs)"
proof (induction n arbitrary: Rs t A)
  case (Suc n)
  obtain Ss s B where step: "kw_decrypt_pass dec (rev Rs) t A = (Ss, s, B)" by (cases "kw_decrypt_pass dec (rev Rs) t A")
  have "semiblock_list (rev Rs)" using Suc.prems(1) by (simp add: semiblock_list_def)
  note ok = kw_decrypt_pass_ok [OF this block_cipher.length_dec [OF Suc.prems(2)] step]
  then have "semiblock_list (rev Ss)" by (simp add: semiblock_list_def)
  moreover from Suc.prems step have "kw_decrypt_rounds dec n (rev Ss) s B = (Rs', t', A')" by simp
  ultimately have "semiblock_list Rs' \<and> length Rs' = length (rev Ss) \<and> t' = s - of_nat (n * length (rev Ss))"
    by (rule Suc.IH [OF _ Suc.prems(2)])
  with ok show ?case by (auto simp: algebra_simps simp del: diff_eq_eq)
qed simp

lemma kw_rounds_inverse:
  "\<lbrakk>semiblock_list Rs; block_cipher 16 enc dec; kw_encrypt_rounds enc n Rs t A = (Rs', t', A')\<rbrakk> \<Longrightarrow>
    kw_decrypt_rounds dec n Rs' (t' - 1) A' = (Rs, t - 1, A)"
proof (induction n arbitrary: Rs' t' A')
  case (Suc n)
  obtain Ss s B where step: "kw_encrypt_rounds enc n Rs t A = (Ss, s, B)" by (cases "kw_encrypt_rounds enc n Rs t A")
  note ok = kw_encrypt_rounds_ok [OF Suc.prems(1,2) step]
  from Suc.prems(3) step have "kw_encrypt_pass enc Ss s B = (Rs', t', A')"
    by (simp add: kw_encrypt_rounds_snoc del: kw_encrypt_rounds.simps)
  from kw_pass_inverse [OF Suc.prems(2) _ this] ok Suc.IH [OF Suc.prems(1,2) step] show ?case by simp
qed simp

lemma kw_rounds_inverse':
  "\<lbrakk>semiblock_list Rs; block_cipher 16 enc dec; kw_decrypt_rounds dec n Rs t A = (Rs', t', A')\<rbrakk> \<Longrightarrow>
    kw_encrypt_rounds enc n Rs' (t' + 1) A' = (Rs, t + 1, A)"
proof (induction n arbitrary: Rs t A)
  case (Suc n)
  obtain Ss s B where step: "kw_decrypt_pass dec (rev Rs) t A = (Ss, s, B)" by (cases "kw_decrypt_pass dec (rev Rs) t A")
  have rRs: "semiblock_list (rev Rs)" using Suc.prems(1) by (simp add: semiblock_list_def)
  note ok = kw_decrypt_pass_ok [OF this block_cipher.length_dec [OF Suc.prems(2)] step]
  then have "semiblock_list (rev Ss)" by (simp add: semiblock_list_def)
  moreover from Suc.prems step have "kw_decrypt_rounds dec n (rev Ss) s B = (Rs', t', A')" by simp
  ultimately have "kw_encrypt_rounds enc n Rs' (t' + 1) A' = (rev Ss, s + 1, B)"
    using Suc.IH [OF _ Suc.prems(2)] by blast
  with kw_pass_inverse' [OF Suc.prems(2) rRs step] show ?case
    by (simp add: kw_encrypt_rounds_snoc del: kw_encrypt_rounds.simps)
qed simp

section \<open>Unwrapping accepts exactly what wrapping produced\<close>

text \<open>
  C6: for a cipher with 16-byte blocks, key unwrapping succeeds on an IV and a ciphertext with the
  plaintext p exactly when key wrapping p gives that IV and ciphertext: every wrapped key unwraps to
  itself, and the integrity check accepts nothing wrapping could not have produced.
\<close>

theorem kw_unwrap_iff_wrap:
  assumes "block_cipher 16 enc dec" and "length iv = 8"
  shows "crypto_kw_decrypt dec iv c = (None, p) \<longleftrightarrow> crypto_kw_encrypt enc p = Inr (iv, c)"
proof
  assume d: "crypto_kw_decrypt dec iv c = (None, p)"
  obtain Rs t A where r:
    "kw_decrypt_rounds dec 6 (semiblocks c) (of_nat (6 * (length c div 8))) (get_be64 iv) = (Rs, t, A)"
    by (metis prod_cases3)
  from d r have c: "16 \<le> length c" "length c mod 8 = 0" and A: "A = KW_IV" and p: "p = concat Rs"
    by (auto simp: crypto_kw_decrypt_def SEMIBSIZE_def split: if_splits)
  note ok = kw_decrypt_rounds_ok [OF semiblocks_ok [THEN conjunct1] assms(1) r]
  then have t: "t = 0" using semiblocks_ok [of c] by simp
  from kw_rounds_inverse' [OF semiblocks_ok [THEN conjunct1] assms(1) r]
  have "kw_encrypt_rounds enc 6 Rs 1 KW_IV = (semiblocks c, of_nat (6 * (length c div 8)) + 1, get_be64 iv)"
    by (simp add: t A)
  moreover have "semiblocks p = Rs" "length p = length c"
    using concat_semiblocks [of Rs] ok semiblocks_ok [of c] c p by auto
  ultimately show "crypto_kw_encrypt enc p = Inr (iv, c)"
    using c assms(2) by (simp add: crypto_kw_encrypt_def SEMIBSIZE_def semiblocks_concat mod_eq_0_iff_dvd put_get_word)
next
  assume e: "crypto_kw_encrypt enc p = Inr (iv, c)"
  obtain Rs t A where r: "kw_encrypt_rounds enc 6 (semiblocks p) 1 KW_IV = (Rs, t, A)"
    by (metis prod_cases3)
  from e r have p: "16 \<le> length p" "length p mod 8 = 0" and iv: "iv = put_be64 A" and c: "c = concat Rs"
    by (auto simp: crypto_kw_encrypt_def SEMIBSIZE_def split: if_splits)
  note ok = kw_encrypt_rounds_ok [OF semiblocks_ok [THEN conjunct1] assms(1) r]
  have len: "semiblocks c = Rs" "length c = length p"
    using concat_semiblocks [of Rs] ok semiblocks_ok [of p] c p by auto
  from kw_rounds_inverse [OF semiblocks_ok [THEN conjunct1] assms(1) r] ok
  have "kw_decrypt_rounds dec 6 Rs (of_nat (6 * (length p div 8))) A = (semiblocks p, 0, KW_IV)"
    using semiblocks_ok [of p] by simp
  then show "crypto_kw_decrypt dec iv c = (None, p)"
    using p len iv by (simp add: crypto_kw_decrypt_def SEMIBSIZE_def semiblocks_concat mod_eq_0_iff_dvd)
qed

lemma kw_unwrap_iff_wrap_witness:
  "crypto_kw_decrypt (seed_decrypt (seed_set_key (map of_nat [0..<16]))) (replicate 8 7) (replicate 24 1) =
      (None, replicate 24 0) \<longleftrightarrow>
    crypto_kw_encrypt (seed_encrypt (seed_set_key (map of_nat [0..<16]))) (replicate 24 0) = Inr (replicate 8 7, replicate 24 1)"
  by (rule kw_unwrap_iff_wrap [OF seed.block_cipher_axioms]) simp

end
