(* ===== verification/Vli.thy ===== *)
theory Vli
  imports Prelude
begin

text \<open>
  The multi-digit integers of \<open>kernel-crypto/ecc.c\<close>: little-endian arrays of 64-bit digits, here
  lists of exactly \<open>ndigits\<close> digits. The operations run digit by digit with the code's own carries
  and borrows; \<open>vli_val\<close> is the number an array stands for, and the lemmas relate each operation to
  it.
\<close>

fun vli_val :: "u64 list \<Rightarrow> nat" where
  "vli_val [] = 0"
| "vli_val (d # ds) = unat d + 2 ^ 64 * vli_val ds"

section \<open>Operations\<close>

definition vli_clear :: "nat \<Rightarrow> u64 list" where
  "vli_clear ndigits = replicate ndigits 0"

fun vli_is_zero :: "u64 list \<Rightarrow> bool" where
  "vli_is_zero [] = True"
| "vli_is_zero (d # ds) = (if d \<noteq> 0 then False else vli_is_zero ds)"

definition vli_test_bit :: "u64 list \<Rightarrow> nat \<Rightarrow> u64" where
  "vli_test_bit vli b = (vli ! (b div 64)) AND push_bit (b mod 64) 1"

definition vli_is_negative :: "u64 list \<Rightarrow> bool" where
  "vli_is_negative vli = (vli_test_bit vli (length vli * 64 - 1) \<noteq> 0)"

text \<open>The digits up to the last that is not zero.\<close>

fun vli_num_digits_loop :: "u64 list \<Rightarrow> nat \<Rightarrow> nat" where
  "vli_num_digits_loop vli 0 = 0"
| "vli_num_digits_loop vli (Suc i) = (if vli ! i = 0 then vli_num_digits_loop vli i else Suc i)"

definition vli_num_digits :: "u64 list \<Rightarrow> nat" where
  "vli_num_digits vli = vli_num_digits_loop vli (length vli)"

fun digit_bits :: "nat \<Rightarrow> u64 \<Rightarrow> nat" where
  "digit_bits 0 digit = 0"
| "digit_bits (Suc fuel) digit = (if digit \<noteq> 0 then Suc (digit_bits fuel (drop_bit 1 digit)) else 0)"

definition vli_num_bits :: "u64 list \<Rightarrow> nat" where
  "vli_num_bits vli =
     (let num_digits = vli_num_digits vli in
      if num_digits = 0 then 0
      else (num_digits - 1) * 64 + digit_bits 64 (vli ! (num_digits - 1)))"

definition vli_from_be64 :: "bytes \<Rightarrow> nat \<Rightarrow> u64 list" where
  "vli_from_be64 src ndigits = map (\<lambda>i. get_be64 (drop (8 * (ndigits - 1 - i)) src)) [0..<ndigits]"

definition vli_from_le64 :: "bytes \<Rightarrow> nat \<Rightarrow> u64 list" where
  "vli_from_le64 src ndigits = map (\<lambda>i. get_le64 (drop (8 * i) src)) [0..<ndigits]"

text \<open>\<open>vli_cmp\<close> looks at the most significant digits first.\<close>

fun vli_cmp_loop :: "u64 list \<Rightarrow> u64 list \<Rightarrow> nat \<Rightarrow> int" where
  "vli_cmp_loop left right 0 = 0"
| "vli_cmp_loop left right (Suc i) =
     (if left ! i > right ! i then 1
      else if left ! i < right ! i then -1
      else vli_cmp_loop left right i)"

definition vli_cmp :: "u64 list \<Rightarrow> u64 list \<Rightarrow> int" where
  "vli_cmp left right = vli_cmp_loop left right (length left)"

fun vli_lshift_loop :: "u64 \<Rightarrow> nat \<Rightarrow> u64 list \<Rightarrow> u64 list \<times> u64" where
  "vli_lshift_loop carry shift [] = ([], carry)"
| "vli_lshift_loop carry shift (temp # ds) =
     (case vli_lshift_loop (drop_bit (64 - shift) temp) shift ds of (res, c) \<Rightarrow>
        ((push_bit shift temp OR carry) # res, c))"

definition vli_lshift :: "u64 list \<Rightarrow> nat \<Rightarrow> u64 list \<times> u64" where
  "vli_lshift ds shift = vli_lshift_loop 0 shift ds"

text \<open>\<open>vli_rshift1\<close> walks down from the end; this is its loop on the reversed digits.\<close>

fun vli_rshift1_loop :: "u64 \<Rightarrow> u64 list \<Rightarrow> u64 list" where
  "vli_rshift1_loop carry [] = []"
| "vli_rshift1_loop carry (temp # ds) =
     (drop_bit 1 temp OR carry) # vli_rshift1_loop (push_bit 63 temp) ds"

definition vli_rshift1 :: "u64 list \<Rightarrow> u64 list" where
  "vli_rshift1 vli = rev (vli_rshift1_loop 0 (rev vli))"

fun vli_add_loop :: "u64 \<Rightarrow> u64 list \<Rightarrow> u64 list \<Rightarrow> u64 list \<times> u64" where
  "vli_add_loop carry (l # ls) (r # rs) =
     (let sm = l + r + carry;
          carry' = (if sm \<noteq> l then of_bool (sm < l) else carry)
      in case vli_add_loop carry' ls rs of (res, c) \<Rightarrow> (sm # res, c))"
| "vli_add_loop carry _ _ = ([], carry)"

definition vli_add :: "u64 list \<Rightarrow> u64 list \<Rightarrow> u64 list \<times> u64" where
  "vli_add left right = vli_add_loop 0 left right"

fun vli_uadd :: "u64 list \<Rightarrow> u64 \<Rightarrow> u64 list \<times> u64" where
  "vli_uadd [] carry = ([], carry)"
| "vli_uadd (l # ls) carry =
     (let sm = l + carry;
          carry' = (if sm \<noteq> l then of_bool (sm < l) else of_bool (carry \<noteq> 0))
      in case vli_uadd ls carry' of (res, c) \<Rightarrow> (sm # res, c))"

fun vli_sub_loop :: "u64 \<Rightarrow> u64 list \<Rightarrow> u64 list \<Rightarrow> u64 list \<times> u64" where
  "vli_sub_loop borrow (l # ls) (r # rs) =
     (let diff = l - r - borrow;
          borrow' = (if diff \<noteq> l then of_bool (diff > l) else borrow)
      in case vli_sub_loop borrow' ls rs of (res, c) \<Rightarrow> (diff # res, c))"
| "vli_sub_loop borrow _ _ = ([], borrow)"

definition vli_sub :: "u64 list \<Rightarrow> u64 list \<Rightarrow> u64 list \<times> u64" where
  "vli_sub left right = vli_sub_loop 0 left right"

fun vli_usub :: "u64 list \<Rightarrow> u64 \<Rightarrow> u64 list \<times> u64" where
  "vli_usub [] borrow = ([], borrow)"
| "vli_usub (l # ls) borrow =
     (let diff = l - borrow;
          borrow' = (if diff \<noteq> l then of_bool (diff > l) else borrow)
      in case vli_usub ls borrow' of (res, c) \<Rightarrow> (diff # res, c))"

definition vli_mod_add :: "u64 list \<Rightarrow> u64 list \<Rightarrow> u64 list \<Rightarrow> u64 list" where
  "vli_mod_add left right m =
     (case vli_add left right of (result, carry) \<Rightarrow>
        if carry \<noteq> 0 \<or> vli_cmp result m \<ge> 0 then fst (vli_sub result m) else result)"

definition vli_mod_sub :: "u64 list \<Rightarrow> u64 list \<Rightarrow> u64 list \<Rightarrow> u64 list" where
  "vli_mod_sub left right m =
     (case vli_sub left right of (result, borrow) \<Rightarrow>
        if borrow \<noteq> 0 then fst (vli_add result m) else result)"

section \<open>Values\<close>

lemma vli_val_less: "vli_val ds < 2 ^ (64 * length ds)"
proof (induction ds)
  case (Cons d ds)
  have "unat d < 2 ^ 64" using unsigned_less [of d] by simp
  moreover have "2 ^ 64 * vli_val ds + 2 ^ 64 \<le> 2 ^ 64 * (2 :: nat) ^ (64 * length ds)"
    using Cons by (metis Suc_leI add.commute mult_Suc_right mult_le_mono2)
  moreover have "(2 :: nat) ^ (64 * length (d # ds)) = 2 ^ 64 * 2 ^ (64 * length ds)"
    by (simp add: power_add)
  ultimately show ?case unfolding vli_val.simps by linarith
qed simp

lemma vli_val_append: "vli_val (xs @ ys) = vli_val xs + 2 ^ (64 * length xs) * vli_val ys"
  by (induction xs) (simp_all add: power_add algebra_simps)

lemma vli_val_inj: "length xs = length ys \<Longrightarrow> vli_val xs = vli_val ys \<Longrightarrow> xs = ys"
proof (induction xs ys rule: list_induct2)
  case (Cons x xs y ys)
  have x: "unat x < 2 ^ 64" "unat y < 2 ^ 64" using unsigned_less [of x] unsigned_less [of y] by simp_all
  from Cons.prems have "(unat x + 2 ^ 64 * vli_val xs) mod 2 ^ 64 = (unat y + 2 ^ 64 * vli_val ys) mod 2 ^ 64"
    by simp
  with x have "unat x = unat y" by simp
  with Cons show ?case by (simp add: word_unat_eq_iff)
qed simp

lemma vli_val_replicate_0 [simp]: "vli_val (replicate n 0) = 0"
  by (induction n) simp_all

lemma vli_val_take_drop: "vli_val ds = vli_val (take k ds) + 2 ^ (64 * min k (length ds)) * vli_val (drop k ds)"
  using vli_val_append [of "take k ds" "drop k ds"] by simp (metis min.commute)

lemma vli_is_zero_val: "vli_is_zero ds \<longleftrightarrow> vli_val ds = 0"
  by (induction ds) (auto simp: unsigned_eq_0_iff)

lemma cmp_nat:
  assumes "(x :: nat) < M" "y < M"
  shows "x + M * a < y + M * b \<longleftrightarrow> a < b \<or> a = b \<and> x < y"
proof (cases a b rule: linorder_cases)
  case less
  then have "M * a + M \<le> M * b" by (metis Suc_leI add.commute mult_Suc_right mult_le_mono2)
  with less assms show ?thesis by linarith
next
  case greater
  then have "M * b + M \<le> M * a" by (metis Suc_leI add.commute mult_Suc_right mult_le_mono2)
  with greater assms show ?thesis by linarith
qed simp

lemma cmp_nat_eq:
  assumes "(x :: nat) < M" "y < M"
  shows "x + M * a = y + M * b \<longleftrightarrow> a = b \<and> x = y"
  using cmp_nat [OF assms, of a b] cmp_nat [OF assms(2,1), of b a] by (metis less_irrefl linorder_neqE_nat)

lemma vli_val_snoc: "vli_val (xs @ [x]) = vli_val xs + 2 ^ (64 * length xs) * unat x"
  by (simp add: vli_val_append)

lemma vli_cmp_loop_val:
  "i \<le> length left \<Longrightarrow> i \<le> length right \<Longrightarrow>
    vli_cmp_loop left right i =
      (if vli_val (take i left) < vli_val (take i right) then -1
       else if vli_val (take i left) = vli_val (take i right) then 0 else 1)"
proof (induction i)
  case (Suc i)
  let ?M = "(2 :: nat) ^ (64 * i)"
  have l: "vli_val (take i left) < ?M" "vli_val (take i right) < ?M"
    using vli_val_less [of "take i left"] vli_val_less [of "take i right"] Suc.prems by simp_all
  have v: "vli_val (take (Suc i) xs) = vli_val (take i xs) + ?M * unat (xs ! i)" if "Suc i \<le> length xs" for xs
    using that by (simp add: take_Suc_conv_app_nth vli_val_append)
  show ?case
    using Suc v [of left] v [of right]
    by (auto simp: word_less_nat_alt word_unat_eq_iff cmp_nat [OF l] cmp_nat_eq [OF l])
qed simp

lemma vli_cmp_val:
  "length left = length right \<Longrightarrow> vli_cmp left right =
     (if vli_val left < vli_val right then -1 else if vli_val left = vli_val right then 0 else 1)"
  by (simp add: vli_cmp_def vli_cmp_loop_val)

section \<open>Carries and borrows\<close>

text \<open>One digit: the code's carry is the carry of the three-term sum, its borrow likewise.\<close>

lemma carry_nat:
  assumes "(L :: nat) < M" "R < M" "C \<le> 1"
  shows "(L + R + C) mod M + M * (if (L + R + C) mod M \<noteq> L then of_bool ((L + R + C) mod M < L) else C) = L + R + C"
proof (cases "L + R + C < M")
  case True
  with assms show ?thesis by auto
next
  case False
  with assms have m: "(L + R + C) mod M = L + R + C - M" by (simp add: mod_if)
  show ?thesis unfolding m using assms False by (cases "R + C = M") auto
qed

lemma unat64_less: "unat (x :: u64) < 2 ^ 64"
  using unsigned_less [of x, where ?'a = nat] by simp

lemma unat_plus64: "unat (a + b :: u64) = (unat a + unat b) mod 2 ^ 64"
  by (simp add: unat_word_ariths)

lemma unat_le_1: "unat (c :: u64) \<le> 1 \<longleftrightarrow> c = 0 \<or> c = 1"
proof
  assume "unat c \<le> 1"
  then have "unat c = 0 \<or> unat c = 1" by auto
  then show "c = 0 \<or> c = 1" by (metis unsigned_eq_0_iff unsigned_1 word_unat_eq_iff)
qed auto

lemma add_digit:
  fixes l r carry :: u64
  assumes "unat carry \<le> 1"
  defines "sm \<equiv> l + r + carry"
  shows "unat sm + 2 ^ 64 * unat (if sm \<noteq> l then of_bool (sm < l) else carry) = unat l + unat r + unat carry"
proof -
  have sm: "unat sm = (unat l + unat r + unat carry) mod 2 ^ 64"
    by (simp add: sm_def unat_plus64 mod_simps)
  have c: "unat (if sm \<noteq> l then of_bool (sm < l) else carry) =
      (if unat sm \<noteq> unat l then of_bool (unat sm < unat l) else unat carry)"
    by (simp add: word_less_nat_alt word_unat_eq_iff)
  show ?thesis unfolding c unfolding sm by (rule carry_nat [OF unat64_less unat64_less assms(1)])
qed

lemma vli_add_loop_val:
  "length ls = length rs \<Longrightarrow> unat carry \<le> 1 \<Longrightarrow>
    (case vli_add_loop carry ls rs of (res, c) \<Rightarrow>
       length res = length ls \<and> unat c \<le> 1 \<and>
       vli_val res + 2 ^ (64 * length ls) * unat c = vli_val ls + vli_val rs + unat carry)"
proof (induction ls rs arbitrary: carry rule: list_induct2)
  case (Cons l ls r rs)
  let ?sm = "l + r + carry" let ?c = "if ?sm \<noteq> l then of_bool (?sm < l) else carry"
  have c: "unat ?c \<le> 1" using Cons.prems by auto
  obtain res c' where r: "vli_add_loop ?c ls rs = (res, c')" by (cases "vli_add_loop ?c ls rs")
  from Cons.IH [OF c] r have "length res = length ls" "unat c' \<le> 1"
    "vli_val res + 2 ^ (64 * length ls) * unat c' = vli_val ls + vli_val rs + unat ?c" by auto
  moreover have "(2 :: nat) ^ (64 * length (l # ls)) = 2 ^ 64 * 2 ^ (64 * length ls)" by (simp add: power_add)
  moreover note add_digit [OF Cons.prems, of l r]
  moreover have "vli_add_loop carry (l # ls) (r # rs) = (?sm # res, c')" using r by (simp add: Let_def)
  ultimately show ?case
    by (simp del: vli_add_loop.simps power_Suc add: algebra_simps)
qed simp

lemma vli_add_val:
  assumes "length ls = length rs"
  obtains res c where "vli_add ls rs = (res, c)" "length res = length ls" "unat c \<le> 1"
    "vli_val res + 2 ^ (64 * length ls) * unat c = vli_val ls + vli_val rs"
  using vli_add_loop_val [OF assms, of 0] by (auto simp: vli_add_def split: prod.splits)

lemma uadd_digit:
  fixes l carry :: u64
  defines "sm \<equiv> l + carry"
  shows "unat sm + 2 ^ 64 * unat (if sm \<noteq> l then of_bool (sm < l) else of_bool (carry \<noteq> 0) :: u64) =
    unat l + unat carry"
proof -
  have sm: "unat sm = (unat l + unat carry) mod 2 ^ 64" by (simp add: sm_def unat_plus64)
  have c: "unat (if sm \<noteq> l then of_bool (sm < l) else of_bool (carry \<noteq> 0) :: u64) = of_bool (unat sm < unat l)"
    by (simp add: word_less_nat_alt sm_def)
  have "(L + C) mod M + M * of_bool ((L + C) mod M < L) = L + C" if "L < M" "C < M" for L C M :: nat
    using that by (cases "L + C < M") (simp_all add: mod_if)
  then show ?thesis unfolding c unfolding sm using unat64_less by blast
qed

lemma vli_uadd_val:
  "(case vli_uadd ls carry of (res, c) \<Rightarrow> length res = length ls \<and> (ls \<noteq> [] \<longrightarrow> unat c \<le> 1) \<and>
      vli_val res + 2 ^ (64 * length ls) * unat c = vli_val ls + unat carry)"
proof (induction ls arbitrary: carry)
  case (Cons l ls)
  let ?sm = "l + carry" let ?c = "if ?sm \<noteq> l then of_bool (?sm < l) else of_bool (carry \<noteq> 0) :: u64"
  obtain res c' where r: "vli_uadd ls ?c = (res, c')" by (cases "vli_uadd ls ?c")
  from Cons.IH [of ?c] r have "length res = length ls" "ls \<noteq> [] \<longrightarrow> unat c' \<le> 1"
    "vli_val res + 2 ^ (64 * length ls) * unat c' = vli_val ls + unat ?c" by auto
  moreover have "ls = [] \<Longrightarrow> unat c' \<le> 1" using r by auto
  moreover have "(2 :: nat) ^ (64 * length (l # ls)) = 2 ^ 64 * 2 ^ (64 * length ls)" by (simp add: power_add)
  moreover note uadd_digit [of l carry]
  moreover have "vli_uadd (l # ls) carry = (?sm # res, c')" using r by (simp add: Let_def)
  ultimately show ?case
    by (cases "ls = []") (simp_all del: vli_uadd.simps power_Suc add: algebra_simps)
qed simp

lemma unat_minus64: "unat (a - b :: u64) = (unat a + (2 ^ 64 - unat b)) mod 2 ^ 64"
proof (cases "b \<le> a")
  case True
  then have "unat (a - b) = unat a - unat b" "unat b \<le> unat a"
    by (simp_all add: unat_sub word_le_nat_alt)
  moreover have e: "unat a + (2 ^ 64 - unat b) = (unat a - unat b) + 2 ^ 64"
    using calculation(2) unat64_less [of b] by linarith
  moreover have "unat a - unat b < 2 ^ 64" using unat64_less [of a] by linarith
  ultimately show ?thesis unfolding e by (simp only: mod_add_self2 mod_less)
next
  case False
  then have l: "unat a < unat b" by (simp add: word_less_nat_alt not_le)
  have "unat ((a - b) + b) = (unat (a - b) + unat b) mod 2 ^ 64" by (rule unat_plus64)
  then have "unat a = (unat (a - b) + unat b) mod 2 ^ 64" by simp
  then have "unat (a - b) + unat b = unat a + 2 ^ 64"
    using l unat64_less [of "a - b"] unat64_less [of b] by (simp add: mod_if split: if_splits)
  with l unat64_less [of b] unat64_less [of "a - b"] show ?thesis by simp
qed

lemma borrow_nat:
  assumes "(L :: nat) < M" "R < M" "B \<le> 1" "D = (L + (M - R) + (M - B)) mod M"
  shows "D + R + B = L + M * (if D \<noteq> L then of_bool (D > L) else B)"
proof (cases "R + B \<le> L")
  case True
  then have e: "L + (M - R) + (M - B) = (L - R - B) + M * 2" using assms by linarith
  have "L - R - B < M" using assms by linarith
  then have "D = L - R - B" unfolding assms(4) e by simp
  with True assms(1-3) show ?thesis by (cases "R + B = 0") auto
next
  case F: False
  then have e: "L + (M - R) + (M - B) = (L + M - R - B) + M" using assms by linarith
  have "L + M - R - B < M" using F assms by linarith
  then have "D = L + M - R - B" unfolding assms(4) e by simp
  with F assms show ?thesis by (cases "R + B = M") auto
qed

lemma sub_digit:
  fixes l r borrow :: u64
  assumes "unat borrow \<le> 1"
  defines "diff \<equiv> l - r - borrow"
  shows "unat diff + unat r + unat borrow =
    unat l + 2 ^ 64 * unat (if diff \<noteq> l then of_bool (diff > l) else borrow)"
proof -
  have d: "unat diff = (unat l + (2 ^ 64 - unat r) + (2 ^ 64 - unat borrow)) mod 2 ^ 64"
    by (simp add: diff_def unat_minus64 mod_simps)
  have c: "unat (if diff \<noteq> l then of_bool (diff > l) else borrow) =
      (if unat diff \<noteq> unat l then of_bool (unat diff > unat l) else unat borrow)"
    by (simp add: word_less_nat_alt word_unat_eq_iff)
  show ?thesis unfolding c by (rule borrow_nat [OF unat64_less unat64_less assms(1) d])
qed

lemma vli_sub_loop_val:
  "length ls = length rs \<Longrightarrow> unat borrow \<le> 1 \<Longrightarrow>
    (case vli_sub_loop borrow ls rs of (res, b) \<Rightarrow>
       length res = length ls \<and> unat b \<le> 1 \<and>
       vli_val res + vli_val rs + unat borrow = vli_val ls + 2 ^ (64 * length ls) * unat b)"
proof (induction ls rs arbitrary: borrow rule: list_induct2)
  case (Cons l ls r rs)
  let ?d = "l - r - borrow" let ?b = "if ?d \<noteq> l then of_bool (?d > l) else borrow"
  have b: "unat ?b \<le> 1" using Cons.prems by auto
  obtain res b' where r: "vli_sub_loop ?b ls rs = (res, b')" by (cases "vli_sub_loop ?b ls rs")
  from Cons.IH [OF b] r have "length res = length ls" "unat b' \<le> 1"
    "vli_val res + vli_val rs + unat ?b = vli_val ls + 2 ^ (64 * length ls) * unat b'" by auto
  moreover have "(2 :: nat) ^ (64 * length (l # ls)) = 2 ^ 64 * 2 ^ (64 * length ls)" by (simp add: power_add)
  moreover note sub_digit [OF Cons.prems, of l r]
  moreover have "vli_sub_loop borrow (l # ls) (r # rs) = (?d # res, b')" using r by (simp add: Let_def)
  ultimately show ?case
    by (simp del: vli_sub_loop.simps power_Suc add: algebra_simps)
qed simp

lemma vli_sub_val:
  assumes "length ls = length rs"
  obtains res b where "vli_sub ls rs = (res, b)" "length res = length ls" "unat b \<le> 1"
    "vli_val res + vli_val rs = vli_val ls + 2 ^ (64 * length ls) * unat b"
    "b = of_bool (vli_val ls < vli_val rs)"
proof -
  obtain res b where r: "vli_sub ls rs = (res, b)" by (cases "vli_sub ls rs")
  with vli_sub_loop_val [OF assms, of 0] have v: "length res = length ls" "unat b \<le> 1"
    "vli_val res + vli_val rs = vli_val ls + 2 ^ (64 * length ls) * unat b"
    by (auto simp: vli_sub_def)
  have "b = of_bool (vli_val ls < vli_val rs)"
    using v(2,3) vli_val_less [of res] v(1) vli_val_less [of rs] assms unat_le_1 [of b]
    by (cases "b = 0") auto
  with r v show ?thesis by (rule_tac that)
qed

lemma usub_digit:
  fixes l borrow :: u64
  defines "diff \<equiv> l - borrow"
  shows "unat diff + unat borrow = unat l + 2 ^ 64 * unat (if diff \<noteq> l then of_bool (diff > l) else borrow)"
proof -
  have d: "unat diff = (unat l + (2 ^ 64 - unat borrow)) mod 2 ^ 64" by (simp add: diff_def unat_minus64)
  have c: "unat (if diff \<noteq> l then of_bool (diff > l) else borrow) = of_bool (unat diff > unat l)"
    by (simp add: word_less_nat_alt diff_def)
  have "(L + (M - B)) mod M + B = L + M * of_bool ((L + (M - B)) mod M > L)" if "L < M" "B < M" for L B M :: nat
    using borrow_nat [OF that, of 0 "(L + (M - B)) mod M"] by (simp split: if_splits)
  then show ?thesis unfolding c unfolding d using unat64_less by blast
qed

lemma vli_usub_val:
  "(case vli_usub ls borrow of (res, b) \<Rightarrow> length res = length ls \<and>
      vli_val res + unat borrow = vli_val ls + 2 ^ (64 * length ls) * unat b)"
proof (induction ls arbitrary: borrow)
  case (Cons l ls)
  let ?d = "l - borrow" let ?b = "if ?d \<noteq> l then of_bool (?d > l) else borrow"
  obtain res b' where r: "vli_usub ls ?b = (res, b')" by (cases "vli_usub ls ?b")
  from Cons.IH [of ?b] r have "length res = length ls"
    "vli_val res + unat ?b = vli_val ls + 2 ^ (64 * length ls) * unat b'" by auto
  moreover have "(2 :: nat) ^ (64 * length (l # ls)) = 2 ^ 64 * 2 ^ (64 * length ls)" by (simp add: power_add)
  moreover note usub_digit [of l borrow]
  moreover have "vli_usub (l # ls) borrow = (?d # res, b')" using r by (simp add: Let_def)
  ultimately show ?case by (simp del: vli_usub.simps power_Suc add: algebra_simps)
qed simp

section \<open>Shifts and lengths\<close>

lemma or_disjoint:
  assumes "unat (a :: u64) mod 2 ^ k = 0" "unat b < 2 ^ k"
  shows "unat (a OR b) = unat a + unat b"
proof -
  have z: "a AND b = 0"
  proof (rule bit_word_eqI)
    fix n assume "n < LENGTH(64)"
    have "\<not> bit a n" if "n < k"
    proof -
      have "take_bit k (unat a) = 0" using assms(1) by (simp add: take_bit_eq_mod)
      then have "\<not> bit (take_bit k (unat a)) n" by simp
      with that show ?thesis by (simp add: bit_take_bit_iff bit_unsigned_iff)
    qed
    moreover have "\<not> bit b n" if "k \<le> n"
    proof -
      have "take_bit k (unat b) = unat b" using assms(2) by (simp add: take_bit_nat_eq_self)
      then have "\<not> bit (unat b) n" using that by (metis bit_take_bit_iff not_le)
      then show ?thesis by (simp add: bit_unsigned_iff)
    qed
    ultimately show "bit (a AND b) n = bit 0 n" by (cases "n < k") (simp_all add: bit_and_iff)
  qed
  then have "a OR b = a + b" by (metis disjunctive_add_eq_or)
  moreover have "unat a + unat b < 2 ^ 64"
  proof (cases "k < 64")
    case True
    from assms(1) obtain q where q: "unat a = 2 ^ k * q" by auto
    have "2 ^ k * q < 2 ^ k * 2 ^ (64 - k)"
      using unat64_less [of a] True q by (simp add: power_add [symmetric])
    then have "Suc q \<le> 2 ^ (64 - k)" by simp
    then have "2 ^ k * Suc q \<le> 2 ^ k * 2 ^ (64 - k)" by (rule mult_le_mono2)
    also have "\<dots> = (2 :: nat) ^ 64" using True by (simp add: power_add [symmetric])
    finally show ?thesis using q assms(2) by simp
  next
    case False
    then have "unat a < 2 ^ k" using unat64_less [of a] by (meson less_le_trans not_less one_le_numeral power_increasing)
    with assms(1) have "unat a = 0" by simp
    then show ?thesis using unat64_less [of b] by simp
  qed
  ultimately show ?thesis by (simp add: unat_plus64)
qed

lemma unat_drop_bit64: "unat (drop_bit n (w :: u64)) = unat w div 2 ^ n"
  by (simp only: unsigned_drop_bit_eq drop_bit_eq_div [where ?'a = nat])
    (simp add: take_bit_nat_eq_self [OF unat64_less])

lemma unat_push_bit64: "unat (push_bit n (w :: u64)) = (2 ^ n * unat w) mod 2 ^ 64"
  by (simp only: unsigned_push_bit_eq take_bit_eq_mod) (simp add: push_bit_eq_mult mult.commute)

lemma lshift_digit:
  fixes temp carry :: u64
  assumes "0 < shift" "shift < 64" "unat carry < 2 ^ shift"
  shows "unat (push_bit shift temp OR carry) + 2 ^ 64 * unat (drop_bit (64 - shift) temp) =
    2 ^ shift * unat temp + unat carry"
    "unat (drop_bit (64 - shift) temp) < 2 ^ shift"
proof -
  have p: "(2 :: nat) ^ 64 = 2 ^ shift * 2 ^ (64 - shift)" using assms by (simp add: power_add [symmetric])
  have push: "unat (push_bit shift temp) = 2 ^ shift * (unat temp mod 2 ^ (64 - shift))"
    unfolding unat_push_bit64 p mult_mod_right ..
  have drop: "unat (drop_bit (64 - shift) temp) = unat temp div 2 ^ (64 - shift)"
    by (rule unat_drop_bit64)
  have "unat (push_bit shift temp OR carry) = unat (push_bit shift temp) + unat carry"
    by (rule or_disjoint [of _ shift]) (use push assms in auto)
  moreover have "2 ^ shift * unat temp = 2 ^ shift * (unat temp mod 2 ^ (64 - shift)) +
      2 ^ 64 * (unat temp div 2 ^ (64 - shift))"
    unfolding p by (metis distrib_left mod_mult_div_eq mult.assoc)
  ultimately show "unat (push_bit shift temp OR carry) + 2 ^ 64 * unat (drop_bit (64 - shift) temp) =
    2 ^ shift * unat temp + unat carry"
    unfolding push drop by linarith
  show "unat (drop_bit (64 - shift) temp) < 2 ^ shift"
    unfolding drop using unat64_less [of temp] p by (simp add: less_mult_imp_div_less)
qed

lemma vli_lshift_loop_val:
  "0 < shift \<Longrightarrow> shift < 64 \<Longrightarrow> unat carry < 2 ^ shift \<Longrightarrow>
    (case vli_lshift_loop carry shift ds of (res, c) \<Rightarrow> length res = length ds \<and> unat c < 2 ^ shift \<and>
       vli_val res + 2 ^ (64 * length ds) * unat c = 2 ^ shift * vli_val ds + unat carry)"
proof (induction ds arbitrary: carry)
  case (Cons temp ds)
  obtain res c where r: "vli_lshift_loop (drop_bit (64 - shift) temp) shift ds = (res, c)"
    by (cases "vli_lshift_loop (drop_bit (64 - shift) temp) shift ds")
  note d = lshift_digit [OF Cons.prems, of temp]
  from Cons.IH [OF Cons.prems(1,2) d(2)] r have "length res = length ds" "unat c < 2 ^ shift"
    "vli_val res + 2 ^ (64 * length ds) * unat c =
      2 ^ shift * vli_val ds + unat (drop_bit (64 - shift) temp)" by auto
  moreover have "(2 :: nat) ^ (64 * length (temp # ds)) = 2 ^ 64 * 2 ^ (64 * length ds)" by (simp add: power_add)
  moreover have "vli_lshift_loop carry shift (temp # ds) = ((push_bit shift temp OR carry) # res, c)"
    using r by simp
  ultimately show ?case using d(1)
    by (simp del: vli_lshift_loop.simps power_Suc add: algebra_simps)
qed simp

lemma vli_lshift_val:
  assumes "0 < shift" "shift < 64"
  obtains res c where "vli_lshift ds shift = (res, c)" "length res = length ds" "unat c < 2 ^ shift"
    "vli_val res + 2 ^ (64 * length ds) * unat c = 2 ^ shift * vli_val ds"
  using vli_lshift_loop_val [OF assms, of 0 ds] by (auto simp: vli_lshift_def split: prod.splits)

text \<open>\<open>vli_rshift1\<close> halves the number.\<close>

lemma push63: "unat (push_bit 63 (x :: u64)) = 2 ^ 63 * (unat x mod 2)"
proof -
  have "(2 :: nat) ^ 64 = 2 ^ 63 * 2" by simp
  then show ?thesis by (simp only: unat_push_bit64 mult_mod_right)
qed

lemma rshift1_digit:
  fixes temp carry :: u64
  assumes "carry = 0 \<or> unat carry = 2 ^ 63"
  shows "unat (drop_bit 1 temp OR carry) = unat temp div 2 + unat carry"
proof -
  have d: "unat (drop_bit 1 temp) = unat temp div 2" using unat_drop_bit64 [of 1 temp] by simp
  have "unat temp div 2 < 2 ^ 63" using unat64_less [of temp] by simp
  then have "unat (carry OR drop_bit 1 temp) = unat carry + unat (drop_bit 1 temp)"
    using assms d by (intro or_disjoint [of _ 63]) auto
  then show ?thesis by (metis d or.commute add.commute)
qed

lemma vli_rshift1_loop_val:
  "carry = 0 \<or> unat carry = 2 ^ 63 \<Longrightarrow> length (vli_rshift1_loop carry ds) = length ds \<and>
    2 * vli_val (rev (vli_rshift1_loop carry ds)) + (if ds = [] then 0 else unat (last ds) mod 2) =
      vli_val (rev ds) + (if ds = [] then 0 else 2 ^ (64 * length ds) * of_bool (carry \<noteq> 0))"
proof (induction ds arbitrary: carry)
  case (Cons temp ds)
  let ?c = "push_bit 63 temp" and ?P = "(2 :: nat) ^ (64 * length ds)"
  let ?new = "unat temp div 2 + unat carry"
  have odd: "?c \<noteq> 0 \<longleftrightarrow> unat temp mod 2 = 1"
    using push63 [of temp] by (simp add: word_unat_eq_iff del: unsigned_eq_0_iff)
  have c: "?c = 0 \<or> unat ?c = 2 ^ 63" using odd push63 [of temp] by (cases "?c = 0") simp_all
  note IH = Cons.IH [OF c]
  have new: "2 * ?new + unat temp mod 2 = unat temp + 2 ^ 64 * of_bool (carry \<noteq> 0)"
    using Cons.prems by auto
  have v: "vli_val (rev (vli_rshift1_loop carry (temp # ds))) = vli_val (rev (vli_rshift1_loop ?c ds)) + ?P * ?new"
    using rshift1_digit [OF Cons.prems, of temp] IH by (simp add: vli_val_append)
  have w: "vli_val (rev (temp # ds)) = vli_val (rev ds) + ?P * unat temp"
    by (simp add: vli_val_append)
  show ?case
  proof (cases "ds = []")
    case True
    with new Cons.prems show ?thesis unfolding v w by simp
  next
    case False
    have "2 * vli_val (rev (vli_rshift1_loop ?c ds)) + unat (last ds) mod 2 = vli_val (rev ds) + ?P * (unat temp mod 2)"
      using IH False odd by (cases "?c = 0") auto
    moreover have "(2 :: nat) ^ (64 * length (temp # ds)) = ?P * 2 ^ 64" by (simp add: power_add)
    moreover have "?P * (2 * ?new) + ?P * (unat temp mod 2) = ?P * unat temp + ?P * (2 ^ 64 * of_bool (carry \<noteq> 0))"
      using arg_cong [where f = "\<lambda>x. ?P * x", OF new] by (simp only: distrib_left)
    ultimately show ?thesis
      using IH False unfolding v w by (simp add: algebra_simps del: power_Suc)
  qed
qed simp

lemma length_vli_rshift1 [simp]: "length (vli_rshift1 ds) = length ds"
  using vli_rshift1_loop_val [of 0 "rev ds"] by (simp add: vli_rshift1_def)

lemma vli_val_mod2: "vli_val ds mod 2 = (if ds = [] then 0 else unat (ds ! 0) mod 2)"
proof (cases ds)
  case (Cons d es)
  have "(unat d + 2 ^ 64 * vli_val es) mod 2 = unat d mod 2" by (simp add: mod_add_eq [symmetric])
  with Cons show ?thesis by simp
qed simp

lemma vli_rshift1_val: "vli_val (vli_rshift1 ds) = vli_val ds div 2"
proof (cases "ds = []")
  case False
  have "2 * vli_val (vli_rshift1 ds) + vli_val ds mod 2 = vli_val ds"
    using vli_rshift1_loop_val [of 0 "rev ds"] False vli_val_mod2 [of ds]
    by (simp add: vli_rshift1_def last_rev hd_conv_nth)
  then show ?thesis by linarith
qed (simp add: vli_rshift1_def)

lemma vli_num_digits_loop_val:
  "i \<le> length vli \<Longrightarrow>
    (case vli_num_digits_loop vli i of n \<Rightarrow> n \<le> i \<and> vli_val (take i vli) = vli_val (take n vli) \<and>
       (n \<noteq> 0 \<longrightarrow> vli ! (n - 1) \<noteq> 0))"
  by (induction i) (auto simp: take_Suc_conv_app_nth vli_val_append)

lemma digit_bits_val:
  "unat d < 2 ^ fuel \<Longrightarrow> unat d < 2 ^ digit_bits fuel d \<and>
     (d \<noteq> 0 \<longrightarrow> 0 < digit_bits fuel d \<and> 2 ^ (digit_bits fuel d - 1) \<le> unat d)"
proof (induction fuel arbitrary: d)
  case (Suc fuel)
  have h: "unat (drop_bit 1 d) = unat d div 2" using unat_drop_bit64 [of 1 d] by simp
  show ?case
  proof (cases "d = 0")
    case False
    let ?k = "digit_bits fuel (drop_bit 1 d)"
    have l: "unat (drop_bit 1 d) < 2 ^ fuel" unfolding h using Suc.prems by simp
    from Suc.IH [OF l] have "unat d div 2 < 2 ^ ?k" unfolding h by simp
    then have "unat d < 2 ^ Suc ?k" by simp
    moreover have "2 ^ ?k \<le> unat d"
    proof (cases "drop_bit 1 d = 0")
      case True
      then have "?k = 0" by (cases fuel) simp_all
      with False show ?thesis by (simp add: Suc_le_eq unsigned_eq_0_iff neq0_conv [symmetric])
    next
      case nz: False
      with Suc.IH [OF l] have "0 < ?k" "2 ^ (?k - 1) \<le> unat d div 2" unfolding h by auto
      then have "2 * 2 ^ (?k - 1) \<le> unat d" by linarith
      with \<open>0 < ?k\<close> show ?thesis by (metis Suc_diff_1 power_Suc)
    qed
    ultimately show ?thesis using False by simp
  qed simp
qed (simp add: word_unat_eq_iff)

text \<open>\<open>vli_num_bits\<close> is the bit length.\<close>

lemma vli_num_bits_val:
  "vli_val vli < 2 ^ vli_num_bits vli \<and> (vli_val vli \<noteq> 0 \<longrightarrow> 2 ^ (vli_num_bits vli - 1) \<le> vli_val vli) \<and>
   vli_num_bits vli \<le> 64 * length vli"
proof -
  let ?n = "vli_num_digits vli"
  have n: "?n \<le> length vli" "vli_val vli = vli_val (take ?n vli)" "?n \<noteq> 0 \<longrightarrow> vli ! (?n - 1) \<noteq> 0"
    using vli_num_digits_loop_val [of "length vli" vli] by (auto simp: vli_num_digits_def)
  show ?thesis
  proof (cases "?n = 0")
    case True
    with n show ?thesis by (simp add: vli_num_bits_def)
  next
    case False
    let ?m = "?n - 1" let ?d = "vli ! ?m" let ?k = "digit_bits 64 ?d"
    have d: "unat ?d < 2 ^ ?k" "0 < ?k" "2 ^ (?k - 1) \<le> unat ?d"
      using digit_bits_val [OF unat64_less, of ?d] False n(3) by auto
    have k: "?k \<le> 64"
    proof (rule ccontr)
      assume "\<not> ?k \<le> 64"
      then have "(2 :: nat) ^ 64 \<le> 2 ^ (?k - 1)" by (intro power_increasing) auto
      with d(3) unat64_less [of ?d] show False by linarith
    qed
    have b: "vli_num_bits vli = 64 * ?m + ?k" using False by (simp add: vli_num_bits_def Let_def)
    have "take ?n vli = take ?m vli @ [?d]" using False n(1) take_Suc_conv_app_nth [of ?m vli] by simp
    then have v: "vli_val vli = vli_val (take ?m vli) + 2 ^ (64 * ?m) * unat ?d"
      using n(1,2) by (simp add: vli_val_append min_absorb2)
    have t: "vli_val (take ?m vli) < 2 ^ (64 * ?m)"
      using vli_val_less [of "take ?m vli"] n(1) by (simp add: min_absorb2)
    have "vli_val vli < 2 ^ (64 * ?m) * 2 ^ ?k"
    proof -
      have "2 ^ (64 * ?m) * Suc (unat ?d) \<le> 2 ^ (64 * ?m) * 2 ^ ?k"
        using d(1) by (intro mult_le_mono2) simp
      with v t show ?thesis by simp
    qed
    moreover have "2 ^ (64 * ?m) * 2 ^ (?k - 1) \<le> vli_val vli"
      unfolding v using mult_le_mono2 [OF d(3), of "2 ^ (64 * ?m)"] by linarith
    moreover have "64 * ?m + ?k \<le> 64 * length vli" using n(1) False k by simp
    ultimately show ?thesis using d(2) unfolding b by (simp add: power_add [symmetric])
  qed
qed

section \<open>Modular addition and subtraction\<close>

lemma vli_mod_add_sum:
  assumes "length left = length m" "length right = length m" "vli_val left + vli_val right < 2 * vli_val m"
  shows "length (vli_mod_add left right m) = length m \<and>
    vli_val (vli_mod_add left right m) = (vli_val left + vli_val right) mod vli_val m"
proof -
  let ?M = "(2 :: nat) ^ (64 * length m)"
  obtain res c where a: "vli_add left right = (res, c)" "length res = length m" "unat c \<le> 1"
    "vli_val res + ?M * unat c = vli_val left + vli_val right"
    using vli_add_val [of left right] assms(1,2) by metis
  obtain r2 b where s: "vli_sub res m = (r2, b)" "length r2 = length m"
    "vli_val r2 + vli_val m = vli_val res + ?M * unat b" "b = of_bool (vli_val res < vli_val m)"
    using vli_sub_val [of res m] a(2) by metis
  have lt: "vli_val left + vli_val right < 2 * vli_val m" "vli_val m < ?M" "vli_val res < ?M"
    using assms(3) vli_val_less [of m] vli_val_less [of res] a(2) by simp_all
  show ?thesis
  proof (cases "c \<noteq> 0 \<or> vli_cmp res m \<ge> 0")
    case True
    have "vli_val r2 = vli_val left + vli_val right - vli_val m"
    proof (cases "c = 0")
      case z: True
      with True have "vli_val m \<le> vli_val res" by (auto simp: vli_cmp_val a(2) split: if_splits)
      with z a(4) s(3,4) show ?thesis by simp
    next
      case False
      with a(3) have "c = 1" using unat_le_1 by blast
      moreover from this a(4) lt have "vli_val res < vli_val m" by simp
      ultimately show ?thesis using a(4) s(3,4) by simp
    qed
    moreover have "vli_val m \<le> vli_val left + vli_val right"
    proof (cases "c = 0")
      case z: True
      with True a(2,4) show ?thesis by (auto simp: vli_cmp_val split: if_splits)
    next
      case False
      with a(3) have "c = 1" using unat_le_1 by blast
      with a(4) lt(2) show ?thesis by simp
    qed
    moreover from this have "(vli_val left + vli_val right) mod vli_val m = vli_val left + vli_val right - vli_val m"
      using lt(1) by (simp add: le_mod_geq)
    moreover have "vli_mod_add left right m = r2" using True a(1) s(1) by (simp add: vli_mod_add_def)
    ultimately show ?thesis using s(2) by simp
  next
    case False
    then have "vli_val res < vli_val m" "c = 0" by (auto simp: vli_cmp_val a(2) split: if_splits)
    with False a show ?thesis by (simp add: vli_mod_add_def)
  qed
qed

lemma vli_mod_add_val:
  assumes "length left = length m" "length right = length m" "vli_val left < vli_val m" "vli_val right < vli_val m"
  shows "length (vli_mod_add left right m) = length m \<and>
    vli_val (vli_mod_add left right m) = (vli_val left + vli_val right) mod vli_val m"
  by (rule vli_mod_add_sum) (use assms in simp_all)

lemma vli_mod_sub_val:
  assumes "length left = length m" "length right = length m" "vli_val left < vli_val m" "vli_val right < vli_val m"
  shows "length (vli_mod_sub left right m) = length m \<and>
    vli_val (vli_mod_sub left right m) = (vli_val left + vli_val m - vli_val right) mod vli_val m"
proof -
  let ?M = "(2 :: nat) ^ (64 * length m)"
  obtain res b where s: "vli_sub left right = (res, b)" "length res = length m"
    "vli_val res + vli_val right = vli_val left + ?M * unat b" "b = of_bool (vli_val left < vli_val right)"
    using vli_sub_val [of left right] assms(1,2) by metis
  obtain r2 c where a: "vli_add res m = (r2, c)" "length r2 = length m" "unat c \<le> 1"
    "vli_val r2 + ?M * unat c = vli_val res + vli_val m"
    using vli_add_val [of res m] s(2) by metis
  have lt: "vli_val r2 < ?M" "vli_val m < ?M" using vli_val_less [of r2] vli_val_less [of m] a(2) by simp_all
  show ?thesis
  proof (cases "vli_val left < vli_val right")
    case True
    then have e: "vli_val res + vli_val right = vli_val left + ?M" using s(3,4) by simp
    have "unat c = 0 \<or> unat c = 1" using a(3) by linarith
    then have "vli_val r2 = vli_val left + vli_val m - vli_val right"
    proof
      assume "unat c = 0"
      with e a(4) lt assms(4) show ?thesis by simp
    next
      assume "unat c = 1"
      with a(4) have "vli_val r2 + ?M = vli_val res + vli_val m" by simp
      with e show ?thesis by linarith
    qed
    with True s a assms show ?thesis by (simp add: vli_mod_sub_def)
  next
    case False
    with s(3,4) have "vli_val res = vli_val left - vli_val right" by simp
    moreover from False assms(3) have "(vli_val left + vli_val m - vli_val right) mod vli_val m =
        vli_val left - vli_val right"
      by (simp add: mod_if)
    ultimately show ?thesis using False s by (simp add: vli_mod_sub_def)
  qed
qed

lemma length_vli_add [simp]: "length a = length b \<Longrightarrow> length (fst (vli_add a b)) = length a"
  by (rule vli_add_val [of a b]) simp_all

lemma length_vli_sub [simp]: "length a = length b \<Longrightarrow> length (fst (vli_sub a b)) = length a"
  by (rule vli_sub_val [of a b]) simp_all

section \<open>Properties\<close>

text \<open>
  On arrays of equal length \<open>vli_add\<close> and \<open>vli_sub\<close> compute the sum and the difference of the
  numbers, with the carry and the borrow they return; \<open>vli_cmp\<close> is the order of the numbers and
  \<open>vli_num_bits\<close> the bit length.
\<close>

theorem vli_arithmetic:
  assumes "length left = length right"
  shows "(case vli_add left right of (res, c) \<Rightarrow>
      vli_val res + 2 ^ (64 * length left) * unat c = vli_val left + vli_val right \<and> unat c \<le> 1) \<and>
    (case vli_sub left right of (res, b) \<Rightarrow>
      vli_val res + vli_val right = vli_val left + 2 ^ (64 * length left) * unat b \<and>
      (b = 1 \<longleftrightarrow> vli_val left < vli_val right)) \<and>
    vli_cmp left right = sgn (int (vli_val left) - int (vli_val right)) \<and>
    vli_val left < 2 ^ vli_num_bits left \<and>
    (vli_val left \<noteq> 0 \<longrightarrow> 2 ^ (vli_num_bits left - 1) \<le> vli_val left)"
proof -
  obtain r1 c where a: "vli_add left right = (r1, c)" "unat c \<le> 1"
    "vli_val r1 + 2 ^ (64 * length left) * unat c = vli_val left + vli_val right"
    by (rule vli_add_val [OF assms])
  obtain r2 b where s: "vli_sub left right = (r2, b)" "b = of_bool (vli_val left < vli_val right)"
    "vli_val r2 + vli_val right = vli_val left + 2 ^ (64 * length left) * unat b"
    by (rule vli_sub_val [OF assms])
  show ?thesis
    using a s vli_num_bits_val [of left] by (simp add: vli_cmp_val [OF assms])
qed

theorem vli_arithmetic_witness:
  "vli_cmp [5, 1] [7, 0] = 1 \<and> snd (vli_sub [5, 0] [7, 0]) = 1"
  using vli_arithmetic [of "[5, 1]" "[7, 0]"] vli_arithmetic [of "[5, 0]" "[7, 0]"]
  by (simp split: prod.splits)

text \<open>
  For operands below the modulus \<open>vli_mod_add\<close> and \<open>vli_mod_sub\<close> compute the sum and the difference
  modulo it, whatever the modulus, also when the addition overflows the array.
\<close>

theorem vli_mod_add_sub_correct:
  assumes "length left = length m" "length right = length m" "vli_val left < vli_val m" "vli_val right < vli_val m"
  shows "vli_val (vli_mod_add left right m) = (vli_val left + vli_val right) mod vli_val m \<and>
    int (vli_val (vli_mod_sub left right m)) = (int (vli_val left) - int (vli_val right)) mod int (vli_val m)"
proof -
  have "int (vli_val left + vli_val m - vli_val right) = int (vli_val left) - int (vli_val right) + int (vli_val m)"
    using assms(4) by simp
  then have "int (vli_val (vli_mod_sub left right m)) = (int (vli_val left) - int (vli_val right)) mod int (vli_val m)"
    using vli_mod_sub_val [OF assms] by (simp add: zmod_int)
  with vli_mod_add_val [OF assms] show ?thesis by simp
qed

theorem vli_mod_add_sub_correct_witness:
  "vli_val (vli_mod_add [0xfffffffffffffffe] [3] [0xffffffffffffffff]) = 2"
  using vli_mod_add_sub_correct [of "[0xfffffffffffffffe]" "[0xffffffffffffffff]" "[3]"] by simp

end
