(* ===== verification/VliMult.thy ===== *)
theory VliMult
  imports Vli
begin

text \<open>
  Multiplication of \<open>kernel-crypto/ecc.c\<close>: the 64 by 64 bit product in both configurations, the
  128-bit accumulator, \<open>vli_mult\<close>, \<open>vli_umult\<close> and \<open>vli_square\<close>. \<open>vli_mult\<close> and \<open>vli_square\<close>
  detect the carry out of the accumulator by comparing high words only; the theorems say when that
  is exact and show operands for which it is not.
\<close>

record uint128 =
  m_low :: u64
  m_high :: u64

definition mul_64_64 :: "bool \<Rightarrow> u64 \<Rightarrow> u64 \<Rightarrow> uint128" where
  "mul_64_64 int128 left right =
     (if int128 then
        (let m = unat left * unat right in
         \<lparr>m_low = of_nat m, m_high = of_nat (m div 2 ^ 64)\<rparr>)
      else
        (let a0 = left AND 0xffffffff; a1 = drop_bit 32 left;
             b0 = right AND 0xffffffff; b1 = drop_bit 32 right;
             m0 = a0 * b0; m1 = a0 * b1; m2 = a1 * b0; m3 = a1 * b1;
             m2 = m2 + drop_bit 32 m0;
             m2 = m2 + m1;
             m3 = (if m2 < m1 then m3 + 0x100000000 else m3)
         in \<lparr>m_low = (m0 AND 0xffffffff) OR push_bit 32 m2, m_high = m3 + drop_bit 32 m2\<rparr>))"

definition add_128_128 :: "uint128 \<Rightarrow> uint128 \<Rightarrow> uint128" where
  "add_128_128 a b =
     (let low = m_low a + m_low b in
      \<lparr>m_low = low, m_high = m_high a + m_high b + of_bool (low < m_low a)\<rparr>)"

text \<open>The inner loop of \<open>vli_mult\<close> over the indices of one column, and the outer loop over columns.\<close>

fun vli_mult_column :: "bool \<Rightarrow> u64 list \<Rightarrow> u64 list \<Rightarrow> nat \<Rightarrow> nat list \<Rightarrow> uint128 \<Rightarrow> u64 \<Rightarrow> uint128 \<times> u64" where
  "vli_mult_column w left right k [] r01 r2 = (r01, r2)"
| "vli_mult_column w left right k (i # is) r01 r2 =
     (let product = mul_64_64 w (left ! i) (right ! (k - i));
          r01 = add_128_128 r01 product;
          r2 = r2 + of_bool (m_high r01 < m_high product)
      in vli_mult_column w left right k is r01 r2)"

definition column_indices :: "nat \<Rightarrow> nat \<Rightarrow> nat list" where
  "column_indices ndigits k = [(if k < ndigits then 0 else k + 1 - ndigits)..<min (Suc k) ndigits]"

fun vli_mult_loop :: "bool \<Rightarrow> u64 list \<Rightarrow> u64 list \<Rightarrow> nat list \<Rightarrow> uint128 \<Rightarrow> u64 list" where
  "vli_mult_loop w left right [] r01 = [m_low r01]"
| "vli_mult_loop w left right (k # ks) r01 =
     (case vli_mult_column w left right k (column_indices (length left) k) r01 0 of (r01, r2) \<Rightarrow>
        m_low r01 # vli_mult_loop w left right ks \<lparr>m_low = m_high r01, m_high = r2\<rparr>)"

definition vli_mult :: "bool \<Rightarrow> u64 list \<Rightarrow> u64 list \<Rightarrow> u64 list" where
  "vli_mult w left right =
     vli_mult_loop w left right [0..<length left * 2 - 1] \<lparr>m_low = 0, m_high = 0\<rparr>"

text \<open>\<open>vli_umult\<close>: by one 32-bit digit, the rest of the double-length result cleared.\<close>

fun vli_umult_loop :: "bool \<Rightarrow> u64 list \<Rightarrow> u32 \<Rightarrow> uint128 \<Rightarrow> u64 list" where
  "vli_umult_loop w [] right r01 = [m_low r01]"
| "vli_umult_loop w (l # ls) right r01 =
     (let product = mul_64_64 w l (ucast right);
          r01 = add_128_128 r01 product
      in m_low r01 # vli_umult_loop w ls right \<lparr>m_low = m_high r01, m_high = 0\<rparr>)"

definition vli_umult :: "bool \<Rightarrow> u64 list \<Rightarrow> u32 \<Rightarrow> u64 list" where
  "vli_umult w left right =
     vli_umult_loop w left right \<lparr>m_low = 0, m_high = 0\<rparr> @ replicate (length left - 1) 0"

text \<open>\<open>vli_square\<close>: the products off the diagonal are doubled, with the bit shifted out counted in \<open>r2\<close>.\<close>

fun vli_square_column :: "bool \<Rightarrow> u64 list \<Rightarrow> nat \<Rightarrow> nat list \<Rightarrow> uint128 \<Rightarrow> u64 \<Rightarrow> uint128 \<times> u64" where
  "vli_square_column w left k [] r01 r2 = (r01, r2)"
| "vli_square_column w left k (i # is) r01 r2 =
     (let product = mul_64_64 w (left ! i) (left ! (k - i));
          r2 = (if i < k - i then r2 + drop_bit 63 (m_high product) else r2);
          product = (if i < k - i then
            \<lparr>m_low = push_bit 1 (m_low product),
             m_high = push_bit 1 (m_high product) OR drop_bit 63 (m_low product)\<rparr> else product);
          r01 = add_128_128 r01 product;
          r2 = r2 + of_bool (m_high r01 < m_high product)
      in vli_square_column w left k is r01 r2)"

fun vli_square_loop :: "bool \<Rightarrow> u64 list \<Rightarrow> nat list \<Rightarrow> uint128 \<Rightarrow> u64 list" where
  "vli_square_loop w left [] r01 = [m_low r01]"
| "vli_square_loop w left (k # ks) r01 =
     (case vli_square_column w left k
        (filter (\<lambda>i. i \<le> k - i) [(if k < length left then 0 else k + 1 - length left)..<Suc k]) r01 0 of
        (r01, r2) \<Rightarrow> m_low r01 # vli_square_loop w left ks \<lparr>m_low = m_high r01, m_high = r2\<rparr>)"

definition vli_square :: "bool \<Rightarrow> u64 list \<Rightarrow> u64 list" where
  "vli_square w left =
     vli_square_loop w left [0..<length left * 2 - 1] \<lparr>m_low = 0, m_high = 0\<rparr>"

section \<open>One product\<close>

definition v128 :: "uint128 \<Rightarrow> nat" where
  "v128 a = unat (m_low a) + 2 ^ 64 * unat (m_high a)"

lemma unat_mult64: "unat (a * b :: u64) = (unat a * unat b) mod 2 ^ 64"
  by (simp add: unat_word_ariths)

lemma unat_and_mask32: "unat (a AND 0xffffffff :: u64) = unat a mod 2 ^ 32"
proof -
  have m: "a AND 0xffffffff = take_bit 32 a" by (simp add: take_bit_eq_mask mask_eq_exp_minus_1)
  show ?thesis unfolding m
    by (simp only: unsigned_take_bit_eq) (simp add: take_bit_eq_mod)
qed

lemma mul_64_64_int128: "v128 (mul_64_64 True left right) = unat left * unat right"
proof -
  let ?m = "unat left * unat right"
  have "?m < 2 ^ 64 * 2 ^ 64" using unat64_less [of left] unat64_less [of right] by (intro mult_strict_mono) simp_all
  then have "?m div 2 ^ 64 < 2 ^ 64" by (simp add: less_mult_imp_div_less)
  then show ?thesis
    by (simp add: v128_def mul_64_64_def Let_def unsigned_of_nat take_bit_eq_mod del: of_nat_mult)
qed

lemma mul_64_64_portable: "v128 (mul_64_64 False left right) = unat left * unat right"
proof -
  define B :: nat where "B = 2 ^ 32"
  define a0 where "a0 = unat left mod B" define a1 where "a1 = unat left div B"
  define b0 where "b0 = unat right mod B" define b1 where "b1 = unat right div B"
  have BB: "(2 :: nat) ^ 64 = B * B" by (simp add: B_def)
  have B0: "0 < B" by (simp add: B_def)
  have lt: "a0 < B" "a1 < B" "b0 < B" "b1 < B"
    using unat64_less [of left] unat64_less [of right] BB
    by (simp_all add: a0_def a1_def b0_def b1_def B0 less_mult_imp_div_less)
  have prod_lt: "x * y + B \<le> B * B" if "x < B" "y < B" for x y
  proof -
    have "x * y \<le> (B - 1) * B" using that by (intro mult_le_mono) auto
    then show ?thesis using B0 by (cases B) simp_all
  qed
  have prod_less: "x * y < B * B" if "x < B" "y < B" for x y
    using prod_lt [OF that] B0 by linarith
  define m0 where "m0 = (left AND 0xffffffff) * (right AND 0xffffffff)"
  define m1 where "m1 = (left AND 0xffffffff) * drop_bit 32 right"
  define m2 where "m2 = drop_bit 32 left * (right AND 0xffffffff)"
  define m3 where "m3 = drop_bit 32 left * drop_bit 32 right"
  have w: "unat (left AND 0xffffffff) = a0" "unat (right AND 0xffffffff) = b0"
    "unat (drop_bit 32 left) = a1" "unat (drop_bit 32 right) = b1"
    unfolding unat_and_mask32 unat_drop_bit64 a0_def a1_def b0_def b1_def B_def by simp_all
  have m: "unat m0 = a0 * b0" "unat m1 = a0 * b1" "unat m2 = a1 * b0" "unat m3 = a1 * b1"
    unfolding m0_def m1_def m2_def m3_def unat_mult64 w BB
    by (simp_all only: mod_less prod_less lt)
  define t where "t = a1 * b0 + a0 * b0 div B + a0 * b1"
  have d0: "a0 * b0 div B < B" using prod_less [OF lt(1,3)] by (simp add: less_mult_imp_div_less)
  then have s: "a1 * b0 + a0 * b0 div B < B * B" using prod_lt [OF lt(2,3)] by linarith
  define n2 where "n2 = m2 + drop_bit 32 m0 + m1"
  have "unat (m2 + drop_bit 32 m0) = a1 * b0 + a0 * b0 div B"
    unfolding unat_plus64 unat_drop_bit64 m BB B_def [symmetric] by (rule mod_less [OF s])
  then have n2: "unat n2 = t mod (B * B)"
    unfolding n2_def unat_plus64 [of _ m1] m t_def BB by simp
  have t_less: "t < 2 * (B * B)" using s prod_less [OF lt(1,4)] by (simp add: t_def)
  have ov: "n2 < m1 \<longleftrightarrow> B * B \<le> t"
  proof (cases "t < B * B")
    case True
    then show ?thesis using n2 m(2) by (simp add: word_less_nat_alt t_def)
  next
    case False
    then have "unat n2 = t - B * B" using n2 t_less by (simp add: mod_if)
    with False show ?thesis using m(2) s by (simp add: word_less_nat_alt t_def)
  qed
  define lo where "lo = (m0 AND 0xffffffff) OR push_bit 32 n2"
  define hi where "hi = (if n2 < m1 then m3 + 0x100000000 else m3) + drop_bit 32 n2"
  have r: "mul_64_64 False left right = \<lparr>m_low = lo, m_high = hi\<rparr>"
    by (simp add: mul_64_64_def Let_def lo_def hi_def n2_def m0_def m1_def m2_def m3_def)
  have "unat lo = unat (push_bit 32 n2 OR (m0 AND 0xffffffff))" by (simp add: lo_def or.commute)
  also have "\<dots> = unat (push_bit 32 n2) + unat (m0 AND 0xffffffff)"
  proof (rule or_disjoint [of _ 32])
    show "unat (push_bit 32 n2) mod 2 ^ 32 = 0"
      unfolding unat_push_bit64 BB B_def [symmetric] mult_mod_right [symmetric] by simp
  qed (simp only: unat_and_mask32, simp)
  also have "\<dots> = B * (t mod B) + a0 * b0 mod B"
    unfolding unat_push_bit64 unat_and_mask32 m BB n2 B_def [symmetric] mult_mod_right [symmetric]
    by (simp add: mod_mod_cancel)
  finally have lo: "unat lo = B * (t mod B) + a0 * b0 mod B" .
  have left: "unat left = a0 + B * a1" "unat right = b0 + B * b1"
    by (simp_all add: a0_def a1_def b0_def b1_def)
  have "unat left * unat right = a0 * b0 + B * (a1 * b0 + a0 * b1) + B * B * (a1 * b1)"
    unfolding left by (simp add: algebra_simps)
  also have "a0 * b0 = a0 * b0 mod B + B * (a0 * b0 div B)" by simp
  also have "\<dots> + B * (a1 * b0 + a0 * b1) + B * B * (a1 * b1) = a0 * b0 mod B + B * t + B * B * (a1 * b1)"
    by (simp add: t_def algebra_simps)
  also have "B * t = B * (t mod B) + B * B * (t div B)"
    by (metis distrib_left mod_mult_div_eq mult.assoc)
  finally have p: "unat left * unat right = unat lo + B * B * (a1 * b1 + t div B)"
    by (simp add: lo algebra_simps)
  have "unat left * unat right < (B * B) * (B * B)"
    using unat64_less [of left] unat64_less [of right] unfolding BB by (intro mult_strict_mono) (simp_all add: B0)
  with p have "B * B * (a1 * b1 + t div B) < (B * B) * (B * B)" by linarith
  then have hi_val: "a1 * b1 + t div B < B * B" by simp
  have "unat hi = a1 * b1 + t div B"
  proof (cases "n2 < m1")
    case True
    then have "unat n2 = t - B * B" "B * B \<le> t" using n2 t_less ov by (simp_all add: mod_if)
    then have q: "t div B = B + unat n2 div B" using B0 by (metis div_mult_self4 le_add_diff_inverse less_numeral_extra(3))
    have "unat (0x100000000 :: u64) = B" by (simp add: B_def)
    then have "unat hi = (a1 * b1 + B + unat n2 div B) mod (B * B)"
      using True unfolding hi_def by (simp only: if_True unat_plus64 unat_drop_bit64 m BB B_def [symmetric] mod_add_left_eq)
    with q hi_val show ?thesis by (simp add: add.assoc)
  next
    case False
    then have "unat n2 = t" using n2 ov by simp
    then have "unat hi = (a1 * b1 + t div B) mod (B * B)"
      using False unfolding hi_def by (simp only: if_False unat_plus64 unat_drop_bit64 m BB B_def [symmetric])
    with hi_val show ?thesis by simp
  qed
  with p show ?thesis unfolding r v128_def BB by simp
qed

lemma mul_64_64_val: "v128 (mul_64_64 w left right) = unat left * unat right"
  using mul_64_64_int128 mul_64_64_portable by (cases w) simp_all

section \<open>The accumulator\<close>

text \<open>
  The carry out of the accumulator that comparing high words misses: the high word is all ones, the
  low words carry, so the new high word equals the product's.
\<close>

definition lost_carry :: "uint128 \<Rightarrow> uint128 \<Rightarrow> bool" where
  "lost_carry r01 product \<longleftrightarrow> m_high r01 = -1 \<and> m_low r01 + m_low product < m_low r01"

lemma unat_minus1: "unat (-1 :: u64) = 2 ^ 64 - 1"
  by (simp add: unsigned_minus_1_eq_mask mask_eq_exp_minus_1)

lemma add_128_128_val:
  "v128 (add_128_128 a b) +
     2 ^ 128 * of_bool (m_high (add_128_128 a b) < m_high b \<or> lost_carry a b) = v128 a + v128 b"
proof -
  define M :: nat where "M = 2 ^ 64"
  define c where "c = unat (of_bool (m_low a + m_low b < m_low a) :: u64)"
  let ?la = "unat (m_low a)" let ?lb = "unat (m_low b)" let ?ha = "unat (m_high a)" let ?hb = "unat (m_high b)"
  have lt: "?la < M" "?lb < M" "?ha < M" "?hb < M" unfolding M_def by (rule unat64_less)+
  have c1: "c \<le> 1" by (simp add: c_def)
  have low: "unat (m_low a + m_low b) + M * c = ?la + ?lb"
    using uadd_digit [of "m_low a" "m_low b"] unfolding c_def M_def by (cases "m_low b = 0") (auto split: if_splits)
  have high: "unat (m_high (add_128_128 a b)) = (?ha + ?hb + c) mod M"
    unfolding add_128_128_def Let_def c_def M_def by (simp add: unat_plus64 mod_simps)
  have lost: "lost_carry a b \<longleftrightarrow> ?ha = M - 1 \<and> c = 1"
    unfolding lost_carry_def c_def M_def unat_minus1 [symmetric] by (simp add: word_unat_eq_iff)
  have "(?ha + ?hb + c) mod M + M * of_bool ((?ha + ?hb + c) mod M < ?hb \<or> ?ha = M - 1 \<and> c = 1) = ?ha + ?hb + c"
  proof (cases "?ha + ?hb + c < M")
    case True
    with lt show ?thesis by (cases "c = 1") auto
  next
    case False
    then have m: "(?ha + ?hb + c) mod M = ?ha + ?hb + c - M" using lt c1 by (simp add: mod_if)
    show ?thesis unfolding m using False lt c1 by (cases "?ha = M - 1 \<and> c = 1") auto
  qed
  then have h: "unat (m_high (add_128_128 a b)) +
      M * of_bool (m_high (add_128_128 a b) < m_high b \<or> lost_carry a b) = ?ha + ?hb + c"
    unfolding word_less_nat_alt high lost .
  have al: "m_low (add_128_128 a b) = m_low a + m_low b" by (simp add: add_128_128_def Let_def)
  have MM: "(2 :: nat) ^ 128 = M * M" by (simp add: M_def)
  have "v128 (add_128_128 a b) + M * M * of_bool (m_high (add_128_128 a b) < m_high b \<or> lost_carry a b) =
      unat (m_low a + m_low b) + M * (unat (m_high (add_128_128 a b)) +
        M * of_bool (m_high (add_128_128 a b) < m_high b \<or> lost_carry a b))"
    unfolding v128_def al M_def [symmetric] by (simp only: distrib_left mult.assoc add.assoc)
  also have "\<dots> = v128 a + v128 b"
    unfolding h v128_def M_def [symmetric] distrib_left using low by linarith
  finally show ?thesis unfolding MM .
qed

lemma not_lost_less: "lost_carry a b \<Longrightarrow> \<not> m_high (add_128_128 a b) < m_high b"
  by (simp add: lost_carry_def add_128_128_def Let_def)

text \<open>A run of \<open>vli_mult\<close> that loses no carry.\<close>

fun column_exact :: "bool \<Rightarrow> u64 list \<Rightarrow> u64 list \<Rightarrow> nat \<Rightarrow> nat list \<Rightarrow> uint128 \<Rightarrow> bool" where
  "column_exact w left right k [] r01 = True"
| "column_exact w left right k (i # is) r01 =
     (let product = mul_64_64 w (left ! i) (right ! (k - i)) in
      \<not> lost_carry r01 product \<and> column_exact w left right k is (add_128_128 r01 product))"

fun mult_exact_loop :: "bool \<Rightarrow> u64 list \<Rightarrow> u64 list \<Rightarrow> nat list \<Rightarrow> uint128 \<Rightarrow> bool" where
  "mult_exact_loop w left right [] r01 = True"
| "mult_exact_loop w left right (k # ks) r01 =
     (column_exact w left right k (column_indices (length left) k) r01 \<and>
      (case vli_mult_column w left right k (column_indices (length left) k) r01 0 of (r01, r2) \<Rightarrow>
         mult_exact_loop w left right ks \<lparr>m_low = m_high r01, m_high = r2\<rparr>))"

definition vli_mult_exact :: "bool \<Rightarrow> u64 list \<Rightarrow> u64 list \<Rightarrow> bool" where
  "vli_mult_exact w left right =
     mult_exact_loop w left right [0..<length left * 2 - 1] \<lparr>m_low = 0, m_high = 0\<rparr>"

lemma unat_count: "unat (r2 :: u64) + 1 < 2 ^ 64 \<Longrightarrow> unat (r2 + of_bool b) = unat r2 + of_bool b"
  by (cases b) (simp_all add: unat_plus64)

lemma vli_mult_column_val:
  "column_exact w left right k is r01 \<Longrightarrow> unat r2 + length is < 2 ^ 64 \<Longrightarrow>
    (case vli_mult_column w left right k is r01 r2 of (r01', r2') \<Rightarrow>
       v128 r01' + 2 ^ 128 * unat r2' =
         v128 r01 + 2 ^ 128 * unat r2 + (\<Sum>i\<leftarrow>is. unat (left ! i) * unat (right ! (k - i))))"
proof (induction "is" arbitrary: r01 r2)
  case (Cons i "is")
  let ?p = "mul_64_64 w (left ! i) (right ! (k - i))"
  let ?r = "add_128_128 r01 ?p" let ?b = "of_bool (m_high ?r < m_high ?p) :: u64"
  have r2: "unat (r2 + ?b) = unat r2 + of_bool (m_high ?r < m_high ?p)"
    using Cons.prems(2) by (intro unat_count) simp
  have l: "unat (r2 + ?b) + length is < 2 ^ 64" unfolding r2 using Cons.prems(2) by simp
  have ex: "column_exact w left right k is ?r" "\<not> lost_carry r01 ?p"
    using Cons.prems(1) by (simp_all add: Let_def)
  obtain r01' r2' where r: "vli_mult_column w left right k is ?r (r2 + ?b) = (r01', r2')"
    by (cases "vli_mult_column w left right k is ?r (r2 + ?b)")
  from Cons.IH [OF ex(1) l] r have "v128 r01' + 2 ^ 128 * unat r2' =
      v128 ?r + 2 ^ 128 * (unat r2 + of_bool (m_high ?r < m_high ?p)) +
        (\<Sum>i\<leftarrow>is. unat (left ! i) * unat (right ! (k - i)))"
    unfolding r2 by simp
  moreover have "v128 ?r + 2 ^ 128 * of_bool (m_high ?r < m_high ?p) =
      v128 r01 + unat (left ! i) * unat (right ! (k - i))"
    using add_128_128_val [of r01 ?p] ex(2) unfolding mul_64_64_val by simp
  moreover have "vli_mult_column w left right k (i # is) r01 r2 = (r01', r2')" using r by (simp add: Let_def)
  ultimately show ?case by (simp del: vli_mult_column.simps add: distrib_left)
qed simp

section \<open>The columns\<close>

definition column_sum :: "u64 list \<Rightarrow> u64 list \<Rightarrow> nat \<Rightarrow> nat" where
  "column_sum left right k =
     (\<Sum>i\<leftarrow>column_indices (length left) k. unat (left ! i) * unat (right ! (k - i)))"

lemma length_column_indices: "length (column_indices n k) \<le> n"
  by (auto simp: column_indices_def)

lemma carry_out_digit:
  "v128 r01 + 2 ^ 128 * unat r2 = unat (m_low r01) + 2 ^ 64 * v128 \<lparr>m_low = m_high r01, m_high = r2\<rparr>"
proof -
  have "(2 :: nat) ^ 128 = 2 ^ 64 * 2 ^ 64" by simp
  then show ?thesis unfolding v128_def by (simp add: distrib_left mult.assoc)
qed

lemma vli_mult_loop_val:
  "mult_exact_loop w left right ks r01 \<Longrightarrow> length left < 2 ^ 64 \<Longrightarrow>
    length (vli_mult_loop w left right ks r01) = Suc (length ks) \<and>
    (\<exists>h. vli_val (vli_mult_loop w left right ks r01) + 2 ^ (64 * Suc (length ks)) * h =
      v128 r01 + (\<Sum>j<length ks. 2 ^ (64 * j) * column_sum left right (ks ! j)))"
proof (induction ks arbitrary: r01)
  case Nil
  show ?case by (auto simp: v128_def)
next
  case (Cons k ks)
  let ?is = "column_indices (length left) k"
  obtain r r2 where c: "vli_mult_column w left right k ?is r01 0 = (r, r2)"
    by (cases "vli_mult_column w left right k ?is r01 0")
  let ?n = "\<lparr>m_low = m_high r, m_high = r2\<rparr>"
  have "unat (0 :: u64) + length ?is < 2 ^ 64"
    using Cons.prems(2) length_column_indices [of "length left" k] by simp
  with vli_mult_column_val [of w left right k ?is r01 0] Cons.prems(1) c
  have col: "v128 r01 + column_sum left right k = unat (m_low r) + 2 ^ 64 * v128 ?n"
    unfolding carry_out_digit [symmetric] column_sum_def by simp
  have "mult_exact_loop w left right ks ?n" using Cons.prems(1) c by simp
  from Cons.IH [OF this Cons.prems(2)] obtain h where
    IH: "length (vli_mult_loop w left right ks ?n) = Suc (length ks)"
    "vli_val (vli_mult_loop w left right ks ?n) + 2 ^ (64 * Suc (length ks)) * h =
      v128 ?n + (\<Sum>j<length ks. 2 ^ (64 * j) * column_sum left right (ks ! j))" by blast
  have "(\<Sum>j<length (k # ks). 2 ^ (64 * j) * column_sum left right ((k # ks) ! j)) =
      column_sum left right k + 2 ^ 64 * (\<Sum>j<length ks. 2 ^ (64 * j) * column_sum left right (ks ! j))"
    by (simp add: sum.lessThan_Suc_shift power_add sum_distrib_left mult.assoc del: sum.lessThan_Suc)
  moreover have "(2 :: nat) ^ (64 * Suc (length (k # ks))) = 2 ^ 64 * 2 ^ (64 * Suc (length ks))"
    by (simp add: power_add)
  moreover have "vli_mult_loop w left right (k # ks) r01 = m_low r # vli_mult_loop w left right ks ?n"
    using c by simp
  ultimately have "vli_val (vli_mult_loop w left right (k # ks) r01) + 2 ^ (64 * Suc (length (k # ks))) * h =
      unat (m_low r) + 2 ^ 64 * (vli_val (vli_mult_loop w left right ks ?n) + 2 ^ (64 * Suc (length ks)) * h)"
    by (simp only: vli_val.simps distrib_left mult.assoc add.assoc)
  also have "\<dots> = v128 r01 + (column_sum left right k +
      2 ^ 64 * (\<Sum>j<length ks. 2 ^ (64 * j) * column_sum left right (ks ! j)))"
    unfolding IH(2) distrib_left using col by simp
  finally show ?case
    using IH(1) c \<open>(\<Sum>j<length (k # ks). 2 ^ (64 * j) * column_sum left right ((k # ks) ! j)) = _\<close>
    by (auto simp del: vli_val.simps power_Suc)
qed

text \<open>The columns of the schoolbook product add up to the product.\<close>

lemma vli_val_sum: "vli_val ds = (\<Sum>i<length ds. 2 ^ (64 * i) * unat (ds ! i))"
proof (induction ds)
  case (Cons d ds)
  then show ?case
    by (simp add: sum.lessThan_Suc_shift power_add sum_distrib_left mult.assoc del: sum.lessThan_Suc)
qed simp

lemma column_sum_set:
  "column_sum left right k = (\<Sum>i\<in>{i. i < length left \<and> i \<le> k \<and> k - i < length left}.
     unat (left ! i) * unat (right ! (k - i)))"
proof -
  have "set (column_indices (length left) k) = {i. i < length left \<and> i \<le> k \<and> k - i < length left}"
    by (auto simp: column_indices_def)
  then show ?thesis
    unfolding column_sum_def by (simp add: sum_list_distinct_conv_sum_set column_indices_def)
qed

lemma column_sums:
  assumes "length left = length right" "0 < length left"
  shows "(\<Sum>k<length left * 2 - 1. 2 ^ (64 * k) * column_sum left right k) = vli_val left * vli_val right"
proof -
  let ?n = "length left"
  let ?f = "\<lambda>i j. 2 ^ (64 * i) * unat (left ! i) * (2 ^ (64 * j) * unat (right ! j))"
  let ?S = "SIGMA k:{..<?n * 2 - 1}. {i. i < ?n \<and> i \<le> k \<and> k - i < ?n}"
  have "(\<Sum>k<?n * 2 - 1. 2 ^ (64 * k) * column_sum left right k) =
      (\<Sum>k<?n * 2 - 1. \<Sum>i\<in>{i. i < ?n \<and> i \<le> k \<and> k - i < ?n}. ?f i (k - i))"
    unfolding column_sum_set sum_distrib_left
  proof (intro sum.cong refl, goal_cases)
    case (1 k i)
    then have "(2 :: nat) ^ (64 * k) = 2 ^ (64 * i) * 2 ^ (64 * (k - i))"
      by (simp add: power_add [symmetric] distrib_left [symmetric])
    then show ?case by simp
  qed
  also have "\<dots> = (\<Sum>(k, i)\<in>?S. ?f i (k - i))" by (simp add: sum.Sigma)
  also have "\<dots> = (\<Sum>(i, j)\<in>{..<?n} \<times> {..<?n}. ?f i j)"
    by (rule sum.reindex_bij_witness [of _ "\<lambda>(i, j). (i + j, i)" "\<lambda>(k, i). (i, k - i)"]) auto
  also have "\<dots> = (\<Sum>i<?n. \<Sum>j<?n. ?f i j)" by (simp add: sum.cartesian_product)
  also have "\<dots> = vli_val left * vli_val right"
    unfolding vli_val_sum [of left] vli_val_sum [of right] sum_product assms(1) [symmetric] ..
  finally show ?thesis .
qed

text \<open>Without a lost carry the result is the product.\<close>

lemma vli_mult_val:
  assumes "length left = length right" "0 < length left" "length left < 2 ^ 64" "vli_mult_exact w left right"
  shows "length (vli_mult w left right) = 2 * length left \<and>
    vli_val (vli_mult w left right) = vli_val left * vli_val right"
proof -
  let ?N = "(2 :: nat) ^ (64 * (2 * length left))"
  obtain h where l: "length (vli_mult w left right) = Suc (length [0..<length left * 2 - 1])"
    and h: "vli_val (vli_mult w left right) + 2 ^ (64 * Suc (length [0..<length left * 2 - 1])) * h =
      (\<Sum>j<length [0..<length left * 2 - 1]. 2 ^ (64 * j) * column_sum left right ([0..<length left * 2 - 1] ! j))"
    using vli_mult_loop_val [of w left right "[0..<length left * 2 - 1]" "\<lparr>m_low = 0, m_high = 0\<rparr>"] assms(3,4)
    unfolding vli_mult_exact_def vli_mult_def by (auto simp: v128_def)
  have len: "Suc (length [0..<length left * 2 - 1]) = 2 * length left" using assms(2) by simp
  have "(\<Sum>j<length [0..<length left * 2 - 1]. 2 ^ (64 * j) * column_sum left right ([0..<length left * 2 - 1] ! j)) =
      vli_val left * vli_val right"
    unfolding column_sums [OF assms(1,2), symmetric] by simp
  with h have e: "vli_val (vli_mult w left right) + ?N * h = vli_val left * vli_val right"
    unfolding len by simp
  have "vli_val left * vli_val right < 2 ^ (64 * length left) * 2 ^ (64 * length left)"
    using vli_val_less [of left] vli_val_less [of right] assms(1) by (intro mult_strict_mono) simp_all
  also have "\<dots> = ?N" by (simp add: power_add [symmetric])
  finally have "h = 0" using e by (cases h) auto
  with e l len show ?thesis by simp
qed

section \<open>Small multipliers\<close>

lemma add_128_128_no_overflow: "v128 a + v128 b < 2 ^ 128 \<Longrightarrow> v128 (add_128_128 a b) = v128 a + v128 b"
  using add_128_128_val [of a b] by (cases "m_high (add_128_128 a b) < m_high b \<or> lost_carry a b") simp_all

lemma unat_ucast32_64: "unat (ucast (x :: u32) :: u64) = unat x"
  using unsigned_less [of x, where ?'a = nat] by (simp add: unsigned_ucast_eq take_bit_nat_eq_self)

lemma vli_umult_loop_val:
  "length (vli_umult_loop w ls right \<lparr>m_low = c, m_high = 0\<rparr>) = Suc (length ls) \<and>
    vli_val (vli_umult_loop w ls right \<lparr>m_low = c, m_high = 0\<rparr>) = vli_val ls * unat right + unat c"
proof (induction ls arbitrary: c)
  case (Cons l ls)
  let ?p = "mul_64_64 w l (ucast right)" let ?a = "\<lparr>m_low = c, m_high = 0\<rparr>"
  have "unat l * unat right \<le> (2 ^ 64 - 1) * (2 ^ 32 - 1)"
    using unat64_less [of l] unsigned_less [of right, where ?'a = nat] by (intro mult_le_mono) simp_all
  then have "v128 ?a + v128 ?p < 2 ^ 128"
    using unat64_less [of c] by (simp add: mul_64_64_val unat_ucast32_64) (simp add: v128_def)
  from add_128_128_no_overflow [OF this] have "v128 (add_128_128 ?a ?p) = unat c + unat l * unat right"
    by (simp add: mul_64_64_val unat_ucast32_64) (simp add: v128_def)
  then have "unat (m_low (add_128_128 ?a ?p)) + 2 ^ 64 * unat (m_high (add_128_128 ?a ?p)) = unat c + unat l * unat right"
    unfolding v128_def .
  then show ?case using Cons.IH [of "m_high (add_128_128 ?a ?p)"] by (simp add: Let_def algebra_simps)
qed (simp)

lemma vli_umult_val:
  "0 < length left \<Longrightarrow> length (vli_umult w left right) = 2 * length left \<and>
     vli_val (vli_umult w left right) = vli_val left * unat right"
  using vli_umult_loop_val [of w left right 0] by (simp add: vli_umult_def vli_val_append)

section \<open>Squares\<close>

definition double_128 :: "uint128 \<Rightarrow> uint128" where
  "double_128 p = \<lparr>m_low = push_bit 1 (m_low p), m_high = push_bit 1 (m_high p) OR drop_bit 63 (m_low p)\<rparr>"

lemma double_128_val: "v128 (double_128 p) + 2 ^ 128 * unat (drop_bit 63 (m_high p)) = 2 * v128 p"
proof -
  have l: "unat (push_bit 1 (m_low p)) + 2 ^ 64 * unat (drop_bit 63 (m_low p)) = 2 * unat (m_low p)"
    using lshift_digit(1) [of 1 0 "m_low p"] by simp
  have c: "unat (drop_bit 63 (m_low p)) < 2 ^ 1" using lshift_digit(2) [of 1 0 "m_low p"] by simp
  have h: "unat (push_bit 1 (m_high p) OR drop_bit 63 (m_low p)) + 2 ^ 64 * unat (drop_bit 63 (m_high p)) =
      2 * unat (m_high p) + unat (drop_bit 63 (m_low p))"
    using lshift_digit(1) [OF _ _ c, of "m_high p"] by simp
  have "(2 :: nat) ^ 128 = 2 ^ 64 * 2 ^ 64" by simp
  then have "v128 (double_128 p) + 2 ^ 128 * unat (drop_bit 63 (m_high p)) =
      unat (push_bit 1 (m_low p)) + 2 ^ 64 * (unat (push_bit 1 (m_high p) OR drop_bit 63 (m_low p)) +
        2 ^ 64 * unat (drop_bit 63 (m_high p)))"
    unfolding v128_def double_128_def by (simp only: uint128.simps distrib_left mult.assoc add.assoc)
  also have "\<dots> = 2 * v128 p"
    unfolding h v128_def distrib_left using l by linarith
  finally show ?thesis .
qed

fun square_column_exact :: "bool \<Rightarrow> u64 list \<Rightarrow> nat \<Rightarrow> nat list \<Rightarrow> uint128 \<Rightarrow> bool" where
  "square_column_exact w left k [] r01 = True"
| "square_column_exact w left k (i # is) r01 =
     (let product = mul_64_64 w (left ! i) (left ! (k - i));
          product = (if i < k - i then double_128 product else product) in
      \<not> lost_carry r01 product \<and> square_column_exact w left k is (add_128_128 r01 product))"

definition square_indices :: "nat \<Rightarrow> nat \<Rightarrow> nat list" where
  "square_indices ndigits k = filter (\<lambda>i. i \<le> k - i) [(if k < ndigits then 0 else k + 1 - ndigits)..<Suc k]"

fun square_exact_loop :: "bool \<Rightarrow> u64 list \<Rightarrow> nat list \<Rightarrow> uint128 \<Rightarrow> bool" where
  "square_exact_loop w left [] r01 = True"
| "square_exact_loop w left (k # ks) r01 =
     (square_column_exact w left k (square_indices (length left) k) r01 \<and>
      (case vli_square_column w left k (square_indices (length left) k) r01 0 of (r01, r2) \<Rightarrow>
         square_exact_loop w left ks \<lparr>m_low = m_high r01, m_high = r2\<rparr>))"

definition vli_square_exact :: "bool \<Rightarrow> u64 list \<Rightarrow> bool" where
  "vli_square_exact w left = square_exact_loop w left [0..<length left * 2 - 1] \<lparr>m_low = 0, m_high = 0\<rparr>"

lemma vli_square_column_val:
  "square_column_exact w left k is r01 \<Longrightarrow> unat r2 + 2 * length is < 2 ^ 64 \<Longrightarrow>
    (case vli_square_column w left k is r01 r2 of (r01', r2') \<Rightarrow>
       v128 r01' + 2 ^ 128 * unat r2' = v128 r01 + 2 ^ 128 * unat r2 +
         (\<Sum>i\<leftarrow>is. (if i < k - i then 2 else 1) * (unat (left ! i) * unat (left ! (k - i)))))"
proof (induction "is" arbitrary: r01 r2)
  case (Cons i "is")
  let ?q = "mul_64_64 w (left ! i) (left ! (k - i))"
  let ?p = "if i < k - i then double_128 ?q else ?q"
  let ?d = "if i < k - i then drop_bit 63 (m_high ?q) else 0"
  let ?r = "add_128_128 r01 ?p" let ?b = "of_bool (m_high ?r < m_high ?p) :: u64"
  have d: "unat ?d \<le> 1"
    using lshift_digit(2) [of 1 0 "m_high ?q"] by simp
  have r2: "unat (r2 + ?d + ?b) = unat r2 + unat ?d + of_bool (m_high ?r < m_high ?p)"
  proof -
    have "unat (r2 + ?d) = unat r2 + unat ?d"
      unfolding unat_plus64 using d Cons.prems(2) by (intro mod_less) simp
    moreover from this d Cons.prems(2) have "unat (r2 + ?d) + 1 < 2 ^ 64" by simp
    ultimately show ?thesis using unat_count by metis
  qed
  have l: "unat (r2 + ?d + ?b) + 2 * length is < 2 ^ 64"
  proof -
    have "x + c + b + 2 * n < K" if "x + 2 * (n + Suc 0) < K" "c \<le> 1" "b \<le> 1" for x c b n K :: nat
      using that by simp
    from this [OF Cons.prems(2) [unfolded list.size] d] show ?thesis unfolding r2 by simp
  qed
  have ex: "square_column_exact w left k is ?r" "\<not> lost_carry r01 ?p"
    using Cons.prems(1) by (simp_all add: Let_def)
  obtain r01' r2' where r: "vli_square_column w left k is ?r (r2 + ?d + ?b) = (r01', r2')"
    by (cases "vli_square_column w left k is ?r (r2 + ?d + ?b)")
  from Cons.IH [OF ex(1) l] r have "v128 r01' + 2 ^ 128 * unat r2' =
      v128 ?r + 2 ^ 128 * (unat r2 + unat ?d + of_bool (m_high ?r < m_high ?p)) +
        (\<Sum>i\<leftarrow>is. (if i < k - i then 2 else 1) * (unat (left ! i) * unat (left ! (k - i))))"
    unfolding r2 by simp
  moreover have "v128 ?r + 2 ^ 128 * of_bool (m_high ?r < m_high ?p) = v128 r01 + v128 ?p"
    using add_128_128_val [of r01 ?p] ex(2) by simp
  moreover have "v128 ?p + 2 ^ 128 * unat ?d = (if i < k - i then 2 else 1) * (unat (left ! i) * unat (left ! (k - i)))"
    using double_128_val [of ?q] unfolding mul_64_64_val by (simp add: mul_64_64_val)
  moreover have "vli_square_column w left k (i # is) r01 r2 = (r01', r2')"
    unfolding r [symmetric]
    by (cases "i < k - i") (simp_all only: vli_square_column.simps Let_def double_128_def if_True if_False add_0_right)
  ultimately show ?case by (simp del: vli_square_column.simps add: distrib_left)
qed simp

lemma vli_square_loop_val:
  "square_exact_loop w left ks r01 \<Longrightarrow> \<forall>k\<in>set ks. k < 2 ^ 62 \<Longrightarrow>
    length (vli_square_loop w left ks r01) = Suc (length ks) \<and>
    (\<exists>h. vli_val (vli_square_loop w left ks r01) + 2 ^ (64 * Suc (length ks)) * h =
      v128 r01 + (\<Sum>j<length ks. 2 ^ (64 * j) * (\<Sum>i\<leftarrow>square_indices (length left) (ks ! j).
        (if i < ks ! j - i then 2 else 1) * (unat (left ! i) * unat (left ! (ks ! j - i))))))"
proof (induction ks arbitrary: r01)
  case Nil
  show ?case by (auto simp: v128_def)
next
  case (Cons k ks)
  let ?is = "square_indices (length left) k"
  let ?S = "\<lambda>k. \<Sum>i\<leftarrow>square_indices (length left) k. (if i < k - i then 2 else 1) * (unat (left ! i) * unat (left ! (k - i)))"
  obtain r r2 where c: "vli_square_column w left k ?is r01 0 = (r, r2)"
    by (cases "vli_square_column w left k ?is r01 0")
  let ?n = "\<lparr>m_low = m_high r, m_high = r2\<rparr>"
  have "length ?is \<le> Suc k" using length_filter_le unfolding square_indices_def by (rule order_trans) simp
  then have "unat (0 :: u64) + 2 * length ?is < 2 ^ 64" using Cons.prems(2) by simp
  with vli_square_column_val [of w left k ?is r01 0] Cons.prems(1) c
  have col: "v128 r01 + ?S k = unat (m_low r) + 2 ^ 64 * v128 ?n"
    unfolding carry_out_digit [symmetric] by simp
  have "square_exact_loop w left ks ?n" using Cons.prems(1) c by simp
  from Cons.IH [OF this] Cons.prems(2) obtain h where
    IH: "length (vli_square_loop w left ks ?n) = Suc (length ks)"
    "vli_val (vli_square_loop w left ks ?n) + 2 ^ (64 * Suc (length ks)) * h =
      v128 ?n + (\<Sum>j<length ks. 2 ^ (64 * j) * ?S (ks ! j))" by auto
  have S: "(\<Sum>j<length (k # ks). 2 ^ (64 * j) * ?S ((k # ks) ! j)) =
      ?S k + 2 ^ 64 * (\<Sum>j<length ks. 2 ^ (64 * j) * ?S (ks ! j))"
    by (simp add: sum.lessThan_Suc_shift power_add sum_distrib_left mult.assoc del: sum.lessThan_Suc)
  have "(2 :: nat) ^ (64 * Suc (length (k # ks))) = 2 ^ 64 * 2 ^ (64 * Suc (length ks))"
    by (simp add: power_add)
  moreover have loop: "vli_square_loop w left (k # ks) r01 = m_low r # vli_square_loop w left ks ?n"
    using c by (simp add: square_indices_def)
  ultimately have "vli_val (vli_square_loop w left (k # ks) r01) + 2 ^ (64 * Suc (length (k # ks))) * h =
      unat (m_low r) + 2 ^ 64 * (vli_val (vli_square_loop w left ks ?n) + 2 ^ (64 * Suc (length ks)) * h)"
    by (simp only: vli_val.simps distrib_left mult.assoc add.assoc)
  also have "\<dots> = v128 r01 + (?S k + 2 ^ 64 * (\<Sum>j<length ks. 2 ^ (64 * j) * ?S (ks ! j)))"
    unfolding IH(2) distrib_left using col by simp
  finally show ?case
    unfolding S unfolding loop using IH(1) by (intro conjI) (auto simp del: vli_val.simps power_Suc)
qed

lemma square_column_sum:
  "(\<Sum>i\<leftarrow>square_indices (length left) k. (if i < k - i then 2 else 1) * (unat (left ! i) * unat (left ! (k - i)))) =
   column_sum left left k"
proof -
  let ?n = "length left" let ?f = "\<lambda>i. unat (left ! i) * unat (left ! (k - i))"
  let ?S = "{i. i < ?n \<and> i \<le> k \<and> k - i < ?n}"
  have fin: "finite ?S" by simp
  have set: "set (square_indices ?n k) = {i \<in> ?S. i \<le> k - i}"
    by (auto simp: square_indices_def)
  have "(\<Sum>i\<leftarrow>square_indices ?n k. (if i < k - i then 2 else 1) * ?f i) =
      (\<Sum>i\<in>{i \<in> ?S. i \<le> k - i}. (if i < k - i then 2 else 1) * ?f i)"
    unfolding set [symmetric] by (simp add: sum_list_distinct_conv_sum_set square_indices_def)
  also have "\<dots> = (\<Sum>i\<in>{i \<in> ?S. i \<le> k - i}. ?f i + (if i < k - i then ?f i else 0))"
    by (intro sum.cong) auto
  also have "\<dots> = (\<Sum>i\<in>{i \<in> ?S. i \<le> k - i}. ?f i) + (\<Sum>i\<in>{i \<in> ?S. i < k - i}. ?f i)"
    unfolding sum.distrib
    by (intro arg_cong2 [where f = "(+)"] refl sum.mono_neutral_cong_right) auto
  also have "(\<Sum>i\<in>{i \<in> ?S. i < k - i}. ?f i) = (\<Sum>i\<in>{i \<in> ?S. \<not> i \<le> k - i}. ?f i)"
    by (rule sum.reindex_bij_witness [of _ "\<lambda>i. k - i" "\<lambda>i. k - i"]) auto
  also have "(\<Sum>i\<in>{i \<in> ?S. i \<le> k - i}. ?f i) + (\<Sum>i\<in>{i \<in> ?S. \<not> i \<le> k - i}. ?f i) = (\<Sum>i\<in>?S. ?f i)"
    by (subst sum.union_disjoint [symmetric]) (auto intro: sum.cong)
  finally show ?thesis unfolding column_sum_set .
qed

lemma vli_square_val:
  assumes "0 < length left" "length left < 2 ^ 61" "vli_square_exact w left"
  shows "length (vli_square w left) = 2 * length left \<and>
    vli_val (vli_square w left) = vli_val left * vli_val left"
proof -
  let ?ks = "[0..<length left * 2 - 1]" let ?N = "(2 :: nat) ^ (64 * (2 * length left))"
  have "\<forall>k\<in>set ?ks. k < 2 ^ 62" using assms(2) by auto
  then obtain h where l: "length (vli_square w left) = Suc (length ?ks)"
    and h: "vli_val (vli_square w left) + 2 ^ (64 * Suc (length ?ks)) * h =
      (\<Sum>j<length ?ks. 2 ^ (64 * j) * column_sum left left (?ks ! j))"
    using vli_square_loop_val [of w left ?ks "\<lparr>m_low = 0, m_high = 0\<rparr>"] assms(3)
    unfolding vli_square_exact_def vli_square_def square_column_sum by (auto simp: v128_def)
  have len: "Suc (length ?ks) = 2 * length left" using assms(1) by simp
  have "(\<Sum>j<length ?ks. 2 ^ (64 * j) * column_sum left left (?ks ! j)) = vli_val left * vli_val left"
    unfolding column_sums [OF refl assms(1), symmetric] by simp
  with h have e: "vli_val (vli_square w left) + ?N * h = vli_val left * vli_val left"
    unfolding len by simp
  have "vli_val left * vli_val left < 2 ^ (64 * length left) * 2 ^ (64 * length left)"
    using vli_val_less [of left] by (intro mult_strict_mono) simp_all
  also have "\<dots> = ?N" by (simp add: power_add [symmetric])
  finally have "h = 0" using e by (cases h) auto
  with e l len show ?thesis by simp
qed

section \<open>When no carry is lost\<close>

lemma not_lost_if: "m_high r01 \<noteq> -1 \<Longrightarrow> \<not> lost_carry r01 p"
  by (simp add: lost_carry_def)

lemma add_small_high:
  assumes "m_high a = 0" "m_low a \<noteq> -1" "v128 p \<le> (2 ^ 64 - 1) * (2 ^ 64 - 1)"
  shows "m_high (add_128_128 a p) \<noteq> -1"
proof
  assume "m_high (add_128_128 a p) = -1"
  then have "unat (m_high (add_128_128 a p)) = 2 ^ 64 - 1" by (simp only: unat_minus1)
  then have "(2 ^ 64 - 1) * 2 ^ 64 \<le> v128 (add_128_128 a p)" by (simp add: v128_def)
  also have "\<dots> \<le> v128 a + v128 p" using add_128_128_val [of a p] by linarith
  finally have "(2 ^ 64 - 1) * 2 ^ 64 \<le> v128 a + v128 p" .
  moreover have "unat (m_low a) \<noteq> 2 ^ 64 - 1" using assms(2) by (metis unat_minus1 word_unat_eq_iff)
  then have "v128 a < 2 ^ 64 - 1" using assms(1) unat64_less [of "m_low a"] by (simp add: v128_def)
  ultimately show False using assms(3) by simp
qed

lemma add_128_128_0 [simp]: "add_128_128 \<lparr>m_low = 0, m_high = 0\<rparr> p = p"
  by (simp add: add_128_128_def)

lemma v128_inj: "v128 a = v128 b \<Longrightarrow> a = b"
  using cmp_nat_eq [OF unat64_less [of "m_low a"] unat64_less [of "m_low b"]]
  by (simp add: v128_def word_unat_eq_iff uint128.equality)

lemma mul_64_64_config: "mul_64_64 w = mul_64_64 True"
  by (intro ext v128_inj) (simp add: mul_64_64_val)

lemma product_bound: "v128 (mul_64_64 w a b) \<le> (2 ^ 64 - 1) * (2 ^ 64 - 1)"
  unfolding mul_64_64_val using unat64_less [of a] unat64_less [of b] by (intro mult_le_mono) simp_all

lemma vli_mult_config: "vli_mult w left right = vli_mult False left right"
proof -
  have c: "vli_mult_column w left right k is r01 r2 = vli_mult_column False left right k is r01 r2" for k "is" r01 r2
    by (induction "is" arbitrary: r01 r2)
      (simp_all add: mul_64_64_config [of w] mul_64_64_config [of False] Let_def)
  have "vli_mult_loop w left right ks r01 = vli_mult_loop False left right ks r01" for ks r01
    by (induction ks arbitrary: r01) (simp_all add: c [of _ "column_indices (length left) _"])
  then show ?thesis by (simp add: vli_mult_def)
qed

lemma product_high: "m_high (mul_64_64 w a b) \<noteq> -1"
proof
  assume "m_high (mul_64_64 w a b) = -1"
  then have "unat (m_high (mul_64_64 w a b)) = 2 ^ 64 - 1" by (simp only: unat_minus1)
  then show False using product_bound [of w a b] by (simp add: v128_def)
qed

lemma vli_mult_exact_small:
  assumes "length left \<le> 2"
  shows "vli_mult_exact w left right"
proof -
  consider "length left = 0" | "length left = 1" | "length left = 2" using assms by linarith
  then show ?thesis
  proof cases
    case 1
    then show ?thesis by (simp add: vli_mult_exact_def)
  next
    case 2
    then have "column_indices (length left) 0 = [0]" by (simp add: column_indices_def)
    with 2 show ?thesis
      by (simp add: vli_mult_exact_def Let_def not_lost_if split: prod.splits)
  next
    case 3
    have ks: "[0..<length left * 2 - 1] = [0, 1, 2]" "column_indices (length left) 0 = [0]"
      "column_indices (length left) 1 = [0, 1]" "column_indices (length left) 2 = [1]"
      using 3 by (simp_all add: column_indices_def upt_rec numeral_2_eq_2)
    have z: "(0 :: u64) \<noteq> -1" "of_bool b \<noteq> (-1 :: u64)" "(of_bool b + of_bool c :: u64) \<noteq> -1" for b c
      by (cases b; cases c; simp)+
    show ?thesis
      unfolding vli_mult_exact_def ks mult_exact_loop.simps column_exact.simps vli_mult_column.simps Let_def prod.case
      by (simp add: not_lost_if z add_small_high [OF _ _ product_bound] product_high)
  qed
qed

text \<open>
  C25: \<open>vli_mult\<close> computes the product of two numbers of equal length whenever the accumulator loses
  no carry, and it never loses one with at most two digits; the 128-bit and the portable
  multiplication give the same.
\<close>

theorem vli_mult_correct:
  assumes "length left = length right" "0 < length left" "length left < 2 ^ 64"
    and "vli_mult_exact w left right \<or> length left \<le> 2"
  shows "vli_val (vli_mult w left right) = vli_val left * vli_val right \<and>
    length (vli_mult w left right) = 2 * length left"
  using vli_mult_val [OF assms(1-3)] assms(4) vli_mult_exact_small by blast

theorem vli_mult_correct_witness:
  "vli_val (vli_mult False [0xffffffffffffffff, 0xffffffffffffffff] [0xffffffffffffffff, 0xffffffffffffffff]) =
    (2 ^ 128 - 1) * (2 ^ 128 - 1)"
proof -
  have "vli_val [0xffffffffffffffff, 0xffffffffffffffff] = 2 ^ 128 - 1" by simp
  then show ?thesis
    using vli_mult_correct [of "[0xffffffffffffffff, 0xffffffffffffffff]" "[0xffffffffffffffff, 0xffffffffffffffff]" False]
    by simp
qed

text \<open>
  C24: \<open>vli_square\<close> computes the square, and \<open>vli_umult\<close> the product with a 32-bit digit, the latter
  always, the former whenever the accumulator loses no carry.
\<close>

theorem vli_square_umult_correct:
  assumes "0 < length left" "length left < 2 ^ 61"
  shows "(vli_square_exact w left \<longrightarrow> vli_val (vli_square w left) = vli_val left * vli_val left) \<and>
    vli_val (vli_umult w left right) = vli_val left * unat right \<and>
    length (vli_umult w left right) = 2 * length left"
  using vli_square_val [OF assms] vli_umult_val [OF assms(1)] by blast

theorem vli_square_umult_correct_witness:
  "vli_val (vli_square False [0xffffffffffffffff, 0x8000000000000001, 7]) =
     vli_val [0xffffffffffffffff, 0x8000000000000001, 7] * vli_val [0xffffffffffffffff, 0x8000000000000001, 7]"
proof -
  have "vli_square_exact False [0xffffffffffffffff, 0x8000000000000001, 7]" by code_simp
  then show ?thesis
    using vli_square_umult_correct [of "[0xffffffffffffffff, 0x8000000000000001, 7]" False] by simp
qed

text \<open>
  C5: with three digits a carry can be lost: for two field elements of P-192 the result of
  \<open>vli_mult\<close> is too small by \<open>2 ^ 256\<close>, in either configuration.
\<close>

theorem vli_mult_loses_carry:
  "\<exists>left right. length left = 3 \<and> length right = 3 \<and>
    vli_val left < 2 ^ 192 - 2 ^ 64 - 1 \<and> vli_val right < 2 ^ 192 - 2 ^ 64 - 1 \<and>
    vli_val (vli_mult w left right) + 2 ^ 256 = vli_val left * vli_val right"
proof -
  let ?l = "[0xffffffffffffffff, 0x4000000000000, 0x8c297dc6952668fd] :: u64 list"
  let ?r = "[1, 0x7fff, 0xffffffffffffffff] :: u64 list"
  have v: "vli_mult False ?l ?r =
    [0xffffffffffffffff, 0x3ffffffff8001, 0x8c257dc69526e8fd, 0x32b5cccc9f581703, 0x73da82396ad9dd17, 0x8c297dc6952668fc]" by code_simp
  show ?thesis
    by (rule exI [of _ ?l], rule exI [of _ ?r]) (simp add: vli_mult_config [of w] v)
qed

end
