(* ===== verification/VliMod.thy ===== *)
theory VliMod
  imports VliMult
begin

text \<open>
  Reduction modulo the curve primes (\<open>kernel-crypto/ecc.c\<close>): the fast reductions for the NIST primes
  (\<open>vli_mmod_fast_192\<close>, \<open>_256\<close>, \<open>_384\<close>, \<open>_521\<close>), the one for primes just below a power of two, the
  long division \<open>vli_mmod_slow\<close>, and the dispatch. Loops whose end is not syntactic are partial
  functions; the theorems show that they end.
\<close>

section \<open>Accumulation with a carry\<close>

text \<open>
  The fast reductions repeat \<open>carry += vli_add(result, result, tmp, ndigits)\<close> and
  \<open>carry -= vli_sub(result, result, tmp, ndigits)\<close> with a signed carry.
\<close>

definition acc_add :: "u64 list \<Rightarrow> u64 list \<times> int \<Rightarrow> u64 list \<times> int" where
  "acc_add tmp acc = (case acc of (result, carry) \<Rightarrow>
     case vli_add result tmp of (r, c) \<Rightarrow> (r, carry + uint c))"

definition acc_sub :: "u64 list \<Rightarrow> u64 list \<times> int \<Rightarrow> u64 list \<times> int" where
  "acc_sub tmp acc = (case acc of (result, carry) \<Rightarrow>
     case vli_sub result tmp of (r, b) \<Rightarrow> (r, carry - uint b))"

text \<open>\<open>while (carry || vli_cmp(curve_prime, result) != 1) carry -= vli_sub(result, result, curve_prime)\<close>\<close>

partial_function (option) reduce_down :: "u64 list \<Rightarrow> u64 list \<Rightarrow> int \<Rightarrow> u64 list option" where
  "reduce_down m result carry =
     (if carry \<noteq> 0 \<or> vli_cmp m result \<noteq> 1
      then let acc = acc_sub m (result, carry) in reduce_down m (fst acc) (snd acc)
      else Some result)"

declare reduce_down.simps [code]

text \<open>\<open>do { carry += vli_add(result, result, curve_prime) } while (carry < 0)\<close>\<close>

partial_function (option) reduce_up :: "u64 list \<Rightarrow> u64 list \<Rightarrow> int \<Rightarrow> u64 list option" where
  "reduce_up m result carry =
     (let acc = acc_add m (result, carry) in
      if snd acc < 0 then reduce_up m (fst acc) (snd acc) else Some (fst acc))"

declare reduce_up.simps [code]

section \<open>The NIST primes\<close>

definition vli_mmod_fast_192 :: "u64 list \<Rightarrow> u64 list \<Rightarrow> u64 list option" where
  "vli_mmod_fast_192 product curve_prime =
     (let acc = (take 3 product, 0);
          acc = acc_add (take 3 (drop 3 product)) acc;
          acc = acc_add [0, product ! 3, product ! 4] acc;
          acc = acc_add [product ! 5, product ! 5, 0] acc
      in reduce_down curve_prime (fst acc) (snd acc))"

definition AND64H :: "u64 \<Rightarrow> u64" where "AND64H x = x AND 0xffffffff00000000"
definition AND64L :: "u64 \<Rightarrow> u64" where "AND64L x = x AND 0xffffffff"
definition SL32OR32 :: "u64 \<Rightarrow> u64 \<Rightarrow> u64" where "SL32OR32 x y = push_bit 32 x OR y"

text \<open>The last step of the 256-bit and 384-bit reductions.\<close>

definition reduce_signed :: "u64 list \<Rightarrow> u64 list \<times> int \<Rightarrow> u64 list option" where
  "reduce_signed m acc =
     (if snd acc < 0 then reduce_up m (fst acc) (snd acc) else reduce_down m (fst acc) (snd acc))"

text \<open>\<open>carry += vli_lshift(tmp, tmp, 1, ndigits); carry += vli_add(result, result, tmp, ndigits)\<close>\<close>

definition acc_add_shifted :: "u64 list \<Rightarrow> u64 list \<times> int \<Rightarrow> u64 list \<times> int" where
  "acc_add_shifted tmp acc =
     (case vli_lshift tmp 1 of (t, c) \<Rightarrow> acc_add t (fst acc, snd acc + uint c))"

definition vli_mmod_fast_256 :: "u64 list \<Rightarrow> u64 list \<Rightarrow> u64 list option" where
  "vli_mmod_fast_256 product curve_prime =
     (let p = (!) product;
          acc = (take 4 product, 0);
          tmp = [0, p 5 AND 0xffffffff00000000, p 6, p 7];
          acc = acc_add_shifted tmp acc;
          tmp = fst (vli_lshift tmp 1);
          tmp = [tmp ! 0, push_bit 32 (p 6), drop_bit 32 (p 6) OR push_bit 32 (p 7), drop_bit 32 (p 7)];
          acc = acc_add_shifted tmp acc;
          acc = acc_add [p 4, p 5 AND 0xffffffff, 0, p 7] acc;
          acc = acc_add [drop_bit 32 (p 4) OR push_bit 32 (p 5),
                         drop_bit 32 (p 5) OR (p 6 AND 0xffffffff00000000),
                         p 7,
                         drop_bit 32 (p 6) OR push_bit 32 (p 4)] acc;
          acc = acc_sub [drop_bit 32 (p 5) OR push_bit 32 (p 6),
                         drop_bit 32 (p 6),
                         0,
                         (p 4 AND 0xffffffff) OR push_bit 32 (p 5)] acc;
          acc = acc_sub [p 6, p 7, 0, drop_bit 32 (p 4) OR (p 5 AND 0xffffffff00000000)] acc;
          acc = acc_sub [drop_bit 32 (p 6) OR push_bit 32 (p 7),
                         drop_bit 32 (p 7) OR push_bit 32 (p 4),
                         drop_bit 32 (p 4) OR push_bit 32 (p 5),
                         push_bit 32 (p 6)] acc;
          acc = acc_sub [p 7, p 4 AND 0xffffffff00000000, p 5, p 6 AND 0xffffffff00000000] acc
      in reduce_signed curve_prime acc)"

definition vli_mmod_fast_384 :: "u64 list \<Rightarrow> u64 list \<Rightarrow> u64 list option" where
  "vli_mmod_fast_384 product curve_prime =
     (let p = (!) product;
          acc = (take 6 product, 0);
          acc = acc_add_shifted [0, 0, SL32OR32 (p 11) (drop_bit 32 (p 10)), drop_bit 32 (p 11), 0, 0] acc;
          acc = acc_add [p 6, p 7, p 8, p 9, p 10, p 11] acc;
          acc = acc_add [SL32OR32 (p 11) (drop_bit 32 (p 10)), SL32OR32 (p 6) (drop_bit 32 (p 11)),
                         SL32OR32 (p 7) (drop_bit 32 (p 6)), SL32OR32 (p 8) (drop_bit 32 (p 7)),
                         SL32OR32 (p 9) (drop_bit 32 (p 8)), SL32OR32 (p 10) (drop_bit 32 (p 9))] acc;
          acc = acc_add [AND64H (p 11), push_bit 32 (p 10), p 6, p 7, p 8, p 9] acc;
          acc = acc_add [0, 0, p 10, p 11, 0, 0] acc;
          acc = acc_add [AND64L (p 10), AND64H (p 10), p 11, 0, 0, 0] acc;
          acc = acc_sub [SL32OR32 (p 6) (drop_bit 32 (p 11)), SL32OR32 (p 7) (drop_bit 32 (p 6)),
                         SL32OR32 (p 8) (drop_bit 32 (p 7)), SL32OR32 (p 9) (drop_bit 32 (p 8)),
                         SL32OR32 (p 10) (drop_bit 32 (p 9)), SL32OR32 (p 11) (drop_bit 32 (p 10))] acc;
          acc = acc_sub [push_bit 32 (p 10), SL32OR32 (p 11) (drop_bit 32 (p 10)), drop_bit 32 (p 11), 0, 0, 0] acc;
          acc = acc_sub [0, AND64H (p 11), drop_bit 32 (p 11), 0, 0, 0] acc
      in reduce_signed curve_prime acc)"

definition vli_mmod_fast_521 :: "u64 list \<Rightarrow> u64 list \<Rightarrow> u64 list" where
  "vli_mmod_fast_521 product curve_prime =
     (let result = take 9 product;
          result = result[8 := result ! 8 AND 0x1ff];
          tmp = map (\<lambda>i. drop_bit 9 (product ! (8 + i)) OR push_bit 55 (product ! (9 + i))) [0..<9];
          tmp = tmp[8 := tmp ! 8 AND 0x1ff]
      in vli_mod_add result tmp curve_prime)"

section \<open>Values of the accumulator\<close>

definition acc_val :: "u64 list \<times> int \<Rightarrow> int" where
  "acc_val acc = int (vli_val (fst acc)) + snd acc * 2 ^ (64 * length (fst acc))"

lemma vli_val_less_int: "int (vli_val ds) < 2 ^ (64 * length ds)"
proof -
  have "int (vli_val ds) < int (2 ^ (64 * length ds))" using vli_val_less [of ds] by (simp only: of_nat_less_iff)
  then show ?thesis by simp
qed

lemma acc_add_val [simp]:
  assumes "length tmp = length (fst acc)"
  shows "acc_val (acc_add tmp acc) = acc_val acc + int (vli_val tmp)"
    "length (fst (acc_add tmp acc)) = length (fst acc)"
proof -
  obtain result carry where acc: "acc = (result, carry)" by fastforce
  obtain res c where r: "vli_add result tmp = (res, c)" "length res = length result"
    "vli_val res + 2 ^ (64 * length result) * unat c = vli_val result + vli_val tmp"
    by (rule vli_add_val [of result tmp]) (use assms acc in simp, rule that)
  have "int (vli_val res) + 2 ^ (64 * length result) * uint c = int (vli_val result) + int (vli_val tmp)"
    using arg_cong [OF r(3), of int] by simp
  with r show "acc_val (acc_add tmp acc) = acc_val acc + int (vli_val tmp)"
    "length (fst (acc_add tmp acc)) = length (fst acc)"
    by (simp_all add: acc_add_def acc acc_val_def algebra_simps)
qed

lemma acc_sub_val [simp]:
  assumes "length tmp = length (fst acc)"
  shows "acc_val (acc_sub tmp acc) = acc_val acc - int (vli_val tmp)"
    "length (fst (acc_sub tmp acc)) = length (fst acc)"
proof -
  obtain result carry where acc: "acc = (result, carry)" by fastforce
  obtain res b where r: "vli_sub result tmp = (res, b)" "length res = length result"
    "vli_val res + vli_val tmp = vli_val result + 2 ^ (64 * length result) * unat b"
    by (rule vli_sub_val [of result tmp]) (use assms acc in simp, rule that)
  have "int (vli_val res) + int (vli_val tmp) = int (vli_val result) + 2 ^ (64 * length result) * uint b"
    using arg_cong [OF r(3), of int] by simp
  with r show "acc_val (acc_sub tmp acc) = acc_val acc - int (vli_val tmp)"
    "length (fst (acc_sub tmp acc)) = length (fst acc)"
    by (simp_all add: acc_sub_def acc acc_val_def algebra_simps)
qed

lemma acc_add_shifted_val [simp]:
  assumes "length tmp = length (fst acc)"
  shows "acc_val (acc_add_shifted tmp acc) = acc_val acc + 2 * int (vli_val tmp)"
    "length (fst (acc_add_shifted tmp acc)) = length (fst acc)"
proof -
  obtain t c where r: "vli_lshift tmp 1 = (t, c)" "length t = length tmp"
    "vli_val t + 2 ^ (64 * length tmp) * unat c = 2 ^ 1 * vli_val tmp"
    by (rule vli_lshift_val [of 1 tmp]) (simp, simp, rule that)
  have "int (vli_val t) + 2 ^ (64 * length tmp) * uint c = 2 * int (vli_val tmp)"
    using arg_cong [OF r(3), of int] by simp
  moreover have "acc_val (acc_add t (fst acc, snd acc + uint c)) =
      acc_val (fst acc, snd acc + uint c) + int (vli_val t)"
    by (rule acc_add_val) (simp add: r assms)
  moreover have "acc_val (fst acc, snd acc + uint c) = acc_val acc + uint c * 2 ^ (64 * length tmp)"
    by (simp add: acc_val_def assms algebra_simps)
  ultimately show "acc_val (acc_add_shifted tmp acc) = acc_val acc + 2 * int (vli_val tmp)"
    by (simp add: acc_add_shifted_def r(1) [simplified] algebra_simps)
  show "length (fst (acc_add_shifted tmp acc)) = length (fst acc)"
    using acc_add_val(2) [of t "(fst acc, snd acc + uint c)"] r assms by (simp add: acc_add_shifted_def)
qed

lemma acc_bounds:
  "0 \<le> acc_val acc \<Longrightarrow> 0 \<le> snd acc"
  "snd acc < 0 \<Longrightarrow> acc_val acc < 0"
proof -
  let ?B = "2 ^ (64 * length (fst acc)) :: int"
  note b = vli_val_less_int [of "fst acc"]
  have "acc_val acc < 0" if "snd acc < 0"
  proof -
    from that have "snd acc * ?B \<le> (-1) * ?B" by (intro mult_right_mono) auto
    with b show ?thesis unfolding acc_val_def by linarith
  qed
  then show "0 \<le> acc_val acc \<Longrightarrow> 0 \<le> snd acc" "snd acc < 0 \<Longrightarrow> acc_val acc < 0" by force+
qed

lemma reduce_down_val:
  assumes "0 < vli_val m"
  shows "\<lbrakk>length result = length m; 0 \<le> acc_val (result, carry)\<rbrakk> \<Longrightarrow>
    \<exists>r. reduce_down m result carry = Some r \<and> length r = length m \<and>
      int (vli_val r) = acc_val (result, carry) mod int (vli_val m)"
proof (induction "nat (acc_val (result, carry))" arbitrary: result carry rule: less_induct)
  case less
  show ?case
  proof (cases "carry \<noteq> 0 \<or> vli_cmp m result \<noteq> 1")
    case False
    then have "carry = 0" "vli_val result < vli_val m"
      using less.prems(1) by (auto simp: vli_cmp_val split: if_splits)
    then show ?thesis using False less.prems by (subst reduce_down.simps) (simp add: acc_val_def)
  next
    case True
    let ?B = "2 ^ (64 * length result) :: int"
    have "0 \<le> carry" using acc_bounds(1) [OF less.prems(2)] by simp
    have ge: "int (vli_val m) \<le> acc_val (result, carry)"
    proof (cases "carry = 0")
      case False
      with \<open>0 \<le> carry\<close> have "1 * ?B \<le> carry * ?B" by (intro mult_right_mono) auto
      moreover have "int (vli_val m) < ?B" using vli_val_less_int [of m] less.prems(1) by simp
      ultimately show ?thesis unfolding acc_val_def fst_conv snd_conv by linarith
    next
      case c: True
      with True less.prems(1) have "vli_val m \<le> vli_val result" by (auto simp: vli_cmp_val split: if_splits)
      then show ?thesis by (simp add: acc_val_def c)
    qed
    obtain r c where a: "acc_sub m (result, carry) = (r, c)" by fastforce
    have v: "acc_val (r, c) = acc_val (result, carry) - int (vli_val m)" "length r = length m"
      using acc_sub_val [of m "(result, carry)"] a less.prems(1) by simp_all
    have "nat (acc_val (r, c)) < nat (acc_val (result, carry))" using v(1) ge assms less.prems(2) by linarith
    from less.hyps [OF this v(2)] v(1) ge
    obtain x where "reduce_down m r c = Some x" "length x = length m"
      "int (vli_val x) = acc_val (r, c) mod int (vli_val m)" by auto
    with v(1) show ?thesis
      by (subst reduce_down.simps) (use True a in \<open>simp add: mod_diff_eq [symmetric]\<close>)
  qed
qed

lemma reduce_up_val:
  assumes "0 < vli_val m"
  shows "\<lbrakk>length result = length m; acc_val (result, carry) < 0\<rbrakk> \<Longrightarrow>
    \<exists>r. reduce_up m result carry = Some r \<and> length r = length m \<and>
      int (vli_val r) = acc_val (result, carry) mod int (vli_val m)"
proof (induction "nat (- acc_val (result, carry))" arbitrary: result carry rule: less_induct)
  case less
  obtain r c where a: "acc_add m (result, carry) = (r, c)" by fastforce
  have v: "acc_val (r, c) = acc_val (result, carry) + int (vli_val m)" "length r = length m"
    using acc_add_val [of m "(result, carry)"] a less.prems(1) by simp_all
  show ?case
  proof (cases "c < 0")
    case True
    then have neg: "acc_val (r, c) < 0" using acc_bounds(2) [of "(r, c)"] by simp
    with v(1) assms have "nat (- acc_val (r, c)) < nat (- acc_val (result, carry))" by linarith
    from less.hyps [OF this v(2) neg] v(1) show ?thesis
      by (subst reduce_up.simps) (use True a in simp)
  next
    case False
    then have "0 \<le> acc_val (r, c)" by (simp add: acc_val_def)
    moreover from v(1) less.prems(2) have "acc_val (r, c) < int (vli_val m)" by simp
    ultimately have m: "acc_val (result, carry) mod int (vli_val m) = acc_val (r, c)"
      using v(1) by (metis mod_add_self2 mod_pos_pos_trivial)
    have "int (vli_val m) < 2 ^ (64 * length r)" using vli_val_less_int [of m] v(2) by simp
    with \<open>acc_val (r, c) < int (vli_val m)\<close> False have "c = 0"
      by (smt (verit) acc_val_def fst_conv mult_le_cancel_right1 of_nat_0_le_iff snd_conv)
    with m False a v(2) show ?thesis by (subst reduce_up.simps) (simp add: acc_val_def)
  qed
qed

lemma reduce_signed_val:
  assumes "0 < vli_val m" "length (fst acc) = length m"
  shows "\<exists>r. reduce_signed m acc = Some r \<and> length r = length m \<and>
    int (vli_val r) = acc_val acc mod int (vli_val m)"
proof (cases "snd acc < 0")
  case True
  then show ?thesis using reduce_up_val [OF assms(1,2), of "snd acc"] acc_bounds(2) [OF True]
    by (simp add: reduce_signed_def)
next
  case False
  then have "0 \<le> acc_val acc" by (simp add: acc_val_def)
  then show ?thesis using reduce_down_val [OF assms(1,2), of "snd acc"] False by (simp add: reduce_signed_def)
qed

section \<open>Halves of digits\<close>

definition lo32 :: "u64 \<Rightarrow> int" where "lo32 x = uint x mod 4294967296"
definition hi32 :: "u64 \<Rightarrow> int" where "hi32 x = uint x div 4294967296"

lemma uint_halves: "uint x = lo32 x + 4294967296 * hi32 x"
  unfolding lo32_def hi32_def by presburger

lemma half_unat: "lo32 x = int (unat x mod 2 ^ 32)" "hi32 x = int (unat x div 2 ^ 32)"
  by (simp_all add: lo32_def hi32_def zmod_int zdiv_int)

lemma unat_push32: "unat (push_bit 32 x :: u64) = 2 ^ 32 * (unat x mod 2 ^ 32)"
proof -
  have "unat (push_bit 32 x :: u64) = (2 ^ 32 * unat x) mod (2 ^ 32 * 2 ^ 32)"
    by (simp add: unat_push_bit64)
  then show ?thesis by (simp only: mult_mod_right)
qed

lemma and_high: "x AND 0xffffffff00000000 = push_bit 32 (drop_bit 32 (x :: u64))"
proof (rule bit_word_eqI)
  fix n assume n: "n < LENGTH(64)"
  have c: "0xffffffff00000000 = (push_bit 32 (mask 32) :: u64)" by (simp add: mask_eq_exp_minus_1)
  have "bit (push_bit 32 (mask 32) :: u64) n \<longleftrightarrow> 32 \<le> n"
    using n by (auto simp: bit_simps)
  then show "bit (x AND 0xffffffff00000000) n = bit (push_bit 32 (drop_bit 32 x)) n"
    unfolding c using n by (auto simp: bit_and_iff bit_push_bit_iff bit_drop_bit_eq)
qed

lemma unat_and_high: "unat (x AND 0xffffffff00000000 :: u64) = 2 ^ 32 * (unat x div 2 ^ 32)"
proof -
  have "unat x div 2 ^ 32 < 2 ^ 32" using unat64_less [of x] by (simp add: less_mult_imp_div_less)
  then show ?thesis by (simp add: and_high unat_push32 unat_drop_bit64)
qed

lemma uint_halved:
  "uint (drop_bit 32 x :: u64) = hi32 x"
  "uint (push_bit 32 x :: u64) = 4294967296 * lo32 x"
  "uint (x AND 0xffffffff :: u64) = lo32 x"
  "uint (x AND 0xffffffff00000000 :: u64) = 4294967296 * hi32 x"
  using arg_cong [OF unat_drop_bit64 [of 32 x], of int] arg_cong [OF unat_push32 [of x], of int]
    arg_cong [OF unat_and_mask32 [of x], of int] arg_cong [OF unat_and_high [of x], of int]
  by (simp_all add: half_unat)

lemma or_low_high:
  assumes "unat (a :: u64) < 2 ^ 32" "unat b mod 2 ^ 32 = 0"
  shows "uint (a OR b) = uint a + uint b"
  using arg_cong [OF or_disjoint [OF assms(2,1)], of int] by (simp add: or.commute)

lemma unat_drop32_less: "unat (drop_bit 32 x :: u64) < 2 ^ 32"
  using unat64_less [of x] by (simp add: unat_drop_bit64 less_mult_imp_div_less)

lemma unat_and_low_less: "unat (x AND 0xffffffff :: u64) < 2 ^ 32"
  by (simp add: unat_and_mask32)

lemma unat_high_mod: "unat (push_bit 32 y :: u64) mod 2 ^ 32 = 0" "unat (y AND 0xffffffff00000000 :: u64) mod 2 ^ 32 = 0"
  by (simp_all only: unat_push32 unat_and_high mod_mult_self1_is_0)

lemma uint_half_or:
  "uint (drop_bit 32 x OR push_bit 32 y :: u64) = hi32 x + 4294967296 * lo32 y"
  "uint (push_bit 32 y OR drop_bit 32 x :: u64) = hi32 x + 4294967296 * lo32 y"
  "uint (drop_bit 32 x OR (y AND 0xffffffff00000000) :: u64) = hi32 x + 4294967296 * hi32 y"
  "uint ((x AND 0xffffffff) OR push_bit 32 y :: u64) = lo32 x + 4294967296 * lo32 y"
  by (simp_all only: or.commute [of "push_bit 32 y"] uint_halved
      or_low_high [OF unat_drop32_less unat_high_mod(1)] or_low_high [OF unat_drop32_less unat_high_mod(2)]
      or_low_high [OF unat_and_low_less unat_high_mod(1)])

lemmas half_simps = uint_halved uint_half_or

section \<open>The fast reductions are reductions\<close>

lemma list3: "length xs = 6 \<Longrightarrow> xs = [xs ! 0, xs ! 1, xs ! 2, xs ! 3, xs ! 4, xs ! 5]"
  and list4: "length xs = 8 \<Longrightarrow> xs = [xs ! 0, xs ! 1, xs ! 2, xs ! 3, xs ! 4, xs ! 5, xs ! 6, xs ! 7]"
  and list6: "length xs = 12 \<Longrightarrow> xs = [xs ! 0, xs ! 1, xs ! 2, xs ! 3, xs ! 4, xs ! 5, xs ! 6, xs ! 7,
    xs ! 8, xs ! 9, xs ! 10, xs ! 11]"
proof -
  have "[0..<6] = [0, 1, 2, 3, 4, 5 :: nat]" "[0..<8] = [0, 1, 2, 3, 4, 5, 6, 7 :: nat]"
    "[0..<12] = [0, 1, 2, 3, 4, 5, 6, 7, 8, 9, 10, 11 :: nat]" by code_simp+
  note u = this
  show "length xs = 6 \<Longrightarrow> xs = [xs ! 0, xs ! 1, xs ! 2, xs ! 3, xs ! 4, xs ! 5]"
    using map_nth [of xs] u(1) by simp
  show "length xs = 8 \<Longrightarrow> xs = [xs ! 0, xs ! 1, xs ! 2, xs ! 3, xs ! 4, xs ! 5, xs ! 6, xs ! 7]"
    using map_nth [of xs] u(2) by simp
  show "length xs = 12 \<Longrightarrow> xs = [xs ! 0, xs ! 1, xs ! 2, xs ! 3, xs ! 4, xs ! 5, xs ! 6, xs ! 7,
      xs ! 8, xs ! 9, xs ! 10, xs ! 11]"
    using map_nth [of xs] u(3) by simp
qed

definition nist_p192_p :: "u64 list" where
  "nist_p192_p = [0xFFFFFFFFFFFFFFFF, 0xFFFFFFFFFFFFFFFE, 0xFFFFFFFFFFFFFFFF]"

definition nist_p256_p :: "u64 list" where
  "nist_p256_p = [0xFFFFFFFFFFFFFFFF, 0x00000000FFFFFFFF, 0x0000000000000000, 0xFFFFFFFF00000001]"

definition nist_p384_p :: "u64 list" where
  "nist_p384_p = [0x00000000FFFFFFFF, 0xFFFFFFFF00000000, 0xFFFFFFFFFFFFFFFE, 0xFFFFFFFFFFFFFFFF,
                  0xFFFFFFFFFFFFFFFF, 0xFFFFFFFFFFFFFFFF]"

definition nist_p521_p :: "u64 list" where
  "nist_p521_p = [0xFFFFFFFFFFFFFFFF, 0xFFFFFFFFFFFFFFFF, 0xFFFFFFFFFFFFFFFF, 0xFFFFFFFFFFFFFFFF,
                  0xFFFFFFFFFFFFFFFF, 0xFFFFFFFFFFFFFFFF, 0xFFFFFFFFFFFFFFFF, 0xFFFFFFFFFFFFFFFF, 0x1FF]"

lemma nist_vals:
  "vli_val nist_p192_p = 2 ^ 192 - 2 ^ 64 - 1"
  "vli_val nist_p256_p = 2 ^ 256 - 2 ^ 224 + 2 ^ 192 + 2 ^ 96 - 1"
  "vli_val nist_p384_p = 2 ^ 384 - 2 ^ 128 - 2 ^ 96 + 2 ^ 32 - 1"
  "vli_val nist_p521_p = 2 ^ 521 - 1"
  by (simp_all add: nist_p192_p_def nist_p256_p_def nist_p384_p_def nist_p521_p_def)

lemma lshift_head: "fst (vli_lshift (0 # ds) (Suc 0)) ! 0 = 0"
  by (simp add: vli_lshift_def split: prod.splits)

lemma mod_from_multiple: "P = V + (K :: int) * m \<Longrightarrow> V mod m = P mod m"
  by simp

lemma vli_mmod_fast_192_val:
  assumes "length product = 6"
  shows "\<exists>r. vli_mmod_fast_192 product nist_p192_p = Some r \<and> length r = 3 \<and>
    vli_val r = vli_val product mod vli_val nist_p192_p"
proof -
  define acc where "acc = acc_add [product ! 5, product ! 5, 0] (acc_add [0, product ! 3, product ! 4]
    (acc_add (take 3 (drop 3 product)) (take 3 product, 0)))"
  obtain a0 a1 a2 a3 a4 a5 where p: "product = [a0, a1, a2, a3, a4, a5]" using list3 [OF assms] by blast
  have v: "acc_val acc = acc_val ([a0, a1, a2], 0) + int (vli_val [a3, a4, a5]) +
      int (vli_val [0, a3, a4]) + int (vli_val [a5, a5, 0])" and len: "length (fst acc) = 3"
    by (simp_all add: acc_def p)
  have pos: "0 \<le> acc_val (fst acc, snd acc)" unfolding prod.collapse v by (simp add: acc_val_def)
  obtain r where r: "reduce_down nist_p192_p (fst acc) (snd acc) = Some r" "length r = 3"
    "int (vli_val r) = acc_val acc mod int (vli_val nist_p192_p)"
    using reduce_down_val [of nist_p192_p "fst acc" "snd acc"] len pos
    by (auto simp: nist_vals nist_p192_p_def [THEN arg_cong, of length])
  have "int (vli_val product) = acc_val acc +
      (uint a3 + 2 ^ 64 * uint a4 + (2 ^ 128 + 1) * uint a5) * int (vli_val nist_p192_p)"
    unfolding v p by (simp add: acc_val_def nist_vals algebra_simps)
  from mod_from_multiple [OF this] r(3) have "int (vli_val r) = int (vli_val product mod vli_val nist_p192_p)"
    by (simp add: zmod_int)
  with r(1,2) show ?thesis by (simp add: vli_mmod_fast_192_def acc_def Let_def)
qed

lemma vli_mmod_fast_256_val:
  assumes "length product = 8"
  shows "\<exists>r. vli_mmod_fast_256 product nist_p256_p = Some r \<and> length r = 4 \<and>
    vli_val r = vli_val product mod vli_val nist_p256_p"
proof -
  obtain a0 a1 a2 a3 a4 a5 a6 a7 where p: "product = [a0, a1, a2, a3, a4, a5, a6, a7]"
    using list4 [OF assms] by blast
  define t0 where "t0 = ([0, a5 AND 0xffffffff00000000, a6, a7] :: u64 list)"
  define t1 where "t1 = ([0, push_bit 32 a6, drop_bit 32 a6 OR push_bit 32 a7, drop_bit 32 a7] :: u64 list)"
  define t2 where "t2 = ([a4, a5 AND 0xffffffff, 0, a7] :: u64 list)"
  define t3 where "t3 = ([drop_bit 32 a4 OR push_bit 32 a5, drop_bit 32 a5 OR (a6 AND 0xffffffff00000000), a7, drop_bit 32 a6 OR push_bit 32 a4] :: u64 list)"
  define t4 where "t4 = ([drop_bit 32 a5 OR push_bit 32 a6, drop_bit 32 a6, 0, (a4 AND 0xffffffff) OR push_bit 32 a5] :: u64 list)"
  define t5 where "t5 = ([a6, a7, 0, drop_bit 32 a4 OR (a5 AND 0xffffffff00000000)] :: u64 list)"
  define t6 where "t6 = ([drop_bit 32 a6 OR push_bit 32 a7, drop_bit 32 a7 OR push_bit 32 a4, drop_bit 32 a4 OR push_bit 32 a5, push_bit 32 a6] :: u64 list)"
  define t7 where "t7 = ([a7, a4 AND 0xffffffff00000000, a5, a6 AND 0xffffffff00000000] :: u64 list)"
  note rows = t0_def t1_def t2_def t3_def t4_def t5_def t6_def t7_def
  have tl: "length t0 = 4" "length t1 = 4" "length t2 = 4" "length t3 = 4" "length t4 = 4" "length t5 = 4" "length t6 = 4" "length t7 = 4" by (simp_all add: rows)
  define acc where "acc = acc_sub t7 (acc_sub t6 (acc_sub t5 (acc_sub t4 (acc_add t3 (acc_add t2 (acc_add_shifted t1 (acc_add_shifted t0 (take 4 product, 0))))))))"
  have acc: "acc_val acc = int (vli_val (take 4 product)) + 2 * int (vli_val t0) + 2 * int (vli_val t1) + int (vli_val t2) + int (vli_val t3) - int (vli_val t4) - int (vli_val t5) - int (vli_val t6) - int (vli_val t7)"
    and len: "length (fst acc) = 4"
    by (simp_all add: acc_def tl assms acc_val_def [of "(x, 0)" for x])
  obtain r where r: "reduce_signed nist_p256_p acc = Some r" "length r = 4"
    "int (vli_val r) = acc_val acc mod int (vli_val nist_p256_p)"
    using reduce_signed_val [of nist_p256_p acc] len
    by (auto simp: nist_vals nist_p256_p_def [THEN arg_cong, of length])
  have "int (vli_val product) = acc_val acc +
      (1 * lo32 a4 + 4294967297 * hi32 a4 +
       18446744078004518912 * lo32 a5 + 79228162532711081667253501951 * hi32 a5 +
       340282367000166625977638945021017194495 * lo32 a6 + 1461501637671185285124623296161210883009696235519 * hi32 a6 +
       6277101736848182401166692341332123086285927382448418586623 * lo32 a7 + 26959946673427741530053695850515137729844644212646842236464328081408 * hi32 a7) * int (vli_val nist_p256_p)"
    unfolding acc p rows by (simp add: half_simps uint_halves [of a0] uint_halves [of a1] uint_halves [of a2] uint_halves [of a3] uint_halves [of a4] uint_halves [of a5] uint_halves [of a6] uint_halves [of a7] nist_vals
         AND64H_def AND64L_def SL32OR32_def)
  from mod_from_multiple [OF this] r(3) have "int (vli_val r) = int (vli_val product mod vli_val nist_p256_p)"
    by (simp add: zmod_int)
  moreover have "vli_mmod_fast_256 product nist_p256_p = reduce_signed nist_p256_p acc"
    by (simp add: vli_mmod_fast_256_def acc_def rows p lshift_head Let_def)
  ultimately show ?thesis using r(1,2) by simp
qed

lemma vli_mmod_fast_384_val:
  assumes "length product = 12"
  shows "\<exists>r. vli_mmod_fast_384 product nist_p384_p = Some r \<and> length r = 6 \<and>
    vli_val r = vli_val product mod vli_val nist_p384_p"
proof -
  obtain a0 a1 a2 a3 a4 a5 a6 a7 a8 a9 a10 a11 where p: "product = [a0, a1, a2, a3, a4, a5, a6, a7, a8, a9, a10, a11]"
    using list6 [OF assms] by blast
  define t0 where "t0 = ([0, 0, SL32OR32 a11 (drop_bit 32 a10), drop_bit 32 a11, 0, 0] :: u64 list)"
  define t1 where "t1 = ([a6, a7, a8, a9, a10, a11] :: u64 list)"
  define t2 where "t2 = ([SL32OR32 a11 (drop_bit 32 a10), SL32OR32 a6 (drop_bit 32 a11), SL32OR32 a7 (drop_bit 32 a6), SL32OR32 a8 (drop_bit 32 a7), SL32OR32 a9 (drop_bit 32 a8), SL32OR32 a10 (drop_bit 32 a9)] :: u64 list)"
  define t3 where "t3 = ([AND64H a11, push_bit 32 a10, a6, a7, a8, a9] :: u64 list)"
  define t4 where "t4 = ([0, 0, a10, a11, 0, 0] :: u64 list)"
  define t5 where "t5 = ([AND64L a10, AND64H a10, a11, 0, 0, 0] :: u64 list)"
  define t6 where "t6 = ([SL32OR32 a6 (drop_bit 32 a11), SL32OR32 a7 (drop_bit 32 a6), SL32OR32 a8 (drop_bit 32 a7), SL32OR32 a9 (drop_bit 32 a8), SL32OR32 a10 (drop_bit 32 a9), SL32OR32 a11 (drop_bit 32 a10)] :: u64 list)"
  define t7 where "t7 = ([push_bit 32 a10, SL32OR32 a11 (drop_bit 32 a10), drop_bit 32 a11, 0, 0, 0] :: u64 list)"
  define t8 where "t8 = ([0, AND64H a11, drop_bit 32 a11, 0, 0, 0] :: u64 list)"
  note rows = t0_def t1_def t2_def t3_def t4_def t5_def t6_def t7_def t8_def
  have tl: "length t0 = 6" "length t1 = 6" "length t2 = 6" "length t3 = 6" "length t4 = 6" "length t5 = 6" "length t6 = 6" "length t7 = 6" "length t8 = 6" by (simp_all add: rows)
  define acc where "acc = acc_sub t8 (acc_sub t7 (acc_sub t6 (acc_add t5 (acc_add t4 (acc_add t3 (acc_add t2 (acc_add t1 (acc_add_shifted t0 (take 6 product, 0)))))))))"
  have acc: "acc_val acc = int (vli_val (take 6 product)) + 2 * int (vli_val t0) + int (vli_val t1) + int (vli_val t2) + int (vli_val t3) + int (vli_val t4) + int (vli_val t5) - int (vli_val t6) - int (vli_val t7) - int (vli_val t8)"
    and len: "length (fst acc) = 6"
    by (simp_all add: acc_def tl assms acc_val_def [of "(x, 0)" for x])
  obtain r where r: "reduce_signed nist_p384_p acc = Some r" "length r = 6"
    "int (vli_val r) = acc_val acc mod int (vli_val nist_p384_p)"
    using reduce_signed_val [of nist_p384_p acc] len
    by (auto simp: nist_vals nist_p384_p_def [THEN arg_cong, of length])
  have "int (vli_val product) = acc_val acc +
      (1 * lo32 a6 + 4294967296 * hi32 a6 +
       18446744073709551616 * lo32 a7 + 79228162514264337593543950336 * hi32 a7 +
       340282366920938463463374607431768211456 * lo32 a8 + 1461501637330902918203684832716283019655932542976 * hi32 a8 +
       6277101735386680763835789423207666416102355444464034512896 * lo32 a9 + 26959946667150639794667015087019630673637144422540572481103610249216 * hi32 a9 +
       115792089237316195423570985008687907853269984665640564039457584007913129639937 * lo32 a10 + 497323236409786642155382248146820840100456150797347717440463976893159497012537670500353 * hi32 a10 +
       2135987035920910082395021706169552114602704522356652769947041607822219725780658996767040091455488 * lo32 a11 + 9173994463960286046443283581208347763186259956673124494950355357547691504354018460442606923522169999720447 * hi32 a11) * int (vli_val nist_p384_p)"
    unfolding acc p rows by (simp add: half_simps uint_halves [of a0] uint_halves [of a1] uint_halves [of a2] uint_halves [of a3] uint_halves [of a4] uint_halves [of a5] uint_halves [of a6] uint_halves [of a7] uint_halves [of a8] uint_halves [of a9] uint_halves [of a10] uint_halves [of a11] nist_vals
         AND64H_def AND64L_def SL32OR32_def)
  from mod_from_multiple [OF this] r(3) have "int (vli_val r) = int (vli_val product mod vli_val nist_p384_p)"
    by (simp add: zmod_int)
  moreover have "vli_mmod_fast_384 product nist_p384_p = reduce_signed nist_p384_p acc"
    by (simp add: vli_mmod_fast_384_def acc_def rows p lshift_head Let_def)
  ultimately show ?thesis using r(1,2) by simp
qed

end
