(* ===== verification/VliReduce.thy ===== *)
theory VliReduce
  imports VliMod
begin

text \<open>
  The reductions of \<open>kernel-crypto/ecc.c\<close> that do not rest on a NIST prime's 32-bit structure: P-521,
  primes just below a power of two (\<open>vli_mmod_special\<close>), the long division \<open>vli_mmod_slow\<close>, and the
  multiplications modulo a curve prime or order built on them.
\<close>

section \<open>P-521\<close>

lemma list18: "length xs = 18 \<Longrightarrow> xs = [xs ! 0, xs ! 1, xs ! 2, xs ! 3, xs ! 4, xs ! 5, xs ! 6, xs ! 7,
  xs ! 8, xs ! 9, xs ! 10, xs ! 11, xs ! 12, xs ! 13, xs ! 14, xs ! 15, xs ! 16, xs ! 17]"
proof -
  have u: "[0..<18] = [0, 1, 2, 3, 4, 5, 6, 7, 8, 9, 10, 11, 12, 13, 14, 15, 16, 17 :: nat]" by code_simp
  show "length xs = 18 \<Longrightarrow> xs = [xs ! 0, xs ! 1, xs ! 2, xs ! 3, xs ! 4, xs ! 5, xs ! 6, xs ! 7,
      xs ! 8, xs ! 9, xs ! 10, xs ! 11, xs ! 12, xs ! 13, xs ! 14, xs ! 15, xs ! 16, xs ! 17]"
    using map_nth [of xs] u by simp
qed

lemma unat_and_9bits: "unat (a AND 0x1ff :: u64) = unat a mod 512"
proof -
  have m: "a AND 0x1ff = take_bit 9 a" by (simp add: take_bit_eq_mask mask_eq_exp_minus_1)
  show ?thesis unfolding m by (simp only: unsigned_take_bit_eq) (simp add: take_bit_eq_mod)
qed

lemma unat_shift9:
  "unat (drop_bit 9 x OR push_bit 55 y :: u64) = unat x div 512 + 36028797018963968 * (unat y mod 512)"
proof -
  have p: "unat (push_bit 55 y :: u64) = 2 ^ 55 * (unat y mod 2 ^ 9)"
  proof -
    have "unat (push_bit 55 y :: u64) = (2 ^ 55 * unat y) mod (2 ^ 55 * 2 ^ 9)"
      by (simp add: unat_push_bit64)
    then show ?thesis by (simp only: mult_mod_right)
  qed
  have d: "unat (drop_bit 9 x) < 2 ^ 55"
    using unat64_less [of x] by (simp add: unat_drop_bit64 less_mult_imp_div_less)
  have "unat (push_bit 55 y OR drop_bit 9 x) = unat (push_bit 55 y) + unat (drop_bit 9 x)"
    by (rule or_disjoint [OF _ d]) (simp add: p)
  then show ?thesis by (simp add: p unat_drop_bit64 or.commute)
qed

lemma upt9: "[0..<9] = [0, 1, 2, 3, 4, 5, 6, 7, 8 :: nat]" by code_simp

lemma vli_mmod_fast_521_val:
  assumes "length product = 18" "vli_val product < vli_val nist_p521_p * vli_val nist_p521_p"
  shows "length (vli_mmod_fast_521 product nist_p521_p) = 9 \<and>
    vli_val (vli_mmod_fast_521 product nist_p521_p) = vli_val product mod vli_val nist_p521_p"
proof -
  obtain a0 a1 a2 a3 a4 a5 a6 a7 a8 a9 a10 a11 a12 a13 a14 a15 a16 a17 where
    p: "product = [a0, a1, a2, a3, a4, a5, a6, a7, a8, a9, a10, a11, a12, a13, a14, a15, a16, a17]"
    using list18 [OF assms(1)] by blast
  let ?P = "vli_val nist_p521_p"
  define lo where "lo = [a0, a1, a2, a3, a4, a5, a6, a7, a8 AND 0x1ff]"
  define hi where "hi = [drop_bit 9 a8 OR push_bit 55 a9, drop_bit 9 a9 OR push_bit 55 a10,
    drop_bit 9 a10 OR push_bit 55 a11, drop_bit 9 a11 OR push_bit 55 a12, drop_bit 9 a12 OR push_bit 55 a13,
    drop_bit 9 a13 OR push_bit 55 a14, drop_bit 9 a14 OR push_bit 55 a15, drop_bit 9 a15 OR push_bit 55 a16,
    (drop_bit 9 a16 OR push_bit 55 a17) AND 0x1ff]"
  define m q where "m a = unat a mod 512" and "q a = unat a div 512" for a :: u64
  have halves: "unat a = m a + 512 * q a" for a by (simp add: m_def q_def)
  have "2 ^ 1088 * unat a17 + 2 ^ 1024 * unat a16 \<le> vli_val product" by (simp add: p)
  also have "\<dots> < 2 ^ 1042" using assms(2) by (simp add: nist_vals)
  finally have top: "unat a17 = 0" "unat a16 < 2 ^ 18" by simp_all
  then have q16: "unat a16 div 512 < 512" by (simp add: less_mult_imp_div_less)
  have vlo: "vli_val lo = unat a0 + 2 ^ 64 * unat a1 + 2 ^ 128 * unat a2 + 2 ^ 192 * unat a3 + 2 ^ 256 * unat a4 +
      2 ^ 320 * unat a5 + 2 ^ 384 * unat a6 + 2 ^ 448 * unat a7 + 2 ^ 512 * (unat a8 mod 512)"
    by (simp add: lo_def unat_and_9bits)
  have vhi: "2 ^ 9 * vli_val hi + unat a8 mod 512 = unat a8 + 2 ^ 64 * unat a9 + 2 ^ 128 * unat a10 + 2 ^ 192 * unat a11 +
      2 ^ 256 * unat a12 + 2 ^ 320 * unat a13 + 2 ^ 384 * unat a14 + 2 ^ 448 * unat a15 + 2 ^ 512 * unat a16"
    using q16 top(1)
    by (simp add: hi_def unat_and_9bits unat_shift9 flip: m_def q_def)
      (simp add: halves [of a8] halves [of a9] halves [of a10] halves [of a11] halves [of a12]
        halves [of a13] halves [of a14] halves [of a15] halves [of a16])
  have sum: "vli_val lo + 2 ^ 521 * vli_val hi = vli_val product"
    using vhi top(1) by (simp add: vlo p)
  have "vli_val lo < 2 ^ 521"
    using unat64_less [of a0] unat64_less [of a1] unat64_less [of a2] unat64_less [of a3] unat64_less [of a4]
      unat64_less [of a5] unat64_less [of a6] unat64_less [of a7] mod_less_divisor [of 512 "unat a8"]
    unfolding vlo by simp
  moreover have "vli_val hi < ?P" using sum assms(2) by (simp add: nist_vals)
  ultimately have lt: "vli_val lo + vli_val hi < 2 * ?P" by (simp add: nist_vals)
  have e: "vli_mmod_fast_521 product nist_p521_p = vli_mod_add lo hi nist_p521_p"
    by (simp add: vli_mmod_fast_521_def p lo_def hi_def upt9 Let_def)
  have "vli_val product = vli_val lo + vli_val hi + vli_val hi * ?P" using sum by (simp add: nist_vals)
  then have "vli_val product mod ?P = (vli_val lo + vli_val hi) mod ?P" by simp
  moreover have "length lo = 9" "length hi = 9" "length nist_p521_p = 9"
    by (simp_all add: lo_def hi_def nist_p521_p_def)
  ultimately show ?thesis using vli_mod_add_sum [of lo nist_p521_p hi, OF _ _ lt] e by simp
qed

section \<open>Primes just below a power of two\<close>

text \<open>\<open>while (vli_cmp(r, t, ndigits * 2) >= 0) vli_sub(r, r, t, ndigits * 2)\<close>\<close>

partial_function (option) subtract_while_ge :: "u64 list \<Rightarrow> u64 list \<Rightarrow> u64 list option" where
  "subtract_while_ge t r = (if vli_cmp r t \<ge> 0 then subtract_while_ge t (fst (vli_sub r t)) else Some r)"

declare subtract_while_ge.simps [code]

text \<open>
  The folding loop: the high half times \<open>c\<close> is added to the low half. \<open>vli_umult\<close> takes a 32-bit
  factor, so \<open>c\<close> is cut to 32 bits there.
\<close>

partial_function (option) special_fold :: "bool \<Rightarrow> u64 \<Rightarrow> nat \<Rightarrow> u64 list \<Rightarrow> u64 list option" where
  "special_fold w c ndigits r =
     (if vli_is_zero (drop ndigits r) then Some r
      else let t = vli_umult w (drop ndigits r) (ucast c);
               r = take ndigits r @ vli_clear ndigits
           in special_fold w c ndigits (fst (vli_add r t)))"

declare special_fold.simps [code]

definition vli_mmod_special :: "bool \<Rightarrow> u64 list \<Rightarrow> u64 list \<Rightarrow> u64 list option" where
  "vli_mmod_special w product m =
     (let ndigits = length m; c = - (m ! 0) in
      case special_fold w c ndigits product of
        None \<Rightarrow> None
      | Some r \<Rightarrow> map_option (take ndigits) (subtract_while_ge (m @ vli_clear ndigits) r))"

lemma subtract_while_ge_val:
  assumes "0 < vli_val t"
  shows "length r = length t \<Longrightarrow>
    \<exists>r'. subtract_while_ge t r = Some r' \<and> length r' = length t \<and> vli_val r' = vli_val r mod vli_val t"
proof (induction "vli_val r" arbitrary: r rule: less_induct)
  case less
  show ?case
  proof (cases "vli_cmp r t \<ge> 0")
    case True
    then have ge: "vli_val t \<le> vli_val r" using less.prems by (auto simp: vli_cmp_val split: if_splits)
    obtain d b where s: "vli_sub r t = (d, b)" "length d = length r"
      "vli_val d + vli_val t = vli_val r + 2 ^ (64 * length r) * unat b" "b = of_bool (vli_val r < vli_val t)"
      by (rule vli_sub_val [of r t]) (use less.prems in simp, rule that)
    with ge have d: "vli_val d = vli_val r - vli_val t" by simp
    then have "vli_val d < vli_val r" using ge assms by simp
    from less.hyps [OF this] s(2) less.prems obtain r' where
      "subtract_while_ge t d = Some r'" "length r' = length t" "vli_val r' = vli_val d mod vli_val t" by auto
    then show ?thesis using True ge d
      by (subst subtract_while_ge.simps) (simp add: s(1) le_mod_geq)
  next
    case False
    then have "vli_val r < vli_val t" using less.prems by (auto simp: vli_cmp_val split: if_splits)
    then show ?thesis using False less.prems by (subst subtract_while_ge.simps) simp
  qed
qed

lemma special_fold_val:
  assumes "0 < n" "unat c < 2 ^ 32" "vli_val m + unat c = 2 ^ (64 * n)"
  shows "length r = 2 * n \<Longrightarrow>
    \<exists>r'. special_fold w c n r = Some r' \<and> length r' = 2 * n \<and> vli_val (drop n r') = 0 \<and>
      vli_val r' mod vli_val m = vli_val r mod vli_val m"
proof (induction "vli_val r" arbitrary: r rule: less_induct)
  case less
  let ?B = "2 ^ (64 * n) :: nat" and ?h = "vli_val (drop n r)" and ?l = "vli_val (take n r)"
  have split: "vli_val r = ?l + ?B * ?h"
    using vli_val_take_drop [of r n] less.prems by simp
  show ?case
  proof (cases "?h = 0")
    case True
    then show ?thesis using less.prems by (subst special_fold.simps) (simp add: vli_is_zero_val)
  next
    case False
    have c: "unat (ucast c :: u32) = unat c" using assms(2) by (simp add: unsigned_ucast_eq take_bit_eq_mod)
    define t where "t = vli_umult w (drop n r) (ucast c)"
    have t: "length t = 2 * n" "vli_val t = ?h * unat c"
      using vli_umult_val [of "drop n r" w "ucast c"] assms(1) less.prems by (simp_all add: t_def c)
    obtain r1 cy where a: "vli_add (take n r @ vli_clear n) t = (r1, cy)" "length r1 = 2 * n"
      "vli_val r1 + 2 ^ (64 * (2 * n)) * unat cy = ?l + vli_val t"
    proof (rule vli_add_val [of "take n r @ vli_clear n" t])
      show "length (take n r @ vli_clear n) = length t" using t(1) less.prems by (simp add: vli_clear_def)
    qed (use less.prems that in \<open>simp add: vli_clear_def vli_val_append\<close>)
    have hl: "?h < ?B" "?l < ?B" using vli_val_less [of "drop n r"] vli_val_less [of "take n r"] less.prems by simp_all
    have cB: "unat c < ?B"
    proof -
      have "(2::nat) ^ 32 \<le> ?B" using assms(1) by (intro power_increasing) auto
      with assms(2) show ?thesis by linarith
    qed
    have less_r: "?l + vli_val t < vli_val r"
      unfolding split t(2) using False cB by (simp add: mult.commute)
    moreover have "vli_val r < 2 ^ (64 * (2 * n))" using vli_val_less [of r] less.prems by simp
    ultimately have "unat cy = 0" using a(3) by (cases "unat cy") auto
    then have r1: "vli_val r1 = ?l + ?h * unat c" using a(3) t(2) by simp
    have "vli_val r = vli_val r1 + ?h * vli_val m"
      unfolding split r1 assms(3) [symmetric] by (simp add: algebra_simps)
    then have cong: "vli_val r1 mod vli_val m = vli_val r mod vli_val m" by simp
    have "vli_val r1 < vli_val r" using less_r r1 t(2) by simp
    from less.hyps [OF this a(2)] cong False a(1) show ?thesis
      by (subst special_fold.simps) (simp add: vli_is_zero_val t_def [symmetric] Let_def)
  qed
qed

lemma vli_mmod_special_val:
  assumes "m \<noteq> []" "0 < unat (- (m ! 0))" "unat (- (m ! 0)) < 2 ^ 32"
    and "vli_val m + unat (- (m ! 0)) = 2 ^ (64 * length m)" and "length product = 2 * length m"
  shows "\<exists>r. vli_mmod_special w product m = Some r \<and> length r = length m \<and>
    vli_val r = vli_val product mod vli_val m"
proof -
  let ?n = "length m"
  have n: "0 < ?n" using assms(1) by simp
  obtain r where r: "special_fold w (- (m ! 0)) ?n product = Some r" "length r = 2 * ?n"
    "vli_val (drop ?n r) = 0" "vli_val r mod vli_val m = vli_val product mod vli_val m"
    using special_fold_val [OF n assms(3,4,5)] by blast
  have "(2::nat) ^ 32 \<le> 2 ^ (64 * ?n)" using n by (intro power_increasing) (auto simp: Suc_le_eq)
  with assms(3,4) have pos: "0 < vli_val m" by linarith
  let ?t = "m @ vli_clear ?n"
  have t: "length ?t = 2 * ?n" "vli_val ?t = vli_val m" by (simp_all add: vli_clear_def vli_val_append)
  obtain x where x: "subtract_while_ge ?t r = Some x" "length x = 2 * ?n" "vli_val x = vli_val r mod vli_val m"
    using subtract_while_ge_val [of ?t r] pos t r(2) by auto
  have "vli_val x < 2 ^ (64 * ?n)" using x(3) pos vli_val_less [of m] mod_less_divisor [OF pos, of "vli_val r"] by linarith
  moreover have "vli_val x = vli_val (take ?n x) + 2 ^ (64 * ?n) * vli_val (drop ?n x)"
    using vli_val_take_drop [of x ?n] x(2) by simp
  ultimately have "vli_val (drop ?n x) = 0" by (cases "vli_val (drop ?n x)") auto
  then have "vli_val (take ?n x) = vli_val product mod vli_val m"
    using \<open>vli_val x = vli_val (take ?n x) + _\<close> x(3) r(4) by simp
  then show ?thesis using r(1) x by (simp add: vli_mmod_special_def Let_def)
qed

section \<open>Long division\<close>

text \<open>
  \<open>v[i]\<close> holds the current remainder, \<open>v[1 - i]\<close> the trial difference; the index is swapped when the
  subtraction did not borrow. The shifted modulus has \<open>2 * ndigits\<close> digits and moves down one bit a
  round, as two halves.
\<close>

fun mmod_slow_loop :: "nat \<Rightarrow> nat \<Rightarrow> u64 list \<Rightarrow> u64 list \<Rightarrow> u64 list" where
  "mmod_slow_loop n 0 v mod_m = v"
| "mmod_slow_loop n (Suc shift) v mod_m =
     (case vli_sub v mod_m of (diff, borrow) \<Rightarrow>
        let v = (if borrow \<noteq> 0 then v else diff);
            lo = vli_rshift1 (take n mod_m);
            lo = lo[n - 1 := lo ! (n - 1) OR push_bit 63 (mod_m ! n)];
            hi = vli_rshift1 (drop n mod_m)
        in mmod_slow_loop n shift v (lo @ hi))"

definition slow_mod_m :: "u64 list \<Rightarrow> nat \<Rightarrow> u64 list" where
  "slow_mod_m m shift =
     (let word_shift = shift div 64; bit_shift = shift mod 64
      in take (2 * length m) (vli_clear word_shift @ (if bit_shift > 0 then fst (vli_lshift m bit_shift) else m)))"

definition vli_mmod_slow :: "u64 list \<Rightarrow> u64 list \<Rightarrow> u64 list" where
  "vli_mmod_slow product m =
     (let n = length m; shift = n * 2 * 64 - vli_num_bits m
      in take n (mmod_slow_loop n (Suc shift) product (slow_mod_m m shift)))"

lemma vli_val_update:
  "i < length xs \<Longrightarrow> vli_val (xs[i := x]) + 2 ^ (64 * i) * unat (xs ! i) = vli_val xs + 2 ^ (64 * i) * unat x"
proof (induction xs arbitrary: i)
  case (Cons d ds)
  then show ?case
  proof (cases i)
    case (Suc j)
    with Cons have "2 ^ 64 * (vli_val (ds[j := x]) + 2 ^ (64 * j) * unat (ds ! j)) =
        2 ^ 64 * (vli_val ds + 2 ^ (64 * j) * unat x)" by simp
    then show ?thesis by (simp add: Suc algebra_simps power_add)
  qed simp
qed simp

lemma vli_val_nth_le: "i < length xs \<Longrightarrow> 2 ^ (64 * i) * unat (xs ! i) \<le> vli_val xs"
  using vli_val_update [of i xs 0] by (metis le_add2 mult_0_right add.right_neutral unat_0)

lemma slow_shift_val:
  assumes "0 < n" "length mod_m = 2 * n"
  shows "let lo = vli_rshift1 (take n mod_m);
             lo = lo[n - 1 := lo ! (n - 1) OR push_bit 63 (mod_m ! n)];
             hi = vli_rshift1 (drop n mod_m)
         in length (lo @ hi) = 2 * n \<and> vli_val (lo @ hi) = vli_val mod_m div 2"
proof -
  define L H where "L = vli_val (take n mod_m)" and "H = vli_val (drop n mod_m)"
  define lo where "lo = vli_rshift1 (take n mod_m)"
  define a where "a = lo ! (n - 1)"
  define b where "b = push_bit 63 (mod_m ! n)"
  let ?U = "2 ^ (64 * (n - 1)) :: nat"
  have len: "length lo = n" using assms by (simp add: lo_def)
  have lo: "vli_val lo = L div 2" by (simp add: lo_def L_def vli_rshift1_val)
  have B: "2 ^ (64 * n) = 2 * (2 ^ 63 * ?U)"
    using assms(1) by (cases n) (simp_all add: power_add)
  have "L < 2 ^ (64 * n)" using vli_val_less [of "take n mod_m"] assms by (simp add: L_def)
  then have "L div 2 < 2 ^ 63 * ?U" unfolding B by simp
  moreover have "?U * unat a \<le> L div 2" using vli_val_nth_le [of "n - 1" lo] len assms(1) lo by (simp add: a_def)
  ultimately have "?U * unat a < 2 ^ 63 * ?U" by (rule le_less_trans [rotated])
  then have "?U * unat a < ?U * 2 ^ 63" by (simp only: mult.commute)
  then have a: "unat a < 2 ^ 63" by simp
  have odd: "unat b = 2 ^ 63 * (H mod 2)"
    using assms by (simp add: b_def push63 H_def vli_val_mod2)
  have "unat (b OR a) = unat b + unat a" by (rule or_disjoint [OF _ a]) (simp add: odd)
  then have ab: "unat (a OR b) = unat a + 2 ^ 63 * (H mod 2)" by (simp add: odd or.commute)
  have "vli_val (lo[n - 1 := a OR b]) + ?U * unat a = L div 2 + ?U * unat (a OR b)"
    using vli_val_update [of "n - 1" lo "a OR b"] len assms(1) lo by (simp add: a_def)
  then have v: "vli_val (lo[n - 1 := a OR b]) = L div 2 + 2 ^ 63 * ?U * (H mod 2)"
    by (simp add: ab algebra_simps)
  have m: "vli_val mod_m = L + 2 * (2 ^ 63 * ?U) * H"
    using vli_val_take_drop [of mod_m n] assms by (simp add: L_def H_def B)
  have "vli_val (lo[n - 1 := a OR b] @ vli_rshift1 (drop n mod_m)) =
      L div 2 + 2 ^ 63 * ?U * (H mod 2) + 2 * (2 ^ 63 * ?U) * (H div 2)"
    using len by (simp add: vli_val_append v [simplified] vli_rshift1_val H_def [symmetric] B)
  also have "\<dots> = L div 2 + 2 ^ 63 * ?U * H"
  proof -
    have "2 ^ 63 * ?U * H = 2 ^ 63 * ?U * (H mod 2 + 2 * (H div 2))" by simp
    then show ?thesis by (simp only: algebra_simps)
  qed
  also have "\<dots> = vli_val mod_m div 2" unfolding m by simp
  finally show ?thesis using len assms by (simp add: Let_def lo_def [symmetric] a_def b_def)
qed

lemma mmod_slow_loop_val:
  assumes "0 < n" "0 < M"
  shows "\<lbrakk>length v = 2 * n; length mod_m = 2 * n; vli_val mod_m = M * 2 ^ k; vli_val v < 2 * vli_val mod_m\<rbrakk> \<Longrightarrow>
    length (mmod_slow_loop n (Suc k) v mod_m) = 2 * n \<and>
    vli_val (mmod_slow_loop n (Suc k) v mod_m) = vli_val v mod M"
proof (induction k arbitrary: v mod_m)
  case (0 v mod_m)
  obtain d b where s: "vli_sub v mod_m = (d, b)" "length d = length v"
    "vli_val d + vli_val mod_m = vli_val v + 2 ^ (64 * length v) * unat b" "b = of_bool (vli_val v < vli_val mod_m)"
    by (rule vli_sub_val [of v mod_m]) (use 0 in simp, rule that)
  then show ?case using 0 by (auto simp: Let_def le_mod_geq split: if_splits)
next
  case (Suc k v mod_m)
  obtain d b where s: "vli_sub v mod_m = (d, b)" "length d = length v"
    "vli_val d + vli_val mod_m = vli_val v + 2 ^ (64 * length v) * unat b" "b = of_bool (vli_val v < vli_val mod_m)"
    by (rule vli_sub_val [of v mod_m]) (use Suc.prems in simp, rule that)
  define v' where "v' = (if b \<noteq> 0 then v else d)"
  define lo where "lo = vli_rshift1 (take n mod_m)"
  define m' where "m' = lo[n - 1 := lo ! (n - 1) OR push_bit 63 (mod_m ! n)] @ vli_rshift1 (drop n mod_m)"
  have m': "length m' = 2 * n" "vli_val m' = M * 2 ^ k"
    using slow_shift_val [OF assms(1) Suc.prems(2)] Suc.prems(3) by (simp_all add: m'_def lo_def Let_def)
  have v': "length v' = 2 * n" "vli_val v' < 2 * vli_val m'"
    using s Suc.prems m'(2) by (auto simp: v'_def split: if_splits)
  have "b = 0 \<Longrightarrow> vli_val v = vli_val d + M * 2 ^ Suc k" using s(3) Suc.prems(3) by simp
  then have v'': "vli_val v' mod M = vli_val v mod M" by (auto simp: v'_def)
  have "mmod_slow_loop n (Suc (Suc k)) v mod_m = mmod_slow_loop n (Suc k) v' m'"
    by (simp add: s(1) Let_def v'_def m'_def lo_def del: mmod_slow_loop.simps(2)
        add: mmod_slow_loop.simps(2) [of n "Suc k" v mod_m])
  with Suc.IH [OF v'(1) m'(1,2) v'(2)] v'' show ?case by simp
qed

lemma slow_mod_m_val:
  assumes "shift + vli_num_bits m = 128 * length m"
  shows "length (slow_mod_m m shift) = 2 * length m \<and> vli_val (slow_mod_m m shift) = vli_val m * 2 ^ shift"
proof -
  let ?n = "length m" and ?ws = "shift div 64" and ?bs = "shift mod 64"
  define X where "X = (if ?bs > 0 then fst (vli_lshift m ?bs) else m)"
  obtain c :: nat where X: "length X = ?n" "vli_val X + 2 ^ (64 * ?n) * c = 2 ^ ?bs * vli_val m"
  proof (cases "?bs > 0")
    case True
    obtain res c where "vli_lshift m ?bs = (res, c)" "length res = ?n"
      "vli_val res + 2 ^ (64 * ?n) * unat c = 2 ^ ?bs * vli_val m"
      by (rule vli_lshift_val [OF True, of m]) (simp, rule that)
    with True that [of "unat c"] show ?thesis by (simp add: X_def)
  qed (use that [of 0] in \<open>simp add: X_def\<close>)
  define Y where "Y = vli_clear ?ws @ X"
  have sh: "64 * ?ws + ?bs = shift" by simp
  have "vli_num_bits m \<le> 64 * ?n" using vli_num_bits_val [of m] by simp
  with assms have "64 * ?n \<le> shift" by linarith
  then have ws: "?n \<le> ?ws" by linarith
  then have lenY: "2 * ?n \<le> length Y" by (simp add: Y_def X(1) vli_clear_def)
  have "vli_val Y + 2 ^ (64 * (?ws + ?n)) * c = 2 ^ (64 * ?ws) * (vli_val X + 2 ^ (64 * ?n) * c)"
    by (simp add: Y_def vli_clear_def vli_val_append algebra_simps power_add)
  also have "\<dots> = 2 ^ (64 * ?ws + ?bs) * vli_val m" unfolding X(2) by (simp only: power_add mult.assoc)
  finally have Y: "vli_val Y + 2 ^ (64 * (?ws + ?n)) * c = vli_val m * 2 ^ shift"
    unfolding sh by (simp only: mult.commute)
  have "vli_val m * 2 ^ shift < 2 ^ vli_num_bits m * 2 ^ shift" using vli_num_bits_val [of m] by simp
  also have "\<dots> = 2 ^ (128 * ?n)" unfolding assms [symmetric] power_add by (simp only: mult.commute)
  finally have lt: "vli_val m * 2 ^ shift < 2 ^ (128 * ?n)" .
  have "(2::nat) ^ (128 * ?n) \<le> 2 ^ (64 * (?ws + ?n))" using ws by (intro power_increasing) auto
  moreover have "2 ^ (64 * (?ws + ?n)) * c \<le> vli_val m * 2 ^ shift" using Y by linarith
  ultimately have "2 ^ (64 * (?ws + ?n)) * c < 2 ^ (64 * (?ws + ?n))" using lt by linarith
  then have "c = 0" by simp
  with Y have vY: "vli_val Y = vli_val m * 2 ^ shift" by simp
  have "vli_val Y = vli_val (take (2 * ?n) Y) + 2 ^ (128 * ?n) * vli_val (drop (2 * ?n) Y)"
    using vli_val_take_drop [of Y "2 * ?n"] lenY by (simp add: mult.assoc [symmetric] min_absorb1)
  moreover from this lt vY have "vli_val (drop (2 * ?n) Y) = 0" by (cases "vli_val (drop (2 * ?n) Y)") auto
  ultimately have "vli_val (take (2 * ?n) Y) = vli_val m * 2 ^ shift" using vY by simp
  moreover have "slow_mod_m m shift = take (2 * ?n) Y" by (simp only: slow_mod_m_def Let_def X_def Y_def)
  ultimately show ?thesis using lenY by simp
qed

lemma vli_mmod_slow_val:
  assumes "0 < vli_val m" "length product = 2 * length m"
  shows "length (vli_mmod_slow product m) = length m \<and>
    vli_val (vli_mmod_slow product m) = vli_val product mod vli_val m"
proof -
  let ?n = "length m"
  define shift where "shift = ?n * 2 * 64 - vli_num_bits m"
  note bits = vli_num_bits_val [of m]
  have n: "0 < ?n" using assms(1) by (cases m) auto
  have sh: "shift + vli_num_bits m = 128 * ?n" using bits by (simp add: shift_def)
  note mm = slow_mod_m_val [OF sh]
  have "0 < vli_num_bits m"
  proof (rule ccontr)
    assume "\<not> 0 < vli_num_bits m"
    then show False using bits assms(1) by simp
  qed
  then have "2 * 2 ^ (vli_num_bits m - 1) = (2 ^ vli_num_bits m :: nat)"
    by (cases "vli_num_bits m") simp_all
  then have "2 ^ vli_num_bits m \<le> 2 * vli_val m" using bits assms(1) by simp
  then have "2 ^ vli_num_bits m * 2 ^ shift \<le> 2 * vli_val m * 2 ^ shift" by (rule mult_right_mono) simp
  moreover have "2 ^ vli_num_bits m * 2 ^ shift = (2 ^ (128 * ?n) :: nat)"
    unfolding sh [symmetric] power_add by (simp only: mult.commute)
  moreover have "vli_val product < 2 ^ (128 * ?n)" using vli_val_less [of product] assms(2) by (simp add: mult.assoc [symmetric])
  ultimately have "vli_val product < 2 * vli_val (slow_mod_m m shift)" using mm by simp
  from mmod_slow_loop_val [OF n assms(1) assms(2) _ _ this] mm
  have r: "length (mmod_slow_loop ?n (Suc shift) product (slow_mod_m m shift)) = 2 * ?n"
    "vli_val (mmod_slow_loop ?n (Suc shift) product (slow_mod_m m shift)) = vli_val product mod vli_val m"
    by blast+
  let ?R = "mmod_slow_loop ?n (Suc shift) product (slow_mod_m m shift)"
  have "vli_val ?R < 2 ^ (64 * ?n)"
    unfolding r(2) using mod_less_divisor [OF assms(1), of "vli_val product"] vli_val_less [of m] by linarith
  moreover have "vli_val ?R = vli_val (take ?n ?R) + 2 ^ (64 * ?n) * vli_val (drop ?n ?R)"
    using vli_val_take_drop [of ?R ?n] r(1) by simp
  ultimately have "vli_val (take ?n ?R) = vli_val ?R" by (cases "vli_val (drop ?n ?R)") auto
  then show ?thesis unfolding vli_mmod_slow_def Let_def shift_def [symmetric] using r by simp
qed

end
