(* ===== verification/VliSpecial.thy ===== *)
theory VliSpecial
  imports VliReduce
begin

text \<open>
  The reductions of \<open>kernel-crypto/ecc.c\<close> for curves outside the NIST family: primes just above a power
  of two (\<open>vli_mmod_special2\<close>) and Barrett's reduction with a precomputed reciprocal
  (\<open>vli_mmod_barrett\<close>).
\<close>

section \<open>Barrett's reduction\<close>

text \<open>The correcting loop works on the two halves of \<open>r\<close>.\<close>

partial_function (option) barrett_loop :: "u64 list \<Rightarrow> u64 list \<Rightarrow> u64 list \<Rightarrow> u64 list option" where
  "barrett_loop m lo hi =
     (if \<not> vli_is_zero hi \<or> vli_cmp lo m \<noteq> -1
      then barrett_loop m (fst (vli_sub lo m)) (fst (vli_usub hi (snd (vli_sub lo m))))
      else Some lo)"

declare barrett_loop.simps [code]

text \<open>\<open>mod\<close> holds \<open>ndigits\<close> digits of the modulus followed by \<open>ndigits + 1\<close> of \<open>mu\<close>.\<close>

definition barrett_quotient :: "bool \<Rightarrow> u64 list \<Rightarrow> u64 list \<Rightarrow> nat \<Rightarrow> u64 list" where
  "barrett_quotient w product m_mu ndigits =
     (let mu = drop ndigits m_mu;
          q = vli_mult w (drop ndigits product) (take ndigits mu)
      in if mu ! ndigits \<noteq> 0 then fst (vli_add (drop ndigits q) (drop ndigits product)) else drop ndigits q)"

definition vli_mmod_barrett :: "bool \<Rightarrow> u64 list \<Rightarrow> u64 list \<Rightarrow> nat \<Rightarrow> u64 list option" where
  "vli_mmod_barrett w product m_mu ndigits =
     (let m = take ndigits m_mu;
          r = vli_mult w m (barrett_quotient w product m_mu ndigits);
          r = fst (vli_sub product r)
      in barrett_loop m (take ndigits r) (drop ndigits r))"

lemma barrett_loop_val:
  assumes "0 < vli_val m"
  shows "\<lbrakk>length lo = length m; length hi = length m\<rbrakk> \<Longrightarrow>
    \<exists>r. barrett_loop m lo hi = Some r \<and> length r = length m \<and> vli_val r = vli_val (lo @ hi) mod vli_val m"
proof (induction "vli_val (lo @ hi)" arbitrary: lo hi rule: less_induct)
  case less
  let ?B = "2 ^ (64 * length m) :: nat"
  have v: "vli_val (lo @ hi) = vli_val lo + ?B * vli_val hi" using less.prems by (simp add: vli_val_append)
  show ?case
  proof (cases "\<not> vli_is_zero hi \<or> vli_cmp lo m \<noteq> -1")
    case False
    then have "vli_val hi = 0" "vli_val lo < vli_val m"
      using less.prems by (auto simp: vli_is_zero_val vli_cmp_val split: if_splits)
    then show ?thesis using False less.prems by (subst barrett_loop.simps) (simp add: v)
  next
    case True
    then have ge: "vli_val m \<le> vli_val lo + ?B * vli_val hi"
      using less.prems vli_val_less [of m]
      by (cases "vli_val hi") (auto simp: vli_is_zero_val vli_cmp_val split: if_splits)
    obtain d b where s: "vli_sub lo m = (d, b)" "length d = length m" "unat b \<le> 1"
      "vli_val d + vli_val m = vli_val lo + ?B * unat b" "b = of_bool (vli_val lo < vli_val m)"
      by (rule vli_sub_val [of lo m]) (use less.prems in simp, rule that, use less.prems in simp_all)
    obtain h b2 where u: "vli_usub hi b = (h, b2)" "length h = length m"
      "vli_val h + unat b = vli_val hi + ?B * unat b2"
      using vli_usub_val [of hi b] less.prems by (auto split: prod.splits)
    have "unat b \<le> vli_val hi"
      using ge s(5) by (cases "vli_val lo < vli_val m"; cases "vli_val hi") auto
    moreover have "vli_val h < ?B" using vli_val_less [of h] u(2) by simp
    ultimately have "unat b2 = 0" using u(3) by (cases "unat b2") auto
    then have h: "vli_val h = vli_val hi - unat b" "unat b \<le> vli_val hi" using u(3) \<open>unat b \<le> vli_val hi\<close> by simp_all
    have "vli_val d + ?B * vli_val h + vli_val m = vli_val lo + ?B * vli_val hi"
    proof -
      have "vli_val hi = vli_val h + unat b" using h by simp
      then have "?B * vli_val hi = ?B * vli_val h + ?B * unat b" by (simp only: distrib_left)
      with s(4) show ?thesis by linarith
    qed
    then have step: "vli_val (d @ h) + vli_val m = vli_val (lo @ hi)"
      using less.prems by (simp add: v vli_val_append s(2))
    with assms have "vli_val (d @ h) < vli_val (lo @ hi)" by linarith
    from less.hyps [OF this s(2) u(2)] obtain r where r: "barrett_loop m d h = Some r" "length r = length m"
      "vli_val r = vli_val (d @ h) mod vli_val m" by blast
    have "vli_val (d @ h) mod vli_val m = vli_val (lo @ hi) mod vli_val m" using step by (metis mod_add_self2)
    with r show ?thesis by (subst barrett_loop.simps) (use True s(1) u(1) in simp)
  qed
qed

lemma barrett_estimate:
  fixes P W M mu :: nat
  assumes "mu = W * W div M" "0 < M" "0 < W" "P < M * W"
  shows "(P div W) * mu div W < W" and "M * ((P div W) * mu div W) \<le> P" and "P div W < M"
proof -
  have m: "M * mu \<le> W * W" using assms(1) by simp
  show h: "P div W < M" using assms(3,4) by (simp add: less_mult_imp_div_less)
  have "M * ((P div W) * mu div W) * W \<le> M * ((P div W) * mu)"
    by (simp only: mult.assoc) (intro mult_left_mono, simp_all)
  also have "\<dots> = (P div W) * (M * mu)" by (simp only: ac_simps)
  also have "\<dots> \<le> (P div W) * (W * W)" using m by simp
  finally have "M * ((P div W) * mu div W) * W \<le> ((P div W) * W) * W" by (simp only: ac_simps)
  then have le: "M * ((P div W) * mu div W) \<le> (P div W) * W" using assms(3) by simp
  then show "M * ((P div W) * mu div W) \<le> P" by (rule order_trans) simp
  have "(P div W) * W < M * W" using h assms(3) by simp
  with le have "M * ((P div W) * mu div W) < M * W" by (rule le_less_trans)
  then show "(P div W) * mu div W < W" by simp
qed

lemma barrett_quotient_val:
  assumes "0 < n" "n < 2 ^ 64" "length product = 2 * n" "length m_mu = 2 * n + 1"
    and mu: "vli_val (drop n m_mu) = 2 ^ (128 * n) div vli_val (take n m_mu)"
    and "0 < vli_val (take n m_mu)" "vli_val product < vli_val (take n m_mu) * 2 ^ (64 * n)"
    and "unat (m_mu ! (2 * n)) \<le> 1"
    and "vli_mult_exact w (drop n product) (take n (drop n m_mu))"
  shows "length (barrett_quotient w product m_mu n) = n \<and>
    vli_val (barrett_quotient w product m_mu n) = (vli_val product div 2 ^ (64 * n)) * vli_val (drop n m_mu) div 2 ^ (64 * n)"
proof -
  let ?W = "2 ^ (64 * n) :: nat" and ?M = "vli_val (take n m_mu)"
  define hi where "hi = drop n product"
  define muL where "muL = take n (drop n m_mu)"
  define top where "top = m_mu ! (2 * n)"
  have WW: "(2::nat) ^ (128 * n) = ?W * ?W" by (simp flip: power_add)
  note est = barrett_estimate [OF mu [unfolded WW] assms(6) _ assms(7)]
  have lens: "length hi = n" "length muL = n" using assms by (simp_all add: hi_def muL_def)
  have hi: "vli_val hi = vli_val product div ?W"
  proof -
    have "vli_val product = vli_val (take n product) + ?W * vli_val hi"
      using vli_val_take_drop [of product n] assms(3) by (simp add: hi_def)
    moreover have "vli_val (take n product) < ?W" using vli_val_less [of "take n product"] assms(3) by simp
    ultimately show ?thesis by simp
  qed
  have "drop n m_mu = muL @ [top]"
  proof -
    have "drop n m_mu = take n (drop n m_mu) @ drop (2 * n) m_mu" by (metis append_take_drop_id drop_drop mult_2)
    moreover have "drop (2 * n) m_mu = [top]" using assms(4) by (simp add: top_def Cons_nth_drop_Suc [symmetric])
    ultimately show ?thesis by (simp add: muL_def)
  qed
  then have vmu: "vli_val (drop n m_mu) = vli_val muL + ?W * unat top" by (simp add: vli_val_snoc lens)
  define q where "q = vli_mult w hi muL"
  have q: "length q = 2 * n" "vli_val q = vli_val hi * vli_val muL"
    using vli_mult_val [of hi muL w] assms lens by (simp_all add: q_def hi_def muL_def)
  have qh: "vli_val (drop n q) = vli_val hi * vli_val muL div ?W"
  proof -
    have "vli_val q = vli_val (take n q) + ?W * vli_val (drop n q)"
      using vli_val_take_drop [of q n] q(1) by simp
    moreover have "vli_val (take n q) < ?W" using vli_val_less [of "take n q"] q(1) by simp
    ultimately show ?thesis by (simp add: q(2) [symmetric])
  qed
  have e: "vli_val hi * vli_val (drop n m_mu) div ?W = vli_val (drop n q) + vli_val hi * unat top"
  proof -
    have "vli_val hi * vli_val (drop n m_mu) = vli_val hi * vli_val muL + vli_val hi * unat top * ?W"
      by (simp add: vmu algebra_simps)
    then show ?thesis by (simp add: qh)
  qed
  have lt: "vli_val (drop n q) + vli_val hi * unat top < ?W" using est(1) e hi by simp
  have nth: "drop n m_mu ! n = top" using assms(4) by (simp add: top_def mult_2)
  show ?thesis
  proof (cases "top = 0")
    case True
    then show ?thesis
      using e q(1) by (simp add: barrett_quotient_def Let_def nth hi [symmetric] q_def hi_def muL_def)
  next
    case False
    then have "0 < unat top" by (simp add: unat_gt_0)
    with assms(8) have t1: "unat top = 1" by (simp add: top_def)
    obtain s c where a: "vli_add (drop n q) hi = (s, c)" "length s = n"
      "vli_val s + ?W * unat c = vli_val (drop n q) + vli_val hi"
      by (rule vli_add_val [of "drop n q" hi]) (use q(1) lens in simp, rule that, use q(1) in simp_all)
    with lt t1 have "unat c = 0" by (cases "unat c") auto
    then have "vli_val s = vli_val hi * vli_val (drop n m_mu) div ?W" using a(3) e t1 by simp
    with False a show ?thesis
      by (simp add: barrett_quotient_def Let_def nth hi [symmetric] q_def [unfolded hi_def muL_def] hi_def [symmetric])
  qed
qed

lemma vli_mmod_barrett_val:
  assumes "0 < n" "n < 2 ^ 64" "length product = 2 * n" "length m_mu = 2 * n + 1"
    and "vli_val (drop n m_mu) = 2 ^ (128 * n) div vli_val (take n m_mu)"
    and "0 < vli_val (take n m_mu)" "vli_val product < vli_val (take n m_mu) * 2 ^ (64 * n)"
    and "unat (m_mu ! (2 * n)) \<le> 1"
    and "vli_mult_exact w (drop n product) (take n (drop n m_mu))"
    and "vli_mult_exact w (take n m_mu) (barrett_quotient w product m_mu n)"
  shows "\<exists>r. vli_mmod_barrett w product m_mu n = Some r \<and> length r = n \<and>
    vli_val r = vli_val product mod vli_val (take n m_mu)"
proof -
  let ?W = "2 ^ (64 * n) :: nat" and ?m = "take n m_mu" and ?q = "barrett_quotient w product m_mu n"
  have WW: "(2::nat) ^ (128 * n) = ?W * ?W" by (simp flip: power_add)
  note est = barrett_estimate [OF assms(5) [unfolded WW] assms(6) _ assms(7)]
  have q: "length ?q = n" "vli_val ?q = (vli_val product div ?W) * vli_val (drop n m_mu) div ?W"
    using barrett_quotient_val [OF assms(1-9)] by simp_all
  have t: "length (vli_mult w ?m ?q) = 2 * n" "vli_val (vli_mult w ?m ?q) = vli_val ?m * vli_val ?q"
    using vli_mult_val [of ?m ?q w] assms q by simp_all
  have le: "vli_val ?m * vli_val ?q \<le> vli_val product" using est(2) q(2) by simp
  obtain r b where r: "vli_sub product (vli_mult w ?m ?q) = (r, b)" "length r = 2 * n"
    "vli_val r + vli_val (vli_mult w ?m ?q) = vli_val product + 2 ^ (64 * (2 * n)) * unat b"
    "b = of_bool (vli_val product < vli_val (vli_mult w ?m ?q))"
    by (rule vli_sub_val [of product "vli_mult w ?m ?q"]) (use assms t in simp, rule that, use assms in simp_all)
  have vr: "vli_val product = vli_val r + vli_val ?q * vli_val ?m" using r(3,4) t(2) le by (simp add: mult.commute)
  have "take n r @ drop n r = r" by simp
  with barrett_loop_val [OF assms(6), of "take n r" "drop n r"] r(2) assms(4)
  obtain x where "barrett_loop ?m (take n r) (drop n r) = Some x" "length x = n"
    "vli_val x = vli_val r mod vli_val ?m" by auto
  then show ?thesis using vr by (simp add: vli_mmod_barrett_def Let_def r(1))
qed

section \<open>Primes just above a power of two\<close>

text \<open>
  The product is split at bit \<open>64 * ndigits - 1\<close>, which is not a digit boundary: the quotient is \<open>q\<close>
  with one more bit, \<open>carry\<close>. Masking clears the bit in the low part.
\<close>

definition clear_top :: "u64 list \<Rightarrow> u64 list" where
  "clear_top ds = (if vli_is_negative ds
     then ds[length ds - 1 := ds ! (length ds - 1) AND 0x7fffffffffffffff] else ds)"

partial_function (option) special2_fold ::
  "bool \<Rightarrow> u64 list \<Rightarrow> nat \<Rightarrow> u64 list \<Rightarrow> bool \<Rightarrow> u64 list \<Rightarrow> u64 list option" where
  "special2_fold w m i q carry r =
     (if carry \<or> \<not> vli_is_zero q
      then let ndigits = length m;
               qc = vli_umult w q (ucast (m ! 0 * 2));
               qc = (if carry then fst (vli_uadd qc (m ! 0)) else qc);
               q = drop ndigits qc;
               lo = take ndigits qc;
               carry = vli_is_negative lo;
               qc = clear_top lo @ vli_clear ndigits;
               r = (if odd i then fst (vli_sub r qc) else fst (vli_add r qc))
           in special2_fold w m (Suc i) q carry r
      else Some r)"

declare special2_fold.simps [code]

text \<open>\<open>while (vli_is_negative(r, ndigits * 2)) vli_add(r, r, m, ndigits * 2)\<close>\<close>

partial_function (option) add_while_negative :: "u64 list \<Rightarrow> u64 list \<Rightarrow> u64 list option" where
  "add_while_negative m r = (if vli_is_negative r then add_while_negative m (fst (vli_add r m)) else Some r)"

declare add_while_negative.simps [code]

definition vli_mmod_special2 :: "bool \<Rightarrow> u64 list \<Rightarrow> u64 list \<Rightarrow> u64 list option" where
  "vli_mmod_special2 w product md =
     (let ndigits = length md;
          m = md @ vli_clear ndigits;
          lo = take ndigits product
      in case special2_fold w md 1 (drop ndigits product) (vli_is_negative lo) (clear_top lo @ vli_clear ndigits) of
           None \<Rightarrow> None
         | Some r \<Rightarrow>
             case add_while_negative m r of
               None \<Rightarrow> None
             | Some r \<Rightarrow> map_option (take ndigits) (subtract_while_ge m r))"

lemma vli_is_negative_val:
  assumes "ds \<noteq> []"
  shows "vli_is_negative ds \<longleftrightarrow> 2 ^ (64 * length ds - 1) \<le> vli_val ds"
    and "vli_val (clear_top ds) = vli_val ds mod 2 ^ (64 * length ds - 1)"
    and "length (clear_top ds) = length ds"
proof -
  define n where "n = length ds - 1"
  define x where "x = ds ! n"
  have n: "length ds = Suc n" using assms by (simp add: n_def)
  let ?U = "2 ^ (64 * n) :: nat"
  have K: "2 ^ (64 * length ds - 1) = (2 ^ 63 * ?U :: nat)"
  proof -
    have e: "64 * length ds - 1 = 63 + 64 * n" by (simp add: n)
    show ?thesis unfolding e power_add ..
  qed
  have v: "vli_val ds = vli_val (take n ds) + ?U * unat x"
  proof -
    have "ds = take n ds @ [x]" using n by (metis lessI take_all take_Suc_conv_app_nth x_def order_refl)
    then have "vli_val ds = vli_val (take n ds @ [x])" by simp
    then show ?thesis by (simp add: vli_val_snoc n)
  qed
  have l: "vli_val (take n ds) < ?U" using vli_val_less [of "take n ds"] n by simp
  have idx: "(length ds * 64 - 1) div 64 = n" "(length ds * 64 - 1) mod 64 = 63" by (simp_all add: n)
  have test: "vli_is_negative ds \<longleftrightarrow> bit x 63"
    by (simp add: vli_is_negative_def vli_test_bit_def idx [simplified] x_def bit_iff_and_push_bit_not_eq_0)
  have b63: "bit x 63 \<longleftrightarrow> 2 ^ 63 \<le> unat x"
  proof -
    have "bit (unat x) 63 \<longleftrightarrow> bit x 63" by (simp add: bit_unsigned_iff)
    then have "bit x 63 \<longleftrightarrow> odd (unat x div 2 ^ 63)" unfolding bit_iff_odd [of "unat x"] by simp
    moreover have "unat x div 2 ^ 63 < 2" using unat64_less [of x] by (simp add: less_mult_imp_div_less)
    ultimately show ?thesis using less_2_cases [of "unat x div 2 ^ 63"] by (auto simp: div_eq_0_iff)
  qed
  have iff: "2 ^ 63 * ?U \<le> vli_val ds \<longleftrightarrow> 2 ^ 63 \<le> unat x"
  proof
    assume "2 ^ 63 \<le> unat x"
    then have "?U * 2 ^ 63 \<le> ?U * unat x" by (rule mult_left_mono) simp
    then show "2 ^ 63 * ?U \<le> vli_val ds" unfolding v mult.commute [of "2 ^ 63"] by linarith
  next
    assume le: "2 ^ 63 * ?U \<le> vli_val ds"
    show "2 ^ 63 \<le> unat x"
    proof (rule ccontr)
      assume "\<not> 2 ^ 63 \<le> unat x"
      then have "unat x + 1 \<le> 2 ^ 63" by linarith
      then have "?U * (unat x + 1) \<le> ?U * 2 ^ 63" by (rule mult_left_mono) simp
      then have "?U * unat x + ?U \<le> ?U * 2 ^ 63" by (simp only: distrib_left mult_1_right)
      with le l show False unfolding v mult.commute [of "2 ^ 63"] by linarith
    qed
  qed
  show neg: "vli_is_negative ds \<longleftrightarrow> 2 ^ (64 * length ds - 1) \<le> vli_val ds"
    unfolding test b63 K iff ..
  show "length (clear_top ds) = length ds" by (simp add: clear_top_def)
  show "vli_val (clear_top ds) = vli_val ds mod 2 ^ (64 * length ds - 1)"
  proof (cases "vli_is_negative ds")
    case False
    then show ?thesis using neg by (simp add: clear_top_def)
  next
    case True
    have "x AND 0x7fffffffffffffff = take_bit 63 x" by (simp add: take_bit_eq_mask mask_eq_exp_minus_1)
    then have m: "unat (x AND 0x7fffffffffffffff) = unat x mod 2 ^ 63"
      by (simp only: unsigned_take_bit_eq) (simp add: take_bit_eq_mod)
    have ge: "2 ^ 63 \<le> unat x" using True test b63 by simp
    have lt: "unat x < 2 ^ 64" by (rule unat64_less)
    from ge lt have "unat x mod 2 ^ 63 = unat x - 2 ^ 63" by (simp add: le_mod_geq)
    moreover have "vli_val (ds[n := x AND 0x7fffffffffffffff]) + ?U * unat x =
        vli_val ds + ?U * unat (x AND 0x7fffffffffffffff)"
      using vli_val_update [of n ds] n by (simp add: x_def)
    ultimately have "vli_val (ds[n := x AND 0x7fffffffffffffff]) + ?U * unat x = vli_val ds + ?U * (unat x - 2 ^ 63)"
      using m by simp
    moreover have "?U * unat x = ?U * (unat x - 2 ^ 63) + 2 ^ 63 * ?U"
      using ge by (simp add: right_diff_distrib')
    ultimately have c: "vli_val (ds[n := x AND 0x7fffffffffffffff]) + 2 ^ 63 * ?U = vli_val ds" by linarith
    have "vli_val ds < 2 * (2 ^ 63 * ?U)" using vli_val_less [of ds] by (simp add: n power_add)
    then have "vli_val ds mod (2 ^ 63 * ?U) = vli_val ds - 2 ^ 63 * ?U" using c by (simp add: le_mod_geq)
    then show ?thesis using True c unfolding K by (simp add: clear_top_def n x_def [symmetric])
  qed
qed

text \<open>The remainder is signed, in two's complement on \<open>2 * ndigits\<close> digits.\<close>

definition represents :: "nat \<Rightarrow> u64 list \<Rightarrow> int \<Rightarrow> bool" where
  "represents n r R \<longleftrightarrow> length r = 2 * n \<and> int (vli_val r) = R mod 2 ^ (128 * n)"

lemma int_vli_add:
  "length a = length b \<Longrightarrow> length (fst (vli_add a b)) = length a \<and>
    int (vli_val (fst (vli_add a b))) = (int (vli_val a) + int (vli_val b)) mod 2 ^ (64 * length a)"
proof (rule vli_add_val [of a b], assumption)
  fix res c assume h: "vli_add a b = (res, c)" "length res = length a"
    "vli_val res + 2 ^ (64 * length a) * unat c = vli_val a + vli_val b"
  have e: "int (vli_val a) + int (vli_val b) = int (vli_val res) + uint c * 2 ^ (64 * length a)"
    using arg_cong [OF h(3), of int] by (simp add: mult.commute)
  have "(int (vli_val a) + int (vli_val b)) mod 2 ^ (64 * length a) = int (vli_val res) mod 2 ^ (64 * length a)"
    unfolding e by (rule mod_mult_self1)
  moreover have "int (vli_val res) < 2 ^ (64 * length a)" using vli_val_less_int [of res] h(2) by simp
  ultimately show ?thesis using h by simp
qed

lemma int_vli_sub:
  "length a = length b \<Longrightarrow> length (fst (vli_sub a b)) = length a \<and>
    int (vli_val (fst (vli_sub a b))) = (int (vli_val a) - int (vli_val b)) mod 2 ^ (64 * length a)"
proof (rule vli_sub_val [of a b], assumption)
  fix res c assume h: "vli_sub a b = (res, c)" "length res = length a"
    "vli_val res + vli_val b = vli_val a + 2 ^ (64 * length a) * unat c"
  have "int (vli_val res) + int (vli_val b) = int (vli_val a) + uint c * 2 ^ (64 * length a)"
    using arg_cong [OF h(3), of int] by (simp add: mult.commute)
  then have e: "int (vli_val a) - int (vli_val b) = int (vli_val res) + (- uint c) * 2 ^ (64 * length a)" by linarith
  have "(int (vli_val a) - int (vli_val b)) mod 2 ^ (64 * length a) = int (vli_val res) mod 2 ^ (64 * length a)"
    unfolding e by (rule mod_mult_self1)
  moreover have "int (vli_val res) < 2 ^ (64 * length a)" using vli_val_less_int [of res] h(2) by simp
  ultimately show ?thesis using h by simp
qed

lemma represents_add:
  assumes "represents n r R" "length t = 2 * n"
  shows "represents n (fst (vli_add r t)) (R + int (vli_val t))"
    and "represents n (fst (vli_sub r t)) (R - int (vli_val t))"
  using assms int_vli_add [of r t] int_vli_sub [of r t]
  by (simp_all add: represents_def mod_add_left_eq mod_diff_left_eq mult.assoc [symmetric])

lemma represents_negative:
  assumes "represents n r R" "0 < n" "- (2 ^ (128 * n - 1)) \<le> R" "R < 2 ^ (128 * n - 1)"
  shows "vli_is_negative r \<longleftrightarrow> R < 0" "0 \<le> R \<Longrightarrow> int (vli_val r) = R"
proof -
  let ?K = "2 ^ (128 * n - 1) :: int"
  have dbl: "2 ^ (128 * n) = 2 * ?K" using assms(2) by (cases n) (simp_all add: power_add)
  have r: "r \<noteq> []" "64 * length r - 1 = 128 * n - 1" using assms(1,2) by (auto simp: represents_def)
  have "vli_is_negative r \<longleftrightarrow> (2::nat) ^ (128 * n - 1) \<le> vli_val r"
    using vli_is_negative_val(1) [OF r(1)] unfolding r(2) .
  also have "\<dots> \<longleftrightarrow> int (2 ^ (128 * n - 1)) \<le> int (vli_val r)" by (simp only: of_nat_le_iff)
  also have "\<dots> \<longleftrightarrow> ?K \<le> R mod (2 * ?K)" using assms(1) by (simp add: represents_def dbl)
  finally have neg: "vli_is_negative r \<longleftrightarrow> ?K \<le> R mod (2 * ?K)" .
  have v: "int (vli_val r) = R mod (2 * ?K)" using assms(1) by (simp add: represents_def dbl)
  have K: "0 < ?K" by simp
  show "vli_is_negative r \<longleftrightarrow> R < 0"
  proof (cases "R < 0")
    case True
    then have "(R + 2 * ?K) mod (2 * ?K) = R + 2 * ?K"
      using assms(3) K by (intro mod_pos_pos_trivial) linarith+
    then have "R mod (2 * ?K) = R + 2 * ?K" by (simp only: mod_add_self2)
    then show ?thesis unfolding neg using True assms(3) by simp
  next
    case False
    then have "R mod (2 * ?K) = R" using assms(4) K by (intro mod_pos_pos_trivial) linarith+
    then show ?thesis unfolding neg using False assms(4) by simp
  qed
  show "0 \<le> R \<Longrightarrow> int (vli_val r) = R" unfolding v using assms(4) K by (intro mod_pos_pos_trivial) linarith+
qed

lemma split_at_top:
  assumes "length ds = 2 * n" "0 < n"
  shows "2 * vli_val (drop n ds) + of_bool (vli_is_negative (take n ds)) = vli_val ds div 2 ^ (64 * n - 1)"
    and "vli_val (clear_top (take n ds)) = vli_val ds mod 2 ^ (64 * n - 1)"
    and "length (clear_top (take n ds)) = n"
proof -
  let ?K = "2 ^ (64 * n - 1) :: nat"
  have dbl: "2 ^ (64 * n) = 2 * ?K" using assms(2) by (cases n) (simp_all add: power_add)
  have ne: "take n ds \<noteq> []" "length (take n ds) = n" using assms by auto
  define L where "L = vli_val (take n ds)"
  have v: "vli_val ds = L + ?K * (2 * vli_val (drop n ds))"
    using vli_val_take_drop [of ds n] assms(1) dbl by (simp add: L_def)
  have L: "L < 2 * ?K" using vli_val_less [of "take n ds"] ne(2) dbl by (simp add: L_def)
  have neg: "vli_is_negative (take n ds) \<longleftrightarrow> ?K \<le> L"
    using vli_is_negative_val(1) [OF ne(1)] unfolding ne(2) L_def .
  have "L div ?K = of_bool (?K \<le> L)"
  proof (cases "?K \<le> L")
    case True
    then show ?thesis using L by (simp add: le_div_geq)
  qed simp
  then show "2 * vli_val (drop n ds) + of_bool (vli_is_negative (take n ds)) = vli_val ds div ?K"
    unfolding v neg by simp
  show "vli_val (clear_top (take n ds)) = vli_val ds mod ?K" "length (clear_top (take n ds)) = n"
    using vli_is_negative_val(2,3) [OF ne(1)] unfolding ne(2) v L_def by simp_all
qed

definition special2_modulus :: "nat \<Rightarrow> u64 list \<Rightarrow> bool" where
  "special2_modulus n md \<longleftrightarrow> 2 \<le> n \<and> length md = n \<and> unat (md ! 0) < 2 ^ 31 \<and>
     vli_val md = 2 ^ (64 * n - 1) + unat (md ! 0)"

lemma special2_step:
  fixes q :: "u64 list" and carry :: bool
  defines "Q \<equiv> 2 * vli_val q + of_bool carry"
  assumes md: "special2_modulus n md" and "length q = n" "represents n r R" "0 < Q"
    and c_def: "c = unat (md ! 0)"
  obtains q' carry' r' where "special2_fold w md i q carry r = special2_fold w md (Suc i) q' carry' r'"
    "length q' = n" "2 * vli_val q' + of_bool carry' = c * Q div 2 ^ (64 * n - 1)"
    "represents n r' (if odd i then R - int (c * Q mod 2 ^ (64 * n - 1)) else R + int (c * Q mod 2 ^ (64 * n - 1)))"
proof -
  let ?K = "2 ^ (64 * n - 1) :: nat"
  have n: "2 \<le> n" "length md = n" and c: "c = unat (md ! 0)" "c < 2 ^ 31"
    using md c_def by (auto simp: special2_modulus_def)
  have c2: "unat (ucast (md ! 0 * 2) :: u32) = 2 * c"
  proof -
    have "unat (md ! 0 * 2) = 2 * c" using c by (simp add: unat_mult64)
    then show ?thesis using c(2) by (simp add: unsigned_ucast_eq take_bit_eq_mod)
  qed
  define qc where "qc = vli_umult w q (ucast (md ! 0 * 2))"
  have qc: "length qc = 2 * n" "vli_val qc = vli_val q * (2 * c)"
    using vli_umult_val [of q w "ucast (md ! 0 * 2)"] assms(3) n(1) by (simp_all add: qc_def c2)
  define qc' where "qc' = (if carry then fst (vli_uadd qc (md ! 0)) else qc)"
  have qc': "length qc' = 2 * n" "vli_val qc' = c * Q"
  proof -
    obtain s cy where u: "vli_uadd qc (md ! 0) = (s, cy)" "length s = 2 * n"
      "vli_val s + 2 ^ (64 * (2 * n)) * unat cy = vli_val qc + c"
      using vli_uadd_val [of qc "md ! 0"] qc(1) c(1) by (auto split: prod.splits)
    have "vli_val q < 2 ^ (64 * n)" using vli_val_less [of q] assms(3) by simp
    then have "vli_val q * (2 * c) + c \<le> 2 ^ (64 * n) * (2 * c)"
    proof -
      assume "vli_val q < 2 ^ (64 * n)"
      then have "(vli_val q + 1) * (2 * c) \<le> 2 ^ (64 * n) * (2 * c)" by (intro mult_right_mono) simp_all
      then show ?thesis by (simp add: algebra_simps)
    qed
    also have "\<dots> < 2 ^ (64 * n) * 2 ^ (64 * n)"
    proof -
      have "(2::nat) ^ 32 \<le> 2 ^ (64 * n)" using n(1) by (intro power_increasing) auto
      moreover have "2 * c < 2 ^ 32" using c(2) by simp
      ultimately have "2 * c < 2 ^ (64 * n)" by (rule less_le_trans [rotated])
      then show ?thesis by (intro mult_strict_left_mono) simp_all
    qed
    also have "\<dots> = 2 ^ (64 * (2 * n))" by (simp flip: power_add)
    finally have "vli_val qc + c < 2 ^ (64 * (2 * n))" using qc(2) by simp
    with u(3) have "unat cy = 0" by (cases "unat cy") auto
    with u qc show "length qc' = 2 * n" "vli_val qc' = c * Q" by (simp_all add: qc'_def Q_def algebra_simps)
  qed
  have n0: "0 < n" using n(1) by simp
  note sp = split_at_top [OF qc'(1) n0]
  define lo where "lo = clear_top (take n qc')"
  have lo: "length (lo @ vli_clear n) = 2 * n" "vli_val (lo @ vli_clear n) = c * Q mod ?K"
    using sp(2,3) qc'(2) by (simp_all add: lo_def vli_clear_def vli_val_append)
  have go: "carry \<or> \<not> vli_is_zero q" using assms(5) by (auto simp: Q_def vli_is_zero_val)
  show ?thesis
  proof (rule that)
    show "special2_fold w md i q carry r = special2_fold w md (Suc i) (drop n qc') (vli_is_negative (take n qc'))
        (if odd i then fst (vli_sub r (lo @ vli_clear n)) else fst (vli_add r (lo @ vli_clear n)))"
      by (subst special2_fold.simps)
        (simp add: go n(2) Let_def qc_def [symmetric] qc'_def [symmetric] lo_def [symmetric])
    show "length (drop n qc') = n" using qc'(1) by simp
    show "2 * vli_val (drop n qc') + of_bool (vli_is_negative (take n qc')) = c * Q div ?K"
      using sp(1) qc'(2) by simp
    show "represents n (if odd i then fst (vli_sub r (lo @ vli_clear n)) else fst (vli_add r (lo @ vli_clear n)))
        (if odd i then R - int (c * Q mod ?K) else R + int (c * Q mod ?K))"
      using represents_add [OF assms(4) lo(1)] unfolding lo(2) by simp
  qed
qed

lemma special2_fold_val:
  assumes md: "special2_modulus n md" and "length q = n" "represents n r R" and c: "c = unat (md ! 0)"
    and Q: "Q = 2 * vli_val q + of_bool carry" "Q < 4 * 2 ^ (64 * n - 1)"
  shows "\<exists>r'. special2_fold w md 1 q carry r = Some r' \<and>
    represents n r' (R - int (c * Q mod 2 ^ (64 * n - 1)) + int (c * (c * Q div 2 ^ (64 * n - 1))))"
    and "c * (c * Q div 2 ^ (64 * n - 1)) < 2 ^ (64 * n - 1)"
proof -
  let ?K = "2 ^ (64 * n - 1) :: nat"
  define Q1 where "Q1 = c * Q div ?K"
  have stop: "special2_fold w md i p b x = Some x" if "2 * vli_val p + of_bool b = (0 :: nat)" for i p b x
    using that by (subst special2_fold.simps) (simp add: vli_is_zero_val)
  have c31: "c < 2 ^ 31" "2 \<le> n" using md c by (auto simp: special2_modulus_def)
  have "Q1 \<le> c * 4"
  proof -
    have "c * Q \<le> (c * 4) * ?K" using Q(2) by (simp add: mult_le_mono2)
    then have "Q1 \<le> (c * 4) * ?K div ?K" unfolding Q1_def by (rule div_le_mono)
    then show ?thesis by simp
  qed
  then have "c * Q1 \<le> c * (c * 4)" by (rule mult_left_mono) simp
  also have "\<dots> \<le> 2 ^ 31 * (2 ^ 31 * 4)" using c31(1) by (intro mult_mono) simp_all
  also have "(2 ^ 31 * (2 ^ 31 * 4) :: nat) < 2 ^ 127" by simp
  also have "\<dots> \<le> ?K" using c31(2) by (intro power_increasing) auto
  finally show lt: "c * (c * Q div ?K) < ?K" unfolding Q1_def .
  have "\<exists>r'. special2_fold w md 1 q carry r = Some r' \<and>
      represents n r' (R - int (c * Q mod ?K) + int (c * Q1))"
  proof (cases "Q = 0")
    case True
    then have "Q1 = 0" by (simp add: Q1_def)
    with True show ?thesis using stop [of q carry 1 r] Q(1) assms(3) by simp
  next
    case False
    obtain q' carry' r' where s1: "special2_fold w md 1 q carry r = special2_fold w md (Suc 1) q' carry' r'"
      "length q' = n" "2 * vli_val q' + of_bool carry' = Q1" "represents n r' (R - int (c * Q mod ?K))"
      by (rule special2_step [OF md assms(2,3) _ c, where i = 1 and carry = carry and w = w])
        (use False Q(1) in simp, use Q(1) that in \<open>simp add: Q1_def\<close>)
    show ?thesis
    proof (cases "Q1 = 0")
      case True
      then show ?thesis using stop [of q' carry' "Suc 1" r'] s1 by simp
    next
      case False
      obtain q'' carry'' r'' where s2: "special2_fold w md (Suc 1) q' carry' r' = special2_fold w md (Suc (Suc 1)) q'' carry'' r''"
        "2 * vli_val q'' + of_bool carry'' = c * Q1 div ?K"
        "represents n r'' (R - int (c * Q mod ?K) + int (c * Q1 mod ?K))"
        by (rule special2_step [OF md s1(2,4) _ c, where i = "Suc 1" and carry = carry' and w = w])
          (use False s1(3) in simp, use s1(3) that in simp)
      have "c * Q1 div ?K = 0" "c * Q1 mod ?K = c * Q1"
        using lt [folded Q1_def] by simp_all
      with s1(1) s2 stop [of q'' carry'' "Suc (Suc 1)" r''] show ?thesis by simp
    qed
  qed
  then show "\<exists>r'. special2_fold w md 1 q carry r = Some r' \<and>
      represents n r' (R - int (c * Q mod ?K) + int (c * (c * Q div ?K)))" unfolding Q1_def .
qed

lemma add_while_negative_val:
  assumes "0 < n" "length m = 2 * n" "0 < vli_val m" "int (vli_val m) < 2 ^ (128 * n - 1)"
  shows "\<lbrakk>represents n r R; - (2 ^ (128 * n - 1)) \<le> R; R < 2 ^ (128 * n - 1)\<rbrakk> \<Longrightarrow>
    \<exists>r'. add_while_negative m r = Some r' \<and> length r' = 2 * n \<and>
      int (vli_val r') mod int (vli_val m) = R mod int (vli_val m)"
proof (induction "nat (- R)" arbitrary: r R rule: less_induct)
  case less
  note neg = represents_negative [OF less.prems(1) assms(1) less.prems(2,3)]
  show ?case
  proof (cases "R < 0")
    case True
    let ?R = "R + int (vli_val m)"
    have "represents n (fst (vli_add r m)) ?R" by (rule represents_add [OF less.prems(1) assms(2)])
    moreover have "nat (- ?R) < nat (- R)" "- (2 ^ (128 * n - 1)) \<le> ?R" "?R < 2 ^ (128 * n - 1)"
      using True assms(3,4) less.prems(2) by linarith+
    ultimately obtain r' where "add_while_negative m (fst (vli_add r m)) = Some r'" "length r' = 2 * n"
      "int (vli_val r') mod int (vli_val m) = ?R mod int (vli_val m)"
      using less.hyps by blast
    then show ?thesis using True neg(1) by (subst add_while_negative.simps) simp
  next
    case False
    then show ?thesis using neg less.prems(1)
      by (subst add_while_negative.simps) (simp add: represents_def)
  qed
qed

lemma fold_identity:
  "\<lbrakk>P = p + K * Q; c * Q = l + K * q\<rbrakk> \<Longrightarrow> P = p - l + c * q + (Q - q) * (K + c)" for P :: int
  by (simp add: algebra_simps)

lemma vli_mmod_special2_val:
  assumes md: "special2_modulus n md" and product: "length product = 2 * n"
  shows "\<exists>r. vli_mmod_special2 w product md = Some r \<and> length r = n \<and> vli_val r = vli_val product mod vli_val md"
proof -
  let ?K = "2 ^ (64 * n - 1) :: nat"
  define c P Q where "c = unat (md ! 0)" and "P = vli_val product" and "Q = P div ?K"
  have n: "2 \<le> n" "length md = n" and M: "vli_val md = ?K + c" and c: "c < 2 ^ 31"
    using md by (auto simp: special2_modulus_def c_def)
  have n0: "0 < n" using n(1) by simp
  have K127: "(2::nat) ^ 127 \<le> ?K" using n(1) by (intro power_increasing) auto
  have KK: "(2::nat) ^ (128 * n) = 4 * (?K * ?K)"
  proof -
    have "128 * n = 2 + ((64 * n - 1) + (64 * n - 1))" using n0 by simp
    then show ?thesis by (simp only: power_add) simp
  qed
  have K4: "2 * ?K \<le> 2 ^ (128 * n - 1)" using n0 by (simp flip: power_Suc)
  let ?r0 = "clear_top (take n product) @ vli_clear n"
  note sp = split_at_top [OF product n0]
  have vr0: "length ?r0 = 2 * n" "vli_val ?r0 = P mod ?K"
    using sp(2,3) by (simp_all add: P_def vli_clear_def vli_val_append)
  have Plt: "P < 2 ^ (128 * n)" using vli_val_less [of product] product by (simp add: P_def mult.assoc [symmetric])
  have "?K \<le> 2 ^ (128 * n)" by (intro power_increasing) auto
  then have small: "P mod ?K < 2 ^ (128 * n)" by (rule less_le_trans [rotated]) simp
  have rep0: "represents n ?r0 (int (P mod ?K))"
  proof -
    have "int (P mod ?K) < 2 ^ (128 * n)" using small by (metis of_nat_less_iff of_nat_numeral of_nat_power)
    then show ?thesis using vr0 by (simp add: represents_def mod_pos_pos_trivial)
  qed
  have Q4: "Q < 4 * ?K" unfolding Q_def using Plt unfolding KK by (simp add: less_mult_imp_div_less ac_simps)
  define l1 l2 where "l1 = c * Q mod ?K" and "l2 = c * (c * Q div ?K)"
  define R where "R = int (P mod ?K) - int l1 + int l2"
  obtain r where fold: "special2_fold w md 1 (drop n product) (vli_is_negative (take n product)) ?r0 = Some r"
    "represents n r R"
    using special2_fold_val(1) [OF md _ rep0 c_def, of "drop n product" Q, where w = w and
        carry = "vli_is_negative (take n product)"] sp(1) Q4 product
    by (auto simp: Q_def P_def R_def l1_def l2_def)
  have l2: "l2 < ?K"
    using special2_fold_val(2) [OF md _ rep0 c_def, of "drop n product" Q, where
        carry = "vli_is_negative (take n product)"] sp(1) Q4 product
    by (auto simp: Q_def P_def l2_def)
  have l1: "l1 < ?K" "P mod ?K < ?K" by (simp_all add: l1_def)
  have bnd: "- (2 ^ (128 * n - 1)) \<le> R" "R < 2 ^ (128 * n - 1)"
  proof -
    have k: "2 * int ?K \<le> 2 ^ (128 * n - 1)"
      using K4 by (metis of_nat_le_iff of_nat_mult of_nat_numeral of_nat_power)
    show "- (2 ^ (128 * n - 1)) \<le> R" "R < 2 ^ (128 * n - 1)"
      using k l1 l2 unfolding R_def by linarith+
  qed
  have cong: "R mod int (vli_val md) = int (P mod vli_val md)"
  proof -
    define q1 where "q1 = c * Q div ?K"
    have "P = P mod ?K + ?K * Q" by (simp add: Q_def)
    then have "int P = int (P mod ?K) + int ?K * int Q" by (metis of_nat_add of_nat_mult)
    moreover have "c * Q = l1 + ?K * q1" by (simp add: l1_def q1_def)
    then have "int c * int Q = int l1 + int ?K * int q1" by (metis of_nat_add of_nat_mult)
    ultimately have "int P = R + (int Q - int q1) * (int ?K + int c)"
      unfolding R_def l2_def q1_def [symmetric] of_nat_mult by (rule fold_identity)
    then have "int P = R + (int Q - int q1) * int (vli_val md)" unfolding M of_nat_add .
    then show ?thesis by (simp add: zmod_int)
  qed
  let ?m = "md @ vli_clear n"
  have vm: "length ?m = 2 * n" "vli_val ?m = vli_val md" using n by (simp_all add: vli_clear_def vli_val_append)
  have pos: "0 < vli_val md" by (simp add: M)
  have mlt: "int (vli_val ?m) < 2 ^ (128 * n - 1)"
  proof -
    have "(2::nat) ^ 31 \<le> 2 ^ 127" by simp
    with c K127 have "c < ?K" by linarith
    then have "vli_val md < 2 * ?K" using M by linarith
    with K4 have "vli_val md < 2 ^ (128 * n - 1)" by linarith
    then show ?thesis unfolding vm(2) by (metis of_nat_less_iff of_nat_numeral of_nat_power)
  qed
  obtain r1 where r1: "add_while_negative ?m r = Some r1" "length r1 = 2 * n"
    "int (vli_val r1) mod int (vli_val md) = R mod int (vli_val md)"
    using add_while_negative_val [OF n0 vm(1) _ mlt fold(2) bnd] vm(2) pos by auto
  obtain r2 where r2: "subtract_while_ge ?m r1 = Some r2" "length r2 = 2 * n" "vli_val r2 = vli_val r1 mod vli_val md"
    using subtract_while_ge_val [of ?m r1] vm pos r1(2) by auto
  have "int (vli_val r2) = int (P mod vli_val md)" using r1(3) r2(3) cong by (simp add: zmod_int)
  then have v2: "vli_val r2 = P mod vli_val md" by linarith
  have "vli_val r2 < 2 ^ (64 * n)"
    unfolding v2 using mod_less_divisor [OF pos, of P] vli_val_less [of md] n(2) by simp
  moreover have "vli_val r2 = vli_val (take n r2) + 2 ^ (64 * n) * vli_val (drop n r2)"
    using vli_val_take_drop [of r2 n] r2(2) by simp
  ultimately have "vli_val (take n r2) = vli_val r2" by (cases "vli_val (drop n r2)") auto
  with fold(1) r1(1) r2(1,2) v2 show ?thesis
    by (simp add: vli_mmod_special2_def Let_def n(2) P_def)
qed

end
