(* ===== verification/VliInv.thy ===== *)
theory VliInv
  imports VliReduce
begin

text \<open>
  Modular inversion (\<open>vli_mod_inv\<close> of \<open>kernel-crypto/ecc.c\<close>), a binary Euclidean algorithm on
  multi-digit integers whose loop runs until its two numbers meet.
\<close>

definition EVEN :: "u64 list \<Rightarrow> bool" where
  "EVEN vli \<longleftrightarrow> vli ! 0 AND 1 = 0"

text \<open>Halving modulo \<open>mod\<close>: the carry of the addition becomes the top bit after the shift.\<close>

definition inv_halve :: "u64 list \<Rightarrow> u64 list \<Rightarrow> u64 list" where
  "inv_halve m u =
     (case (if \<not> EVEN u then vli_add u m else (u, 0)) of (u, carry) \<Rightarrow>
        let u = vli_rshift1 u
        in if carry \<noteq> 0 then u[length m - 1 := u ! (length m - 1) OR 0x8000000000000000] else u)"

text \<open>\<open>if (vli_cmp(u, v) < 0) vli_add(u, u, mod); vli_sub(u, u, v);\<close>\<close>

definition inv_sub :: "u64 list \<Rightarrow> u64 list \<Rightarrow> u64 list \<Rightarrow> u64 list" where
  "inv_sub m u v = fst (vli_sub (if vli_cmp u v < 0 then fst (vli_add u m) else u) v)"

partial_function (option) inv_loop ::
  "u64 list \<Rightarrow> u64 list \<Rightarrow> u64 list \<Rightarrow> u64 list \<Rightarrow> u64 list \<Rightarrow> u64 list option" where
  "inv_loop m a b u v =
     (if vli_cmp a b = 0 then Some u
      else if EVEN a then inv_loop m (vli_rshift1 a) b (inv_halve m u) v
      else if EVEN b then inv_loop m a (vli_rshift1 b) u (inv_halve m v)
      else if vli_cmp a b > 0
        then inv_loop m (vli_rshift1 (fst (vli_sub a b))) b (inv_halve m (inv_sub m u v)) v
      else inv_loop m a (vli_rshift1 (fst (vli_sub b a))) u (inv_halve m (inv_sub m v u)))"

declare inv_loop.simps [code]

definition vli_mod_inv :: "u64 list \<Rightarrow> u64 list \<Rightarrow> u64 list option" where
  "vli_mod_inv input m =
     (if vli_is_zero input then Some (vli_clear (length m))
      else inv_loop m input m ((vli_clear (length m))[0 := 1]) (vli_clear (length m)))"

section \<open>Values of the steps\<close>

lemma EVEN_val: "vli \<noteq> [] \<Longrightarrow> EVEN vli \<longleftrightarrow> even (vli_val vli)"
proof -
  assume ne: "vli \<noteq> []"
  have "unat (vli ! 0 AND 1) = unat (vli ! 0) mod 2"
    by (simp add: and_one_eq unat_mod)
  moreover have "vli_val vli mod 2 = unat (vli ! 0) mod 2" using vli_val_mod2 [of vli] ne by simp
  ultimately show ?thesis
    unfolding EVEN_def even_iff_mod_2_eq_zero by (metis unat_eq_zero)
qed

lemma inv_halve_val:
  assumes "length u = length m" "m \<noteq> []" "vli_val u < vli_val m" "odd (vli_val m)"
  shows "length (inv_halve m u) = length m" "vli_val (inv_halve m u) < vli_val m"
    "2 * vli_val (inv_halve m u) = vli_val u + (if even (vli_val u) then 0 else vli_val m)"
proof -
  let ?n = "length m"
  have une: "u \<noteq> []" using assms(1,2) by auto
  obtain s c where s: "(if \<not> EVEN u then vli_add u m else (u, 0)) = (s, c)" "length s = ?n" "unat c \<le> 1"
    "vli_val s + 2 ^ (64 * ?n) * unat c = vli_val u + (if even (vli_val u) then 0 else vli_val m)"
  proof (cases "EVEN u")
    case True
    then have "even (vli_val u)" using EVEN_val [OF une] by blast
    with True that [of u 0] assms(1) show ?thesis by simp
  next
    case False
    obtain s c where "vli_add u m = (s, c)" "length s = ?n" "unat c \<le> 1"
      "vli_val s + 2 ^ (64 * ?n) * unat c = vli_val u + vli_val m"
      by (rule vli_add_val [of u m]) (use assms(1) in simp, rule that, use assms(1) in simp_all)
    moreover have "odd (vli_val u)" using False EVEN_val [OF une] by blast
    ultimately show ?thesis using False that [of s c] by simp
  qed
  define x where "x = vli_rshift1 s"
  have x: "length x = ?n" "vli_val x = vli_val s div 2" using s(2) by (simp_all add: x_def vli_rshift1_val)
  let ?U = "2 ^ (64 * (?n - 1)) :: nat"
  have n: "0 < ?n" using assms(2) by simp
  have B: "2 ^ (64 * ?n) = 2 * (2 ^ 63 * ?U)" using n by (cases ?n) (simp_all add: power_add)
  define r where "r = inv_halve m u"
  have r: "length r = ?n \<and> vli_val r = vli_val s div 2 + 2 ^ 63 * ?U * unat c"
  proof (cases "c = 0")
    case True
    then show ?thesis using s x by (simp add: r_def inv_halve_def x_def Let_def)
  next
    case False
    with s(3) have c: "c = 1" using unat_le_1 by blast
    let ?t = "x ! (?n - 1)"
    have "vli_val s < 2 * (2 ^ 63 * ?U)" using vli_val_less [of s] s(2) B by simp
    then have "vli_val x < 2 ^ 63 * ?U" unfolding x(2) by simp
    moreover have "?U * unat ?t \<le> vli_val x" using vli_val_nth_le [of "?n - 1" x] x(1) n by simp
    ultimately have "?U * unat ?t < 2 ^ 63 * ?U" by (rule le_less_trans [rotated])
    then have "?U * unat ?t < ?U * 2 ^ 63" by (simp only: mult.commute)
    then have t: "unat ?t < 2 ^ 63" by simp
    have "unat (0x8000000000000000 OR ?t) = unat (0x8000000000000000 :: u64) + unat ?t"
      by (rule or_disjoint [OF _ t]) simp
    then have o: "unat (?t OR 0x8000000000000000) = unat ?t + 2 ^ 63" by (simp add: or.commute)
    have "vli_val (x[?n - 1 := ?t OR 0x8000000000000000]) + ?U * unat ?t = vli_val x + ?U * (unat ?t + 2 ^ 63)"
      using vli_val_update [of "?n - 1" x "?t OR 0x8000000000000000"] x(1) n o by simp
    then have "vli_val (x[?n - 1 := ?t OR 0x8000000000000000]) = vli_val x + 2 ^ 63 * ?U"
      by (simp only: distrib_left) simp
    moreover have "r = x[?n - 1 := ?t OR 0x8000000000000000]"
      using False s(1) by (simp add: r_def inv_halve_def x_def Let_def)
    ultimately show ?thesis using x c by simp
  qed
  show "length (inv_halve m u) = length m" using r by (simp add: r_def)
  let ?X = "vli_val u + (if even (vli_val u) then 0 else vli_val m)"
  have "?X div 2 = (vli_val s + 2 * (2 ^ 63 * ?U * unat c)) div 2" using s(4) unfolding B by (simp only: mult.assoc)
  then have v: "vli_val r = ?X div 2" using r by simp
  moreover have "even ?X" using assms(4) by auto
  ultimately show two: "2 * vli_val (inv_halve m u) = ?X" by (simp add: r_def)
  show "vli_val (inv_halve m u) < vli_val m" using two assms(3) by (auto split: if_splits)
qed

lemma inv_sub_val:
  assumes "length u = length m" "length v = length m" "vli_val u < vli_val m" "vli_val v < vli_val m"
  shows "length (inv_sub m u v) = length m"
    "int (vli_val (inv_sub m u v)) = int (vli_val u) - int (vli_val v) + (if vli_val u < vli_val v then int (vli_val m) else 0)"
proof -
  let ?B = "2 ^ (64 * length m) :: nat"
  define u' where "u' = (if vli_cmp u v < 0 then fst (vli_add u m) else u)"
  have u': "length u' = length v" using assms by (simp add: u'_def)
  obtain d b where d: "vli_sub u' v = (d, b)" "length d = length m" "vli_val d + vli_val v = vli_val u' + ?B * unat b"
    "unat b \<le> 1" "b = of_bool (vli_val u' < vli_val v)"
    by (rule vli_sub_val [OF u']) (rule that, use u' assms in simp_all)
  show "length (inv_sub m u v) = length m" using d by (simp add: inv_sub_def u'_def [symmetric])
  have cmp: "vli_cmp u v < 0 \<longleftrightarrow> vli_val u < vli_val v" using assms by (simp add: vli_cmp_val)
  have "int (vli_val d) = int (vli_val u) - int (vli_val v) + (if vli_val u < vli_val v then int (vli_val m) else 0)"
  proof (cases "vli_val u < vli_val v")
    case False
    with cmp d(3,5) have "vli_val d + vli_val v = vli_val u" by (simp add: u'_def)
    with False show ?thesis by simp
  next
    case True
    obtain s c where s: "vli_add u m = (s, c)" "length s = length m" "unat c \<le> 1"
      "vli_val s + ?B * unat c = vli_val u + vli_val m"
      by (rule vli_add_val [of u m]) (use assms(1) in simp, rule that, use assms(1) in simp_all)
    have "vli_val d + vli_val v = vli_val s + ?B * unat b" using True cmp d(3) s(1) by (simp add: u'_def)
    then have "vli_val d + vli_val v + ?B * unat c = vli_val u + vli_val m + ?B * unat b" using s(4) by linarith
    from arg_cong [OF this, of int]
    have e: "int (vli_val d) + int (vli_val v) + int ?B * int (unat c) = int (vli_val u) + int (vli_val m) + int ?B * int (unat b)"
      by (simp only: of_nat_add of_nat_mult)
    have "vli_val d < ?B" "vli_val m < ?B" using vli_val_less [of d] vli_val_less [of m] d(2) by simp_all
    then have lt: "int (vli_val d) < int ?B" "int (vli_val m) < int ?B" by linarith+
    have "unat b = unat c"
    proof -
      have "unat b = 0 \<or> unat b = 1" "unat c = 0 \<or> unat c = 1" using d(4) s(3) by linarith+
      then show ?thesis
      proof (elim disjE)
        assume "unat b = 0" "unat c = 1"
        then have "int (vli_val d) + int (vli_val v) + int ?B = int (vli_val u) + int (vli_val m)" using e by simp
        with lt True show ?thesis by linarith
      next
        assume "unat b = 1" "unat c = 0"
        then have "int (vli_val d) + int (vli_val v) = int (vli_val u) + int (vli_val m) + int ?B" using e by simp
        with lt assms(3,4) show ?thesis by linarith
      qed simp_all
    qed
    with e True show ?thesis by simp
  qed
  then show "int (vli_val (inv_sub m u v)) = int (vli_val u) - int (vli_val v) +
      (if vli_val u < vli_val v then int (vli_val m) else 0)"
    by (simp add: inv_sub_def u'_def [symmetric] d(1))
qed

section \<open>The loop\<close>

definition inv_inv :: "u64 list \<Rightarrow> nat \<Rightarrow> u64 list \<Rightarrow> u64 list \<Rightarrow> u64 list \<Rightarrow> u64 list \<Rightarrow> bool" where
  "inv_inv m I a b u v \<longleftrightarrow>
     length a = length m \<and> length b = length m \<and> length u = length m \<and> length v = length m \<and>
     0 < vli_val a \<and> 0 < vli_val b \<and> vli_val u < vli_val m \<and> vli_val v < vli_val m \<and>
     (odd (vli_val a) \<or> odd (vli_val b)) \<and> gcd (vli_val a) (vli_val b) = gcd I (vli_val m) \<and>
     int (vli_val m) dvd int (vli_val u) * int I - int (vli_val a) \<and>
     int (vli_val m) dvd int (vli_val v) * int I - int (vli_val b)"

lemma inv_inv_sym: "inv_inv m I a b u v \<Longrightarrow> inv_inv m I b a v u"
  by (auto simp: inv_inv_def gcd.commute)

lemma inv_loop_sym_halve:
  assumes inv: "inv_inv m I a b u v" and m: "m \<noteq> []" "odd (vli_val m)" and even: "even (vli_val a)"
  shows "inv_inv m I (vli_rshift1 a) b (inv_halve m u) v"
proof -
  note h = inv_halve_val [of u m]
  let ?M = "int (vli_val m)"
  define a' u' where "a' = vli_val (vli_rshift1 a)" and "u' = vli_val (inv_halve m u)"
  have a: "vli_val a = 2 * a'" "0 < a'" using even inv by (auto simp: a'_def vli_rshift1_val inv_inv_def)
  have u: "2 * u' = vli_val u + (if even (vli_val u) then 0 else vli_val m)" "u' < vli_val m"
    "length (inv_halve m u) = length m"
    using h inv m by (auto simp: u'_def inv_inv_def)
  have "?M dvd int (vli_val u) * int I - int (vli_val a)" using inv by (simp add: inv_inv_def)
  moreover have "2 * int u' = int (vli_val u) + (if even (vli_val u) then 0 else ?M)"
    using arg_cong [OF u(1), of int] by (simp split: if_splits)
  then have "2 * (int u' * int I - int a') = int (vli_val u) * int I - int (vli_val a) +
      (if even (vli_val u) then 0 else ?M) * int I"
    unfolding a(1) by (simp add: algebra_simps)
  ultimately have "?M dvd 2 * (int u' * int I - int a')" by simp
  moreover have "coprime ?M 2" using m(2) by simp
  ultimately have d: "?M dvd int u' * int I - int a'" using coprime_dvd_mult_right_iff by blast
  have ob: "odd (vli_val b)" using inv even by (simp add: inv_inv_def)
  then have "gcd (vli_val a) (vli_val b) = gcd a' (vli_val b)"
    unfolding a(1) by (simp add: gcd_mult_left_left_cancel)
  with inv a(2) u d ob show ?thesis unfolding inv_inv_def by (simp add: a'_def u'_def)
qed

lemma inv_loop_sub:
  assumes inv: "inv_inv m I a b u v" and odd: "odd (vli_val a)" "odd (vli_val b)" and lt: "vli_val b < vli_val a"
  shows "inv_inv m I (fst (vli_sub a b)) b (inv_sub m u v) v" "vli_val (fst (vli_sub a b)) = vli_val a - vli_val b"
    "even (vli_val (fst (vli_sub a b)))"
proof -
  let ?M = "int (vli_val m)"
  have len: "length a = length b" using inv by (simp add: inv_inv_def)
  show d: "vli_val (fst (vli_sub a b)) = vli_val a - vli_val b"
    using lt by (rule_tac vli_sub_val [OF len]) simp
  show "even (vli_val (fst (vli_sub a b)))" unfolding d using odd lt by simp
  have s: "length (inv_sub m u v) = length m"
    "int (vli_val (inv_sub m u v)) = int (vli_val u) - int (vli_val v) + (if vli_val u < vli_val v then ?M else 0)"
    using inv_sub_val [of u m v] inv by (auto simp: inv_inv_def)
  have lts: "vli_val (inv_sub m u v) < vli_val m" using s(2) inv by (auto simp: inv_inv_def split: if_splits)
  have "int (vli_val (inv_sub m u v)) * int I - int (vli_val a - vli_val b) =
      (int (vli_val u) * int I - int (vli_val a)) - (int (vli_val v) * int I - int (vli_val b)) +
      (if vli_val u < vli_val v then ?M else 0) * int I"
    unfolding s(2) using lt by (simp add: algebra_simps of_nat_diff)
  then have dv: "?M dvd int (vli_val (inv_sub m u v)) * int I - int (vli_val a - vli_val b)"
    using inv by (simp add: inv_inv_def)
  have "gcd (vli_val a - vli_val b) (vli_val b) = gcd (vli_val a) (vli_val b)"
    using lt by (simp add: gcd_diff1_nat)
  with inv s(1) lts dv odd(2) lt len show "inv_inv m I (fst (vli_sub a b)) b (inv_sub m u v) v"
    unfolding inv_inv_def d by simp
qed

lemma inv_loop_val:
  assumes m: "m \<noteq> []" "odd (vli_val m)"
  shows "inv_inv m I a b u v \<Longrightarrow>
    \<exists>r. inv_loop m a b u v = Some r \<and> length r = length m \<and> vli_val r < vli_val m \<and>
      int (vli_val m) dvd int (vli_val r) * int I - int (gcd I (vli_val m))"
proof (induction "vli_val a + vli_val b" arbitrary: a b u v rule: less_induct)
  case less
  note inv = less.prems
  have len: "length a = length b" "a \<noteq> []" "b \<noteq> []" using inv m by (auto simp: inv_inv_def)
  have pos: "0 < vli_val a" "0 < vli_val b" using inv by (auto simp: inv_inv_def)
  note cmp = vli_cmp_val [OF len(1)]
  note even = EVEN_val [OF len(2)] EVEN_val [OF len(3)]
  have half: "inv_inv m I (vli_rshift1 x) y (inv_halve m s) t \<and> vli_val (vli_rshift1 x) < vli_val x"
    if "inv_inv m I x y s t" "even (vli_val x)" for x y s t
    using inv_loop_sym_halve [OF that(1) m that(2)] that(1) by (simp add: vli_rshift1_val inv_inv_def)
  consider (eq) "vli_val a = vli_val b" | (ea) "vli_val a \<noteq> vli_val b" "even (vli_val a)"
    | (eb) "vli_val a \<noteq> vli_val b" "odd (vli_val a)" "even (vli_val b)"
    | (gt) "vli_val b < vli_val a" "odd (vli_val a)" "odd (vli_val b)"
    | (lt) "vli_val a < vli_val b" "odd (vli_val a)" "odd (vli_val b)" by linarith
  then show ?case
  proof cases
    case eq
    then show ?thesis using inv cmp by (subst inv_loop.simps) (auto simp: inv_inv_def)
  next
    case ea
    note h = half [OF inv ea(2)]
    show ?thesis using less.hyps [OF _ conjunct1 [OF h]] h ea cmp even
      by (subst inv_loop.simps) auto
  next
    case eb
    note h = half [OF inv_inv_sym [OF inv] eb(3)]
    show ?thesis using less.hyps [OF _ inv_inv_sym [OF conjunct1 [OF h]]] h eb cmp even
      by (subst inv_loop.simps) auto
  next
    case gt
    note s = inv_loop_sub [OF inv gt(2,3,1)]
    note h = half [OF s(1,3)]
    show ?thesis using less.hyps [OF _ conjunct1 [OF h]] h s(2) gt cmp even
      by (subst inv_loop.simps) auto
  next
    case lt
    note s = inv_loop_sub [OF inv_inv_sym [OF inv] lt(3,2,1)]
    note h = half [OF s(1,3)]
    show ?thesis using less.hyps [OF _ inv_inv_sym [OF conjunct1 [OF h]]] h s(2) lt cmp even
      by (subst inv_loop.simps) auto
  qed
qed

text \<open>
  C8: for an odd modulus above one and any non-zero input of its length, the loop of \<open>vli_mod_inv\<close>
  ends, and the result times the input is their greatest common divisor modulo the modulus: the
  inverse, when they are coprime. A zero input gives zero.
\<close>

theorem vli_mod_inv_correct:
  assumes "odd (vli_val m)" "1 < vli_val m" "length input = length m"
  shows "\<exists>r. vli_mod_inv input m = Some r \<and> length r = length m \<and> vli_val r < vli_val m \<and>
    (vli_val r * vli_val input) mod vli_val m =
      (if vli_val input = 0 then 0 else gcd (vli_val input) (vli_val m) mod vli_val m)"
proof (cases "vli_val input = 0")
  case True
  then show ?thesis using assms by (simp add: vli_mod_inv_def vli_is_zero_val vli_clear_def)
next
  case False
  let ?M = "vli_val m" and ?I = "vli_val input"
  have ne: "m \<noteq> []" using assms(2) by auto
  then obtain d ds where "m = d # ds" by (cases m) auto
  then have one: "vli_val ((vli_clear (length m))[0 := 1]) = 1" "length ((vli_clear (length m))[0 := 1]) = length m"
    "vli_val (vli_clear (length m)) = 0" "length (vli_clear (length m)) = length m"
    by (simp_all add: vli_clear_def)
  have "inv_inv m ?I input m ((vli_clear (length m))[0 := 1]) (vli_clear (length m))"
    unfolding inv_inv_def one using False assms by simp
  from inv_loop_val [OF ne assms(1) this] obtain r where r: "vli_mod_inv input m = Some r"
    "length r = length m" "vli_val r < ?M" "int ?M dvd int (vli_val r) * int ?I - int (gcd ?I ?M)"
    using False by (auto simp: vli_mod_inv_def vli_is_zero_val)
  from r(4) have "int (vli_val r * ?I) mod int ?M = int (gcd ?I ?M) mod int ?M"
    by (simp add: mod_eq_dvd_iff)
  then have "int ((vli_val r * ?I) mod ?M) = int (gcd ?I ?M mod ?M)" by (simp only: zmod_int)
  then have "(vli_val r * ?I) mod ?M = gcd ?I ?M mod ?M" by (simp only: of_nat_eq_iff)
  with r False show ?thesis by simp
qed

theorem vli_mod_inv_correct_witness:
  "\<exists>r. vli_mod_inv [3, 0] [7, 1] = Some r \<and> length r = Suc (Suc 0) \<and> vli_val r < vli_val [7, 1] \<and>
    (vli_val r * 3) mod vli_val [7, 1] = gcd 3 (vli_val [7, 1]) mod vli_val [7, 1]"
  using vli_mod_inv_correct [of "[7, 1]" "[3, 0]"] by simp

end
