(* ===== verification/EccCurve.thy ===== *)
theory EccCurve
  imports VliSpecial VliInv "HOL-Library.Monad_Syntax"
begin

text \<open>
  The curves of \<open>kernel-crypto/ecc_curve_defs.c\<close> and \<open>ecrdsa_defs.c\<close>, the choice of the reduction by
  curve (\<open>vli_mmod_fast\<close>), multiplication modulo a curve prime or order, and the validation of private
  and public keys in \<open>kernel-crypto/ecc.c\<close>. \<open>w\<close> is the configuration of the 128-bit multiplication.
\<close>

section \<open>The curves\<close>

record ecc_curve =
  c_name :: string
  c_nbits :: nat
  g_x :: "u64 list"
  g_y :: "u64 list"
  g_ndigits :: nat
  c_p :: "u64 list"
  c_n :: "u64 list"
  c_a :: "u64 list"
  c_b :: "u64 list"

definition nist_p192_g_x :: "u64 list" where
  "nist_p192_g_x =
    [0xF4FF0AFD82FF1012, 0x7CBF20EB43A18800, 0x188DA80EB03090F6]"

definition nist_p192_g_y :: "u64 list" where
  "nist_p192_g_y =
    [0x73F977A11E794811, 0x631011ED6B24CDD5, 0x07192B95FFC8DA78]"

definition nist_p192_n :: "u64 list" where
  "nist_p192_n =
    [0x146BC9B1B4D22831, 0xFFFFFFFF99DEF836, 0xFFFFFFFFFFFFFFFF]"

definition nist_p192_a :: "u64 list" where
  "nist_p192_a =
    [0xFFFFFFFFFFFFFFFC, 0xFFFFFFFFFFFFFFFE, 0xFFFFFFFFFFFFFFFF]"

definition nist_p192_b :: "u64 list" where
  "nist_p192_b =
    [0xFEB8DEECC146B9B1, 0x0FA7E9AB72243049, 0x64210519E59C80E7]"

definition nist_p192 :: ecc_curve where
  "nist_p192 = \<lparr>c_name = ''nist_192'', c_nbits = 192, g_x = nist_p192_g_x, g_y = nist_p192_g_y, g_ndigits = 3,
     c_p = nist_p192_p, c_n = nist_p192_n, c_a = nist_p192_a, c_b = nist_p192_b\<rparr>"

definition nist_p256_g_x :: "u64 list" where
  "nist_p256_g_x =
    [0xF4A13945D898C296, 0x77037D812DEB33A0, 0xF8BCE6E563A440F2, 0x6B17D1F2E12C4247]"

definition nist_p256_g_y :: "u64 list" where
  "nist_p256_g_y =
    [0xCBB6406837BF51F5, 0x2BCE33576B315ECE, 0x8EE7EB4A7C0F9E16, 0x4FE342E2FE1A7F9B]"

definition nist_p256_n :: "u64 list" where
  "nist_p256_n =
    [0xF3B9CAC2FC632551, 0xBCE6FAADA7179E84, 0xFFFFFFFFFFFFFFFF, 0xFFFFFFFF00000000]"

definition nist_p256_a :: "u64 list" where
  "nist_p256_a =
    [0xFFFFFFFFFFFFFFFC, 0x00000000FFFFFFFF, 0x0000000000000000, 0xFFFFFFFF00000001]"

definition nist_p256_b :: "u64 list" where
  "nist_p256_b =
    [0x3BCE3C3E27D2604B, 0x651D06B0CC53B0F6, 0xB3EBBD55769886BC, 0x5AC635D8AA3A93E7]"

definition nist_p256 :: ecc_curve where
  "nist_p256 = \<lparr>c_name = ''nist_256'', c_nbits = 256, g_x = nist_p256_g_x, g_y = nist_p256_g_y, g_ndigits = 4,
     c_p = nist_p256_p, c_n = nist_p256_n, c_a = nist_p256_a, c_b = nist_p256_b\<rparr>"

definition nist_p384_g_x :: "u64 list" where
  "nist_p384_g_x =
    [0x3A545E3872760AB7, 0x5502F25DBF55296C, 0x59F741E082542A38, 0x6E1D3B628BA79B98,
     0x8Eb1C71EF320AD74, 0xAA87CA22BE8B0537]"

definition nist_p384_g_y :: "u64 list" where
  "nist_p384_g_y =
    [0x7A431D7C90EA0E5F, 0x0A60B1CE1D7E819D, 0xE9DA3113B5F0B8C0, 0xF8F41DBD289A147C,
     0x5D9E98BF9292DC29, 0x3617DE4A96262C6F]"

definition nist_p384_n :: "u64 list" where
  "nist_p384_n =
    [0xECEC196ACCC52973, 0x581A0DB248B0A77A, 0xC7634D81F4372DDF, 0xFFFFFFFFFFFFFFFF,
     0xFFFFFFFFFFFFFFFF, 0xFFFFFFFFFFFFFFFF]"

definition nist_p384_a :: "u64 list" where
  "nist_p384_a =
    [0x00000000FFFFFFFC, 0xFFFFFFFF00000000, 0xFFFFFFFFFFFFFFFE, 0xFFFFFFFFFFFFFFFF,
     0xFFFFFFFFFFFFFFFF, 0xFFFFFFFFFFFFFFFF]"

definition nist_p384_b :: "u64 list" where
  "nist_p384_b =
    [0x2a85c8edd3ec2aef, 0xc656398d8a2ed19d, 0x0314088f5013875a, 0x181d9c6efe814112,
     0x988e056be3f82d19, 0xb3312fa7e23ee7e4]"

definition nist_p384 :: ecc_curve where
  "nist_p384 = \<lparr>c_name = ''nist_384'', c_nbits = 384, g_x = nist_p384_g_x, g_y = nist_p384_g_y, g_ndigits = 6,
     c_p = nist_p384_p, c_n = nist_p384_n, c_a = nist_p384_a, c_b = nist_p384_b\<rparr>"

definition nist_p521_g_x :: "u64 list" where
  "nist_p521_g_x =
    [0xf97e7e31c2e5bd66, 0x3348b3c1856a429b, 0xfe1dc127a2ffa8de, 0xa14b5e77efe75928,
     0xf828af606b4d3dba, 0x9c648139053fb521, 0x9e3ecb662395b442, 0x858e06b70404e9cd,
     0xc6]"

definition nist_p521_g_y :: "u64 list" where
  "nist_p521_g_y =
    [0x88be94769fd16650, 0x353c7086a272c240, 0xc550b9013fad0761, 0x97ee72995ef42640,
     0x17afbd17273e662c, 0x98f54449579b4468, 0x5c8a5fb42c7d1bd9, 0x39296a789a3bc004,
     0x118]"

definition nist_p521_n :: "u64 list" where
  "nist_p521_n =
    [0xbb6fb71e91386409, 0x3bb5c9b8899c47ae, 0x7fcc0148f709a5d0, 0x51868783bf2f966b,
     0xfffffffffffffffa, 0xffffffffffffffff, 0xffffffffffffffff, 0xffffffffffffffff,
     0x1ff]"

definition nist_p521_a :: "u64 list" where
  "nist_p521_a =
    [0xfffffffffffffffc, 0xffffffffffffffff, 0xffffffffffffffff, 0xffffffffffffffff,
     0xffffffffffffffff, 0xffffffffffffffff, 0xffffffffffffffff, 0xffffffffffffffff,
     0x1ff]"

definition nist_p521_b :: "u64 list" where
  "nist_p521_b =
    [0xef451fd46b503f00, 0x3573df883d2c34f1, 0x1652c0bd3bb1bf07, 0x56193951ec7e937b,
     0xb8b489918ef109e1, 0xa2da725b99b315f3, 0x929a21a0b68540ee, 0x953eb9618e1c9a1f,
     0x051]"

definition nist_p521 :: ecc_curve where
  "nist_p521 = \<lparr>c_name = ''nist_521'', c_nbits = 521, g_x = nist_p521_g_x, g_y = nist_p521_g_y, g_ndigits = 9,
     c_p = nist_p521_p, c_n = nist_p521_n, c_a = nist_p521_a, c_b = nist_p521_b\<rparr>"

definition cp256a_g_x :: "u64 list" where
  "cp256a_g_x =
    [0x0000000000000001, 0x0000000000000000, 0x0000000000000000, 0x0000000000000000]"

definition cp256a_g_y :: "u64 list" where
  "cp256a_g_y =
    [0x22ACC99C9E9F1E14, 0x35294F2DDF23E3B1, 0x27DF505A453F2B76, 0x8D91E471E0989CDA]"

definition cp256a_p :: "u64 list" where
  "cp256a_p =
    [0xFFFFFFFFFFFFFD97, 0xFFFFFFFFFFFFFFFF, 0xFFFFFFFFFFFFFFFF, 0xFFFFFFFFFFFFFFFF]"

definition cp256a_n :: "u64 list" where
  "cp256a_n =
    [0x45841B09B761B893, 0x6C611070995AD100, 0xFFFFFFFFFFFFFFFF, 0xFFFFFFFFFFFFFFFF]"

definition cp256a_a :: "u64 list" where
  "cp256a_a =
    [0xFFFFFFFFFFFFFD94, 0xFFFFFFFFFFFFFFFF, 0xFFFFFFFFFFFFFFFF, 0xFFFFFFFFFFFFFFFF]"

definition cp256a_b :: "u64 list" where
  "cp256a_b =
    [0x00000000000000a6, 0x0000000000000000, 0x0000000000000000, 0x0000000000000000]"

definition gost_cp256a :: ecc_curve where
  "gost_cp256a = \<lparr>c_name = ''cp256a'', c_nbits = 256, g_x = cp256a_g_x, g_y = cp256a_g_y, g_ndigits = 4,
     c_p = cp256a_p, c_n = cp256a_n, c_a = cp256a_a, c_b = cp256a_b\<rparr>"

definition cp256b_g_x :: "u64 list" where
  "cp256b_g_x =
    [0x0000000000000001, 0x0000000000000000, 0x0000000000000000, 0x0000000000000000]"

definition cp256b_g_y :: "u64 list" where
  "cp256b_g_y =
    [0x744BF8D717717EFC, 0xC545C9858D03ECFB, 0xB83D1C3EB2C070E5, 0x3FA8124359F96680]"

definition cp256b_p :: "u64 list" where
  "cp256b_p =
    [0x0000000000000C99, 0x0000000000000000, 0x0000000000000000, 0x8000000000000000]"

definition cp256b_n :: "u64 list" where
  "cp256b_n =
    [0xE497161BCC8A198F, 0x5F700CFFF1A624E5, 0x0000000000000001, 0x8000000000000000]"

definition cp256b_a :: "u64 list" where
  "cp256b_a =
    [0x0000000000000C96, 0x0000000000000000, 0x0000000000000000, 0x8000000000000000]"

definition cp256b_b :: "u64 list" where
  "cp256b_b =
    [0x2F49D4CE7E1BBC8B, 0xE979259373FF2B18, 0x66A7D3C25C3DF80A, 0x3E1AF419A269A5F8]"

definition gost_cp256b :: ecc_curve where
  "gost_cp256b = \<lparr>c_name = ''cp256b'', c_nbits = 256, g_x = cp256b_g_x, g_y = cp256b_g_y, g_ndigits = 4,
     c_p = cp256b_p, c_n = cp256b_n, c_a = cp256b_a, c_b = cp256b_b\<rparr>"

definition cp256c_g_x :: "u64 list" where
  "cp256c_g_x =
    [0x0000000000000000, 0x0000000000000000, 0x0000000000000000, 0x0000000000000000]"

definition cp256c_g_y :: "u64 list" where
  "cp256c_g_y =
    [0x366E550DFDB3BB67, 0x4D4DC440D4641A8F, 0x3CBF3783CD08C0EE, 0x41ECE55743711A8C]"

definition cp256c_p :: "u64 list" where
  "cp256c_p =
    [0x7998F7B9022D759B, 0xCF846E86789051D3, 0xAB1EC85E6B41C8AA, 0x9B9F605F5A858107,
     0xedc283cdd217b5a2, 0xbac48fc06398ae59, 0x405384d55f9f3b73, 0xa51f176161f1d734,
     0x0000000000000001]"

definition cp256c_n :: "u64 list" where
  "cp256c_n =
    [0xF02F3A6598980BB9, 0x582CA3511EDDFB74, 0xAB1EC85E6B41C8AA, 0x9B9F605F5A858107]"

definition cp256c_a :: "u64 list" where
  "cp256c_a =
    [0x7998F7B9022D7598, 0xCF846E86789051D3, 0xAB1EC85E6B41C8AA, 0x9B9F605F5A858107]"

definition cp256c_b :: "u64 list" where
  "cp256c_b =
    [0x000000000000805a, 0x0000000000000000, 0x0000000000000000, 0x0000000000000000]"

definition gost_cp256c :: ecc_curve where
  "gost_cp256c = \<lparr>c_name = ''cp256c'', c_nbits = 256, g_x = cp256c_g_x, g_y = cp256c_g_y, g_ndigits = 4,
     c_p = cp256c_p, c_n = cp256c_n, c_a = cp256c_a, c_b = cp256c_b\<rparr>"

definition tc512a_g_x :: "u64 list" where
  "tc512a_g_x =
    [0x0000000000000003, 0x0000000000000000, 0x0000000000000000, 0x0000000000000000,
     0x0000000000000000, 0x0000000000000000, 0x0000000000000000, 0x0000000000000000]"

definition tc512a_g_y :: "u64 list" where
  "tc512a_g_y =
    [0x89A589CB5215F2A4, 0x8028FE5FC235F5B8, 0x3D75E6A50E3A41E9, 0xDF1626BE4FD036E9,
     0x778064FDCBEFA921, 0xCE5E1C93ACF1ABC1, 0xA61B8816E25450E6, 0x7503CFE87A836AE3]"

definition tc512a_p :: "u64 list" where
  "tc512a_p =
    [0xFFFFFFFFFFFFFDC7, 0xFFFFFFFFFFFFFFFF, 0xFFFFFFFFFFFFFFFF, 0xFFFFFFFFFFFFFFFF,
     0xFFFFFFFFFFFFFFFF, 0xFFFFFFFFFFFFFFFF, 0xFFFFFFFFFFFFFFFF, 0xFFFFFFFFFFFFFFFF]"

definition tc512a_n :: "u64 list" where
  "tc512a_n =
    [0xCACDB1411F10B275, 0x9B4B38ABFAD2B85D, 0x6FF22B8D4E056060, 0x27E69532F48D8911,
     0xFFFFFFFFFFFFFFFF, 0xFFFFFFFFFFFFFFFF, 0xFFFFFFFFFFFFFFFF, 0xFFFFFFFFFFFFFFFF]"

definition tc512a_a :: "u64 list" where
  "tc512a_a =
    [0xFFFFFFFFFFFFFDC4, 0xFFFFFFFFFFFFFFFF, 0xFFFFFFFFFFFFFFFF, 0xFFFFFFFFFFFFFFFF,
     0xFFFFFFFFFFFFFFFF, 0xFFFFFFFFFFFFFFFF, 0xFFFFFFFFFFFFFFFF, 0xFFFFFFFFFFFFFFFF]"

definition tc512a_b :: "u64 list" where
  "tc512a_b =
    [0x503190785A71C760, 0x862EF9D4EBEE4761, 0x4CB4574010DA90DD, 0xEE3CB090F30D2761,
     0x79BD081CFD0B6265, 0x34B82574761CB0E8, 0xC1BD0B2B6667F1DA, 0xE8C2505DEDFC86DD]"

definition gost_tc512a :: ecc_curve where
  "gost_tc512a = \<lparr>c_name = ''tc512a'', c_nbits = 512, g_x = tc512a_g_x, g_y = tc512a_g_y, g_ndigits = 8,
     c_p = tc512a_p, c_n = tc512a_n, c_a = tc512a_a, c_b = tc512a_b\<rparr>"

definition tc512b_g_x :: "u64 list" where
  "tc512b_g_x =
    [0x0000000000000002, 0x0000000000000000, 0x0000000000000000, 0x0000000000000000,
     0x0000000000000000, 0x0000000000000000, 0x0000000000000000, 0x0000000000000000]"

definition tc512b_g_y :: "u64 list" where
  "tc512b_g_y =
    [0x7E21340780FE41BD, 0x28041055F94CEEEC, 0x152CBCAAF8C03988, 0xDCB228FD1EDF4A39,
     0xBE6DD9E6C8EC7335, 0x3C123B697578C213, 0x2C071E3647A8940F, 0x1A8F7EDA389B094C]"

definition tc512b_p :: "u64 list" where
  "tc512b_p =
    [0x000000000000006F, 0x0000000000000000, 0x0000000000000000, 0x0000000000000000,
     0x0000000000000000, 0x0000000000000000, 0x0000000000000000, 0x8000000000000000]"

definition tc512b_n :: "u64 list" where
  "tc512b_n =
    [0xC6346C54374F25BD, 0x8B996712101BEA0E, 0xACFDB77BD9D40CFA, 0x49A1EC142565A545,
     0x0000000000000001, 0x0000000000000000, 0x0000000000000000, 0x8000000000000000]"

definition tc512b_a :: "u64 list" where
  "tc512b_a =
    [0x000000000000006C, 0x0000000000000000, 0x0000000000000000, 0x0000000000000000,
     0x0000000000000000, 0x0000000000000000, 0x0000000000000000, 0x8000000000000000]"

definition tc512b_b :: "u64 list" where
  "tc512b_b =
    [0xFB8CCBC7C5140116, 0x50F78BEE1FA3106E, 0x7F8B276FAD1AB69C, 0x3E965D2DB1416D21,
     0xBF85DC806C4B289F, 0xB97C7D614AF138BC, 0x7E3E06CF6F5E2517, 0x687D1B459DC84145]"

definition gost_tc512b :: ecc_curve where
  "gost_tc512b = \<lparr>c_name = ''tc512b'', c_nbits = 512, g_x = tc512b_g_x, g_y = tc512b_g_y, g_ndigits = 8,
     c_p = tc512b_p, c_n = tc512b_n, c_a = tc512b_a, c_b = tc512b_b\<rparr>"

text \<open>The identifiers of \<open>ecc_get_curve\<close>; \<open>fips\<close> is \<open>fips_enabled\<close>.\<close>

datatype curve_id = ECC_CURVE_NIST_P192 | ECC_CURVE_NIST_P256 | ECC_CURVE_NIST_P384 | ECC_CURVE_NIST_P521
  | OtherCurve nat

fun ecc_get_curve :: "bool \<Rightarrow> curve_id \<Rightarrow> ecc_curve option" where
  "ecc_get_curve fips ECC_CURVE_NIST_P192 = (if fips then None else Some nist_p192)"
| "ecc_get_curve fips ECC_CURVE_NIST_P256 = Some nist_p256"
| "ecc_get_curve fips ECC_CURVE_NIST_P384 = Some nist_p384"
| "ecc_get_curve fips ECC_CURVE_NIST_P521 = Some nist_p521"
| "ecc_get_curve fips (OtherCurve _) = None"

definition shipped_curves :: "ecc_curve list" where
  "shipped_curves = [nist_p192, nist_p256, nist_p384, nist_p521,
     gost_cp256a, gost_cp256b, gost_cp256c, gost_tc512a, gost_tc512b]"

text \<open>The prime: Barrett's curves keep \<open>mu\<close> behind it in the same array.\<close>

definition field_p :: "ecc_curve \<Rightarrow> u64 list" where
  "field_p curve = take (g_ndigits curve) (c_p curve)"

section \<open>Reduction and multiplication\<close>


definition vli_mod_mult_slow :: "bool \<Rightarrow> u64 list \<Rightarrow> u64 list \<Rightarrow> u64 list \<Rightarrow> u64 list" where
  "vli_mod_mult_slow w left right m = vli_mmod_slow (vli_mult w left right) m"



section \<open>Keys\<close>

text \<open>\<open>None\<close> is the return value 0.\<close>

definition ecc_is_key_valid_curve :: "ecc_curve \<Rightarrow> u64 list option \<Rightarrow> nat \<Rightarrow> errno option" where
  "ecc_is_key_valid_curve curve private_key ndigits =
     (case private_key of
        None \<Rightarrow> Some EINVAL
      | Some key \<Rightarrow>
          if g_ndigits curve \<noteq> ndigits then Some EINVAL
          else
            (let one = (vli_clear ndigits)[0 := 1] in
             if vli_cmp one key \<noteq> -1 then Some EINVAL
             else
               (let res = fst (vli_sub (c_n curve) one);
                    res = fst (vli_sub res one)
                in if vli_cmp res key \<noteq> 1 then Some EINVAL else None)))"



section \<open>The reductions fit the curves\<close>

lemmas curve_defs = nist_p192_def nist_p256_def nist_p384_def nist_p521_def gost_cp256a_def gost_cp256b_def
  gost_cp256c_def gost_tc512a_def gost_tc512b_def

lemmas curve_data =
  nist_p192_p_def nist_p256_p_def nist_p384_p_def nist_p521_p_def nist_p192_g_x_def nist_p192_g_y_def
  nist_p192_n_def nist_p192_a_def nist_p192_b_def nist_p256_g_x_def nist_p256_g_y_def nist_p256_n_def
  nist_p256_a_def nist_p256_b_def nist_p384_g_x_def nist_p384_g_y_def nist_p384_n_def nist_p384_a_def
  nist_p384_b_def nist_p521_g_x_def nist_p521_g_y_def nist_p521_n_def nist_p521_a_def nist_p521_b_def
  cp256a_g_x_def cp256a_g_y_def cp256a_p_def cp256a_n_def cp256a_a_def cp256a_b_def
  cp256b_g_x_def cp256b_g_y_def cp256b_p_def cp256b_n_def cp256b_a_def cp256b_b_def
  cp256c_g_x_def cp256c_g_y_def cp256c_p_def cp256c_n_def cp256c_a_def cp256c_b_def
  tc512a_g_x_def tc512a_g_y_def tc512a_p_def tc512a_n_def tc512a_a_def tc512a_b_def
  tc512b_g_x_def tc512b_g_y_def tc512b_p_def tc512b_n_def tc512b_a_def tc512b_b_def

text \<open>The facts about the data that the reductions and the key checks rest on.\<close>

definition curve_ok :: "ecc_curve \<Rightarrow> bool" where
  "curve_ok curve \<longleftrightarrow>
     (let n = g_ndigits curve; p = vli_val (field_p curve) in
      2 < n \<and> n < 100 \<and> length (field_p curve) = n \<and> length (c_n curve) = n \<and> length (c_a curve) = n \<and>
      length (c_b curve) = n \<and> odd p \<and> 3 < p \<and> vli_val (c_a curve) < p \<and> vli_val (c_b curve) < p \<and> 3 < vli_val (c_n curve))"

lemma curves_ok:
  "curve_ok nist_p192" "curve_ok nist_p256" "curve_ok nist_p384" "curve_ok nist_p521"
  "curve_ok gost_cp256a" "curve_ok gost_cp256b" "curve_ok gost_cp256c" "curve_ok gost_tc512a" "curve_ok gost_tc512b"
  by (simp_all add: curve_ok_def curve_defs field_p_def curve_data)

lemma shipped_ok: "curve \<in> set shipped_curves \<Longrightarrow> curve_ok curve"
  using curves_ok by (auto simp: shipped_curves_def)



lemma curve_okD:
  assumes "curve \<in> set shipped_curves"
  shows "2 < g_ndigits curve" "g_ndigits curve < 100" "length (field_p curve) = g_ndigits curve"
    "length (c_n curve) = g_ndigits curve" "length (c_a curve) = g_ndigits curve" "length (c_b curve) = g_ndigits curve"
    "odd (vli_val (field_p curve))" "3 < vli_val (field_p curve)" "vli_val (c_a curve) < vli_val (field_p curve)"
    "vli_val (c_b curve) < vli_val (field_p curve)" "3 < vli_val (c_n curve)"
  using shipped_ok [OF assms] by (simp_all add: curve_ok_def Let_def)



section \<open>Properties\<close>



text \<open>
  Multiplication modulo any number by shift and subtract, as the ECDSA and ECRDSA code uses it
  for the order of the curve: \<open>vli_mod_mult_slow\<close> computes the product of two numbers of any length
  modulo any positive number of that length, provided the multiplication loses no carry.
\<close>

theorem vli_mod_mult_slow_correct:
  assumes "length left = length m" "length right = length m" "length m < 2 ^ 64" "0 < vli_val m"
    and "vli_mult_exact w left right"
  shows "length (vli_mod_mult_slow w left right m) = length m \<and>
    vli_val (vli_mod_mult_slow w left right m) = (vli_val left * vli_val right) mod vli_val m"
proof -
  have "0 < length m" using assms(4) by (cases m) auto
  then have "length (vli_mult w left right) = 2 * length m"
    "vli_val (vli_mult w left right) = vli_val left * vli_val right"
    using vli_mult_val [of left right w] assms by simp_all
  with vli_mmod_slow_val [OF assms(4), of "vli_mult w left right"] show ?thesis
    by (simp add: vli_mod_mult_slow_def)
qed

lemma vli_mod_mult_slow_correct_witness:
  "length (vli_mod_mult_slow True [5, 1] [7, 2] [11, 3]) = length [11 :: u64, 3] \<and>
    vli_val (vli_mod_mult_slow True [5, 1] [7, 2] [11, 3]) = (vli_val [5, 1] * vli_val [7, 2]) mod vli_val [11, 3]"
proof (rule vli_mod_mult_slow_correct)
  show "vli_mult_exact True [5, 1] [7, 2]" by (rule vli_mult_exact_small) simp_all
qed simp_all

text \<open>
  A private key is accepted for a curve exactly when it is there, its number of digits is the curve's
  and it lies in the range from 2 to \<open>n - 3\<close>.
\<close>

theorem ecc_private_key_range:
  assumes "curve \<in> set shipped_curves" "\<And>k. key = Some k \<Longrightarrow> length k = ndigits"
  shows "ecc_is_key_valid_curve curve key ndigits = None \<longleftrightarrow>
    (\<exists>k. key = Some k \<and> ndigits = g_ndigits curve \<and> 2 \<le> vli_val k \<and> vli_val k + 3 \<le> vli_val (c_n curve))"
proof (cases key)
  case None
  then show ?thesis by (simp add: ecc_is_key_valid_curve_def)
next
  case (Some k)
  show ?thesis
  proof (cases "ndigits = g_ndigits curve")
    case False
    with Some show ?thesis by (simp add: ecc_is_key_valid_curve_def)
  next
    case True
    note c = curve_okD [OF assms(1)]
    define one where "one = (vli_clear ndigits)[0 := 1]"
    obtain m where m: "ndigits = Suc m" using c(1) True that [of "g_ndigits curve - 1"] by simp
    have one: "vli_val one = 1" "length one = ndigits" by (simp_all add: one_def vli_clear_def m)
    have sub: "vli_val (fst (vli_sub a one)) = vli_val a - 1 \<and> length (fst (vli_sub a one)) = ndigits"
      if "length a = ndigits" "1 \<le> vli_val a" for a
      by (rule vli_sub_val [of a one]) (use that one in simp_all)
    have n: "length (c_n curve) = ndigits" "3 < vli_val (c_n curve)" using c(4,11) True by simp_all
    define r1 r2 where "r1 = fst (vli_sub (c_n curve) one)" and "r2 = fst (vli_sub r1 one)"
    have r1: "length r1 = ndigits" "vli_val r1 = vli_val (c_n curve) - 1" using sub [OF n(1)] n(2) by (simp_all add: r1_def)
    have r2: "length r2 = ndigits" "vli_val r2 = vli_val (c_n curve) - 2" using sub [OF r1(1)] r1(2) n(2) by (simp_all add: r2_def)
    have k: "length k = ndigits" using assms(2) Some by simp
    have "vli_cmp one k = -1 \<longleftrightarrow> 2 \<le> vli_val k" using one k by (auto simp: vli_cmp_val)
    moreover have "vli_cmp r2 k = 1 \<longleftrightarrow> vli_val k + 3 \<le> vli_val (c_n curve)"
      using r2 k n(2) by (auto simp: vli_cmp_val)
    moreover have "ecc_is_key_valid_curve curve key ndigits = (if vli_cmp one k \<noteq> -1 then Some EINVAL
        else if vli_cmp r2 k \<noteq> 1 then Some EINVAL else None)"
      using Some True by (simp add: ecc_is_key_valid_curve_def one_def r1_def r2_def Let_def)
    ultimately show ?thesis using Some True by simp
  qed
qed

lemma ecc_private_key_range_witness:
  "ecc_is_key_valid_curve nist_p192 (Some [2, 0, 0]) 3 = None \<longleftrightarrow>
    (\<exists>k. Some [2, 0, 0] = Some k \<and> 3 = g_ndigits nist_p192 \<and> 2 \<le> vli_val k \<and> vli_val k + 3 \<le> vli_val (c_n nist_p192))"
proof (rule ecc_private_key_range)
  show "nist_p192 \<in> set shipped_curves" by (simp add: shipped_curves_def)
qed auto




end
