(* ===== verification/Fcrypt.thy ===== *)
theory Fcrypt
  imports Feistel
begin

text \<open>
  FCrypt (\<open>kernel-crypto/fcrypt.c\<close>). Big-endian words (\<open>__be32\<close>) are the numbers they stand for, so
  \<open>Z(x)\<close> is a shift and the bytes of the union are those of the number, most significant first.
\<close>

definition fcrypt_sbox0 :: "u32 list" where
  "fcrypt_sbox0 = map (\<lambda>x. push_bit 3 x) [
     0xea, 0x7f, 0xb2, 0x64, 0x9d, 0xb0, 0xd9, 0x11, 0xcd, 0x86, 0x86, 0x91,
     0x0a, 0xb2, 0x93, 0x06, 0x0e, 0x06, 0xd2, 0x65, 0x73, 0xc5, 0x28, 0x60,
     0xf2, 0x20, 0xb5, 0x38, 0x7e, 0xda, 0x9f, 0xe3, 0xd2, 0xcf, 0xc4, 0x3c,
     0x61, 0xff, 0x4a, 0x4a, 0x35, 0xac, 0xaa, 0x5f, 0x2b, 0xbb, 0xbc, 0x53,
     0x4e, 0x9d, 0x78, 0xa3, 0xdc, 0x09, 0x32, 0x10, 0xc6, 0x6f, 0x66, 0xd6,
     0xab, 0xa9, 0xaf, 0xfd, 0x3b, 0x95, 0xe8, 0x34, 0x9a, 0x81, 0x72, 0x80,
     0x9c, 0xf3, 0xec, 0xda, 0x9f, 0x26, 0x76, 0x15, 0x3e, 0x55, 0x4d, 0xde,
     0x84, 0xee, 0xad, 0xc7, 0xf1, 0x6b, 0x3d, 0xd3, 0x04, 0x49, 0xaa, 0x24,
     0x0b, 0x8a, 0x83, 0xba, 0xfa, 0x85, 0xa0, 0xa8, 0xb1, 0xd4, 0x01, 0xd8,
     0x70, 0x64, 0xf0, 0x51, 0xd2, 0xc3, 0xa7, 0x75, 0x8c, 0xa5, 0x64, 0xef,
     0x10, 0x4e, 0xb7, 0xc6, 0x61, 0x03, 0xeb, 0x44, 0x3d, 0xe5, 0xb3, 0x5b,
     0xae, 0xd5, 0xad, 0x1d, 0xfa, 0x5a, 0x1e, 0x33, 0xab, 0x93, 0xa2, 0xb7,
     0xe7, 0xa8, 0x45, 0xa4, 0xcd, 0x29, 0x63, 0x44, 0xb6, 0x69, 0x7e, 0x2e,
     0x62, 0x03, 0xc8, 0xe0, 0x17, 0xbb, 0xc7, 0xf3, 0x3f, 0x36, 0xba, 0x71,
     0x8e, 0x97, 0x65, 0x60, 0x69, 0xb6, 0xf6, 0xe6, 0x6e, 0xe0, 0x81, 0x59,
     0xe8, 0xaf, 0xdd, 0x95, 0x22, 0x99, 0xfd, 0x63, 0x19, 0x74, 0x61, 0xb1,
     0xb6, 0x5b, 0xae, 0x54, 0xb3, 0x70, 0xff, 0xc6, 0x3b, 0x3e, 0xc1, 0xd7,
     0xe1, 0x0e, 0x76, 0xe5, 0x36, 0x4f, 0x59, 0xc7, 0x08, 0x6e, 0x82, 0xa6,
     0x93, 0xc4, 0xaa, 0x26, 0x49, 0xe0, 0x21, 0x64, 0x07, 0x9f, 0x64, 0x81,
     0x9c, 0xbf, 0xf9, 0xd1, 0x43, 0xf8, 0xb6, 0xb9, 0xf1, 0x24, 0x75, 0x03,
     0xe4, 0xb0, 0x99, 0x46, 0x3d, 0xf5, 0xd1, 0x39, 0x72, 0x12, 0xf6, 0xba,
     0x0c, 0x0d, 0x42, 0x2e]"

definition fcrypt_sbox1 :: "u32 list" where
  "fcrypt_sbox1 = map (\<lambda>x. push_bit 27 (x AND 0x1f) OR drop_bit 5 x) [
     0x77, 0x14, 0xa6, 0xfe, 0xb2, 0x5e, 0x8c, 0x3e, 0x67, 0x6c, 0xa1, 0x0d,
     0xc2, 0xa2, 0xc1, 0x85, 0x6c, 0x7b, 0x67, 0xc6, 0x23, 0xe3, 0xf2, 0x89,
     0x50, 0x9c, 0x03, 0xb7, 0x73, 0xe6, 0xe1, 0x39, 0x31, 0x2c, 0x27, 0x9f,
     0xa5, 0x69, 0x44, 0xd6, 0x23, 0x83, 0x98, 0x7d, 0x3c, 0xb4, 0x2d, 0x99,
     0x1c, 0x1f, 0x8c, 0x20, 0x03, 0x7c, 0x5f, 0xad, 0xf4, 0xfa, 0x95, 0xca,
     0x76, 0x44, 0xcd, 0xb6, 0xb8, 0xa1, 0xa1, 0xbe, 0x9e, 0x54, 0x8f, 0x0b,
     0x16, 0x74, 0x31, 0x8a, 0x23, 0x17, 0x04, 0xfa, 0x79, 0x84, 0xb1, 0xf5,
     0x13, 0xab, 0xb5, 0x2e, 0xaa, 0x0c, 0x60, 0x6b, 0x5b, 0xc4, 0x4b, 0xbc,
     0xe2, 0xaf, 0x45, 0x73, 0xfa, 0xc9, 0x49, 0xcd, 0x00, 0x92, 0x7d, 0x97,
     0x7a, 0x18, 0x60, 0x3d, 0xcf, 0x5b, 0xde, 0xc6, 0xe2, 0xe6, 0xbb, 0x8b,
     0x06, 0xda, 0x08, 0x15, 0x1b, 0x88, 0x6a, 0x17, 0x89, 0xd0, 0xa9, 0xc1,
     0xc9, 0x70, 0x6b, 0xe5, 0x43, 0xf4, 0x68, 0xc8, 0xd3, 0x84, 0x28, 0x0a,
     0x52, 0x66, 0xa3, 0xca, 0xf2, 0xe3, 0x7f, 0x7a, 0x31, 0xf7, 0x88, 0x94,
     0x5e, 0x9c, 0x63, 0xd5, 0x24, 0x66, 0xfc, 0xb3, 0x57, 0x25, 0xbe, 0x89,
     0x44, 0xc4, 0xe0, 0x8f, 0x23, 0x3c, 0x12, 0x52, 0xf5, 0x1e, 0xf4, 0xcb,
     0x18, 0x33, 0x1f, 0xf8, 0x69, 0x10, 0x9d, 0xd3, 0xf7, 0x28, 0xf8, 0x30,
     0x05, 0x5e, 0x32, 0xc0, 0xd5, 0x19, 0xbd, 0x45, 0x8b, 0x5b, 0xfd, 0xbc,
     0xe2, 0x5c, 0xa9, 0x96, 0xef, 0x70, 0xcf, 0xc2, 0x2a, 0xb3, 0x61, 0xad,
     0x80, 0x48, 0x81, 0xb7, 0x1d, 0x43, 0xd9, 0xd7, 0x45, 0xf0, 0xd8, 0x8a,
     0x59, 0x7c, 0x57, 0xc1, 0x79, 0xc7, 0x34, 0xd6, 0x43, 0xdf, 0xe4, 0x78,
     0x16, 0x06, 0xda, 0x92, 0x76, 0x51, 0xe1, 0xd4, 0x70, 0x03, 0xe0, 0x2f,
     0x96, 0x91, 0x82, 0x80]"

definition fcrypt_sbox2 :: "u32 list" where
  "fcrypt_sbox2 = map (\<lambda>x. push_bit 11 x) [
     0xf0, 0x37, 0x24, 0x53, 0x2a, 0x03, 0x83, 0x86, 0xd1, 0xec, 0x50, 0xf0,
     0x42, 0x78, 0x2f, 0x6d, 0xbf, 0x80, 0x87, 0x27, 0x95, 0xe2, 0xc5, 0x5d,
     0xf9, 0x6f, 0xdb, 0xb4, 0x65, 0x6e, 0xe7, 0x24, 0xc8, 0x1a, 0xbb, 0x49,
     0xb5, 0x0a, 0x7d, 0xb9, 0xe8, 0xdc, 0xb7, 0xd9, 0x45, 0x20, 0x1b, 0xce,
     0x59, 0x9d, 0x6b, 0xbd, 0x0e, 0x8f, 0xa3, 0xa9, 0xbc, 0x74, 0xa6, 0xf6,
     0x7f, 0x5f, 0xb1, 0x68, 0x84, 0xbc, 0xa9, 0xfd, 0x55, 0x50, 0xe9, 0xb6,
     0x13, 0x5e, 0x07, 0xb8, 0x95, 0x02, 0xc0, 0xd0, 0x6a, 0x1a, 0x85, 0xbd,
     0xb6, 0xfd, 0xfe, 0x17, 0x3f, 0x09, 0xa3, 0x8d, 0xfb, 0xed, 0xda, 0x1d,
     0x6d, 0x1c, 0x6c, 0x01, 0x5a, 0xe5, 0x71, 0x3e, 0x8b, 0x6b, 0xbe, 0x29,
     0xeb, 0x12, 0x19, 0x34, 0xcd, 0xb3, 0xbd, 0x35, 0xea, 0x4b, 0xd5, 0xae,
     0x2a, 0x79, 0x5a, 0xa5, 0x32, 0x12, 0x7b, 0xdc, 0x2c, 0xd0, 0x22, 0x4b,
     0xb1, 0x85, 0x59, 0x80, 0xc0, 0x30, 0x9f, 0x73, 0xd3, 0x14, 0x48, 0x40,
     0x07, 0x2d, 0x8f, 0x80, 0x0f, 0xce, 0x0b, 0x5e, 0xb7, 0x5e, 0xac, 0x24,
     0x94, 0x4a, 0x18, 0x15, 0x05, 0xe8, 0x02, 0x77, 0xa9, 0xc7, 0x40, 0x45,
     0x89, 0xd1, 0xea, 0xde, 0x0c, 0x79, 0x2a, 0x99, 0x6c, 0x3e, 0x95, 0xdd,
     0x8c, 0x7d, 0xad, 0x6f, 0xdc, 0xff, 0xfd, 0x62, 0x47, 0xb3, 0x21, 0x8a,
     0xec, 0x8e, 0x19, 0x18, 0xb4, 0x6e, 0x3d, 0xfd, 0x74, 0x54, 0x1e, 0x04,
     0x85, 0xd8, 0xbc, 0x1f, 0x56, 0xe7, 0x3a, 0x56, 0x67, 0xd6, 0xc8, 0xa5,
     0xf3, 0x8e, 0xde, 0xae, 0x37, 0x49, 0xb7, 0xfa, 0xc8, 0xf4, 0x1f, 0xe0,
     0x2a, 0x9b, 0x15, 0xd1, 0x34, 0x0e, 0xb5, 0xe0, 0x44, 0x78, 0x84, 0x59,
     0x56, 0x68, 0x77, 0xa5, 0x14, 0x06, 0xf5, 0x2f, 0x8c, 0x8a, 0x73, 0x80,
     0x76, 0xb4, 0x10, 0x86]"

definition fcrypt_sbox3 :: "u32 list" where
  "fcrypt_sbox3 = map (\<lambda>x. push_bit 19 x) [
     0xa9, 0x2a, 0x48, 0x51, 0x84, 0x7e, 0x49, 0xe2, 0xb5, 0xb7, 0x42, 0x33,
     0x7d, 0x5d, 0xa6, 0x12, 0x44, 0x48, 0x6d, 0x28, 0xaa, 0x20, 0x6d, 0x57,
     0xd6, 0x6b, 0x5d, 0x72, 0xf0, 0x92, 0x5a, 0x1b, 0x53, 0x80, 0x24, 0x70,
     0x9a, 0xcc, 0xa7, 0x66, 0xa1, 0x01, 0xa5, 0x41, 0x97, 0x41, 0x31, 0x82,
     0xf1, 0x14, 0xcf, 0x53, 0x0d, 0xa0, 0x10, 0xcc, 0x2a, 0x7d, 0xd2, 0xbf,
     0x4b, 0x1a, 0xdb, 0x16, 0x47, 0xf6, 0x51, 0x36, 0xed, 0xf3, 0xb9, 0x1a,
     0xa7, 0xdf, 0x29, 0x43, 0x01, 0x54, 0x70, 0xa4, 0xbf, 0xd4, 0x0b, 0x53,
     0x44, 0x60, 0x9e, 0x23, 0xa1, 0x18, 0x68, 0x4f, 0xf0, 0x2f, 0x82, 0xc2,
     0x2a, 0x41, 0xb2, 0x42, 0x0c, 0xed, 0x0c, 0x1d, 0x13, 0x3a, 0x3c, 0x6e,
     0x35, 0xdc, 0x60, 0x65, 0x85, 0xe9, 0x64, 0x02, 0x9a, 0x3f, 0x9f, 0x87,
     0x96, 0xdf, 0xbe, 0xf2, 0xcb, 0xe5, 0x6c, 0xd4, 0x5a, 0x83, 0xbf, 0x92,
     0x1b, 0x94, 0x00, 0x42, 0xcf, 0x4b, 0x00, 0x75, 0xba, 0x8f, 0x76, 0x5f,
     0x5d, 0x3a, 0x4d, 0x09, 0x12, 0x08, 0x38, 0x95, 0x17, 0xe4, 0x01, 0x1d,
     0x4c, 0xa9, 0xcc, 0x85, 0x82, 0x4c, 0x9d, 0x2f, 0x3b, 0x66, 0xa1, 0x34,
     0x10, 0xcd, 0x59, 0x89, 0xa5, 0x31, 0xcf, 0x05, 0xc8, 0x84, 0xfa, 0xc7,
     0xba, 0x4e, 0x8b, 0x1a, 0x19, 0xf1, 0xa1, 0x3b, 0x18, 0x12, 0x17, 0xb0,
     0x98, 0x8d, 0x0b, 0x23, 0xc3, 0x3a, 0x2d, 0x20, 0xdf, 0x13, 0xa0, 0xa8,
     0x4c, 0x0d, 0x6c, 0x2f, 0x47, 0x13, 0x13, 0x52, 0x1f, 0x2d, 0xf5, 0x79,
     0x3d, 0xa2, 0x54, 0xbd, 0x69, 0xc8, 0x6b, 0xf3, 0x05, 0x28, 0xf1, 0x16,
     0x46, 0x40, 0xb0, 0x11, 0xd3, 0xb7, 0x95, 0x49, 0xcf, 0xc3, 0x1d, 0x8f,
     0xd8, 0xe1, 0x73, 0xdb, 0xad, 0xc8, 0xc9, 0xa9, 0xa1, 0xc2, 0xc5, 0xe3,
     0xba, 0xfc, 0x0e, 0x25]"

text \<open>\<open>F_ENCRYPT(R, L, sched)\<close>: what is mixed into \<open>L\<close>.\<close>

definition fcrypt_f :: "u32 \<Rightarrow> u32 \<Rightarrow> u32" where
  "fcrypt_f sched r =
     (let u = sched XOR r in
      ((fcrypt_sbox0 ! byte_of u 3 XOR fcrypt_sbox1 ! byte_of u 2) XOR fcrypt_sbox2 ! byte_of u 1) XOR
        fcrypt_sbox3 ! byte_of u 0)"

definition fcrypt_encrypt :: "u32 list \<Rightarrow> bytes \<Rightarrow> bytes" where
  "fcrypt_encrypt sched src =
     (case feistel (XOR) fcrypt_f
         (map ((!) sched) [0, 1, 2, 3, 4, 5, 6, 7, 8, 9, 10, 11, 12, 13, 14, 15])
         (get_be32 src, get_be32 (drop 4 src)) of (l, r) \<Rightarrow> put_be32 l @ put_be32 r)"

text \<open>The decryptor starts with the other half.\<close>

definition fcrypt_decrypt :: "u32 list \<Rightarrow> bytes \<Rightarrow> bytes" where
  "fcrypt_decrypt sched src =
     (case feistel (XOR) fcrypt_f
         (map ((!) sched) [15, 14, 13, 12, 11, 10, 9, 8, 7, 6, 5, 4, 3, 2, 1, 0])
         (get_be32 (drop 4 src), get_be32 src) of (r, l) \<Rightarrow> put_be32 l @ put_be32 r)"

section \<open>Key schedule\<close>

text \<open>The 64-bit and the 32-bit variant of \<open>fcrypt_setkey\<close>: seven bits of each key byte, rotated.\<close>

definition fcrypt_key56 :: "bytes \<Rightarrow> u64" where
  "fcrypt_key56 key = foldl (\<lambda>k b. push_bit 7 k OR ucast (drop_bit 1 b)) (ucast (drop_bit 1 (key ! 0))) (take 7 (tl key))"

definition ror56_64 :: "u64 \<Rightarrow> nat \<Rightarrow> u64" where
  "ror56_64 k n = drop_bit n k OR push_bit (56 - n) (k AND (push_bit n 1 - 1))"

fun fcrypt_sched64 :: "nat \<Rightarrow> u64 \<Rightarrow> u32 list" where
  "fcrypt_sched64 0 k = []"
| "fcrypt_sched64 (Suc n) k = ucast k # fcrypt_sched64 n (ror56_64 k 11)"

definition ror56 :: "u32 \<times> u32 \<Rightarrow> nat \<Rightarrow> u32 \<times> u32" where
  "ror56 hl n =
     (case hl of (hi, lo) \<Rightarrow>
       let t = lo AND (push_bit n 1 - 1);
           lo = drop_bit n lo OR push_bit (32 - n) (hi AND (push_bit n 1 - 1));
           hi = drop_bit n hi OR push_bit (24 - n) t
       in (hi, lo))"

fun fcrypt_sched32 :: "nat \<Rightarrow> u32 \<times> u32 \<Rightarrow> u32 list" where
  "fcrypt_sched32 0 hl = []"
| "fcrypt_sched32 (Suc n) hl = snd hl # fcrypt_sched32 n (ror56 hl 11)"

definition fcrypt_key56_32 :: "bytes \<Rightarrow> u32 \<times> u32" where
  "fcrypt_key56_32 key =
     (let lo = foldl (\<lambda>lo b. push_bit 7 lo OR ucast (drop_bit 1 b)) (ucast (drop_bit 1 (key ! 0))) (take 3 (tl key));
          hi = drop_bit 4 lo;
          lo = lo AND 0xf;
          lo = foldl (\<lambda>lo b. push_bit 7 lo OR ucast (drop_bit 1 b)) lo (take 4 (drop 4 key))
      in (hi, lo))"

definition fcrypt_setkey :: "bool \<Rightarrow> bytes \<Rightarrow> u32 list" where
  "fcrypt_setkey bits64 key =
     (if bits64 then fcrypt_sched64 16 (fcrypt_key56 key)
      else fcrypt_sched32 16 (fcrypt_key56_32 key))"

section \<open>Decryption\<close>

lemma fcrypt_inverse:
  assumes "length b = 8"
  shows "fcrypt_decrypt sched (fcrypt_encrypt sched b) = b"
proof -
  let ?up = "map ((!) sched) [0, 1, 2, 3, 4, 5, 6, 7, 8, 9, 10, 11, 12, 13, 14, 15]"
  let ?lr = "(get_be32 b, get_be32 (drop 4 b))"
  have rev: "map ((!) sched) [15, 14, 13, 12, 11, 10, 9, 8, 7, 6, 5, 4, 3, 2, 1, 0] = rev ?up" by simp
  obtain l r where lr: "feistel (XOR) fcrypt_f ?up ?lr = (l, r)" by (cases "feistel (XOR) fcrypt_f ?up ?lr")
  have "feistel (XOR) fcrypt_f (rev ?up) (r, l) = (get_be32 (drop 4 b), get_be32 b)"
    using xor32.feistel_rev [of fcrypt_f ?up "get_be32 b" "get_be32 (drop 4 b)"] unfolding lr by (simp only: prod.swap_def fst_conv snd_conv)
  then have "fcrypt_decrypt sched (put_be32 l @ put_be32 r) = put_be32 (get_be32 b) @ put_be32 (get_be32 (drop 4 b))"
    unfolding fcrypt_decrypt_def rev by (simp del: list.map)
  then show ?thesis unfolding fcrypt_encrypt_def lr by (simp add: be32_pair_roundtrip [OF assms])
qed

lemma length_fcrypt: "length (fcrypt_encrypt sched b) = 8" "length (fcrypt_decrypt sched b) = 8"
  unfolding fcrypt_encrypt_def fcrypt_decrypt_def by (simp_all del: list.map feistel.simps split: prod.splits)

interpretation fcrypt: block_cipher 8 "fcrypt_encrypt sched" "fcrypt_decrypt sched" for sched
  by unfold_locales (simp_all add: fcrypt_inverse length_fcrypt)

section \<open>The two key schedules agree\<close>

text \<open>\<open>hi\<close> and \<open>lo\<close> hold the 56-bit number \<open>k\<close>, split at bit \<open>m\<close>.\<close>

definition split56 :: "nat \<Rightarrow> u64 \<Rightarrow> u32 \<times> u32 \<Rightarrow> bool" where
  "split56 m k hl \<longleftrightarrow> fst hl = ucast (drop_bit m k) \<and> snd hl = ucast (take_bit m k)"

lemma split56_step:
  assumes "split56 m k (hi, lo)" "m \<le> 25"
  shows "split56 (m + 7) (push_bit 7 k OR ucast (drop_bit 1 (b :: u8))) (hi, push_bit 7 lo OR ucast (drop_bit 1 b))"
proof -
  have "ucast (drop_bit (m + 7) (push_bit 7 k OR ucast (drop_bit 1 b))) = (ucast (drop_bit m k) :: u32)"
    by (rule bit_word_eqI) (use assms(2) in \<open>auto simp: bit_simps dest: bit_imp_le_length\<close>)
  moreover have "ucast (take_bit (m + 7) (push_bit 7 k OR ucast (drop_bit 1 b))) =
      (push_bit 7 (ucast (take_bit m k)) OR ucast (drop_bit 1 b) :: u32)"
    by (rule bit_word_eqI) (use assms(2) in \<open>auto simp: bit_simps dest: bit_imp_le_length\<close>)
  ultimately show ?thesis using assms(1) by (simp add: split56_def)
qed

lemma fold56_bits:
  "(\<And>n. m \<le> n \<Longrightarrow> \<not> bit k n) \<Longrightarrow> m + 7 * length bs \<le> n \<Longrightarrow>
     \<not> bit (foldl (\<lambda>k b. push_bit 7 k OR ucast (drop_bit 1 (b :: u8))) (k :: u64) bs) n"
proof (induction bs arbitrary: m k)
  case (Cons b bs)
  have "\<not> bit (push_bit 7 k OR ucast (drop_bit 1 b)) j" if "m + 7 \<le> j" for j
    using Cons.prems(1) [of "j - 7"] that by (auto simp: bit_simps dest: bit_imp_le_length)
  then show ?case using Cons.IH [of "m + 7"] Cons.prems(2) by simp
qed simp

lemma split56_fold:
  "split56 m k (hi, lo) \<Longrightarrow> m + 7 * length bs \<le> 32 \<Longrightarrow>
     split56 (m + 7 * length bs) (foldl (\<lambda>k b. push_bit 7 k OR ucast (drop_bit 1 (b :: u8))) k bs)
       (hi, foldl (\<lambda>lo b. push_bit 7 lo OR ucast (drop_bit 1 b)) lo bs)"
proof (induction bs arbitrary: m k lo)
  case (Cons b bs)
  have "split56 (m + 7 + 7 * length bs)
      (foldl (\<lambda>k b. push_bit 7 k OR ucast (drop_bit 1 b)) (push_bit 7 k OR ucast (drop_bit 1 b)) bs)
      (hi, foldl (\<lambda>lo b. push_bit 7 lo OR ucast (drop_bit 1 b)) (push_bit 7 lo OR ucast (drop_bit 1 b)) bs)"
    using Cons.prems split56_step [OF Cons.prems(1), of b] by (intro Cons.IH) simp_all
  then show ?case by (simp add: add.assoc)
qed simp

lemma split56_28:
  assumes z: "\<And>n. bit k n \<Longrightarrow> n < 28" and l: "l = ucast (take_bit 28 k)"
  shows "split56 4 k (drop_bit 4 l, l AND 0xf)"
proof -
  have m: "(0xf :: u32) = mask 4" by (simp add: mask_eq_exp_minus_1)
  have "drop_bit 4 l = ucast (drop_bit 4 k)"
    unfolding l by (rule bit_word_eqI) (auto simp: bit_simps dest: z)
  moreover have "l AND 0xf = ucast (take_bit 4 k)"
    unfolding l m by (rule bit_word_eqI) (auto simp: bit_simps)
  ultimately show ?thesis by (simp add: split56_def)
qed

lemma fcrypt_key56_split:
  assumes "length key = 8"
  shows "split56 32 (fcrypt_key56 key) (fcrypt_key56_32 key)"
proof -
  let ?f = "\<lambda>k b. push_bit 7 k OR ucast (drop_bit 1 b)"
  let ?k4 = "foldl ?f (ucast (drop_bit 1 (key ! 0))) (take 3 (tl key)) :: u64"
  let ?l4 = "foldl ?f (ucast (drop_bit 1 (key ! 0))) (take 3 (tl key)) :: u32"
  obtain b0 b1 b2 b3 bs where key: "key = [b0, b1, b2, b3] @ bs" "length bs = 4"
    using assms by (auto simp: length_Suc_conv numeral_eq_Suc)
  have b7: "\<not> bit (ucast (drop_bit 1 b) :: u64) n" if "7 \<le> n" for n and b :: u8
    using that by (auto simp: bit_simps dest: bit_imp_le_length)
  have "split56 7 (ucast (drop_bit 1 b0)) (0, ucast (drop_bit 1 b0))"
    unfolding split56_def fst_conv snd_conv
    by (intro conjI; rule bit_word_eqI) (auto simp: bit_simps dest: bit_imp_le_length)
  from split56_fold [OF this, of "[b1, b2, b3]"] have
    "split56 28 ?k4 (0, ?l4)" by (simp add: key)
  then have k4: "?l4 = ucast (take_bit 28 ?k4)" by (simp add: split56_def)
  have "\<not> bit ?k4 n" if "28 \<le> n" for n
    using b7 that by (intro fold56_bits [of 7]) (simp_all add: key)
  then have z: "n < 28" if "bit ?k4 n" for n
    using that by (meson not_le)
  have "split56 4 ?k4 (drop_bit 4 ?l4, ?l4 AND 0xf)"
    by (rule split56_28 [OF z k4])
  from split56_fold [OF this, of bs] show ?thesis
    using key(2) unfolding fcrypt_key56_def fcrypt_key56_32_def by (simp add: key Let_def)
qed

lemma split56_ror:
  assumes "split56 32 k hl" "k = take_bit 56 k"
  shows "split56 32 (ror56_64 k 11) (ror56 hl 11)" "ror56_64 k 11 = take_bit 56 (ror56_64 k 11)"
proof -
  obtain hi lo where hl: "hl = (hi, lo)" by (cases hl)
  have m: "push_bit 11 1 - 1 = (mask 11 :: u64)" "push_bit 11 1 - 1 = (mask 11 :: u32)"
    by (simp_all add: mask_eq_exp_minus_1)
  have z: "\<not> bit k n" if "56 \<le> n" for n
    using that by (subst assms(2)) (simp add: bit_simps)
  have h: "hi = ucast (drop_bit 32 k)" "lo = ucast (take_bit 32 k)" using assms(1) by (simp_all add: split56_def hl)
  show "split56 32 (ror56_64 k 11) (ror56 hl 11)"
    unfolding split56_def ror56_64_def ror56_def hl prod.case Let_def fst_conv snd_conv m h
    by (intro conjI; rule bit_word_eqI) (use z in \<open>auto simp: bit_simps\<close>)
  show "ror56_64 k 11 = take_bit 56 (ror56_64 k 11)"
    unfolding ror56_64_def m by (rule bit_word_eqI) (use z in \<open>auto simp: bit_simps\<close>)
qed

lemma fcrypt_sched_eq:
  "split56 32 k hl \<Longrightarrow> k = take_bit 56 k \<Longrightarrow> fcrypt_sched64 n k = fcrypt_sched32 n hl"
proof (induction n arbitrary: k hl)
  case (Suc n)
  have "snd hl = ucast k" using Suc.prems(1) unfolding split56_def
    by (simp, intro bit_word_eqI) (simp add: bit_simps)
  with Suc split56_ror [OF Suc.prems] show ?case by simp
qed simp

text \<open>
  The 64-bit and the 32-bit variants of \<open>fcrypt_setkey\<close> compute the same schedule for every
  8-byte key, and decryption inverts encryption under it.
\<close>

theorem fcrypt_setkey_variants_agree:
  assumes "length key = 8" "length b = 8"
  shows "fcrypt_setkey True key = fcrypt_setkey False key \<and> length (fcrypt_setkey True key) = 16 \<and>
    fcrypt_decrypt (fcrypt_setkey False key) (fcrypt_encrypt (fcrypt_setkey True key) b) = b"
proof -
  have "length (fcrypt_sched64 n k) = n" for n k by (induction n arbitrary: k) simp_all
  moreover have "fcrypt_key56 key = take_bit 56 (fcrypt_key56 key)"
  proof (rule bit_word_eqI)
    fix n
    have "\<not> bit (fcrypt_key56 key) n" if "56 \<le> n"
      unfolding fcrypt_key56_def
    proof (rule fold56_bits [of 7])
      show "\<not> bit (ucast (drop_bit 1 (key ! 0)) :: u64) j" if "7 \<le> j" for j
        using that by (auto simp: bit_simps dest: bit_imp_le_length)
    qed (use assms(1) that in simp)
    then show "bit (fcrypt_key56 key) n = bit (take_bit 56 (fcrypt_key56 key)) n"
      by (cases "n < 56") (simp_all add: bit_take_bit_iff)
  qed
  ultimately show ?thesis
    using fcrypt_sched_eq [OF fcrypt_key56_split [OF assms(1)], of 16] fcrypt_inverse [OF assms(2)]
    by (metis fcrypt_setkey_def)
qed

theorem fcrypt_setkey_variants_agree_witness:
  "fcrypt_setkey True [1, 35, 69, 103, 137, 171, 205, 239] = fcrypt_setkey False [1, 35, 69, 103, 137, 171, 205, 239]"
  using fcrypt_setkey_variants_agree [of "[1, 35, 69, 103, 137, 171, 205, 239]" "[1, 2, 3, 4, 5, 6, 7, 8]"] by simp

end
