(* ===== verification/Cast6.thy ===== *)
theory Cast6
  imports CastCommon
begin

text \<open>
  CAST6 (\<open>kernel-crypto/cast6_generic.c\<close>): key schedule and the 16-byte block, twelve quad rounds of
  which six run forwards and six in reverse.
\<close>

definition cast6_Tm :: "u32 list list" where
  "cast6_Tm = [
     [0x5a827999, 0xc95c653a, 0x383650db, 0xa7103c7c, 0x15ea281d, 0x84c413be, 0xf39dff5f, 0x6277eb00],
     [0xd151d6a1, 0x402bc242, 0xaf05ade3, 0x1ddf9984, 0x8cb98525, 0xfb9370c6, 0x6a6d5c67, 0xd9474808],
     [0x482133a9, 0xb6fb1f4a, 0x25d50aeb, 0x94aef68c, 0x0388e22d, 0x7262cdce, 0xe13cb96f, 0x5016a510],
     [0xbef090b1, 0x2dca7c52, 0x9ca467f3, 0x0b7e5394, 0x7a583f35, 0xe9322ad6, 0x580c1677, 0xc6e60218],
     [0x35bfedb9, 0xa499d95a, 0x1373c4fb, 0x824db09c, 0xf1279c3d, 0x600187de, 0xcedb737f, 0x3db55f20],
     [0xac8f4ac1, 0x1b693662, 0x8a432203, 0xf91d0da4, 0x67f6f945, 0xd6d0e4e6, 0x45aad087, 0xb484bc28],
     [0x235ea7c9, 0x9238936a, 0x01127f0b, 0x6fec6aac, 0xdec6564d, 0x4da041ee, 0xbc7a2d8f, 0x2b541930],
     [0x9a2e04d1, 0x0907f072, 0x77e1dc13, 0xe6bbc7b4, 0x5595b355, 0xc46f9ef6, 0x33498a97, 0xa2237638],
     [0x10fd61d9, 0x7fd74d7a, 0xeeb1391b, 0x5d8b24bc, 0xcc65105d, 0x3b3efbfe, 0xaa18e79f, 0x18f2d340],
     [0x87ccbee1, 0xf6a6aa82, 0x65809623, 0xd45a81c4, 0x43346d65, 0xb20e5906, 0x20e844a7, 0x8fc23048],
     [0xfe9c1be9, 0x6d76078a, 0xdc4ff32b, 0x4b29decc, 0xba03ca6d, 0x28ddb60e, 0x97b7a1af, 0x06918d50],
     [0x756b78f1, 0xe4456492, 0x531f5033, 0xc1f93bd4, 0x30d32775, 0x9fad1316, 0x0e86feb7, 0x7d60ea58],
     [0xec3ad5f9, 0x5b14c19a, 0xc9eead3b, 0x38c898dc, 0xa7a2847d, 0x167c701e, 0x85565bbf, 0xf4304760],
     [0x630a3301, 0xd1e41ea2, 0x40be0a43, 0xaf97f5e4, 0x1e71e185, 0x8d4bcd26, 0xfc25b8c7, 0x6affa468],
     [0xd9d99009, 0x48b37baa, 0xb78d674b, 0x266752ec, 0x95413e8d, 0x041b2a2e, 0x72f515cf, 0xe1cf0170],
     [0x50a8ed11, 0xbf82d8b2, 0x2e5cc453, 0x9d36aff4, 0x0c109b95, 0x7aea8736, 0xe9c472d7, 0x589e5e78],
     [0xc7784a19, 0x365235ba, 0xa52c215b, 0x14060cfc, 0x82dff89d, 0xf1b9e43e, 0x6093cfdf, 0xcf6dbb80],
     [0x3e47a721, 0xad2192c2, 0x1bfb7e63, 0x8ad56a04, 0xf9af55a5, 0x68894146, 0xd7632ce7, 0x463d1888],
     [0xb5170429, 0x23f0efca, 0x92cadb6b, 0x01a4c70c, 0x707eb2ad, 0xdf589e4e, 0x4e3289ef, 0xbd0c7590],
     [0x2be66131, 0x9ac04cd2, 0x099a3873, 0x78742414, 0xe74e0fb5, 0x5627fb56, 0xc501e6f7, 0x33dbd298],
     [0xa2b5be39, 0x118fa9da, 0x8069957b, 0xef43811c, 0x5e1d6cbd, 0xccf7585e, 0x3bd143ff, 0xaaab2fa0],
     [0x19851b41, 0x885f06e2, 0xf738f283, 0x6612de24, 0xd4ecc9c5, 0x43c6b566, 0xb2a0a107, 0x217a8ca8],
     [0x90547849, 0xff2e63ea, 0x6e084f8b, 0xdce23b2c, 0x4bbc26cd, 0xba96126e, 0x296ffe0f, 0x9849e9b0],
     [0x0723d551, 0x75fdc0f2, 0xe4d7ac93, 0x53b19834, 0xc28b83d5, 0x31656f76, 0xa03f5b17, 0x0f1946b8]]"

definition cast6_Tr :: "nat list list" where
  "cast6_Tr = [
     [0x13, 0x04, 0x15, 0x06, 0x17, 0x08, 0x19, 0x0a],
     [0x1b, 0x0c, 0x1d, 0x0e, 0x1f, 0x10, 0x01, 0x12],
     [0x03, 0x14, 0x05, 0x16, 0x07, 0x18, 0x09, 0x1a],
     [0x0b, 0x1c, 0x0d, 0x1e, 0x0f, 0x00, 0x11, 0x02]]"

record cast6_ctx =
  Km :: "u32 list list"
  Kr :: "nat list list"

section \<open>Quad rounds\<close>

type_synonym quad = "u32 \<times> u32 \<times> u32 \<times> u32"

fun cast6_Q :: "nat list \<Rightarrow> u32 list \<Rightarrow> quad \<Rightarrow> quad" where
  "cast6_Q kr km (b0, b1, b2, b3) =
     (let b2 = b2 XOR cast_F1 b3 (km ! 0) (kr ! 0);
          b1 = b1 XOR cast_F2 b2 (km ! 1) (kr ! 1);
          b0 = b0 XOR cast_F3 b1 (km ! 2) (kr ! 2);
          b3 = b3 XOR cast_F1 b0 (km ! 3) (kr ! 3)
      in (b0, b1, b2, b3))"

fun cast6_QBAR :: "nat list \<Rightarrow> u32 list \<Rightarrow> quad \<Rightarrow> quad" where
  "cast6_QBAR kr km (b0, b1, b2, b3) =
     (let b3 = b3 XOR cast_F1 b0 (km ! 3) (kr ! 3);
          b0 = b0 XOR cast_F3 b1 (km ! 2) (kr ! 2);
          b1 = b1 XOR cast_F2 b2 (km ! 1) (kr ! 1);
          b2 = b2 XOR cast_F1 b3 (km ! 0) (kr ! 0)
      in (b0, b1, b2, b3))"

definition cast6_load :: "bytes \<Rightarrow> quad" where
  "cast6_load b = (get_be32 b, get_be32 (drop 4 b), get_be32 (drop 8 b), get_be32 (drop 12 b))"

fun cast6_store :: "quad \<Rightarrow> bytes" where
  "cast6_store (b0, b1, b2, b3) = put_be32 b0 @ put_be32 b1 @ put_be32 b2 @ put_be32 b3"

text \<open>The quad rounds with their subkey index, forwards or in reverse.\<close>

fun cast6_quad :: "cast6_ctx \<Rightarrow> nat \<times> bool \<Rightarrow> quad \<Rightarrow> quad" where
  "cast6_quad c (i, forward) b =
     (if forward then cast6_Q (Kr c ! i) (Km c ! i) b else cast6_QBAR (Kr c ! i) (Km c ! i) b)"

definition cast6_encrypt :: "cast6_ctx \<Rightarrow> bytes \<Rightarrow> bytes" where
  "cast6_encrypt c inbuf =
     cast6_store (fold (cast6_quad c)
       [(0, True), (1, True), (2, True), (3, True), (4, True), (5, True),
        (6, False), (7, False), (8, False), (9, False), (10, False), (11, False)] (cast6_load inbuf))"

definition cast6_decrypt :: "cast6_ctx \<Rightarrow> bytes \<Rightarrow> bytes" where
  "cast6_decrypt c inbuf =
     cast6_store (fold (cast6_quad c)
       [(11, True), (10, True), (9, True), (8, True), (7, True), (6, True),
        (5, False), (4, False), (3, False), (2, False), (1, False), (0, False)] (cast6_load inbuf))"

section \<open>Key schedule\<close>

text \<open>The forward octave, on the eight words of the key.\<close>

definition cast6_W :: "u32 list \<Rightarrow> nat \<Rightarrow> u32 list" where
  "cast6_W key i =
     (let tr = cast6_Tr ! (i mod 4); tm = cast6_Tm ! i;
          key = key[6 := key ! 6 XOR cast_F1 (key ! 7) (tm ! 0) (tr ! 0)];
          key = key[5 := key ! 5 XOR cast_F2 (key ! 6) (tm ! 1) (tr ! 1)];
          key = key[4 := key ! 4 XOR cast_F3 (key ! 5) (tm ! 2) (tr ! 2)];
          key = key[3 := key ! 3 XOR cast_F1 (key ! 4) (tm ! 3) (tr ! 3)];
          key = key[2 := key ! 2 XOR cast_F2 (key ! 3) (tm ! 4) (tr ! 4)];
          key = key[1 := key ! 1 XOR cast_F3 (key ! 2) (tm ! 5) (tr ! 5)];
          key = key[0 := key ! 0 XOR cast_F1 (key ! 1) (tm ! 6) (tr ! 6)];
          key = key[7 := key ! 7 XOR cast_F2 (key ! 0) (tm ! 7) (tr ! 7)]
      in key)"

fun cast6_setkey_loop :: "nat list \<Rightarrow> u32 list \<Rightarrow> (nat list \<times> u32 list) list" where
  "cast6_setkey_loop [] key = []"
| "cast6_setkey_loop (i # is) key =
     (let key = cast6_W key (2 * i);
          key = cast6_W key (2 * i + 1);
          kr = [unat (key ! 0 AND 0x1f), unat (key ! 2 AND 0x1f), unat (key ! 4 AND 0x1f), unat (key ! 6 AND 0x1f)];
          km = [key ! 7, key ! 5, key ! 3, key ! 1]
      in (kr, km) # cast6_setkey_loop is key)"

definition cast6_setkey :: "bytes \<Rightarrow> errno + cast6_ctx" where
  "cast6_setkey in_key =
     (if length in_key mod 4 \<noteq> 0 then Inl EINVAL
      else
        (let p_key = take 32 (in_key @ replicate 32 0);
             key = map (\<lambda>i. get_be32 (drop (4 * i) p_key)) [0..<8];
             ks = cast6_setkey_loop [0..<12] key
         in Inr \<lparr>Km = map snd ks, Kr = map fst ks\<rparr>))"

section \<open>The block cipher\<close>

lemma cast6_Q_QBAR: "cast6_QBAR kr km (cast6_Q kr km b) = b" "cast6_Q kr km (cast6_QBAR kr km b) = b"
  by (cases b; simp add: Let_def xor_simps)+

lemma cast6_load_store [simp]: "cast6_load (cast6_store b) = b"
  by (cases b) (simp add: cast6_load_def)

lemma cast6_store_load: "length b = 16 \<Longrightarrow> cast6_store (cast6_load b) = b"
  using be32_quad_roundtrip [of b] by (simp add: cast6_load_def)

lemma length_cast6_store [simp]: "length (cast6_store b) = 16"
  by (cases b) simp

lemma cast6_inverse:
  assumes "length b = 16"
  shows "cast6_decrypt c (cast6_encrypt c b) = b"
proof -
  let ?up = "[(0, True), (1, True), (2, True), (3, True), (4, True), (5, True),
        (6, False), (7, False), (8, False), (9, False), (10, False), (11, False)] :: (nat \<times> bool) list"
  let ?down = "[(11, True), (10, True), (9, True), (8, True), (7, True), (6, True),
        (5, False), (4, False), (3, False), (2, False), (1, False), (0, False)] :: (nat \<times> bool) list"
  have flip: "fold (cast6_quad c) ?down = fold (\<lambda>(i, f). cast6_quad c (i, \<not> f)) (rev ?up)" by simp
  have inv: "(\<lambda>(i, f). cast6_quad c (i, \<not> f)) x (cast6_quad c x s) = s" for x s
    by (cases x) (simp add: cast6_Q_QBAR)
  have "fold (cast6_quad c) ?down (fold (cast6_quad c) ?up (cast6_load b)) = cast6_load b"
    unfolding flip by (rule fold_inverse) (rule inv)
  then show ?thesis
    unfolding cast6_decrypt_def cast6_encrypt_def cast6_load_store
    by (simp only: cast6_store_load [OF assms])
qed

interpretation cast6: block_cipher 16 "cast6_encrypt c" "cast6_decrypt c" for c
  by unfold_locales (simp_all add: cast6_inverse, simp_all add: cast6_encrypt_def cast6_decrypt_def)

lemma and_1f_less: "unat (x AND 0x1f :: u32) < 32"
proof -
  have m: "x AND 0x1f = take_bit 5 x" by (simp add: take_bit_eq_mask mask_eq_exp_minus_1)
  show ?thesis unfolding m by (simp only: unsigned_take_bit_eq) (simp add: take_bit_eq_mod)
qed

lemma cast6_setkey_loop_shape:
  "length (cast6_setkey_loop is key) = length is \<and>
   (\<forall>(kr, km)\<in>set (cast6_setkey_loop is key). length kr = 4 \<and> length km = 4 \<and> (\<forall>r\<in>set kr. r < 32))"
  by (induction "is" arbitrary: key) (simp_all add: Let_def and_1f_less)

text \<open>
  CAST6 decryption inverts encryption under every key schedule; \<open>cast6_setkey\<close> fails exactly on key
  lengths that are not multiples of four, and its schedule has twelve times four subkeys with rotation
  amounts below 32.
\<close>

lemma cast6_roundtrip:
  assumes "length b = 16"
  shows "cast6_decrypt c (cast6_encrypt c b) = b \<and>
    (case cast6_setkey key of
       Inl e \<Rightarrow> e = EINVAL \<and> \<not> 4 dvd length key
     | Inr k \<Rightarrow> 4 dvd length key \<and> length (Km k) = 12 \<and> length (Kr k) = 12 \<and>
         (\<forall>kr\<in>set (Kr k). length kr = 4 \<and> (\<forall>r\<in>set kr. r < 32)))"
proof (cases "length key mod 4 = 0")
  case True
  let ?key = "map (\<lambda>i. get_be32 (drop (4 * i) (take 32 (key @ replicate 32 0)))) [0..<8]"
  let ?ks = "cast6_setkey_loop [0..<12] ?key"
  have k: "cast6_setkey key = Inr \<lparr>Km = map snd ?ks, Kr = map fst ?ks\<rparr>"
    using True by (simp only: cast6_setkey_def Let_def) simp
  have "length ?ks = 12" using cast6_setkey_loop_shape [of "[0..<12]" ?key] by simp
  moreover have "length kr = 4 \<and> (\<forall>r\<in>set kr. r < 32)" if "kr \<in> set (map fst ?ks)" for kr
    using cast6_setkey_loop_shape [of "[0..<12]" ?key] that by fastforce
  ultimately show ?thesis
    using True cast6_inverse [OF assms] unfolding k by (simp only: sum.case cast6_ctx.simps length_map dvd_eq_mod_eq_0) blast
next
  case False
  then have "cast6_setkey key = Inl EINVAL" by (simp add: cast6_setkey_def)
  with False cast6_inverse [OF assms] show ?thesis by (simp add: dvd_eq_mod_eq_0)
qed

end
