(* ===== verification/HashStream.thy ===== *)
theory HashStream
  imports Prelude
begin

text \<open>
  What the hash drivers share. A hash receives its message in chunks of any length and keeps a
  partial block between the calls, so the property every driver owes is that the digest does not
  depend on the chunking: the locale \<open>stream_hash\<close> derives it from two laws about a single call
  (\<open>upd_absorbs\<close>, \<open>fin_digest\<close>), and each driver interprets it on its own update and final
  routines. The theory also holds the splitting of a message into blocks and \<open>memcpy\<close> into the
  middle of a buffer.
\<close>

section \<open>Copying into a buffer\<close>

text \<open>\<open>memcpy (buf + off, data, len)\<close> for data that fits in the buffer.\<close>

definition memcpy_at :: "'a list \<Rightarrow> nat \<Rightarrow> 'a list \<Rightarrow> 'a list" where
  "memcpy_at buf off data = take off buf @ data @ drop (off + length data) buf"

lemma length_memcpy_at [simp]: "off + length data \<le> length buf \<Longrightarrow> length (memcpy_at buf off data) = length buf"
  by (simp add: memcpy_at_def)

lemma take_memcpy_at:
  "off \<le> length buf \<Longrightarrow> take (off + length data) (memcpy_at buf off data) = take off buf @ data"
  by (simp add: memcpy_at_def)

lemma memcpy_at_0: "length data \<le> length buf \<Longrightarrow> take (length data) (memcpy_at buf 0 data) = data"
  by (simp add: memcpy_at_def)

lemma memcpy_at_full: "off + length data = length buf \<Longrightarrow> memcpy_at buf off data = take off buf @ data"
  by (simp add: memcpy_at_def)

section \<open>Blocks of a message\<close>

function blocks :: "nat \<Rightarrow> 'a list \<Rightarrow> 'a list list" where
  "blocks b xs = (if b = 0 \<or> length xs < b then [] else take b xs # blocks b (drop b xs))"
  by auto
termination by (relation "measure (\<lambda>(b, xs). length xs)") auto

declare blocks.simps [simp del]

definition leftover :: "nat \<Rightarrow> 'a list \<Rightarrow> 'a list" where
  "leftover b xs = drop (length xs - length xs mod b) xs"

lemma blocks_short [simp]: "length xs < b \<Longrightarrow> blocks b xs = []"
  by (subst blocks.simps) simp

lemma blocks_Nil [simp]: "blocks b [] = []"
  by (subst blocks.simps) auto

lemma blocks_step: "0 < b \<Longrightarrow> b \<le> length xs \<Longrightarrow> blocks b xs = take b xs # blocks b (drop b xs)"
  by (subst blocks.simps) simp

lemma blocks_Cons: "0 < b \<Longrightarrow> length xs = b \<Longrightarrow> blocks b (xs @ ys) = xs # blocks b ys"
  by (subst blocks.simps) simp

lemma blocks_single: "0 < b \<Longrightarrow> length xs = b \<Longrightarrow> blocks b xs = [xs]"
  using blocks_Cons [of b xs "[]"] by simp

lemma leftover_short [simp]: "length xs < b \<Longrightarrow> leftover b xs = xs"
  by (simp add: leftover_def)

lemma leftover_step:
  assumes "0 < b" "b \<le> length xs"
  shows "leftover b (drop b xs) = leftover b xs"
proof -
  have "(length xs - b) mod b = length xs mod b" using assms by (simp add: le_mod_geq)
  moreover have "length xs mod b \<le> length xs - b" using mod_less_eq_dividend [of "length xs - b" b] calculation by simp
  ultimately show ?thesis using assms by (simp add: leftover_def)
qed

lemma leftover_Cons: "0 < b \<Longrightarrow> length xs = b \<Longrightarrow> leftover b (xs @ ys) = leftover b ys"
  using leftover_step [of b "xs @ ys"] by simp

lemma length_leftover [simp]: "0 < b \<Longrightarrow> length (leftover b xs) = length xs mod b"
  by (simp add: leftover_def)

lemma drop_leftover:
  assumes "0 < b" "k \<le> length xs"
  shows "drop (length xs - length (leftover b (drop k xs))) xs = leftover b (drop k xs)"
proof -
  define m where "m = (length xs - k) mod b"
  have m: "m \<le> length xs - k" by (simp add: m_def)
  have l: "leftover b (drop k xs) = drop (length xs - k - m) (drop k xs)" by (simp add: leftover_def m_def)
  have "length (leftover b (drop k xs)) = m" using assms by (simp add: m_def)
  moreover have "length xs - m = (length xs - k - m) + k" using m assms(2) by linarith
  ultimately show ?thesis unfolding l drop_drop by metis
qed

lemma blocks_append:
  assumes "0 < b"
  shows "blocks b (xs @ ys) = blocks b xs @ blocks b (leftover b xs @ ys) \<and>
    leftover b (xs @ ys) = leftover b (leftover b xs @ ys)"
proof (induction "length xs" arbitrary: xs rule: less_induct)
  case less
  show ?case
  proof (cases "length xs < b")
    case False
    let ?t = "take b xs" and ?d = "drop b xs"
    have t: "length ?t = b" and x: "xs = ?t @ ?d" using False by simp_all
    have IH: "blocks b (?d @ ys) = blocks b ?d @ blocks b (leftover b ?d @ ys) \<and>
      leftover b (?d @ ys) = leftover b (leftover b ?d @ ys)"
      by (rule less) (use False assms in simp)
    have "blocks b (xs @ ys) = ?t # blocks b (?d @ ys)" "leftover b (xs @ ys) = leftover b (?d @ ys)"
      using blocks_Cons [OF assms t, of "?d @ ys"] leftover_Cons [OF assms t, of "?d @ ys"] x
      by (metis append.assoc)+
    moreover have "blocks b xs = ?t # blocks b ?d" "leftover b ?d = leftover b xs"
      using False assms by (simp_all add: blocks_step leftover_step)
    ultimately show ?thesis using IH by simp
  qed simp
qed

lemma concat_blocks: "0 < b \<Longrightarrow> concat (blocks b xs) @ leftover b xs = xs"
proof (induction b xs rule: blocks.induct)
  case (1 b xs)
  then show ?case
    by (cases "length xs < b")
      (simp_all add: blocks_step [of b xs] leftover_step [of b xs, symmetric])
qed

lemma blocks_length: "0 < b \<Longrightarrow> blk \<in> set (blocks b xs) \<Longrightarrow> length blk = b"
proof (induction b xs rule: blocks.induct)
  case (1 b xs)
  then show ?case
    by (cases "length xs < b") (auto simp: blocks_step [of b xs])
qed

section \<open>Words of a block\<close>

definition le32_words :: "bytes \<Rightarrow> u32 list" where
  "le32_words bs = map get_le32 (blocks 4 bs)"

definition le32_bytes :: "u32 list \<Rightarrow> bytes" where
  "le32_bytes ws = concat (map put_le32 ws)"

lemma le32_words_append:
  assumes "4 dvd length xs"
  shows "le32_words (xs @ ys) = le32_words xs @ le32_words ys"
proof -
  have "leftover 4 xs = []" using assms by (auto simp: leftover_def)
  with blocks_append [of 4 xs ys] show ?thesis by (simp add: le32_words_def)
qed

lemma le32_words_Nil [simp]: "le32_words [] = []"
  by (simp add: le32_words_def)

lemma le32_words_Cons4: "le32_words (a # b # c # d # xs) = get_le32 [a, b, c, d] # le32_words xs"
  using blocks_Cons [of 4 "[a, b, c, d]" xs] by (simp add: le32_words_def)

lemma le32_words_put_le64: "le32_words (put_le64 w) = [ucast w, ucast (drop_bit 32 w)]"
proof -
  have "blocks 4 (put_le64 w) = [take 4 (put_le64 w), drop 4 (put_le64 w)]"
    by (simp add: blocks_step blocks_single)
  moreover have "get_le32 (take 4 (put_le64 w)) = ucast w"
    "get_le32 (drop 4 (put_le64 w)) = ucast (drop_bit 32 w)"
    by (rule bit_word_eqI, simp add: get_le32_def bit_get_le nth_put_le put_le64_def bit_simps,
        use bit_imp_le_length [of w] in \<open>auto simp: mult.commute add.commute\<close>)+
  ultimately show ?thesis by (simp add: le32_words_def)
qed

section \<open>The contract of a streaming hash\<close>

text \<open>
  \<open>absorbed M s\<close> says that the state \<open>s\<close> has absorbed the message \<open>M\<close>. A driver promises that
  its initial state has absorbed nothing, that an update extends what is absorbed by the data
  and that its final routine returns the digest of what was absorbed.
\<close>

locale stream_hash =
  fixes start :: 's
    and upd :: "'s \<Rightarrow> bytes \<Rightarrow> 's"
    and fin :: "'s \<Rightarrow> bytes"
    and absorbed :: "bytes \<Rightarrow> 's \<Rightarrow> bool"
    and digest :: "bytes \<Rightarrow> bytes"
  assumes start_absorbs: "absorbed [] start"
    and upd_absorbs: "absorbed M s \<Longrightarrow> absorbed (M @ data) (upd s data)"
    and fin_digest: "absorbed M s \<Longrightarrow> fin s = digest M"

context stream_hash
begin

lemma absorbs_chunks: "absorbed M s \<Longrightarrow> absorbed (M @ concat ds) (foldl upd s ds)"
proof (induction ds arbitrary: M s)
  case (Cons d ds)
  from Cons.IH [OF upd_absorbs [OF Cons.prems, of d]] show ?case by simp
qed simp

lemma chunks_digest: "fin (foldl upd start ds) = digest (concat ds)"
  using fin_digest [OF absorbs_chunks [OF start_absorbs]] by simp

end

text \<open>
  Drivers whose update overruns its buffer for lengths near \<open>2 ^ 32\<close> return \<open>None\<close> there; they
  promise the same for chunks below a bound.
\<close>

fun upd_all :: "('s \<Rightarrow> bytes \<Rightarrow> 's option) \<Rightarrow> 's \<Rightarrow> bytes list \<Rightarrow> 's option" where
  "upd_all upd s [] = Some s"
| "upd_all upd s (d # ds) = (case upd s d of None \<Rightarrow> None | Some s \<Rightarrow> upd_all upd s ds)"

locale bounded_stream =
  fixes start :: 's
    and upd :: "'s \<Rightarrow> bytes \<Rightarrow> 's option"
    and bound :: nat
    and absorbed :: "bytes \<Rightarrow> 's \<Rightarrow> bool"
  assumes start_absorbs: "absorbed [] start"
    and upd_absorbs: "absorbed M s \<Longrightarrow> length data < bound \<Longrightarrow> \<exists>s'. upd s data = Some s' \<and> absorbed (M @ data) s'"

context bounded_stream
begin

lemma absorbs_chunks:
  "absorbed M s \<Longrightarrow> \<forall>d\<in>set ds. length d < bound \<Longrightarrow>
    \<exists>s'. upd_all upd s ds = Some s' \<and> absorbed (M @ concat ds) s'"
proof (induction ds arbitrary: M s)
  case (Cons d ds)
  obtain s' where "upd s d = Some s'" "absorbed (M @ d) s'"
    using upd_absorbs [OF Cons.prems(1), of d] Cons.prems(2) by auto
  with Cons.IH [of "M @ d" s'] Cons.prems(2) show ?case by auto
qed simp

lemma chunks_absorbed:
  "\<forall>d\<in>set ds. length d < bound \<Longrightarrow> \<exists>s. upd_all upd start ds = Some s \<and> absorbed (concat ds) s"
  using absorbs_chunks [OF start_absorbs] by simp

end

end
