(* ===== verification/MdHash.thy ===== *)
theory MdHash
  imports HashStream
begin

text \<open>
  The MD4 (\<open>md4.c\<close>), MD5 (\<open>md5.c\<close>) and RIPEMD-160 (\<open>rmd160.c\<close>) drivers. The three contexts
  hold a hash of 32-bit words, a block of 64 bytes and a 64-bit byte count; the block is a byte
  string here, and \<open>le32_to_cpu_array\<close> is the conversion to words at the call of the transform (in
  place, on a little-endian machine the identity). Wiping the context at the end is left out.

  The update routines of the three files and the final routines of MD4 and MD5 have the same text
  but for the name of the transform, which is an argument of \<open>md_update\<close> and \<open>md_final\<close>. The
  chain of macro calls of each transform is a list in the same order: a call names its round
  macro, the order in which it takes the registers, its word of the block and its shift, and
  \<open>md_steps\<close> runs the list.
\<close>

section \<open>The context\<close>

record md_ctx =
  md_hash :: "u32 list"
  md_block :: bytes
  md_count :: u64

type_synonym md_transform = "u32 list \<Rightarrow> u32 list \<Rightarrow> u32 list"

type_synonym md_regs = "u32 \<times> u32 \<times> u32 \<times> u32"
type_synonym md_round = "u32 \<Rightarrow> u32 \<Rightarrow> u32 \<Rightarrow> u32 \<Rightarrow> u32"

fun abcd :: "md_round \<Rightarrow> md_regs \<Rightarrow> md_regs" where "abcd f (a, b, c, d) = (f a b c d, b, c, d)"
fun dabc :: "md_round \<Rightarrow> md_regs \<Rightarrow> md_regs" where "dabc f (a, b, c, d) = (a, b, c, f d a b c)"
fun cdab :: "md_round \<Rightarrow> md_regs \<Rightarrow> md_regs" where "cdab f (a, b, c, d) = (a, b, f c d a b, d)"
fun bcda :: "md_round \<Rightarrow> md_regs \<Rightarrow> md_regs" where "bcda f (a, b, c, d) = (a, f b c d a, c, d)"

fun md_steps :: "(md_regs \<Rightarrow> md_regs) list \<Rightarrow> md_regs \<Rightarrow> md_regs" where
  "md_steps [] r = r"
| "md_steps (f # fs) r = md_steps fs (f r)"

definition md_add_regs :: "u32 list \<Rightarrow> md_regs \<Rightarrow> u32 list" where
  "md_add_regs hash = (\<lambda>(a, b, c, d). [hash ! 0 + a, hash ! 1 + b, hash ! 2 + c, hash ! 3 + d])"

section \<open>The MD4 transform\<close>

definition md4_lshift :: "u32 \<Rightarrow> nat \<Rightarrow> u32" where
  "md4_lshift x s =
    (let x = x AND 0xFFFFFFFF in (push_bit s x AND 0xFFFFFFFF) OR drop_bit (32 - s) x)"

definition md4_F :: "u32 \<Rightarrow> u32 \<Rightarrow> u32 \<Rightarrow> u32" where
  "md4_F x y z = (x AND y) OR ((NOT x) AND z)"

definition md4_G :: "u32 \<Rightarrow> u32 \<Rightarrow> u32 \<Rightarrow> u32" where
  "md4_G x y z = (x AND y) OR (x AND z) OR (y AND z)"

definition md4_H :: "u32 \<Rightarrow> u32 \<Rightarrow> u32 \<Rightarrow> u32" where
  "md4_H x y z = x XOR y XOR z"

definition ROUND1 :: "u32 \<Rightarrow> nat \<Rightarrow> md_round" where
  "ROUND1 k s a b c d = md4_lshift (a + md4_F b c d + k) s"

definition ROUND2 :: "u32 \<Rightarrow> nat \<Rightarrow> md_round" where
  "ROUND2 k s a b c d = md4_lshift (a + md4_G b c d + k + 0x5A827999) s"

definition ROUND3 :: "u32 \<Rightarrow> nat \<Rightarrow> md_round" where
  "ROUND3 k s a b c d = md4_lshift (a + md4_H b c d + k + 0x6ED9EBA1) s"

definition md4_round1 :: "u32 list \<Rightarrow> md_regs \<Rightarrow> md_regs" where
  "md4_round1 inp = md_steps [
    abcd (ROUND1 (inp ! 0) 3),
    dabc (ROUND1 (inp ! 1) 7),
    cdab (ROUND1 (inp ! 2) 11),
    bcda (ROUND1 (inp ! 3) 19),
    abcd (ROUND1 (inp ! 4) 3),
    dabc (ROUND1 (inp ! 5) 7),
    cdab (ROUND1 (inp ! 6) 11),
    bcda (ROUND1 (inp ! 7) 19),
    abcd (ROUND1 (inp ! 8) 3),
    dabc (ROUND1 (inp ! 9) 7),
    cdab (ROUND1 (inp ! 10) 11),
    bcda (ROUND1 (inp ! 11) 19),
    abcd (ROUND1 (inp ! 12) 3),
    dabc (ROUND1 (inp ! 13) 7),
    cdab (ROUND1 (inp ! 14) 11),
    bcda (ROUND1 (inp ! 15) 19)]"

definition md4_round2 :: "u32 list \<Rightarrow> md_regs \<Rightarrow> md_regs" where
  "md4_round2 inp = md_steps [
    abcd (ROUND2 (inp ! 0) 3),
    dabc (ROUND2 (inp ! 4) 5),
    cdab (ROUND2 (inp ! 8) 9),
    bcda (ROUND2 (inp ! 12) 13),
    abcd (ROUND2 (inp ! 1) 3),
    dabc (ROUND2 (inp ! 5) 5),
    cdab (ROUND2 (inp ! 9) 9),
    bcda (ROUND2 (inp ! 13) 13),
    abcd (ROUND2 (inp ! 2) 3),
    dabc (ROUND2 (inp ! 6) 5),
    cdab (ROUND2 (inp ! 10) 9),
    bcda (ROUND2 (inp ! 14) 13),
    abcd (ROUND2 (inp ! 3) 3),
    dabc (ROUND2 (inp ! 7) 5),
    cdab (ROUND2 (inp ! 11) 9),
    bcda (ROUND2 (inp ! 15) 13)]"

definition md4_round3 :: "u32 list \<Rightarrow> md_regs \<Rightarrow> md_regs" where
  "md4_round3 inp = md_steps [
    abcd (ROUND3 (inp ! 0) 3),
    dabc (ROUND3 (inp ! 8) 9),
    cdab (ROUND3 (inp ! 4) 11),
    bcda (ROUND3 (inp ! 12) 15),
    abcd (ROUND3 (inp ! 2) 3),
    dabc (ROUND3 (inp ! 10) 9),
    cdab (ROUND3 (inp ! 6) 11),
    bcda (ROUND3 (inp ! 14) 15),
    abcd (ROUND3 (inp ! 1) 3),
    dabc (ROUND3 (inp ! 9) 9),
    cdab (ROUND3 (inp ! 5) 11),
    bcda (ROUND3 (inp ! 13) 15),
    abcd (ROUND3 (inp ! 3) 3),
    dabc (ROUND3 (inp ! 11) 9),
    cdab (ROUND3 (inp ! 7) 11),
    bcda (ROUND3 (inp ! 15) 15)]"

definition md4_transform :: md_transform where
  "md4_transform hash inp = md_add_regs hash
    (md4_round3 inp (md4_round2 inp
      (md4_round1 inp (hash ! 0, hash ! 1, hash ! 2, hash ! 3))))"

section \<open>The MD5 transform\<close>

definition md5_F1 :: "u32 \<Rightarrow> u32 \<Rightarrow> u32 \<Rightarrow> u32" where
  "md5_F1 x y z = z XOR (x AND (y XOR z))"

definition md5_F2 :: "u32 \<Rightarrow> u32 \<Rightarrow> u32 \<Rightarrow> u32" where
  "md5_F2 x y z = md5_F1 z x y"

definition md5_F3 :: "u32 \<Rightarrow> u32 \<Rightarrow> u32 \<Rightarrow> u32" where
  "md5_F3 x y z = x XOR y XOR z"

definition md5_F4 :: "u32 \<Rightarrow> u32 \<Rightarrow> u32 \<Rightarrow> u32" where
  "md5_F4 x y z = y XOR (x OR (NOT z))"

definition MD5STEP :: "(u32 \<Rightarrow> u32 \<Rightarrow> u32 \<Rightarrow> u32) \<Rightarrow> u32 \<Rightarrow> nat \<Rightarrow> md_round" where
  "MD5STEP f inp s w x y z =
    (let w = w + f x y z + inp; w = (push_bit s w OR drop_bit (32 - s) w) + x in w)"

definition md5_round1 :: "u32 list \<Rightarrow> md_regs \<Rightarrow> md_regs" where
  "md5_round1 inp = md_steps [
    abcd (MD5STEP md5_F1 (inp ! 0 + 0xd76aa478) 7),
    dabc (MD5STEP md5_F1 (inp ! 1 + 0xe8c7b756) 12),
    cdab (MD5STEP md5_F1 (inp ! 2 + 0x242070db) 17),
    bcda (MD5STEP md5_F1 (inp ! 3 + 0xc1bdceee) 22),
    abcd (MD5STEP md5_F1 (inp ! 4 + 0xf57c0faf) 7),
    dabc (MD5STEP md5_F1 (inp ! 5 + 0x4787c62a) 12),
    cdab (MD5STEP md5_F1 (inp ! 6 + 0xa8304613) 17),
    bcda (MD5STEP md5_F1 (inp ! 7 + 0xfd469501) 22),
    abcd (MD5STEP md5_F1 (inp ! 8 + 0x698098d8) 7),
    dabc (MD5STEP md5_F1 (inp ! 9 + 0x8b44f7af) 12),
    cdab (MD5STEP md5_F1 (inp ! 10 + 0xffff5bb1) 17),
    bcda (MD5STEP md5_F1 (inp ! 11 + 0x895cd7be) 22),
    abcd (MD5STEP md5_F1 (inp ! 12 + 0x6b901122) 7),
    dabc (MD5STEP md5_F1 (inp ! 13 + 0xfd987193) 12),
    cdab (MD5STEP md5_F1 (inp ! 14 + 0xa679438e) 17),
    bcda (MD5STEP md5_F1 (inp ! 15 + 0x49b40821) 22)]"

definition md5_round2 :: "u32 list \<Rightarrow> md_regs \<Rightarrow> md_regs" where
  "md5_round2 inp = md_steps [
    abcd (MD5STEP md5_F2 (inp ! 1 + 0xf61e2562) 5),
    dabc (MD5STEP md5_F2 (inp ! 6 + 0xc040b340) 9),
    cdab (MD5STEP md5_F2 (inp ! 11 + 0x265e5a51) 14),
    bcda (MD5STEP md5_F2 (inp ! 0 + 0xe9b6c7aa) 20),
    abcd (MD5STEP md5_F2 (inp ! 5 + 0xd62f105d) 5),
    dabc (MD5STEP md5_F2 (inp ! 10 + 0x02441453) 9),
    cdab (MD5STEP md5_F2 (inp ! 15 + 0xd8a1e681) 14),
    bcda (MD5STEP md5_F2 (inp ! 4 + 0xe7d3fbc8) 20),
    abcd (MD5STEP md5_F2 (inp ! 9 + 0x21e1cde6) 5),
    dabc (MD5STEP md5_F2 (inp ! 14 + 0xc33707d6) 9),
    cdab (MD5STEP md5_F2 (inp ! 3 + 0xf4d50d87) 14),
    bcda (MD5STEP md5_F2 (inp ! 8 + 0x455a14ed) 20),
    abcd (MD5STEP md5_F2 (inp ! 13 + 0xa9e3e905) 5),
    dabc (MD5STEP md5_F2 (inp ! 2 + 0xfcefa3f8) 9),
    cdab (MD5STEP md5_F2 (inp ! 7 + 0x676f02d9) 14),
    bcda (MD5STEP md5_F2 (inp ! 12 + 0x8d2a4c8a) 20)]"

definition md5_round3 :: "u32 list \<Rightarrow> md_regs \<Rightarrow> md_regs" where
  "md5_round3 inp = md_steps [
    abcd (MD5STEP md5_F3 (inp ! 5 + 0xfffa3942) 4),
    dabc (MD5STEP md5_F3 (inp ! 8 + 0x8771f681) 11),
    cdab (MD5STEP md5_F3 (inp ! 11 + 0x6d9d6122) 16),
    bcda (MD5STEP md5_F3 (inp ! 14 + 0xfde5380c) 23),
    abcd (MD5STEP md5_F3 (inp ! 1 + 0xa4beea44) 4),
    dabc (MD5STEP md5_F3 (inp ! 4 + 0x4bdecfa9) 11),
    cdab (MD5STEP md5_F3 (inp ! 7 + 0xf6bb4b60) 16),
    bcda (MD5STEP md5_F3 (inp ! 10 + 0xbebfbc70) 23),
    abcd (MD5STEP md5_F3 (inp ! 13 + 0x289b7ec6) 4),
    dabc (MD5STEP md5_F3 (inp ! 0 + 0xeaa127fa) 11),
    cdab (MD5STEP md5_F3 (inp ! 3 + 0xd4ef3085) 16),
    bcda (MD5STEP md5_F3 (inp ! 6 + 0x04881d05) 23),
    abcd (MD5STEP md5_F3 (inp ! 9 + 0xd9d4d039) 4),
    dabc (MD5STEP md5_F3 (inp ! 12 + 0xe6db99e5) 11),
    cdab (MD5STEP md5_F3 (inp ! 15 + 0x1fa27cf8) 16),
    bcda (MD5STEP md5_F3 (inp ! 2 + 0xc4ac5665) 23)]"

definition md5_round4 :: "u32 list \<Rightarrow> md_regs \<Rightarrow> md_regs" where
  "md5_round4 inp = md_steps [
    abcd (MD5STEP md5_F4 (inp ! 0 + 0xf4292244) 6),
    dabc (MD5STEP md5_F4 (inp ! 7 + 0x432aff97) 10),
    cdab (MD5STEP md5_F4 (inp ! 14 + 0xab9423a7) 15),
    bcda (MD5STEP md5_F4 (inp ! 5 + 0xfc93a039) 21),
    abcd (MD5STEP md5_F4 (inp ! 12 + 0x655b59c3) 6),
    dabc (MD5STEP md5_F4 (inp ! 3 + 0x8f0ccc92) 10),
    cdab (MD5STEP md5_F4 (inp ! 10 + 0xffeff47d) 15),
    bcda (MD5STEP md5_F4 (inp ! 1 + 0x85845dd1) 21),
    abcd (MD5STEP md5_F4 (inp ! 8 + 0x6fa87e4f) 6),
    dabc (MD5STEP md5_F4 (inp ! 15 + 0xfe2ce6e0) 10),
    cdab (MD5STEP md5_F4 (inp ! 6 + 0xa3014314) 15),
    bcda (MD5STEP md5_F4 (inp ! 13 + 0x4e0811a1) 21),
    abcd (MD5STEP md5_F4 (inp ! 4 + 0xf7537e82) 6),
    dabc (MD5STEP md5_F4 (inp ! 11 + 0xbd3af235) 10),
    cdab (MD5STEP md5_F4 (inp ! 2 + 0x2ad7d2bb) 15),
    bcda (MD5STEP md5_F4 (inp ! 9 + 0xeb86d391) 21)]"

definition md5_transform :: md_transform where
  "md5_transform hash inp = md_add_regs hash
    (md5_round4 inp (md5_round3 inp (md5_round2 inp
      (md5_round1 inp (hash ! 0, hash ! 1, hash ! 2, hash ! 3)))))"

section \<open>The RIPEMD-160 transform\<close>

definition rmd_F1 :: "u32 \<Rightarrow> u32 \<Rightarrow> u32 \<Rightarrow> u32" where "rmd_F1 x y z = x XOR y XOR z"
definition rmd_F2 :: "u32 \<Rightarrow> u32 \<Rightarrow> u32 \<Rightarrow> u32" where "rmd_F2 x y z = z XOR (x AND (y XOR z))"
definition rmd_F3 :: "u32 \<Rightarrow> u32 \<Rightarrow> u32 \<Rightarrow> u32" where "rmd_F3 x y z = (x OR (NOT y)) XOR z"
definition rmd_F4 :: "u32 \<Rightarrow> u32 \<Rightarrow> u32 \<Rightarrow> u32" where "rmd_F4 x y z = y XOR (z AND (x XOR y))"
definition rmd_F5 :: "u32 \<Rightarrow> u32 \<Rightarrow> u32 \<Rightarrow> u32" where "rmd_F5 x y z = x XOR (y OR (NOT z))"

definition RMD_K1 :: u32 where "RMD_K1 = 0x00000000"
definition RMD_K2 :: u32 where "RMD_K2 = 0x5a827999"
definition RMD_K3 :: u32 where "RMD_K3 = 0x6ed9eba1"
definition RMD_K4 :: u32 where "RMD_K4 = 0x8f1bbcdc"
definition RMD_K5 :: u32 where "RMD_K5 = 0xa953fd4e"
definition RMD_K6 :: u32 where "RMD_K6 = 0x50a28be6"
definition RMD_K7 :: u32 where "RMD_K7 = 0x5c4dd124"
definition RMD_K8 :: u32 where "RMD_K8 = 0x6d703ef3"
definition RMD_K9 :: u32 where "RMD_K9 = 0x7a6d76e9"

text \<open>The macro \<open>ROUND\<close> assigns its first and its third argument. A lane is a list of calls, each
  with the order of its registers.\<close>

type_synonym rmd_lane = "u32 \<times> u32 \<times> u32 \<times> u32 \<times> u32"
type_synonym rmd_round = "u32 \<Rightarrow> u32 \<Rightarrow> u32 \<Rightarrow> u32 \<Rightarrow> u32 \<Rightarrow> u32 \<times> u32"

definition rmd_ROUND :: "(u32 \<Rightarrow> u32 \<Rightarrow> u32 \<Rightarrow> u32) \<Rightarrow> u32 \<Rightarrow> u32 \<Rightarrow> nat \<Rightarrow> rmd_round" where
  "rmd_ROUND f k x s a b c d e =
    (let a = a + f b c d + x + k; a = rol32 a s + e; c = rol32 c 10 in (a, c))"

fun abcde :: "rmd_round \<Rightarrow> rmd_lane \<Rightarrow> rmd_lane" where
  "abcde f (a, b, c, d, e) = (case f a b c d e of (a, c) \<Rightarrow> (a, b, c, d, e))"
fun eabcd :: "rmd_round \<Rightarrow> rmd_lane \<Rightarrow> rmd_lane" where
  "eabcd f (a, b, c, d, e) = (case f e a b c d of (e, b) \<Rightarrow> (a, b, c, d, e))"
fun deabc :: "rmd_round \<Rightarrow> rmd_lane \<Rightarrow> rmd_lane" where
  "deabc f (a, b, c, d, e) = (case f d e a b c of (d, a) \<Rightarrow> (a, b, c, d, e))"
fun cdeab :: "rmd_round \<Rightarrow> rmd_lane \<Rightarrow> rmd_lane" where
  "cdeab f (a, b, c, d, e) = (case f c d e a b of (c, e) \<Rightarrow> (a, b, c, d, e))"
fun bcdea :: "rmd_round \<Rightarrow> rmd_lane \<Rightarrow> rmd_lane" where
  "bcdea f (a, b, c, d, e) = (case f b c d e a of (b, d) \<Rightarrow> (a, b, c, d, e))"

fun rmd_steps :: "(rmd_lane \<Rightarrow> rmd_lane) list \<Rightarrow> rmd_lane \<Rightarrow> rmd_lane" where
  "rmd_steps [] r = r"
| "rmd_steps (f # fs) r = rmd_steps fs (f r)"

definition rmd_left1 :: "u32 list \<Rightarrow> rmd_lane \<Rightarrow> rmd_lane" where
  "rmd_left1 inp = rmd_steps [
    abcde (rmd_ROUND rmd_F1 RMD_K1 (inp ! 0) 11),
    eabcd (rmd_ROUND rmd_F1 RMD_K1 (inp ! 1) 14),
    deabc (rmd_ROUND rmd_F1 RMD_K1 (inp ! 2) 15),
    cdeab (rmd_ROUND rmd_F1 RMD_K1 (inp ! 3) 12),
    bcdea (rmd_ROUND rmd_F1 RMD_K1 (inp ! 4) 5),
    abcde (rmd_ROUND rmd_F1 RMD_K1 (inp ! 5) 8),
    eabcd (rmd_ROUND rmd_F1 RMD_K1 (inp ! 6) 7),
    deabc (rmd_ROUND rmd_F1 RMD_K1 (inp ! 7) 9),
    cdeab (rmd_ROUND rmd_F1 RMD_K1 (inp ! 8) 11),
    bcdea (rmd_ROUND rmd_F1 RMD_K1 (inp ! 9) 13),
    abcde (rmd_ROUND rmd_F1 RMD_K1 (inp ! 10) 14),
    eabcd (rmd_ROUND rmd_F1 RMD_K1 (inp ! 11) 15),
    deabc (rmd_ROUND rmd_F1 RMD_K1 (inp ! 12) 6),
    cdeab (rmd_ROUND rmd_F1 RMD_K1 (inp ! 13) 7),
    bcdea (rmd_ROUND rmd_F1 RMD_K1 (inp ! 14) 9),
    abcde (rmd_ROUND rmd_F1 RMD_K1 (inp ! 15) 8)]"

definition rmd_left2 :: "u32 list \<Rightarrow> rmd_lane \<Rightarrow> rmd_lane" where
  "rmd_left2 inp = rmd_steps [
    eabcd (rmd_ROUND rmd_F2 RMD_K2 (inp ! 7) 7),
    deabc (rmd_ROUND rmd_F2 RMD_K2 (inp ! 4) 6),
    cdeab (rmd_ROUND rmd_F2 RMD_K2 (inp ! 13) 8),
    bcdea (rmd_ROUND rmd_F2 RMD_K2 (inp ! 1) 13),
    abcde (rmd_ROUND rmd_F2 RMD_K2 (inp ! 10) 11),
    eabcd (rmd_ROUND rmd_F2 RMD_K2 (inp ! 6) 9),
    deabc (rmd_ROUND rmd_F2 RMD_K2 (inp ! 15) 7),
    cdeab (rmd_ROUND rmd_F2 RMD_K2 (inp ! 3) 15),
    bcdea (rmd_ROUND rmd_F2 RMD_K2 (inp ! 12) 7),
    abcde (rmd_ROUND rmd_F2 RMD_K2 (inp ! 0) 12),
    eabcd (rmd_ROUND rmd_F2 RMD_K2 (inp ! 9) 15),
    deabc (rmd_ROUND rmd_F2 RMD_K2 (inp ! 5) 9),
    cdeab (rmd_ROUND rmd_F2 RMD_K2 (inp ! 2) 11),
    bcdea (rmd_ROUND rmd_F2 RMD_K2 (inp ! 14) 7),
    abcde (rmd_ROUND rmd_F2 RMD_K2 (inp ! 11) 13),
    eabcd (rmd_ROUND rmd_F2 RMD_K2 (inp ! 8) 12)]"

definition rmd_left3 :: "u32 list \<Rightarrow> rmd_lane \<Rightarrow> rmd_lane" where
  "rmd_left3 inp = rmd_steps [
    deabc (rmd_ROUND rmd_F3 RMD_K3 (inp ! 3) 11),
    cdeab (rmd_ROUND rmd_F3 RMD_K3 (inp ! 10) 13),
    bcdea (rmd_ROUND rmd_F3 RMD_K3 (inp ! 14) 6),
    abcde (rmd_ROUND rmd_F3 RMD_K3 (inp ! 4) 7),
    eabcd (rmd_ROUND rmd_F3 RMD_K3 (inp ! 9) 14),
    deabc (rmd_ROUND rmd_F3 RMD_K3 (inp ! 15) 9),
    cdeab (rmd_ROUND rmd_F3 RMD_K3 (inp ! 8) 13),
    bcdea (rmd_ROUND rmd_F3 RMD_K3 (inp ! 1) 15),
    abcde (rmd_ROUND rmd_F3 RMD_K3 (inp ! 2) 14),
    eabcd (rmd_ROUND rmd_F3 RMD_K3 (inp ! 7) 8),
    deabc (rmd_ROUND rmd_F3 RMD_K3 (inp ! 0) 13),
    cdeab (rmd_ROUND rmd_F3 RMD_K3 (inp ! 6) 6),
    bcdea (rmd_ROUND rmd_F3 RMD_K3 (inp ! 13) 5),
    abcde (rmd_ROUND rmd_F3 RMD_K3 (inp ! 11) 12),
    eabcd (rmd_ROUND rmd_F3 RMD_K3 (inp ! 5) 7),
    deabc (rmd_ROUND rmd_F3 RMD_K3 (inp ! 12) 5)]"

definition rmd_left4 :: "u32 list \<Rightarrow> rmd_lane \<Rightarrow> rmd_lane" where
  "rmd_left4 inp = rmd_steps [
    cdeab (rmd_ROUND rmd_F4 RMD_K4 (inp ! 1) 11),
    bcdea (rmd_ROUND rmd_F4 RMD_K4 (inp ! 9) 12),
    abcde (rmd_ROUND rmd_F4 RMD_K4 (inp ! 11) 14),
    eabcd (rmd_ROUND rmd_F4 RMD_K4 (inp ! 10) 15),
    deabc (rmd_ROUND rmd_F4 RMD_K4 (inp ! 0) 14),
    cdeab (rmd_ROUND rmd_F4 RMD_K4 (inp ! 8) 15),
    bcdea (rmd_ROUND rmd_F4 RMD_K4 (inp ! 12) 9),
    abcde (rmd_ROUND rmd_F4 RMD_K4 (inp ! 4) 8),
    eabcd (rmd_ROUND rmd_F4 RMD_K4 (inp ! 13) 9),
    deabc (rmd_ROUND rmd_F4 RMD_K4 (inp ! 3) 14),
    cdeab (rmd_ROUND rmd_F4 RMD_K4 (inp ! 7) 5),
    bcdea (rmd_ROUND rmd_F4 RMD_K4 (inp ! 15) 6),
    abcde (rmd_ROUND rmd_F4 RMD_K4 (inp ! 14) 8),
    eabcd (rmd_ROUND rmd_F4 RMD_K4 (inp ! 5) 6),
    deabc (rmd_ROUND rmd_F4 RMD_K4 (inp ! 6) 5),
    cdeab (rmd_ROUND rmd_F4 RMD_K4 (inp ! 2) 12)]"

definition rmd_left5 :: "u32 list \<Rightarrow> rmd_lane \<Rightarrow> rmd_lane" where
  "rmd_left5 inp = rmd_steps [
    bcdea (rmd_ROUND rmd_F5 RMD_K5 (inp ! 4) 9),
    abcde (rmd_ROUND rmd_F5 RMD_K5 (inp ! 0) 15),
    eabcd (rmd_ROUND rmd_F5 RMD_K5 (inp ! 5) 5),
    deabc (rmd_ROUND rmd_F5 RMD_K5 (inp ! 9) 11),
    cdeab (rmd_ROUND rmd_F5 RMD_K5 (inp ! 7) 6),
    bcdea (rmd_ROUND rmd_F5 RMD_K5 (inp ! 12) 8),
    abcde (rmd_ROUND rmd_F5 RMD_K5 (inp ! 2) 13),
    eabcd (rmd_ROUND rmd_F5 RMD_K5 (inp ! 10) 12),
    deabc (rmd_ROUND rmd_F5 RMD_K5 (inp ! 14) 5),
    cdeab (rmd_ROUND rmd_F5 RMD_K5 (inp ! 1) 12),
    bcdea (rmd_ROUND rmd_F5 RMD_K5 (inp ! 3) 13),
    abcde (rmd_ROUND rmd_F5 RMD_K5 (inp ! 8) 14),
    eabcd (rmd_ROUND rmd_F5 RMD_K5 (inp ! 11) 11),
    deabc (rmd_ROUND rmd_F5 RMD_K5 (inp ! 6) 8),
    cdeab (rmd_ROUND rmd_F5 RMD_K5 (inp ! 15) 5),
    bcdea (rmd_ROUND rmd_F5 RMD_K5 (inp ! 13) 6)]"

definition rmd_left :: "u32 list \<Rightarrow> rmd_lane \<Rightarrow> rmd_lane" where
  "rmd_left inp lane = rmd_left5 inp (rmd_left4 inp (rmd_left3 inp (rmd_left2 inp (rmd_left1 inp lane))))"

definition rmd_right1 :: "u32 list \<Rightarrow> rmd_lane \<Rightarrow> rmd_lane" where
  "rmd_right1 inp = rmd_steps [
    abcde (rmd_ROUND rmd_F5 RMD_K6 (inp ! 5) 8),
    eabcd (rmd_ROUND rmd_F5 RMD_K6 (inp ! 14) 9),
    deabc (rmd_ROUND rmd_F5 RMD_K6 (inp ! 7) 9),
    cdeab (rmd_ROUND rmd_F5 RMD_K6 (inp ! 0) 11),
    bcdea (rmd_ROUND rmd_F5 RMD_K6 (inp ! 9) 13),
    abcde (rmd_ROUND rmd_F5 RMD_K6 (inp ! 2) 15),
    eabcd (rmd_ROUND rmd_F5 RMD_K6 (inp ! 11) 15),
    deabc (rmd_ROUND rmd_F5 RMD_K6 (inp ! 4) 5),
    cdeab (rmd_ROUND rmd_F5 RMD_K6 (inp ! 13) 7),
    bcdea (rmd_ROUND rmd_F5 RMD_K6 (inp ! 6) 7),
    abcde (rmd_ROUND rmd_F5 RMD_K6 (inp ! 15) 8),
    eabcd (rmd_ROUND rmd_F5 RMD_K6 (inp ! 8) 11),
    deabc (rmd_ROUND rmd_F5 RMD_K6 (inp ! 1) 14),
    cdeab (rmd_ROUND rmd_F5 RMD_K6 (inp ! 10) 14),
    bcdea (rmd_ROUND rmd_F5 RMD_K6 (inp ! 3) 12),
    abcde (rmd_ROUND rmd_F5 RMD_K6 (inp ! 12) 6)]"

definition rmd_right2 :: "u32 list \<Rightarrow> rmd_lane \<Rightarrow> rmd_lane" where
  "rmd_right2 inp = rmd_steps [
    eabcd (rmd_ROUND rmd_F4 RMD_K7 (inp ! 6) 9),
    deabc (rmd_ROUND rmd_F4 RMD_K7 (inp ! 11) 13),
    cdeab (rmd_ROUND rmd_F4 RMD_K7 (inp ! 3) 15),
    bcdea (rmd_ROUND rmd_F4 RMD_K7 (inp ! 7) 7),
    abcde (rmd_ROUND rmd_F4 RMD_K7 (inp ! 0) 12),
    eabcd (rmd_ROUND rmd_F4 RMD_K7 (inp ! 13) 8),
    deabc (rmd_ROUND rmd_F4 RMD_K7 (inp ! 5) 9),
    cdeab (rmd_ROUND rmd_F4 RMD_K7 (inp ! 10) 11),
    bcdea (rmd_ROUND rmd_F4 RMD_K7 (inp ! 14) 7),
    abcde (rmd_ROUND rmd_F4 RMD_K7 (inp ! 15) 7),
    eabcd (rmd_ROUND rmd_F4 RMD_K7 (inp ! 8) 12),
    deabc (rmd_ROUND rmd_F4 RMD_K7 (inp ! 12) 7),
    cdeab (rmd_ROUND rmd_F4 RMD_K7 (inp ! 4) 6),
    bcdea (rmd_ROUND rmd_F4 RMD_K7 (inp ! 9) 15),
    abcde (rmd_ROUND rmd_F4 RMD_K7 (inp ! 1) 13),
    eabcd (rmd_ROUND rmd_F4 RMD_K7 (inp ! 2) 11)]"

definition rmd_right3 :: "u32 list \<Rightarrow> rmd_lane \<Rightarrow> rmd_lane" where
  "rmd_right3 inp = rmd_steps [
    deabc (rmd_ROUND rmd_F3 RMD_K8 (inp ! 15) 9),
    cdeab (rmd_ROUND rmd_F3 RMD_K8 (inp ! 5) 7),
    bcdea (rmd_ROUND rmd_F3 RMD_K8 (inp ! 1) 15),
    abcde (rmd_ROUND rmd_F3 RMD_K8 (inp ! 3) 11),
    eabcd (rmd_ROUND rmd_F3 RMD_K8 (inp ! 7) 8),
    deabc (rmd_ROUND rmd_F3 RMD_K8 (inp ! 14) 6),
    cdeab (rmd_ROUND rmd_F3 RMD_K8 (inp ! 6) 6),
    bcdea (rmd_ROUND rmd_F3 RMD_K8 (inp ! 9) 14),
    abcde (rmd_ROUND rmd_F3 RMD_K8 (inp ! 11) 12),
    eabcd (rmd_ROUND rmd_F3 RMD_K8 (inp ! 8) 13),
    deabc (rmd_ROUND rmd_F3 RMD_K8 (inp ! 12) 5),
    cdeab (rmd_ROUND rmd_F3 RMD_K8 (inp ! 2) 14),
    bcdea (rmd_ROUND rmd_F3 RMD_K8 (inp ! 10) 13),
    abcde (rmd_ROUND rmd_F3 RMD_K8 (inp ! 0) 13),
    eabcd (rmd_ROUND rmd_F3 RMD_K8 (inp ! 4) 7),
    deabc (rmd_ROUND rmd_F3 RMD_K8 (inp ! 13) 5)]"

definition rmd_right4 :: "u32 list \<Rightarrow> rmd_lane \<Rightarrow> rmd_lane" where
  "rmd_right4 inp = rmd_steps [
    cdeab (rmd_ROUND rmd_F2 RMD_K9 (inp ! 8) 15),
    bcdea (rmd_ROUND rmd_F2 RMD_K9 (inp ! 6) 5),
    abcde (rmd_ROUND rmd_F2 RMD_K9 (inp ! 4) 8),
    eabcd (rmd_ROUND rmd_F2 RMD_K9 (inp ! 1) 11),
    deabc (rmd_ROUND rmd_F2 RMD_K9 (inp ! 3) 14),
    cdeab (rmd_ROUND rmd_F2 RMD_K9 (inp ! 11) 14),
    bcdea (rmd_ROUND rmd_F2 RMD_K9 (inp ! 15) 6),
    abcde (rmd_ROUND rmd_F2 RMD_K9 (inp ! 0) 14),
    eabcd (rmd_ROUND rmd_F2 RMD_K9 (inp ! 5) 6),
    deabc (rmd_ROUND rmd_F2 RMD_K9 (inp ! 12) 9),
    cdeab (rmd_ROUND rmd_F2 RMD_K9 (inp ! 2) 12),
    bcdea (rmd_ROUND rmd_F2 RMD_K9 (inp ! 13) 9),
    abcde (rmd_ROUND rmd_F2 RMD_K9 (inp ! 9) 12),
    eabcd (rmd_ROUND rmd_F2 RMD_K9 (inp ! 7) 5),
    deabc (rmd_ROUND rmd_F2 RMD_K9 (inp ! 10) 15),
    cdeab (rmd_ROUND rmd_F2 RMD_K9 (inp ! 14) 8)]"

definition rmd_right5 :: "u32 list \<Rightarrow> rmd_lane \<Rightarrow> rmd_lane" where
  "rmd_right5 inp = rmd_steps [
    bcdea (rmd_ROUND rmd_F1 RMD_K1 (inp ! 12) 8),
    abcde (rmd_ROUND rmd_F1 RMD_K1 (inp ! 15) 5),
    eabcd (rmd_ROUND rmd_F1 RMD_K1 (inp ! 10) 12),
    deabc (rmd_ROUND rmd_F1 RMD_K1 (inp ! 4) 9),
    cdeab (rmd_ROUND rmd_F1 RMD_K1 (inp ! 1) 12),
    bcdea (rmd_ROUND rmd_F1 RMD_K1 (inp ! 5) 5),
    abcde (rmd_ROUND rmd_F1 RMD_K1 (inp ! 8) 14),
    eabcd (rmd_ROUND rmd_F1 RMD_K1 (inp ! 7) 6),
    deabc (rmd_ROUND rmd_F1 RMD_K1 (inp ! 6) 8),
    cdeab (rmd_ROUND rmd_F1 RMD_K1 (inp ! 2) 13),
    bcdea (rmd_ROUND rmd_F1 RMD_K1 (inp ! 13) 6),
    abcde (rmd_ROUND rmd_F1 RMD_K1 (inp ! 14) 5),
    eabcd (rmd_ROUND rmd_F1 RMD_K1 (inp ! 0) 15),
    deabc (rmd_ROUND rmd_F1 RMD_K1 (inp ! 3) 13),
    cdeab (rmd_ROUND rmd_F1 RMD_K1 (inp ! 9) 11),
    bcdea (rmd_ROUND rmd_F1 RMD_K1 (inp ! 11) 11)]"

definition rmd_right :: "u32 list \<Rightarrow> rmd_lane \<Rightarrow> rmd_lane" where
  "rmd_right inp lane = rmd_right5 inp (rmd_right4 inp (rmd_right3 inp (rmd_right2 inp (rmd_right1 inp lane))))"

definition rmd160_transform :: md_transform where
  "rmd160_transform state inp = (let
    lane = (state ! 0, state ! 1, state ! 2, state ! 3, state ! 4);
    (aa, bb, cc, dd, ee) = rmd_left inp lane;
    (aaa, bbb, ccc, ddd, eee) = rmd_right inp lane;
    ddd = ddd + (cc + state ! 1)
    in [ddd, state ! 2 + dd + eee, state ! 3 + ee + aaa, state ! 4 + aa + bbb, state ! 0 + bb + ccc])"

section \<open>Init, update and final\<close>

definition md_init :: "u32 list \<Rightarrow> md_ctx" where
  "md_init H0 = \<lparr>md_hash = H0, md_block = replicate 64 0, md_count = 0\<rparr>"

definition MD4_H :: "u32 list" where
  "MD4_H = [0x67452301, 0xefcdab89, 0x98badcfe, 0x10325476]"

definition RMD_H :: "u32 list" where
  "RMD_H = [0x67452301, 0xefcdab89, 0x98badcfe, 0x10325476, 0xc3d2e1f0]"

text \<open>The initial words of MD5 are the macros \<open>MD5_H0\<close> to \<open>MD5_H3\<close> of a header outside the
  repository: an argument. The block is left as it was by the C routines of MD4 and MD5.\<close>

definition md4_init :: md_ctx where "md4_init = md_init MD4_H"
definition md5_init :: "u32 list \<Rightarrow> md_ctx" where "md5_init MD5_H = md_init MD5_H"
definition rmd160_init :: md_ctx where "rmd160_init = md_init RMD_H"

text \<open>The loop over the whole blocks of the data; the block buffer ends as the last one.\<close>

function md_loop :: "md_transform \<Rightarrow> u32 list \<Rightarrow> bytes \<Rightarrow> bytes \<Rightarrow> u32 list \<times> bytes \<times> bytes" where
  "md_loop tr h block data =
    (if 64 \<le> length data then
       let block = memcpy_at block 0 (take 64 data)
       in md_loop tr (tr h (le32_words block)) block (drop 64 data)
     else (h, block, data))"
  by auto
termination by (relation "measure (\<lambda>(tr, h, block, data). length data)") auto

declare md_loop.simps [simp del]

definition md_update :: "md_transform \<Rightarrow> md_ctx \<Rightarrow> bytes \<Rightarrow> md_ctx" where
  "md_update tr mctx data =
    (let avail = 64 - unat (md_count mctx AND 0x3f);
         mctx = mctx\<lparr>md_count := md_count mctx + of_nat (length data)\<rparr>
     in if avail > length data then
          mctx\<lparr>md_block := memcpy_at (md_block mctx) (64 - avail) data\<rparr>
        else let
          block = memcpy_at (md_block mctx) (64 - avail) (take avail data);
          h = tr (md_hash mctx) (le32_words block);
          (h, block, data) = md_loop tr h block (drop avail data)
        in mctx\<lparr>md_hash := h, md_block := memcpy_at block 0 data\<rparr>)"

text \<open>\<open>p\<close> is the offset of the pointer of the same name in the block.\<close>

definition md_final :: "md_transform \<Rightarrow> md_ctx \<Rightarrow> bytes" where
  "md_final tr mctx =
    (let offset = unat (md_count mctx AND 0x3f);
         padding = 56 - (int offset + 1);
         block = (md_block mctx)[offset := 0x80];
         p = offset + 1;
         (h, block, p, padding) =
           (if padding < 0 then
              let block = memcpy_at block p (replicate (nat (padding + 8)) 0)
              in (tr (md_hash mctx) (le32_words block), block, 0, 56)
            else (md_hash mctx, block, p, padding));
         block = memcpy_at block p (replicate (nat padding) 0);
         words = le32_words (take 56 block) @
           [ucast (push_bit 3 (md_count mctx)), ucast (drop_bit 29 (md_count mctx))]
     in le32_bytes (tr h words))"

definition md4_update :: "md_ctx \<Rightarrow> bytes \<Rightarrow> md_ctx" where
  "md4_update = md_update md4_transform"

definition md4_final :: "md_ctx \<Rightarrow> bytes" where
  "md4_final = md_final md4_transform"

definition md5_update :: "md_ctx \<Rightarrow> bytes \<Rightarrow> md_ctx" where
  "md5_update = md_update md5_transform"

definition md5_final :: "md_ctx \<Rightarrow> bytes" where
  "md5_final = md_final md5_transform"

definition rmd160_update :: "md_ctx \<Rightarrow> bytes \<Rightarrow> md_ctx" where
  "rmd160_update = md_update rmd160_transform"

text \<open>RIPEMD-160 pads through its own update routine.\<close>

definition rmd160_final :: "md_ctx \<Rightarrow> bytes" where
  "rmd160_final rctx =
    (let bits = put_le64 (push_bit 3 (md_count rctx));
         index = unat (md_count rctx AND 0x3f);
         padlen = (if index < 56 then 56 - index else (64 + 56) - index);
         rctx = rmd160_update rctx (take padlen (0x80 # replicate 63 0));
         rctx = rmd160_update rctx bits
     in le32_bytes (take 5 (md_hash rctx)))"

text \<open>The digest \<open>md5.c\<close> exports for the empty message.\<close>

definition md5_zero_message_hash :: bytes where
  "md5_zero_message_hash =
    [0xd4, 0x1d, 0x8c, 0xd9, 0x8f, 0x00, 0xb2, 0x04, 0xe9, 0x80, 0x09, 0x98, 0xec, 0xf8, 0x42, 0x7e]"

section \<open>The digest of a message\<close>

text \<open>
  The specification: a message is padded to whole blocks with a one bit, zeros and its length in
  bits modulo \<open>2 ^ 64\<close>, the transform is folded over the blocks, and the hash words are stored in
  little-endian order.
\<close>

definition md_pad :: "bytes \<Rightarrow> bytes" where
  "md_pad M = M @ [0x80] @ replicate ((119 - length M mod 64) mod 64) 0 @
    put_le64 (of_nat (8 * length M))"

definition md_chain :: "md_transform \<Rightarrow> u32 list \<Rightarrow> bytes list \<Rightarrow> u32 list" where
  "md_chain tr h bs = foldl (\<lambda>h b. tr h (le32_words b)) h bs"

definition md_digest :: "md_transform \<Rightarrow> u32 list \<Rightarrow> bytes \<Rightarrow> bytes" where
  "md_digest tr H0 M = le32_bytes (md_chain tr H0 (blocks 64 (md_pad M)))"

section \<open>The update routine\<close>

definition md_absorbed :: "md_transform \<Rightarrow> u32 list \<Rightarrow> bytes \<Rightarrow> md_ctx \<Rightarrow> bool" where
  "md_absorbed tr H0 M ctx \<longleftrightarrow> length (md_block ctx) = 64 \<and> md_count ctx = of_nat (length M) \<and>
    md_hash ctx = md_chain tr H0 (blocks 64 M) \<and>
    take (length M mod 64) (md_block ctx) = leftover 64 M"

lemma md_chain_append [simp]: "md_chain tr h (bs @ cs) = md_chain tr (md_chain tr h bs) cs"
  by (simp add: md_chain_def)

lemma md_chain_simps [simp]: "md_chain tr h [] = h" "md_chain tr h (b # bs) = md_chain tr (tr h (le32_words b)) bs"
  by (simp_all add: md_chain_def)

lemma count_offset [simp]: "unat ((of_nat n :: u64) AND 0x3f) = n mod 64"
proof -
  have m: "(0x3f :: u64) = mask 6" by (simp add: mask_eq_exp_minus_1)
  have "unat ((of_nat n :: u64) AND 0x3f) = take_bit 6 (unat (of_nat n :: u64))"
    unfolding m take_bit_eq_mask [symmetric] by (rule unsigned_take_bit_eq)
  also have "\<dots> = take_bit 6 (take_bit 64 n)" by (simp add: unat_of_nat take_bit_eq_mod)
  also have "\<dots> = take_bit 6 n" by (subst take_bit_take_bit) simp
  also have "\<dots> = n mod 64" by (simp add: take_bit_eq_mod)
  finally show ?thesis .
qed

lemma md_loop_result:
  "length block = 64 \<Longrightarrow> \<exists>block'. length block' = 64 \<and>
    md_loop tr h block data = (md_chain tr h (blocks 64 data), block', leftover 64 data)"
proof (induction tr h block data rule: md_loop.induct)
  case (1 tr h block data)
  show ?case
  proof (cases "64 \<le> length data")
    case True
    let ?b = "memcpy_at block 0 (take 64 data)"
    have b: "?b = take 64 data" using True 1(2) by (simp add: memcpy_at_def)
    obtain block' where "length block' = 64" "md_loop tr (tr h (le32_words ?b)) ?b (drop 64 data) =
        (md_chain tr (tr h (le32_words ?b)) (blocks 64 (drop 64 data)), block', leftover 64 (drop 64 data))"
      using 1(1) [OF True refl] True 1(2) by auto
    moreover have "md_loop tr h block data = md_loop tr (tr h (le32_words ?b)) ?b (drop 64 data)"
      using True by (simp add: md_loop.simps [of tr h block data] Let_def)
    ultimately show ?thesis using True b
      by (intro exI [of _ block']) (simp add: blocks_step [of 64 data] leftover_step)
  qed (use 1(2) in \<open>simp add: md_loop.simps [of tr h block data]\<close>)
qed

lemma md_update_absorbs:
  assumes "md_absorbed tr H0 M ctx"
  shows "md_absorbed tr H0 (M @ data) (md_update tr ctx data)"
proof -
  let ?o = "length M mod 64" and ?rest = "leftover 64 M" and ?l = "leftover 64 (M @ data)"
  have ctx: "length (md_block ctx) = 64" "md_count ctx = of_nat (length M)"
    "md_hash ctx = md_chain tr H0 (blocks 64 M)" "take ?o (md_block ctx) = ?rest"
    using assms by (simp_all add: md_absorbed_def)
  have o: "?o < 64" "length ?rest = ?o" by simp_all
  have off: "unat (md_count ctx AND 0x3f) = ?o" by (simp only: ctx count_offset)
  have split: "blocks 64 (M @ data) = blocks 64 M @ blocks 64 (?rest @ data)" "?l = leftover 64 (?rest @ data)"
    using blocks_append [of 64 M data] by simp_all
  have l: "length ?l = length (M @ data) mod 64" by (rule length_leftover) simp
  show ?thesis
  proof (cases "64 - ?o > length data")
    case True
    then have "?l = ?rest @ data" using split o by simp
    moreover have "(length M + length data) mod 64 = ?o + length data" using l calculation o by simp
    ultimately show ?thesis
      using True ctx o split take_memcpy_at [of ?o "md_block ctx" data]
      by (simp add: md_absorbed_def md_update_def off Let_def)
  next
    case False
    let ?d = "drop (64 - ?o) data" and ?b = "?rest @ take (64 - ?o) data"
    have full: "length ?b = 64" using False o by simp
    have b: "memcpy_at (md_block ctx) ?o (take (64 - ?o) data) = ?b"
      using False o ctx by (subst memcpy_at_full) simp_all
    have data: "?rest @ data = ?b @ ?d" by simp
    have bl: "blocks 64 (?rest @ data) = ?b # blocks 64 ?d" "?l = leftover 64 ?d"
      unfolding split(2) data by (rule blocks_Cons leftover_Cons; (rule full)?; simp)+
    obtain block' where block': "length block' = 64"
      "md_loop tr (tr (md_hash ctx) (le32_words ?b)) ?b ?d =
        (md_chain tr (tr (md_hash ctx) (le32_words ?b)) (blocks 64 ?d), block', leftover 64 ?d)"
      using md_loop_result [OF full] by blast
    have "md_update tr ctx data = ctx\<lparr>md_count := md_count ctx + of_nat (length data),
        md_hash := md_chain tr H0 (blocks 64 (M @ data)), md_block := memcpy_at block' 0 ?l\<rparr>"
      using False o by (simp add: md_update_def off Let_def b block'(2) [unfolded ctx(3)] split(1) bl ctx(3))
    moreover have "length ?l \<le> length block'" using l block'(1) by (simp add: less_imp_le)
    ultimately show ?thesis
      using block'(1) ctx(2) l memcpy_at_0 [of ?l block'] by (simp add: md_absorbed_def)
  qed
qed

section \<open>The padding\<close>

lemma count_bits: "push_bit 3 (of_nat n :: u64) = of_nat (8 * n)"
  by (simp add: push_bit_eq_mult)

lemma count_words:
  "[ucast (push_bit 3 w) :: u32, ucast (drop_bit 29 w)] = le32_words (put_le64 (push_bit 3 (w :: u64)))"
proof -
  have "(ucast (drop_bit 29 w) :: u32) = ucast (drop_bit 32 (push_bit 3 w))"
    by (rule bit_word_eqI) (use bit_imp_le_length [of w] in \<open>auto simp: bit_simps\<close>)
  then show ?thesis by (simp add: le32_words_put_le64)
qed

lemma md_final_block:
  assumes "md_absorbed tr H0 M ctx"
  shows "md_final tr ctx = md_digest tr H0 M"
proof -
  let ?o = "length M mod 64" and ?rest = "leftover 64 M" and ?bits = "put_le64 (of_nat (8 * length M))"
  let ?block = "(md_block ctx)[?o := 0x80]"
  have ctx: "length (md_block ctx) = 64" "md_count ctx = of_nat (length M)"
    "md_hash ctx = md_chain tr H0 (blocks 64 M)" "take ?o (md_block ctx) = ?rest"
    using assms by (simp_all add: md_absorbed_def)
  have o: "?o < 64" "length ?rest = ?o" by simp_all
  have off: "unat (md_count ctx AND 0x3f) = ?o" by (simp only: ctx count_offset)
  have p: "take (?o + 1) ?block = ?rest @ [0x80]"
    using o ctx by (simp add: take_Suc_conv_app_nth)
  have pad: "blocks 64 (md_pad M) = blocks 64 M @ blocks 64
      (?rest @ [0x80] @ replicate ((119 - ?o) mod 64) 0 @ ?bits)"
    using blocks_append [of 64 M] by (simp add: md_pad_def)
  have w: "[ucast (push_bit 3 (md_count ctx)) :: u32, ucast (drop_bit 29 (md_count ctx))] = le32_words ?bits"
    unfolding count_words by (simp add: ctx(2) count_bits)
  have last: "le32_words zs @ le32_words ?bits = le32_words (zs @ ?bits)" if "length zs = 56" for zs
    using that by (simp add: le32_words_append)
  have zeros: "take 56 (memcpy_at B 0 (replicate 56 0)) = replicate 56 (0 :: u8)" for B
    by (simp add: memcpy_at_def)
  show ?thesis
  proof (cases "?o < 56")
    case True
    let ?z = "replicate (55 - ?o) (0 :: u8)"
    have t: "take 56 (memcpy_at ?block (?o + 1) ?z) = (?rest @ [0x80]) @ ?z"
      using take_memcpy_at [of "?o + 1" ?block ?z] True ctx(1) unfolding p by simp
    have n: "nat (55 - int ?o) = 55 - ?o" by simp
    have final: "md_final tr ctx = le32_bytes (tr (md_hash ctx)
        (le32_words ((?rest @ [0x80]) @ ?z) @ le32_words ?bits))"
      using True unfolding md_final_def Let_def off w by (simp add: n t [simplified])
    have "(119 - ?o) mod 64 = 55 - ?o"
    proof -
      have "119 - ?o = (55 - ?o) + 64" using True by simp
      then show ?thesis by (simp only: mod_add_self2) simp
    qed
    then have "?rest @ [0x80] @ replicate ((119 - ?o) mod 64) 0 @ ?bits = ((?rest @ [0x80]) @ ?z) @ ?bits"
      by (simp only: append_assoc)
    moreover have "blocks 64 (((?rest @ [0x80]) @ ?z) @ ?bits) = [((?rest @ [0x80]) @ ?z) @ ?bits]"
      using True by (subst blocks_single) simp_all
    ultimately have "blocks 64 (md_pad M) = blocks 64 M @ [((?rest @ [0x80]) @ ?z) @ ?bits]"
      unfolding pad by (simp only:)
    moreover have "length ((?rest @ [0x80]) @ ?z) = 56" using True by simp
    ultimately show ?thesis
      by (simp only: final md_digest_def md_chain_append md_chain_simps ctx(3) last)
  next
    case False
    let ?z = "replicate (63 - ?o) (0 :: u8)"
    have full: "memcpy_at ?block (?o + 1) ?z = (?rest @ [0x80]) @ ?z"
      using memcpy_at_full [of "?o + 1" ?z ?block] o ctx(1) unfolding p by simp
    have n: "nat (56 - (int ?o + 1) + 8) = 63 - ?o" using o by simp
    have final: "md_final tr ctx = le32_bytes (tr (tr (md_hash ctx) (le32_words ((?rest @ [0x80]) @ ?z)))
        (le32_words (replicate 56 0) @ le32_words ?bits))"
      using False o unfolding md_final_def Let_def off n w
      by (simp add: full [simplified] zeros)
    have "(119 - ?o) mod 64 = (63 - ?o) + 56" using False o by simp
    then have "?rest @ [0x80] @ replicate ((119 - ?o) mod 64) 0 @ ?bits =
        ((?rest @ [0x80]) @ ?z) @ (replicate 56 0 @ ?bits)"
      by (simp only: replicate_add append_assoc)
    moreover have "blocks 64 (((?rest @ [0x80]) @ ?z) @ (replicate 56 0 @ ?bits)) =
        [(?rest @ [0x80]) @ ?z, replicate 56 0 @ ?bits]"
      using o by (subst blocks_Cons) (simp_all add: blocks_single)
    ultimately have "blocks 64 (md_pad M) = blocks 64 M @ [(?rest @ [0x80]) @ ?z, replicate 56 0 @ ?bits]"
      unfolding pad by (simp only:)
    then show ?thesis
      by (simp only: final md_digest_def md_chain_append md_chain_simps ctx(3) last length_replicate)
  qed
qed

lemma md_init_absorbs: "md_absorbed tr H0 [] (md_init H0)"
  by (simp add: md_absorbed_def md_init_def)

interpretation md_stream: stream_hash "md_init H0" "md_update tr" "md_final tr" "md_absorbed tr H0"
    "md_digest tr H0" for H0 tr
  by unfold_locales (auto simp: md_update_absorbs md_final_block md_init_absorbs)

section \<open>RIPEMD-160\<close>

lemma length_rmd160_transform [simp]: "length (rmd160_transform h ws) = 5"
  by (simp add: rmd160_transform_def Let_def split_def)

lemma length_rmd160_chain: "length h = 5 \<Longrightarrow> length (md_chain rmd160_transform h bs) = 5"
  by (induction bs arbitrary: h) simp_all

lemma rmd160_final_digest:
  assumes "md_absorbed rmd160_transform H0 M ctx" and "length H0 = 5"
  shows "rmd160_final ctx = md_digest rmd160_transform H0 M"
proof -
  let ?o = "length M mod 64" and ?bits = "put_le64 (of_nat (8 * length M))"
  let ?pad = "[0x80] @ replicate ((119 - ?o) mod 64) (0 :: u8)"
  have cnt: "md_count ctx = of_nat (length M)" using assms by (simp add: md_absorbed_def)
  have off: "unat (md_count ctx AND 0x3f) = ?o" by (simp only: cnt count_offset)
  define padlen where "padlen = (if ?o < 56 then 56 - ?o else (64 + 56) - ?o)"
  have o: "?o < 64" by simp
  have pl: "padlen \<le> 64" "padlen = Suc ((119 - ?o) mod 64)"
  proof -
    have "119 - ?o = (55 - ?o) + 64" if "?o < 56" using that by simp
    then show "padlen = Suc ((119 - ?o) mod 64)" using o unfolding padlen_def
      by (cases "?o < 56") (simp_all only: mod_add_self2 if_True if_False, simp_all)
    show "padlen \<le> 64" using o unfolding padlen_def by (cases "?o < 56") simp_all
  qed
  have pad: "take padlen (0x80 # replicate 63 0) = ?pad" using pl by (simp add: min_def)
  let ?c = "rmd160_update (rmd160_update ctx ?pad) ?bits"
  have "md_absorbed rmd160_transform H0 ((M @ ?pad) @ ?bits) ?c"
    unfolding rmd160_update_def by (intro md_update_absorbs assms(1))
  then have h: "md_hash ?c = md_chain rmd160_transform H0 (blocks 64 (md_pad M))"
    by (simp only: md_absorbed_def md_pad_def append_assoc)
  have "rmd160_final ctx = le32_bytes (take 5 (md_hash ?c))"
    unfolding rmd160_final_def Let_def off padlen_def [symmetric] pad by (simp only: cnt count_bits)
  then show ?thesis
    by (simp only: h md_digest_def) (simp add: length_rmd160_chain assms(2))
qed

interpretation rmd160_stream: stream_hash rmd160_init rmd160_update rmd160_final
    "md_absorbed rmd160_transform RMD_H" "md_digest rmd160_transform RMD_H"
  by unfold_locales
    (auto simp: md_update_absorbs rmd160_update_def rmd160_final_digest md_init_absorbs rmd160_init_def RMD_H_def)

text \<open>C10: MD4, MD5 and RIPEMD-160 compute the digest of the message they receive, however it is
  cut into updates: the message is padded with a one bit, zeros and its length in bits modulo
  \<open>2 ^ 64\<close>, and the transform is folded over the blocks from the initial hash.\<close>

theorem md_hashes_stream:
  "md4_final (foldl md4_update md4_init ds) = md_digest md4_transform MD4_H (concat ds) \<and>
   md5_final (foldl md5_update (md5_init MD5_H) ds) = md_digest md5_transform MD5_H (concat ds) \<and>
   rmd160_final (foldl rmd160_update rmd160_init ds) = md_digest rmd160_transform RMD_H (concat ds)"
  unfolding md4_update_def md4_final_def md5_update_def md5_final_def md4_init_def md5_init_def
  by (intro conjI md_stream.chunks_digest rmd160_stream.chunks_digest)

section \<open>Test vectors\<close>

text \<open>The digests of the empty message that \<open>testmgr.h\<close> lists for MD4 and RIPEMD-160.\<close>

definition md4_tv_empty :: bytes where
  "md4_tv_empty =
    [0x31, 0xd6, 0xcf, 0xe0, 0xd1, 0x6a, 0xe9, 0x31, 0xb7, 0x3c, 0x59, 0xd7, 0xe0, 0xc0, 0x89, 0xc0]"

definition rmd160_tv_empty :: bytes where
  "rmd160_tv_empty =
    [0x9c, 0x11, 0x85, 0xa5, 0xc5, 0xe9, 0xfc, 0x54, 0x61, 0x28, 0x08, 0x97, 0x7e, 0xe8, 0xf5, 0x48,
     0xb2, 0x25, 0x8d, 0x31]"

lemma md_digest_empty:
  "md_digest tr H0 [] = le32_bytes (tr H0 [0x80, 0, 0, 0, 0, 0, 0, 0, 0, 0, 0, 0, 0, 0, 0, 0])"
proof -
  have "put_le64 0 = replicate 8 0" by (simp add: put_le64_def numeral_eq_Suc)
  then have "md_pad [] = 0x80 # replicate 63 0"
    by (simp add: md_pad_def replicate_add [symmetric])
  moreover have "[0x80, 0, 0, 0] @ concat (replicate 15 [0, 0, 0, 0]) = 0x80 # replicate 63 (0 :: u8)"
    by (simp add: numeral_eq_Suc)
  ultimately have "blocks 64 (md_pad []) = [[0x80, 0, 0, 0] @ concat (replicate 15 [0, 0, 0, 0])]"
    by (simp add: blocks_single)
  moreover have "le32_words ([0x80, 0, 0, 0] @ concat (replicate n [0, 0, 0, 0])) = 0x80 # replicate n 0" for n
    by (induction n) (simp_all add: le32_words_Cons4 get_le32_def)
  ultimately show ?thesis
    by (simp only: md_digest_def md_chain_simps) (simp add: numeral_eq_Suc)
qed

lemma put_le32_bytes: "put_le32 w = [ucast w, ucast (drop_bit 8 w), ucast (drop_bit 16 w), ucast (drop_bit 24 w)]"
  by (simp add: put_le32_def numeral_eq_Suc)

lemma rol32_shifts:
  assumes "0 < n" "n < 32"
  shows "rol32 x n = push_bit n x OR drop_bit (32 - n) x"
proof (rule bit_word_eqI)
  fix i assume i: "i < LENGTH(32)"
  have len32: "LENGTH(32) = 32" by simp
  have i32: "i < 32" and nm: "n mod 32 = n" using i assms by simp_all
  have r: "bit (rol32 x n) i \<longleftrightarrow> bit x ((i + (32 - n)) mod 32)"
    using i32 unfolding rol32_def bit_word_rotl_iff len32 nm by simp
  show "bit (rol32 x n) i \<longleftrightarrow> bit (push_bit n x OR drop_bit (32 - n) x) i"
  proof (cases "n \<le> i")
    case True
    have "i + (32 - n) = (i - n) + 32" using True assms by simp
    then have "(i + (32 - n)) mod 32 = i - n" using i32 by (simp only: mod_add_self2) simp
    moreover have "\<not> bit x (32 - n + i)"
      using True assms bit_imp_le_length [of x "32 - n + i"] by auto
    ultimately show ?thesis unfolding r using True i32 by (simp add: bit_simps)
  next
    case False
    then have "(i + (32 - n)) mod 32 = 32 - n + i" using assms by simp
    then show ?thesis unfolding r using False by (simp add: bit_simps)
  qed
qed

lemmas rmd_round_defs = rmd_ROUND_def rmd_F1_def rmd_F2_def rmd_F3_def rmd_F4_def rmd_F5_def RMD_K1_def
  RMD_K2_def RMD_K3_def RMD_K4_def RMD_K5_def RMD_K6_def RMD_K7_def RMD_K8_def RMD_K9_def rol32_shifts

lemma md4_rounds_empty:
  "md4_round1
      [0x80, 0, 0, 0, 0, 0, 0, 0, 0, 0, 0, 0, 0, 0, 0, 0]
      (0x67452301, 0xefcdab89, 0x98badcfe, 0x10325476) =
    (0xaddcb303, 0x3665f296, 0x8ee8f245, 0xa483a664)"
  "md4_round2
      [0x80, 0, 0, 0, 0, 0, 0, 0, 0, 0, 0, 0, 0, 0, 0, 0]
      (0xaddcb303, 0x3665f296, 0x8ee8f245, 0xa483a664) =
    (0x374891bf, 0x6f952b2e, 0xb49a4dae, 0x0a15c329)"
  "md4_round3
      [0x80, 0, 0, 0, 0, 0, 0, 0, 0, 0, 0, 0, 0, 0, 0, 0]
      (0x374891bf, 0x6f952b2e, 0xb49a4dae, 0x0a15c329) =
    (0x798ab330, 0x421bbf48, 0x3e9e5fb9, 0xb0576c6a)"
  by (simp_all add: md4_round1_def md4_round2_def md4_round3_def ROUND1_def ROUND2_def ROUND3_def
    md4_lshift_def md4_F_def md4_G_def md4_H_def)

lemma md5_rounds_empty:
  "md5_round1
      [0x80, 0, 0, 0, 0, 0, 0, 0, 0, 0, 0, 0, 0, 0, 0, 0]
      (0x67452301, 0xefcdab89, 0x98badcfe, 0x10325476) =
    (0xf56c7cf1, 0xd6819c6a, 0x5aa53f75, 0x374943a7)"
  "md5_round2
      [0x80, 0, 0, 0, 0, 0, 0, 0, 0, 0, 0, 0, 0, 0, 0, 0]
      (0xf56c7cf1, 0xd6819c6a, 0x5aa53f75, 0x374943a7) =
    (0x13707036, 0xa2205f1f, 0x1c31c384, 0xae7813db)"
  "md5_round3
      [0x80, 0, 0, 0, 0, 0, 0, 0, 0, 0, 0, 0, 0, 0, 0, 0]
      (0x13707036, 0xa2205f1f, 0x1c31c384, 0xae7813db) =
    (0x3f55edfd, 0xca7d2dbd, 0x68d84ea2, 0x22a31f54)"
  "md5_round4
      [0x80, 0, 0, 0, 0, 0, 0, 0, 0, 0, 0, 0, 0, 0, 0, 0]
      (0x3f55edfd, 0xca7d2dbd, 0x68d84ea2, 0x22a31f54) =
    (0x7246fad3, 0x14e45506, 0xff4ea3eb, 0x6e10a476)"
  by (simp_all add: md5_round1_def md5_round2_def md5_round3_def md5_round4_def MD5STEP_def
    md5_F1_def md5_F2_def md5_F3_def md5_F4_def)

lemma rmd_left_empty:
  "rmd_left1
      [0x80, 0, 0, 0, 0, 0, 0, 0, 0, 0, 0, 0, 0, 0, 0, 0]
      (0x67452301, 0xefcdab89, 0x98badcfe, 0x10325476, 0xc3d2e1f0) =
    (0xa8c519b5, 0x1124553d, 0xb8b785d6, 0x6b9e4e09, 0x1c283f0c)"
  "rmd_left2
      [0x80, 0, 0, 0, 0, 0, 0, 0, 0, 0, 0, 0, 0, 0, 0, 0]
      (0xa8c519b5, 0x1124553d, 0xb8b785d6, 0x6b9e4e09, 0x1c283f0c) =
    (0x3c987b47, 0x2ec07b7b, 0x6206d561, 0xea416391, 0xf15d511e)"
  "rmd_left3
      [0x80, 0, 0, 0, 0, 0, 0, 0, 0, 0, 0, 0, 0, 0, 0, 0]
      (0x3c987b47, 0x2ec07b7b, 0x6206d561, 0xea416391, 0xf15d511e) =
    (0x297cf675, 0xf2d46cd9, 0xb5074004, 0x6995d6c5, 0x946bba85)"
  "rmd_left4
      [0x80, 0, 0, 0, 0, 0, 0, 0, 0, 0, 0, 0, 0, 0, 0, 0]
      (0x297cf675, 0xf2d46cd9, 0xb5074004, 0x6995d6c5, 0x946bba85) =
    (0x88714640, 0x9fdab2b4, 0xe42bd59b, 0xaed7c70d, 0xd8c862e1)"
  "rmd_left5
      [0x80, 0, 0, 0, 0, 0, 0, 0, 0, 0, 0, 0, 0, 0, 0, 0]
      (0x88714640, 0x9fdab2b4, 0xe42bd59b, 0xaed7c70d, 0xd8c862e1) =
    (0x594637a7, 0x215d97b3, 0xeba027eb, 0xb99cdc7a, 0xec4dcdff)"
  by (simp_all add: rmd_left1_def rmd_left2_def rmd_left3_def rmd_left4_def rmd_left5_def rmd_round_defs Let_def)

lemma rmd_right_empty:
  "rmd_right1
      [0x80, 0, 0, 0, 0, 0, 0, 0, 0, 0, 0, 0, 0, 0, 0, 0]
      (0x67452301, 0xefcdab89, 0x98badcfe, 0x10325476, 0xc3d2e1f0) =
    (0xf7166d44, 0x17a05994, 0x6f9c0d4c, 0xfb9c1ec9, 0xfc163248)"
  "rmd_right2
      [0x80, 0, 0, 0, 0, 0, 0, 0, 0, 0, 0, 0, 0, 0, 0, 0]
      (0xf7166d44, 0x17a05994, 0x6f9c0d4c, 0xfb9c1ec9, 0xfc163248) =
    (0x0b740887, 0xd3d5139c, 0xe0bbff46, 0x66f8d648, 0x6c38cba5)"
  "rmd_right3
      [0x80, 0, 0, 0, 0, 0, 0, 0, 0, 0, 0, 0, 0, 0, 0, 0]
      (0x0b740887, 0xd3d5139c, 0xe0bbff46, 0x66f8d648, 0x6c38cba5) =
    (0x9091cbac, 0x8f55b0be, 0xca284532, 0xe4c055a0, 0xb00a7afa)"
  "rmd_right4
      [0x80, 0, 0, 0, 0, 0, 0, 0, 0, 0, 0, 0, 0, 0, 0, 0]
      (0x9091cbac, 0x8f55b0be, 0xca284532, 0xe4c055a0, 0xb00a7afa) =
    (0xc5b07e0a, 0x362a73cb, 0x986d284f, 0xa0e04d8b, 0xdbcb7f0a)"
  "rmd_right5
      [0x80, 0, 0, 0, 0, 0, 0, 0, 0, 0, 0, 0, 0, 0, 0, 0]
      (0xc5b07e0a, 0x362a73cb, 0x986d284f, 0xa0e04d8b, 0xdbcb7f0a) =
    (0x9a8805ec, 0x2bdccee7, 0xa8ea6afe, 0xca173e28, 0x02a5304d)"
  by (simp_all add: rmd_right1_def rmd_right2_def rmd_right3_def rmd_right4_def rmd_right5_def rmd_round_defs Let_def)

lemma md4_empty: "md4_transform MD4_H [0x80, 0, 0, 0, 0, 0, 0, 0, 0, 0, 0, 0, 0, 0, 0, 0] =
    [0xe0cfd631, 0x31e96ad1, 0xd7593cb7, 0xc089c0e0]"
  by (simp add: md4_transform_def md4_rounds_empty md_add_regs_def MD4_H_def)

lemma md5_empty: "md5_transform MD4_H [0x80, 0, 0, 0, 0, 0, 0, 0, 0, 0, 0, 0, 0, 0, 0, 0] =
    [0xd98c1dd4, 0x04b2008f, 0x980980e9, 0x7e42f8ec]"
  by (simp add: md5_transform_def md5_rounds_empty md_add_regs_def MD4_H_def)

lemma rmd160_empty: "rmd160_transform RMD_H [0x80, 0, 0, 0, 0, 0, 0, 0, 0, 0, 0, 0, 0, 0, 0, 0] =
    [0xa585119c, 0x54fce9c5, 0x97082861, 0x48f5e87e, 0x318d25b2]"
  by (simp add: rmd160_transform_def rmd_left_def rmd_right_def rmd_left_empty rmd_right_empty RMD_H_def)

text \<open>With the initial words of RFC 1321 the digest of the empty message is the constant
  \<open>md5.c\<close> exports, and MD4 and RIPEMD-160 give the digests \<open>testmgr.h\<close> expects.\<close>

theorem md_hashes_of_empty_message:
  "md5_final (md5_init [0x67452301, 0xefcdab89, 0x98badcfe, 0x10325476]) = md5_zero_message_hash \<and>
   md4_final md4_init = md4_tv_empty \<and> rmd160_final rmd160_init = rmd160_tv_empty"
proof -
  have "md5_final (md5_init MD4_H) = md5_zero_message_hash"
    using md_stream.chunks_digest [of md5_transform MD4_H "[]"]
    by (simp add: md5_init_def md5_final_def md_digest_empty md5_empty le32_bytes_def put_le32_bytes
      md5_zero_message_hash_def)
  moreover have "md4_final md4_init = md4_tv_empty"
    using md_stream.chunks_digest [of md4_transform MD4_H "[]"]
    by (simp add: md4_init_def md4_final_def md_digest_empty md4_empty le32_bytes_def put_le32_bytes
      md4_tv_empty_def)
  moreover have "rmd160_final rmd160_init = rmd160_tv_empty"
    using rmd160_stream.chunks_digest [of "[]"]
    by (simp add: md_digest_empty rmd160_empty le32_bytes_def put_le32_bytes rmd160_tv_empty_def)
  ultimately show ?thesis by (simp add: MD4_H_def)
qed
end
