(* ===== verification/Michael.thy ===== *)
theory Michael
  imports HashStream
begin

text \<open>
  The Michael message integrity code (\<open>michael_mic.c\<close>): the transform holds the two words of the
  key, the request the words \<open>l\<close> and \<open>r\<close> and up to three pending bytes. The words of the model
  are those of the C structs; \<open>pending\<close> is the word of the same name as its four bytes.
\<close>

section \<open>The model\<close>

record michael_mic_ctx =
  key_l :: u32
  key_r :: u32

record michael_mic_desc_ctx =
  pending :: bytes
  pending_len :: nat
  mic_l :: u32
  mic_r :: u32

definition xswap :: "u32 \<Rightarrow> u32" where
  "xswap val = push_bit 8 (val AND 0x00ff00ff) OR drop_bit 8 (val AND 0xff00ff00)"

definition michael_block :: "u32 \<Rightarrow> u32 \<Rightarrow> u32 \<times> u32" where
  "michael_block l r =
    (let r = r XOR rol32 l 17; l = l + r;
         r = r XOR xswap l; l = l + r;
         r = r XOR rol32 l 3; l = l + r;
         r = r XOR ror32 l 2; l = l + r
     in (l, r))"

definition michael_setkey :: "bytes \<Rightarrow> errno + michael_mic_ctx" where
  "michael_setkey key =
    (if length key \<noteq> 8 then Inl EINVAL
     else Inr \<lparr>key_l = get_le32 key, key_r = get_le32 (drop 4 key)\<rparr>)"

definition michael_init :: "michael_mic_ctx \<Rightarrow> michael_mic_desc_ctx" where
  "michael_init ctx = \<lparr>pending = replicate 4 0, pending_len = 0, mic_l = key_l ctx, mic_r = key_r ctx\<rparr>"

fun michael_loop :: "u32 \<Rightarrow> u32 \<Rightarrow> bytes \<Rightarrow> u32 \<times> u32 \<times> bytes" where
  "michael_loop l r (a # b # c # d # data) =
    (let (l, r) = michael_block (l XOR get_le32 [a, b, c, d]) r in michael_loop l r data)"
| "michael_loop l r data = (l, r, data)"

definition michael_rest :: "michael_mic_desc_ctx \<Rightarrow> bytes \<Rightarrow> michael_mic_desc_ctx" where
  "michael_rest mctx data =
    (let (l, r, data) = michael_loop (mic_l mctx) (mic_r mctx) data;
         mctx = mctx\<lparr>mic_l := l, mic_r := r\<rparr>
     in if 0 < length data then
          mctx\<lparr>pending_len := length data, pending := memcpy_at (pending mctx) 0 data\<rparr>
        else mctx)"

definition michael_update :: "michael_mic_desc_ctx \<Rightarrow> bytes \<Rightarrow> michael_mic_desc_ctx" where
  "michael_update mctx data =
    (if pending_len mctx \<noteq> 0 then
       let flen = 4 - pending_len mctx;
           flen = (if flen > length data then length data else flen);
           mctx = mctx\<lparr>pending := memcpy_at (pending mctx) (pending_len mctx) (take flen data),
             pending_len := pending_len mctx + flen\<rparr>;
           data = drop flen data
       in if pending_len mctx < 4 then mctx
          else let (l, r) = michael_block (mic_l mctx XOR get_le32 (pending mctx)) (mic_r mctx)
            in michael_rest (mctx\<lparr>mic_l := l, mic_r := r, pending_len := 0\<rparr>) data
     else michael_rest mctx data)"

definition michael_final :: "michael_mic_desc_ctx \<Rightarrow> bytes" where
  "michael_final mctx =
    (let d = \<lambda>i. ucast (pending mctx ! i) :: u32;
         l = (if pending_len mctx = 0 then mic_l mctx XOR 0x5a
              else if pending_len mctx = 1 then mic_l mctx XOR (d 0 OR 0x5a00)
              else if pending_len mctx = 2 then mic_l mctx XOR (d 0 OR push_bit 8 (d 1) OR 0x5a0000)
              else if pending_len mctx = 3 then
                mic_l mctx XOR (d 0 OR push_bit 8 (d 1) OR push_bit 16 (d 2) OR 0x5a000000)
              else mic_l mctx);
         (l, r) = michael_block l (mic_r mctx);
         (l, r) = michael_block l r
     in put_le32 l @ put_le32 r)"

section \<open>The code of a message\<close>

text \<open>
  The specification: the message is followed by the byte \<open>0x5a\<close> and four to seven zeros up to a
  word boundary, and every word is added to \<open>l\<close> before a run of the block function.
\<close>

definition michael_pad :: "bytes \<Rightarrow> bytes" where
  "michael_pad M = M @ [0x5a] @ replicate (7 - length M mod 4) 0"

fun michael_words :: "u32 \<Rightarrow> u32 \<Rightarrow> u32 list \<Rightarrow> u32 \<times> u32" where
  "michael_words l r [] = (l, r)"
| "michael_words l r (w # ws) = (let (l, r) = michael_block (l XOR w) r in michael_words l r ws)"

definition michael_mic :: "michael_mic_ctx \<Rightarrow> bytes \<Rightarrow> bytes" where
  "michael_mic ctx M =
    (let (l, r) = michael_words (key_l ctx) (key_r ctx) (le32_words (michael_pad M))
     in put_le32 l @ put_le32 r)"

section \<open>Correctness\<close>

definition michael_absorbed :: "michael_mic_ctx \<Rightarrow> bytes \<Rightarrow> michael_mic_desc_ctx \<Rightarrow> bool" where
  "michael_absorbed ctx M mctx \<longleftrightarrow> length (pending mctx) = 4 \<and> pending_len mctx = length M mod 4 \<and>
    take (length M mod 4) (pending mctx) = leftover 4 M \<and>
    (mic_l mctx, mic_r mctx) = michael_words (key_l ctx) (key_r ctx) (map get_le32 (blocks 4 M))"

lemma michael_words_append:
  "michael_words l r (xs @ ys) = (case michael_words l r xs of (l', r') \<Rightarrow> michael_words l' r' ys)"
  by (induction xs arbitrary: l r) (simp_all split: prod.split)

lemma blocks_Cons4: "blocks 4 (a # b # c # d # xs) = [a, b, c, d] # blocks 4 xs"
  using blocks_Cons [of 4 "[a, b, c, d]" xs] by simp

lemma leftover_Cons4: "leftover 4 (a # b # c # d # xs) = leftover 4 xs"
  using leftover_Cons [of 4 "[a, b, c, d]" xs] by simp

lemma michael_loop_result:
  "michael_loop l r data =
    (case michael_words l r (map get_le32 (blocks 4 data)) of (l', r') \<Rightarrow> (l', r', leftover 4 data))"
  by (induction l r data rule: michael_loop.induct)
    (simp_all add: blocks_Cons4 leftover_Cons4 split: prod.split)

lemma michael_rest_absorbs:
  assumes "length (pending mctx) = 4" "pending_len mctx = 0" and M: "4 dvd length M"
    and st: "(mic_l mctx, mic_r mctx) = michael_words (key_l ctx) (key_r ctx) (map get_le32 (blocks 4 M))"
  shows "michael_absorbed ctx (M @ data) (michael_rest mctx data)"
proof -
  have l: "leftover 4 M = []" using M by (auto simp: leftover_def)
  have b: "blocks 4 (M @ data) = blocks 4 M @ blocks 4 data" "leftover 4 (M @ data) = leftover 4 data"
    using blocks_append [of 4 M data] l by simp_all
  have len: "(length M + length data) mod 4 = length data mod 4" using M by presburger
  obtain l' r' where w: "michael_words (mic_l mctx) (mic_r mctx) (map get_le32 (blocks 4 data)) = (l', r')"
    by fastforce
  have nil: "leftover 4 data = [] \<longleftrightarrow> length data mod 4 = 0"
    using length_leftover [of 4 data] by (metis length_0_conv zero_less_numeral)
  have "length (leftover 4 data) \<le> length (pending mctx)" using assms(1) by simp
  from memcpy_at_0 [OF this] show ?thesis
    using assms(1,2) w
    by (auto simp: michael_absorbed_def michael_rest_def michael_loop_result b len st [symmetric]
      michael_words_append Let_def nil)
qed

lemma michael_update_absorbs:
  assumes "michael_absorbed ctx M mctx"
  shows "michael_absorbed ctx (M @ data) (michael_update mctx data)"
proof -
  let ?o = "length M mod 4" and ?rest = "leftover 4 M"
  have s: "length (pending mctx) = 4" "pending_len mctx = ?o" "take ?o (pending mctx) = ?rest"
    "(mic_l mctx, mic_r mctx) = michael_words (key_l ctx) (key_r ctx) (map get_le32 (blocks 4 M))"
    using assms by (simp_all add: michael_absorbed_def)
  have o: "?o < 4" "length ?rest = ?o" by simp_all
  show ?thesis
  proof (cases "?o = 0")
    case True
    then show ?thesis using michael_rest_absorbs [of mctx M ctx data] s by (auto simp: michael_update_def)
  next
    case nonzero: False
    show ?thesis
    proof (cases "length data < 4 - ?o")
      case True
      then have short: "length (?rest @ data) < 4" using o by simp
      have b: "blocks 4 (M @ data) = blocks 4 M" "leftover 4 (M @ data) = ?rest @ data"
        using blocks_append [of 4 M data] short by simp_all
      have "(length M + length data) mod 4 = ?o + length data"
        using arg_cong [OF b(2), of length] o by simp
      moreover have "michael_update mctx data = mctx\<lparr>pending := memcpy_at (pending mctx) ?o data,
          pending_len := ?o + length data\<rparr>"
        using True nonzero by (simp add: michael_update_def s(2) Let_def)
      ultimately show ?thesis
        using True s b take_memcpy_at [of ?o "pending mctx" data] by (simp add: michael_absorbed_def)
    next
      case False
      let ?w = "?rest @ take (4 - ?o) data" and ?d = "drop (4 - ?o) data"
      have full: "length ?w = 4" using False o by simp
      have p: "memcpy_at (pending mctx) ?o (take (4 - ?o) data) = ?w"
        using False o s by (subst memcpy_at_full) simp_all
      have b: "blocks 4 (M @ take (4 - ?o) data) = blocks 4 M @ [?w]"
        using blocks_append [of 4 M "take (4 - ?o) data"] blocks_single [of 4 ?w] full by simp
      have dvd: "4 dvd length (M @ take (4 - ?o) data)"
      proof -
        have "length (M @ take (4 - ?o) data) = length M + (4 - ?o)" using False by simp
        then show ?thesis by presburger
      qed
      obtain l' r' where w: "michael_block (mic_l mctx XOR get_le32 ?w) (mic_r mctx) = (l', r')"
        by fastforce
      let ?m = "mctx\<lparr>pending := ?w, mic_l := l', mic_r := r', pending_len := 0\<rparr>"
      have "michael_update mctx data = michael_rest ?m ?d"
        using False nonzero o by (simp add: michael_update_def s(2) Let_def p w)
      moreover have "michael_absorbed ctx ((M @ take (4 - ?o) data) @ ?d) (michael_rest ?m ?d)"
        by (rule michael_rest_absorbs)
          (use full dvd in \<open>simp_all add: b michael_words_append s(4) [symmetric] w\<close>)
      ultimately show ?thesis by simp
    qed
  qed
qed

lemma get_le32_padded:
  "get_le32 [a, 0x5a, 0, 0] = ucast a OR 0x5a00"
  "get_le32 [a, b, 0x5a, 0] = ucast a OR push_bit 8 (ucast b) OR 0x5a0000"
  "get_le32 [a, b, c, 0x5a] = ucast a OR push_bit 8 (ucast b) OR push_bit 16 (ucast c) OR 0x5a000000"
  "get_le32 [0x5a, 0, 0, 0] = 0x5a"
  by (simp_all add: get_le32_def push_bit_or)

lemma short_list_cases:
  assumes "length xs < 4"
  shows "xs = [] \<or> (\<exists>a. xs = [a]) \<or> (\<exists>a b. xs = [a, b]) \<or> (\<exists>a b c. xs = [a, b, c])"
proof -
  have "length xs = 0 \<or> length xs = Suc 0 \<or> length xs = Suc (Suc 0) \<or> length xs = Suc (Suc (Suc 0))"
    using assms by linarith
  then show ?thesis unfolding length_Suc_conv by auto
qed

lemma michael_tail:
  "length r < 4 \<Longrightarrow> r @ [0x5a] @ replicate (7 - length r) 0 = take 4 (r @ [0x5a, 0, 0, 0]) @ [0, 0, 0, 0]"
  by (drule short_list_cases, elim disjE exE) (simp_all add: numeral_eq_Suc)

lemma michael_last_word:
  assumes "length xs < 4"
  shows "get_le32 (take 4 (xs @ [0x5a, 0, 0, 0])) =
    (let d = \<lambda>i. ucast (xs ! i) :: u32 in
     if length xs = 0 then 0x5a else if length xs = 1 then d 0 OR 0x5a00
     else if length xs = 2 then d 0 OR push_bit 8 (d 1) OR 0x5a0000
     else d 0 OR push_bit 8 (d 1) OR push_bit 16 (d 2) OR 0x5a000000)"
proof -
  show ?thesis
    using short_list_cases [OF assms] by (elim disjE exE) (simp_all add: get_le32_padded)
qed

lemma michael_final_mic:
  assumes "michael_absorbed ctx M mctx"
  shows "michael_final mctx = michael_mic ctx M"
proof -
  let ?o = "length M mod 4" and ?rest = "leftover 4 M"
  have s: "length (pending mctx) = 4" "pending_len mctx = ?o" "take ?o (pending mctx) = ?rest"
    "(mic_l mctx, mic_r mctx) = michael_words (key_l ctx) (key_r ctx) (map get_le32 (blocks 4 M))"
    using assms by (simp_all add: michael_absorbed_def)
  have o: "?o < 4" "length ?rest = ?o" by simp_all
  let ?w = "take 4 (?rest @ [0x5a, 0, 0, 0])"
  have "?rest @ [0x5a] @ replicate (7 - ?o) 0 = ?w @ [0, 0, 0, 0]"
    using michael_tail [of ?rest] o by simp
  then have "blocks 4 (michael_pad M) = blocks 4 M @ [?w, [0, 0, 0, 0]]"
    using blocks_append [of 4 M] blocks_Cons [of 4 ?w "[0, 0, 0, 0]"] o
    by (simp add: michael_pad_def blocks_single)
  then have pad: "le32_words (michael_pad M) = map get_le32 (blocks 4 M) @ [get_le32 ?w, 0]"
    by (simp add: le32_words_def get_le32_def)
  have nth: "pending mctx ! i = ?rest ! i" if "i < ?o" for i
    using that by (simp add: s(3) [symmetric])
  have word: "get_le32 ?w = (let d = \<lambda>i. ucast (pending mctx ! i) :: u32 in
     if ?o = 0 then 0x5a else if ?o = 1 then d 0 OR 0x5a00
     else if ?o = 2 then d 0 OR push_bit 8 (d 1) OR 0x5a0000
     else d 0 OR push_bit 8 (d 1) OR push_bit 16 (d 2) OR 0x5a000000)"
    using michael_last_word [of ?rest] o by (auto simp: Let_def nth)
  have "?o = 0 \<or> ?o = 1 \<or> ?o = 2 \<or> ?o = 3" using o(1) by auto
  then have "michael_final mctx = (let (l, r) = michael_block (mic_l mctx XOR get_le32 ?w) (mic_r mctx);
      (l, r) = michael_block l r in put_le32 l @ put_le32 r)"
    unfolding word by (elim disjE) (simp_all add: michael_final_def s(2) Let_def)
  then show ?thesis
    by (simp add: michael_mic_def pad michael_words_append s(4) [symmetric] split_def Let_def)
qed

interpretation michael_stream: stream_hash "michael_init ctx" michael_update michael_final
    "michael_absorbed ctx" "michael_mic ctx" for ctx
  by unfold_locales (auto simp: michael_update_absorbs michael_final_mic,
    simp add: michael_absorbed_def michael_init_def)

text \<open>The Michael code of a message does not depend on how the message is cut into updates: it is
  the fold of the block function over the words of the message padded with \<open>0x5a\<close> and four to seven
  zeros.\<close>

theorem michael_streams:
  "michael_final (foldl michael_update (michael_init ctx) ds) = michael_mic ctx (concat ds)"
  by (rule michael_stream.chunks_digest)

end
