(* ===== verification/Hmac.thy ===== *)
theory Hmac
  imports MdHash
begin

text \<open>
  HMAC (\<open>hmac.c\<close>) over any synchronous hash (\<open>shash.c\<close>). A hash is a record of its operations,
  each of which may fail with an error code, with its block, digest and state sizes; exporting and
  importing move the partial state of a request. The two pad bytes are constants of a header
  outside the repository and the flag \<open>fips_enabled\<close> is a variable of the kernel: both are
  arguments. The locale \<open>shash\<close> is what HMAC relies on; MD4, MD5 and RIPEMD-160 interpret it.
\<close>

section \<open>Hashes\<close>

record ('s, 'e) shash_alg =
  sh_init :: "errno + 's"
  sh_update :: "'s \<Rightarrow> bytes \<Rightarrow> errno + 's"
  sh_final :: "'s \<Rightarrow> errno + bytes"
  sh_export :: "'s \<Rightarrow> errno + 'e"
  sh_import :: "'e \<Rightarrow> errno + 's"
  sh_blocksize :: nat
  sh_digestsize :: nat
  sh_statesize :: nat
  sh_needs_key :: bool

definition shash_default_finup :: "('s, 'e) shash_alg \<Rightarrow> 's \<Rightarrow> bytes \<Rightarrow> errno + bytes" where
  "shash_default_finup alg desc data = bind_err (sh_update alg desc data) (sh_final alg)"

definition shash_default_digest :: "('s, 'e) shash_alg \<Rightarrow> bytes \<Rightarrow> errno + bytes" where
  "shash_default_digest alg data = bind_err (sh_init alg) (\<lambda>desc. shash_default_finup alg desc data)"

section \<open>HMAC\<close>

definition hmac_create :: "('s, 'e) shash_alg \<Rightarrow> errno option" where
  "hmac_create salg =
    (if sh_needs_key salg then Some EINVAL
     else if sh_digestsize salg > sh_blocksize salg \<or> sh_statesize salg < sh_blocksize salg then Some EINVAL
     else None)"

text \<open>The two halves of \<open>tctx->pads\<close> hold the padded key first and the exported states at the end.\<close>

definition hmac_pads :: "u8 \<Rightarrow> u8 \<Rightarrow> ('s, 'e) shash_alg \<Rightarrow> bytes \<Rightarrow> errno + bytes \<times> bytes" where
  "hmac_pads HMAC_IPAD_VALUE HMAC_OPAD_VALUE hash inkey =
    bind_err
      (if length inkey > sh_blocksize hash then
         bind_err (shash_default_digest hash inkey) (\<lambda>ipad. Inr (take (sh_digestsize hash) ipad))
       else Inr inkey)
      (\<lambda>key. let ipad = key @ replicate (sh_blocksize hash - length key) 0; opad = ipad
        in Inr (map ((XOR) HMAC_IPAD_VALUE) ipad, map ((XOR) HMAC_OPAD_VALUE) opad))"

definition hmac_setkey :: "u8 \<Rightarrow> u8 \<Rightarrow> bool \<Rightarrow> ('s, 'e) shash_alg \<Rightarrow> bytes \<Rightarrow> errno + 'e \<times> 'e" where
  "hmac_setkey HMAC_IPAD_VALUE HMAC_OPAD_VALUE fips_enabled hash inkey =
    (if fips_enabled \<and> length inkey < 112 div 8 then Inl EINVAL
     else bind_err (hmac_pads HMAC_IPAD_VALUE HMAC_OPAD_VALUE hash inkey) (\<lambda>(ipad, opad).
       bind_err (sh_init hash) (\<lambda>shash.
       bind_err (sh_update hash shash ipad) (\<lambda>shash.
       bind_err (sh_export hash shash) (\<lambda>ipad.
       bind_err (sh_init hash) (\<lambda>shash.
       bind_err (sh_update hash shash opad) (\<lambda>shash.
       bind_err (sh_export hash shash) (\<lambda>opad. Inr (ipad, opad)))))))))"

definition hmac_export :: "('s, 'e) shash_alg \<Rightarrow> 's \<Rightarrow> errno + 'e" where
  "hmac_export hash = sh_export hash"

definition hmac_import :: "('s, 'e) shash_alg \<Rightarrow> 'e \<Rightarrow> errno + 's" where
  "hmac_import hash = sh_import hash"

definition hmac_init :: "('s, 'e) shash_alg \<Rightarrow> 'e \<times> 'e \<Rightarrow> errno + 's" where
  "hmac_init hash pads = hmac_import hash (fst pads)"

definition hmac_update :: "('s, 'e) shash_alg \<Rightarrow> 's \<Rightarrow> bytes \<Rightarrow> errno + 's" where
  "hmac_update hash desc data = sh_update hash desc data"

definition hmac_final :: "('s, 'e) shash_alg \<Rightarrow> 'e \<times> 'e \<Rightarrow> 's \<Rightarrow> errno + bytes" where
  "hmac_final hash pads desc =
    bind_err (sh_final hash desc) (\<lambda>out.
    bind_err (sh_import hash (snd pads)) (\<lambda>desc. shash_default_finup hash desc out))"

definition hmac_finup :: "('s, 'e) shash_alg \<Rightarrow> 'e \<times> 'e \<Rightarrow> 's \<Rightarrow> bytes \<Rightarrow> errno + bytes" where
  "hmac_finup hash pads desc data =
    bind_err (shash_default_finup hash desc data) (\<lambda>out.
    bind_err (sh_import hash (snd pads)) (\<lambda>desc. shash_default_finup hash desc out))"

text \<open>A request: the key is set, then the chunks are hashed one after the other.\<close>

definition hmac_chunks :: "('s, 'e) shash_alg \<Rightarrow> 'e \<times> 'e \<Rightarrow> bytes list \<Rightarrow> errno + 's" where
  "hmac_chunks hash pads ds =
    foldl (\<lambda>r d. bind_err r (\<lambda>desc. hmac_update hash desc d)) (hmac_init hash pads) ds"

definition hmac_run :: "u8 \<Rightarrow> u8 \<Rightarrow> bool \<Rightarrow> ('s, 'e) shash_alg \<Rightarrow> bytes \<Rightarrow> bytes list \<Rightarrow> errno + bytes" where
  "hmac_run ip op fips hash key ds =
    bind_err (hmac_setkey ip op fips hash key) (\<lambda>pads.
    bind_err (hmac_chunks hash pads ds) (hmac_final hash pads))"

definition hmac_run_finup :: "u8 \<Rightarrow> u8 \<Rightarrow> bool \<Rightarrow> ('s, 'e) shash_alg \<Rightarrow> bytes \<Rightarrow> bytes list \<Rightarrow> bytes \<Rightarrow> errno + bytes" where
  "hmac_run_finup ip op fips hash key ds data =
    bind_err (hmac_setkey ip op fips hash key) (\<lambda>pads.
    bind_err (hmac_chunks hash pads ds) (\<lambda>desc. hmac_finup hash pads desc data))"

text \<open>The specification, for a hash function \<open>H\<close> with blocks of \<open>b\<close> bytes.\<close>

definition hmac_key :: "(bytes \<Rightarrow> bytes) \<Rightarrow> nat \<Rightarrow> bytes \<Rightarrow> bytes" where
  "hmac_key H b key = (let k = (if length key > b then H key else key) in k @ replicate (b - length k) 0)"

definition hmac_spec :: "u8 \<Rightarrow> u8 \<Rightarrow> (bytes \<Rightarrow> bytes) \<Rightarrow> nat \<Rightarrow> bytes \<Rightarrow> bytes \<Rightarrow> bytes" where
  "hmac_spec ip op H b key M =
    H (map ((XOR) op) (hmac_key H b key) @ H (map ((XOR) ip) (hmac_key H b key) @ M))"

section \<open>The interface of a hash\<close>

locale shash =
  fixes alg :: "('s, 'e) shash_alg"
    and absorbs :: "bytes \<Rightarrow> 's \<Rightarrow> bool"
    and digest :: "bytes \<Rightarrow> bytes"
  assumes init_ok: "\<exists>s. sh_init alg = Inr s \<and> absorbs [] s"
    and update_ok: "absorbs M s \<Longrightarrow> \<exists>s'. sh_update alg s d = Inr s' \<and> absorbs (M @ d) s'"
    and final_ok: "absorbs M s \<Longrightarrow> sh_final alg s = Inr (digest M)"
    and export_ok: "absorbs M s \<Longrightarrow>
      \<exists>e s'. sh_export alg s = Inr e \<and> sh_import alg e = Inr s' \<and> absorbs M s'"
    and length_digest: "length (digest M) = sh_digestsize alg"

context shash
begin

lemma finup_ok: "absorbs M s \<Longrightarrow> shash_default_finup alg s d = Inr (digest (M @ d))"
  using update_ok [of M s d] final_ok by (auto simp: shash_default_finup_def)

lemma digest_ok: "shash_default_digest alg d = Inr (digest d)"
  using init_ok finup_ok [of "[]"] by (auto simp: shash_default_digest_def)

lemma pads_ok: "hmac_pads ip op alg key =
    Inr (map ((XOR) ip) (hmac_key digest (sh_blocksize alg) key), map ((XOR) op) (hmac_key digest (sh_blocksize alg) key))"
  by (simp add: hmac_pads_def hmac_key_def digest_ok length_digest Let_def)

text \<open>Both pads hold an exported state that has absorbed one masked key block.\<close>

lemma setkey_ok:
  assumes "\<not> (fips \<and> length key < 14)"
  shows "\<exists>pads si so. hmac_setkey ip op fips alg key = Inr pads \<and>
    sh_import alg (fst pads) = Inr si \<and> absorbs (map ((XOR) ip) (hmac_key digest (sh_blocksize alg) key)) si \<and>
    sh_import alg (snd pads) = Inr so \<and> absorbs (map ((XOR) op) (hmac_key digest (sh_blocksize alg) key)) so"
proof -
  have pad: "\<exists>e s s' s''. sh_init alg = Inr s \<and> sh_update alg s k = Inr s' \<and> sh_export alg s' = Inr e \<and>
      sh_import alg e = Inr s'' \<and> absorbs k s''" for k
    using init_ok update_ok [of "[]" _ k] export_ok [of k] by simp metis
  let ?K = "hmac_key digest (sh_blocksize alg) key"
  obtain s si ei si' where "sh_init alg = Inr s" "sh_update alg s (map ((XOR) ip) ?K) = Inr si"
      "sh_export alg si = Inr ei" "sh_import alg ei = Inr si'" "absorbs (map ((XOR) ip) ?K) si'"
    using pad by blast
  moreover obtain s2 so eo so' where "sh_init alg = Inr s2" "sh_update alg s2 (map ((XOR) op) ?K) = Inr so"
      "sh_export alg so = Inr eo" "sh_import alg eo = Inr so'" "absorbs (map ((XOR) op) ?K) so'"
    using pad by blast
  ultimately show ?thesis
    using assms by (intro exI [of _ "(ei, eo)"] exI [of _ si'] exI [of _ so'])
      (simp add: hmac_setkey_def pads_ok)
qed

lemma chunks_ok:
  assumes "sh_import alg (fst pads) = Inr si" "absorbs M si"
  shows "\<exists>s. hmac_chunks alg pads ds = Inr s \<and> absorbs (M @ concat ds) s"
proof (induction ds rule: rev_induct)
  case (snoc d ds)
  then obtain s where "hmac_chunks alg pads ds = Inr s" "absorbs (M @ concat ds) s" by blast
  with update_ok [OF this(2), of d] show ?case by (auto simp: hmac_chunks_def hmac_update_def)
qed (use assms in \<open>simp add: hmac_chunks_def hmac_init_def hmac_import_def\<close>)

lemma run_ok:
  assumes "\<not> (fips \<and> length key < 14)"
  shows "hmac_run ip op fips alg key ds =
      Inr (hmac_spec ip op digest (sh_blocksize alg) key (concat ds)) \<and>
    hmac_run_finup ip op fips alg key ds d =
      Inr (hmac_spec ip op digest (sh_blocksize alg) key (concat ds @ d))"
proof -
  obtain pads si so where p: "hmac_setkey ip op fips alg key = Inr pads"
      "sh_import alg (fst pads) = Inr si" "absorbs (map ((XOR) ip) (hmac_key digest (sh_blocksize alg) key)) si"
      "sh_import alg (snd pads) = Inr so" "absorbs (map ((XOR) op) (hmac_key digest (sh_blocksize alg) key)) so"
    using setkey_ok [OF assms] by blast
  obtain s where s: "hmac_chunks alg pads ds = Inr s"
      "absorbs (map ((XOR) ip) (hmac_key digest (sh_blocksize alg) key) @ concat ds) s"
    using chunks_ok [OF p(2,3)] by blast
  show ?thesis
    by (simp add: hmac_run_def hmac_run_finup_def p(1,4) s(1) hmac_final_def hmac_finup_def final_ok [OF s(2)]
      finup_ok [OF s(2)] finup_ok [OF p(5)] hmac_spec_def)
qed

lemma run_spec:
  "hmac_run ip op fips alg key ds =
    (if fips \<and> length key < 14 then Inl EINVAL
     else Inr (hmac_spec ip op digest (sh_blocksize alg) key (concat ds)))"
  "hmac_run_finup ip op fips alg key ds d =
    (if fips \<and> length key < 14 then Inl EINVAL
     else Inr (hmac_spec ip op digest (sh_blocksize alg) key (concat ds @ d)))"
  using run_ok [of fips key ip op ds d]
  by (simp_all add: hmac_run_def hmac_run_finup_def hmac_setkey_def)

end

section \<open>The hashes behind HMAC\<close>

text \<open>\<open>crypto_shash_export\<close> and \<open>crypto_shash_import\<close> copy the request context.\<close>

definition md_shash :: "md_transform \<Rightarrow> u32 list \<Rightarrow> (md_ctx, md_ctx) shash_alg" where
  "md_shash tr H0 = \<lparr>sh_init = Inr (md_init H0), sh_update = \<lambda>s d. Inr (md_update tr s d),
    sh_final = \<lambda>s. Inr (md_final tr s), sh_export = Inr, sh_import = Inr,
    sh_blocksize = 64, sh_digestsize = 16, sh_statesize = 88, sh_needs_key = False\<rparr>"

definition md4_alg :: "(md_ctx, md_ctx) shash_alg" where
  "md4_alg = md_shash md4_transform MD4_H"

definition md5_alg :: "u32 list \<Rightarrow> (md_ctx, md_ctx) shash_alg" where
  "md5_alg MD5_H = md_shash md5_transform MD5_H"

definition rmd160_alg :: "(md_ctx, md_ctx) shash_alg" where
  "rmd160_alg = \<lparr>sh_init = Inr rmd160_init, sh_update = \<lambda>s d. Inr (rmd160_update s d),
    sh_final = \<lambda>s. Inr (rmd160_final s), sh_export = Inr, sh_import = Inr,
    sh_blocksize = 64, sh_digestsize = 20, sh_statesize = 96, sh_needs_key = False\<rparr>"

lemma length_le32_bytes [simp]: "length (le32_bytes ws) = 4 * length ws"
  by (induction ws) (simp_all add: le32_bytes_def)

lemma md_chain_last: "bs \<noteq> [] \<Longrightarrow> md_chain tr h bs = tr (md_chain tr h (butlast bs)) (le32_words (last bs))"
  by (cases bs rule: rev_cases) simp_all

lemma blocks_md_pad: "blocks 64 (md_pad M) \<noteq> []"
proof -
  have "64 \<le> length M + 9 + (119 - length M mod 64) mod 64"
  proof (cases "length M < 56")
    case True
    then have "119 - length M mod 64 = (55 - length M) + 64" by simp
    then have "(119 - length M mod 64) mod 64 = 55 - length M" using True by (simp only: mod_add_self2) simp
    with True show ?thesis by simp
  qed simp
  then have "64 \<le> length (md_pad M)" by (simp add: md_pad_def)
  then show ?thesis by (simp add: blocks_step)
qed

lemma length_md_digest:
  assumes "\<And>h ws. length (tr h ws) = n"
  shows "length (md_digest tr H0 M) = 4 * n"
  by (simp add: md_digest_def md_chain_last [OF blocks_md_pad] assms)

lemma length_md_transforms [simp]: "length (md4_transform h ws) = 4" "length (md5_transform h ws) = 4"
  by (simp_all add: md4_transform_def md5_transform_def md_add_regs_def split_def)

lemma md_shash: "shash (md_shash tr H0) (md_absorbed tr H0) (md_digest tr H0)"
  if "\<And>h ws. length (tr h ws) = 4"
  by unfold_locales
    (auto simp: md_shash_def md_init_absorbs md_update_absorbs md_final_block length_md_digest [OF that])

interpretation md4_shash: shash md4_alg "md_absorbed md4_transform MD4_H" "md_digest md4_transform MD4_H"
  unfolding md4_alg_def by (rule md_shash) simp

interpretation md5_shash: shash "md5_alg H" "md_absorbed md5_transform H" "md_digest md5_transform H" for H
  unfolding md5_alg_def by (rule md_shash) simp

interpretation rmd160_shash: shash rmd160_alg "md_absorbed rmd160_transform RMD_H" "md_digest rmd160_transform RMD_H"
  by unfold_locales (auto simp: rmd160_alg_def rmd160_stream.start_absorbs rmd160_stream.upd_absorbs
    rmd160_stream.fin_digest length_md_digest [of _ 5])

lemmas hmac_of_md = md4_shash.run_spec md5_shash.run_spec rmd160_shash.run_spec

lemma md_blocksize [simp]: "sh_blocksize md4_alg = 64" "sh_blocksize (md5_alg H) = 64" "sh_blocksize rmd160_alg = 64"
  by (simp_all add: md4_alg_def md5_alg_def md_shash_def rmd160_alg_def)

text \<open>C11: HMAC over MD4, MD5 and RIPEMD-160, with its inner and outer states prepared when the key is
  set, computes the keyed hash of the message for every chunking, through \<open>final\<close> and through
  \<open>finup\<close>; keys longer than a block are hashed first, and in FIPS mode a key below 112 bits is refused.\<close>

theorem hmac_correct:
  "hmac_run ip op fips md4_alg key ds =
     (if fips \<and> length key < 14 then Inl EINVAL
      else Inr (hmac_spec ip op (md_digest md4_transform MD4_H) 64 key (concat ds))) \<and>
   hmac_run ip op fips (md5_alg H) key ds =
     (if fips \<and> length key < 14 then Inl EINVAL
      else Inr (hmac_spec ip op (md_digest md5_transform H) 64 key (concat ds))) \<and>
   hmac_run_finup ip op fips rmd160_alg key ds d =
     (if fips \<and> length key < 14 then Inl EINVAL
      else Inr (hmac_spec ip op (md_digest rmd160_transform RMD_H) 64 key (concat ds @ d)))"
  by (simp add: hmac_of_md)

end
