(* ===== verification/Cmac.thy ===== *)
theory Cmac
  imports HashStream Seed Tea
begin

text \<open>
  The block cipher based message authentication codes CMAC (\<open>cmac.c\<close>) and XCBC (\<open>xcbc.c\<close>). The
  update and final routines of the two files have the same text and are modelled once
  (\<open>mac_update\<close>, \<open>mac_final\<close>); they differ in the constants the key sets up. The child cipher is an
  argument: its key setting, which may fail, and its encryption of one block under a key.

  The last block is withheld until \<open>final\<close>, also when it is full, so these states are not those of
  the hashes; they are the split of the message into \<open>sent\<close> and \<open>held\<close>. The sum of the lengths in
  the first test of the update is a 32-bit sum: where it wraps, \<open>memcpy\<close> writes past the buffer and
  the result of the model is \<open>None\<close>.
\<close>

section \<open>The model\<close>

record mac_desc_ctx =
  mac_len :: nat
  odds :: bytes
  prev :: bytes

definition mac_init :: "nat \<Rightarrow> mac_desc_ctx" where
  "mac_init bs = \<lparr>mac_len = 0, odds = replicate bs 0, prev = replicate bs 0\<rparr>"

function mac_loop :: "nat \<Rightarrow> (bytes \<Rightarrow> bytes) \<Rightarrow> bytes \<Rightarrow> bytes \<Rightarrow> bytes \<times> bytes" where
  "mac_loop bs enc pr p =
    (if 0 < bs \<and> length p > bs then mac_loop bs enc (enc (xor_bytes pr (take bs p))) (drop bs p)
     else (pr, p))"
  by auto
termination by (relation "measure (\<lambda>(bs, enc, pr, p). length p)") auto

declare mac_loop.simps [simp del]

definition mac_update :: "nat \<Rightarrow> (bytes \<Rightarrow> bytes) \<Rightarrow> mac_desc_ctx \<Rightarrow> bytes \<Rightarrow> mac_desc_ctx option" where
  "mac_update bs enc ctx p =
    (if (mac_len ctx + length p) mod 2 ^ 32 \<le> bs then
       (if mac_len ctx + length p \<le> length (odds ctx) then
          Some (ctx\<lparr>odds := memcpy_at (odds ctx) (mac_len ctx) p, mac_len := mac_len ctx + length p\<rparr>)
        else None)
     else
       let fill = bs - mac_len ctx;
           od = memcpy_at (odds ctx) (mac_len ctx) (take fill p);
           pr = enc (xor_bytes (prev ctx) od);
           (pr, p) = mac_loop bs enc pr (drop fill p)
       in Some (if 0 < length p then \<lparr>mac_len = length p, odds = memcpy_at od 0 p, prev = pr\<rparr>
                else \<lparr>mac_len = 0, odds = od, prev = pr\<rparr>))"

definition mac_final :: "nat \<Rightarrow> (bytes \<Rightarrow> bytes) \<Rightarrow> bytes \<Rightarrow> mac_desc_ctx \<Rightarrow> bytes" where
  "mac_final bs enc consts ctx =
    (let (od, offset) =
           (if mac_len ctx \<noteq> bs then
              (memcpy_at (odds ctx) (mac_len ctx) (0x80 # replicate (bs - mac_len ctx - 1) 0), bs)
            else (odds ctx, 0));
         pr = xor_bytes (prev ctx) od;
         pr = xor_bytes pr (take bs (drop offset consts))
     in enc pr)"

definition crypto_cmac_digest_setkey ::
    "nat \<Rightarrow> (bytes \<Rightarrow> errno + 'k) \<Rightarrow> ('k \<Rightarrow> bytes \<Rightarrow> bytes) \<Rightarrow> bytes \<Rightarrow> errno + 'k \<times> bytes" where
  "crypto_cmac_digest_setkey bs child_setkey encrypt inkey =
    (case child_setkey inkey of
       Inl err \<Rightarrow> Inl err
     | Inr child \<Rightarrow>
       (let consts = encrypt child (replicate bs 0) in
        if bs = 16 then
          let c0 = get_be64 (drop 8 consts); c1 = get_be64 consts;
              msb_mask = (if bit c1 63 then 0x87 else 0);
              c1 = push_bit 1 c1 OR drop_bit 63 c0; c0 = push_bit 1 c0 XOR msb_mask;
              k1 = put_be64 c1 @ put_be64 c0;
              msb_mask = (if bit c1 63 then 0x87 else 0);
              c1 = push_bit 1 c1 OR drop_bit 63 c0; c0 = push_bit 1 c0 XOR msb_mask;
              k2 = put_be64 c1 @ put_be64 c0
          in Inr (child, k1 @ k2)
        else if bs = 8 then
          let c0 = get_be64 consts;
              msb_mask = (if bit c0 63 then 0x1B else 0);
              c0 = push_bit 1 c0 XOR msb_mask;
              k1 = put_be64 c0;
              msb_mask = (if bit c0 63 then 0x1B else 0);
              c0 = push_bit 1 c0 XOR msb_mask;
              k2 = put_be64 c0
          in Inr (child, k1 @ k2)
        else Inr (child, consts @ replicate bs 0)))"

definition crypto_cmac_digest_init :: "nat \<Rightarrow> mac_desc_ctx" where
  "crypto_cmac_digest_init = mac_init"

definition crypto_cmac_digest_update :: "nat \<Rightarrow> (bytes \<Rightarrow> bytes) \<Rightarrow> mac_desc_ctx \<Rightarrow> bytes \<Rightarrow> mac_desc_ctx option" where
  "crypto_cmac_digest_update = mac_update"

definition crypto_cmac_digest_final :: "nat \<Rightarrow> (bytes \<Rightarrow> bytes) \<Rightarrow> bytes \<Rightarrow> mac_desc_ctx \<Rightarrow> bytes" where
  "crypto_cmac_digest_final = mac_final"

text \<open>The block size check of \<open>cmac_create\<close> and of \<open>xcbc_create\<close>.\<close>

definition cmac_create :: "nat \<Rightarrow> errno option" where
  "cmac_create cra_blocksize = (if cra_blocksize = 16 \<or> cra_blocksize = 8 then None else Some EINVAL)"

definition XCBC_BLOCKSIZE :: nat where "XCBC_BLOCKSIZE = 16"

definition xcbc_create :: "nat \<Rightarrow> errno option" where
  "xcbc_create cra_blocksize = (if cra_blocksize \<noteq> XCBC_BLOCKSIZE then Some EINVAL else None)"

definition xcbc_ks :: bytes where
  "xcbc_ks = replicate 16 1 @ replicate 16 2 @ replicate 16 3"

definition crypto_xcbc_digest_setkey ::
    "(bytes \<Rightarrow> errno + 'k) \<Rightarrow> ('k \<Rightarrow> bytes \<Rightarrow> bytes) \<Rightarrow> bytes \<Rightarrow> errno + 'k \<times> bytes" where
  "crypto_xcbc_digest_setkey child_setkey encrypt inkey =
    (case child_setkey inkey of
       Inl err \<Rightarrow> Inl err
     | Inr child \<Rightarrow>
       (let consts0 = encrypt child (take 16 (drop 16 xcbc_ks));
            consts1 = encrypt child (take 16 (drop (16 * 2) xcbc_ks));
            key1 = encrypt child (take 16 xcbc_ks)
        in case child_setkey key1 of
             Inl err \<Rightarrow> Inl err
           | Inr child \<Rightarrow> Inr (child, consts0 @ consts1)))"

definition crypto_xcbc_digest_init :: "nat \<Rightarrow> mac_desc_ctx" where
  "crypto_xcbc_digest_init = mac_init"

definition crypto_xcbc_digest_update :: "nat \<Rightarrow> (bytes \<Rightarrow> bytes) \<Rightarrow> mac_desc_ctx \<Rightarrow> bytes \<Rightarrow> mac_desc_ctx option" where
  "crypto_xcbc_digest_update = mac_update"

definition crypto_xcbc_digest_final :: "nat \<Rightarrow> (bytes \<Rightarrow> bytes) \<Rightarrow> bytes \<Rightarrow> mac_desc_ctx \<Rightarrow> bytes" where
  "crypto_xcbc_digest_final = mac_final"

text \<open>A request: init, one update per chunk, final.\<close>

definition mac_run :: "nat \<Rightarrow> (bytes \<Rightarrow> bytes) \<Rightarrow> bytes \<Rightarrow> bytes list \<Rightarrow> bytes option" where
  "mac_run bs enc consts ds =
    map_option (mac_final bs enc consts) (upd_all (mac_update bs enc) (mac_init bs) ds)"

section \<open>The code of a message\<close>

text \<open>
  The message but its last one to \<open>bs\<close> bytes is chained through the cipher; the last block is
  added to the first constant when it is full, and padded and added to the second when not.
\<close>

definition sent :: "nat \<Rightarrow> bytes \<Rightarrow> bytes" where
  "sent bs M = take ((length M - 1) div bs * bs) M"

definition held :: "nat \<Rightarrow> bytes \<Rightarrow> bytes" where
  "held bs M = drop ((length M - 1) div bs * bs) M"

definition cbc_mac :: "(bytes \<Rightarrow> bytes) \<Rightarrow> bytes \<Rightarrow> bytes list \<Rightarrow> bytes" where
  "cbc_mac enc = foldl (\<lambda>p b. enc (xor_bytes p b))"

definition mac_spec :: "nat \<Rightarrow> (bytes \<Rightarrow> bytes) \<Rightarrow> bytes \<Rightarrow> bytes \<Rightarrow> bytes \<Rightarrow> bytes" where
  "mac_spec bs enc K1 K2 M =
    (let C = cbc_mac enc (replicate bs 0) (blocks bs (sent bs M)); L = held bs M in
     if length L = bs then enc (xor_bytes (xor_bytes C L) K1)
     else enc (xor_bytes (xor_bytes C (L @ [0x80] @ replicate (bs - length L - 1) 0)) K2))"

lemma sent_held: "sent bs M @ held bs M = M"
  by (simp add: sent_def held_def)

lemma sent_held_unique:
  assumes "0 < bs" "bs dvd length S" "length h \<le> bs" "h = [] \<Longrightarrow> S = []"
  shows "sent bs (S @ h) = S \<and> held bs (S @ h) = h"
proof (cases "h = []")
  case False
  obtain k where k: "length S = bs * k" using assms(2) by (rule dvdE)
  have "length h - 1 < bs" using assms(1,3) by simp
  moreover have "length (S @ h) - 1 = (length h - 1) + bs * k" using False k by (cases h) simp_all
  ultimately have "(length (S @ h) - 1) div bs * bs = length S"
    using assms(1) by (simp only: div_mult_self2 k) simp
  then show ?thesis by (simp add: sent_def held_def)
qed (use assms in \<open>simp add: sent_def held_def\<close>)

lemma held_props:
  assumes "0 < bs"
  shows "bs dvd length (sent bs M)" "length (held bs M) \<le> bs" "held bs M = [] \<longleftrightarrow> M = []"
proof -
  let ?n = "length M - 1"
  have n: "?n div bs * bs \<le> ?n" "?n < ?n div bs * bs + bs"
    using assms div_mod_decomp [of ?n bs] mod_less_divisor [of bs ?n] by linarith+
  have "length (sent bs M) = ?n div bs * bs" using n(1) unfolding sent_def length_take by linarith
  then show "bs dvd length (sent bs M)" by simp
  show "length (held bs M) \<le> bs" using n by (simp add: held_def)
  have "?n div bs * bs < length M" if "M \<noteq> []"
  proof -
    have "?n < length M" using that by simp
    with n(1) show ?thesis by linarith
  qed
  then show "held bs M = [] \<longleftrightarrow> M = []" by (auto simp: held_def simp flip: not_less)
qed

lemma blocks_append_whole: "0 < b \<Longrightarrow> b dvd length xs \<Longrightarrow> blocks b (xs @ ys) = blocks b xs @ blocks b ys"
  using blocks_append [of b xs ys] by (auto simp: leftover_def)

lemma cbc_mac_simps [simp]:
  "cbc_mac enc p [] = p" "cbc_mac enc p (b # bs) = cbc_mac enc (enc (xor_bytes p b)) bs"
  "cbc_mac enc p (bs @ cs) = cbc_mac enc (cbc_mac enc p bs) cs"
  by (simp_all add: cbc_mac_def)

lemma mac_loop_result:
  "0 < bs \<Longrightarrow> mac_loop bs enc pr p = (cbc_mac enc pr (blocks bs (sent bs p)), held bs p)"
proof (induction bs enc pr p rule: mac_loop.induct)
  case (1 bs enc pr p)
  show ?case
  proof (cases "length p > bs")
    case True
    let ?t = "take bs p" and ?d = "drop bs p"
    note props = held_props [OF 1(2), of ?d]
    have t: "length ?t = bs" and d: "held bs ?d \<noteq> []" using True props(3) by simp_all
    have "sent bs ((?t @ sent bs ?d) @ held bs ?d) = ?t @ sent bs ?d \<and>
        held bs ((?t @ sent bs ?d) @ held bs ?d) = held bs ?d"
      by (rule sent_held_unique [OF 1(2)]) (use t props d in simp_all)
    moreover have "(?t @ sent bs ?d) @ held bs ?d = p" by (simp add: sent_held)
    ultimately have s: "sent bs p = ?t @ sent bs ?d" "held bs p = held bs ?d" by simp_all
    have IH: "mac_loop bs enc (enc (xor_bytes pr ?t)) ?d =
        (cbc_mac enc (enc (xor_bytes pr ?t)) (blocks bs (sent bs ?d)), held bs ?d)"
      by (rule 1(1)) (use 1(2) True in simp_all)
    show ?thesis
      using True 1(2) by (simp add: mac_loop.simps [of bs enc pr p] IH s blocks_Cons [OF 1(2) t])
  next
    case False
    then have "sent bs p = [] \<and> held bs p = p" using sent_held_unique [of bs "[]" p] 1(2) by simp
    with False 1(2) show ?thesis by (simp add: mac_loop.simps [of bs enc pr p])
  qed
qed

section \<open>Streaming\<close>

definition mac_absorbed :: "nat \<Rightarrow> (bytes \<Rightarrow> bytes) \<Rightarrow> bytes \<Rightarrow> mac_desc_ctx \<Rightarrow> bool" where
  "mac_absorbed bs enc M ctx \<longleftrightarrow> length (odds ctx) = bs \<and> mac_len ctx = length (held bs M) \<and>
    take (length (held bs M)) (odds ctx) = held bs M \<and>
    prev ctx = cbc_mac enc (replicate bs 0) (blocks bs (sent bs M))"

lemma mac_update_absorbs:
  assumes bs: "0 < bs" and wrap: "length d < 2 ^ 32 - bs" and abs: "mac_absorbed bs enc M ctx"
  shows "\<exists>ctx'. mac_update bs enc ctx d = Some ctx' \<and> mac_absorbed bs enc (M @ d) ctx'"
proof -
  let ?h = "held bs M" and ?s = "sent bs M"
  have c: "length (odds ctx) = bs" "mac_len ctx = length ?h" "take (length ?h) (odds ctx) = ?h"
    "prev ctx = cbc_mac enc (replicate bs 0) (blocks bs ?s)"
    using abs by (simp_all add: mac_absorbed_def)
  note M = held_props [OF bs, of M]
  have m: "(length ?h + length d) mod 2 ^ 32 = length ?h + length d"
    using wrap M(2) by (intro mod_less) linarith
  show ?thesis
  proof (cases "length ?h + length d \<le> bs")
    case True
    have "sent bs (?s @ (?h @ d)) = ?s \<and> held bs (?s @ (?h @ d)) = ?h @ d"
      by (rule sent_held_unique [OF bs M(1)]) (use True M(3) in \<open>auto simp: sent_def\<close>)
    moreover have "?s @ (?h @ d) = M @ d" using sent_held [of bs M] by (metis append.assoc)
    ultimately have s: "sent bs (M @ d) = ?s" "held bs (M @ d) = ?h @ d" by simp_all
    have "take (length (?h @ d)) (memcpy_at (odds ctx) (length ?h) d) = ?h @ d"
      using take_memcpy_at [of "length ?h" "odds ctx" d] c M(2) by simp
    then show ?thesis
      using True c m s by (simp add: mac_update_def mac_absorbed_def)
  next
    case False
    let ?k = "bs - length ?h"
    let ?w = "?h @ take ?k d" and ?d = "drop ?k d"
    have w: "length ?w = bs" and d: "?d \<noteq> []" using False M(2) by simp_all
    note D = held_props [OF bs, of ?d]
    have od: "memcpy_at (odds ctx) (length ?h) (take ?k d) = ?w"
      using w c by (subst memcpy_at_full) simp_all
    have "sent bs ((?s @ ?w @ sent bs ?d) @ held bs ?d) = ?s @ ?w @ sent bs ?d \<and>
        held bs ((?s @ ?w @ sent bs ?d) @ held bs ?d) = held bs ?d"
      by (rule sent_held_unique [OF bs]) (use w M D d in \<open>simp_all add: add.assoc [symmetric]\<close>)
    moreover have "(?s @ ?w @ sent bs ?d) @ held bs ?d = M @ d"
      using sent_held [of bs M] sent_held [of bs ?d] by (metis append.assoc append_take_drop_id)
    ultimately have s: "sent bs (M @ d) = ?s @ ?w @ sent bs ?d" "held bs (M @ d) = held bs ?d" by simp_all
    have b: "blocks bs (sent bs (M @ d)) = blocks bs ?s @ ?w # blocks bs (sent bs ?d)"
      using blocks_append_whole [OF bs M(1)] blocks_Cons [OF bs w, of "sent bs ?d"] s(1) by simp
    have "held bs ?d \<noteq> []" "take (length (held bs ?d)) (memcpy_at ?w 0 (held bs ?d)) = held bs ?d"
      using D d w memcpy_at_0 [of "held bs ?d" ?w] by simp_all
    then show ?thesis
      using False c(1,2) w D(2) m unfolding mac_update_def mac_absorbed_def b
      by (simp add: Let_def od mac_loop_result [OF bs] c(4) s(2))
  qed
qed

lemma mac_init_absorbs: "mac_absorbed bs enc [] (mac_init bs)"
  by (simp add: mac_absorbed_def mac_init_def held_def sent_def)

lemma mac_stream: "0 < bs \<Longrightarrow> bounded_stream (mac_init bs) (mac_update bs enc) (2 ^ 32 - bs) (mac_absorbed bs enc)"
  by unfold_locales (simp_all add: mac_init_absorbs mac_update_absorbs)

interpretation mac16: bounded_stream "mac_init 16" "mac_update 16 enc" "2 ^ 32 - 16" "mac_absorbed 16 enc" for enc
  by (rule mac_stream) simp

interpretation mac8: bounded_stream "mac_init 8" "mac_update 8 enc" "2 ^ 32 - 8" "mac_absorbed 8 enc" for enc
  by (rule mac_stream) simp

lemma mac_final_spec:
  assumes "0 < bs" "mac_absorbed bs enc M ctx" "length K1 = bs" "length K2 = bs"
  shows "mac_final bs enc (K1 @ K2) ctx = mac_spec bs enc K1 K2 M"
proof -
  let ?h = "held bs M"
  have c: "length (odds ctx) = bs" "mac_len ctx = length ?h" "take (length ?h) (odds ctx) = ?h"
    "prev ctx = cbc_mac enc (replicate bs 0) (blocks bs (sent bs M))"
    using assms(2) by (simp_all add: mac_absorbed_def)
  show ?thesis
  proof (cases "length ?h = bs")
    case True
    then have "odds ctx = ?h" using c(1,3) by simp
    with True show ?thesis using c(2,4) assms(3) by (simp add: mac_final_def mac_spec_def Let_def)
  next
    case False
    then have "length ?h < bs" using held_props(2) [OF assms(1), of M] by simp
    then have "memcpy_at (odds ctx) (length ?h) (0x80 # replicate (bs - length ?h - 1) 0) =
        ?h @ [0x80] @ replicate (bs - length ?h - 1) 0"
      using c by (subst memcpy_at_full) simp_all
    with False show ?thesis using c(2,4) assms(3,4) by (simp add: mac_final_def mac_spec_def Let_def)
  qed
qed

lemma mac_run_spec:
  assumes bs: "bs = 16 \<or> bs = 8" and ds: "\<forall>d\<in>set ds. length d < 2 ^ 32 - 16"
    and K: "length K1 = bs" "length K2 = bs"
  shows "mac_run bs enc (K1 @ K2) ds = Some (mac_spec bs enc K1 K2 (concat ds))"
proof -
  have "\<forall>d\<in>set ds. length d < 2 ^ 32 - 8" using ds by auto
  then obtain s where "upd_all (mac_update bs enc) (mac_init bs) ds = Some s" "mac_absorbed bs enc (concat ds) s"
    using bs mac16.chunks_absorbed [OF ds, of enc] mac8.chunks_absorbed [of ds enc] by blast
  with mac_final_spec [of bs enc "concat ds" s K1 K2] bs K show ?thesis by (auto simp: mac_run_def)
qed

section \<open>The constants of CMAC\<close>

text \<open>Doubling in the field of \<open>2 ^ 128\<close> and of \<open>2 ^ 64\<close> elements, on whole blocks.\<close>

definition gf_double :: "'a::len word \<Rightarrow> 'a word \<Rightarrow> 'a word" where
  "gf_double g w = push_bit 1 w XOR (if bit w (LENGTH('a) - 1) then g else 0)"

definition get_be128 :: "bytes \<Rightarrow> 128 word" where "get_be128 bs = get_le (rev (take 16 bs))"
definition put_be128 :: "128 word \<Rightarrow> bytes" where "put_be128 w = rev (put_le 16 w)"

definition cmac_const :: "nat \<Rightarrow> bytes \<Rightarrow> bytes" where
  "cmac_const bs L =
    (if bs = 16 then put_be128 (gf_double 0x87 (get_be128 L)) else put_be64 (gf_double 0x1B (get_be64 L)))"

definition join64 :: "u64 \<Rightarrow> u64 \<Rightarrow> 128 word" where
  "join64 hi lo = push_bit 64 (ucast hi) OR ucast lo"

lemma bit_join64: "bit (join64 hi lo) i \<longleftrightarrow> (if i < 64 then bit lo i else bit hi (i - 64))"
  using bit_imp_le_length [of lo i] bit_imp_le_length [of hi "i - 64"]
  by (auto simp: join64_def bit_simps)

lemma put_be128_join: "put_be128 (join64 hi lo) = put_be64 hi @ put_be64 lo"
proof -
  have "put_le 16 (join64 hi lo) = put_le 8 lo @ put_le 8 hi"
  proof (rule nth_equalityI)
    fix i assume "i < length (put_le 16 (join64 hi lo))"
    then have i: "i < 16" by simp
    show "put_le 16 (join64 hi lo) ! i = (put_le 8 lo @ put_le 8 hi) ! i"
    proof (cases "i < 8")
      case True
      then show ?thesis
        by (intro bit_word_eqI) (auto simp: nth_append nth_put_le bit_simps bit_join64)
    next
      case False
      then have "8 * i = 64 + 8 * (i - 8)" by simp
      with False i show ?thesis
        by (intro bit_word_eqI) (auto simp: nth_append nth_put_le bit_simps bit_join64)
    qed
  qed simp
  then show ?thesis by (simp add: put_be128_def put_be64_def)
qed

lemma get_be128_join:
  assumes "length bs = 16"
  shows "get_be128 bs = join64 (get_be64 bs) (get_be64 (drop 8 bs))"
proof (rule bit_word_eqI)
  fix i assume i: "i < LENGTH(128)"
  show "bit (get_be128 bs) i \<longleftrightarrow> bit (join64 (get_be64 bs) (get_be64 (drop 8 bs))) i"
  proof (cases "i < 64")
    case True
    then have "i div 8 < 8" by (simp add: less_mult_imp_div_less)
    with True assms show ?thesis
      by (simp add: get_be128_def get_be64_def bit_get_le bit_join64 rev_nth)
  next
    case False
    have d: "(i - 64) div 8 = i div 8 - 8" "(i - 64) mod 8 = i mod 8"
    proof -
      have "i = (i - 64) + 8 * 8" using False by simp
      then show "(i - 64) mod 8 = i mod 8" by (metis mod_mult_self1)
      show "(i - 64) div 8 = i div 8 - 8" by simp
    qed
    have "8 \<le> i div 8" "i div 8 < 16" "i - 64 < 64" "i div 8 - 8 < 8" using False i by auto
    with False i assms show ?thesis
      by (simp add: get_be128_def get_be64_def bit_get_le bit_join64 rev_nth d)
  qed
qed

lemma gf_double_join:
  "gf_double 0x87 (join64 hi lo) =
    join64 (push_bit 1 hi OR drop_bit 63 lo) (push_bit 1 lo XOR (if bit hi 63 then 0x87 else 0))"
proof (rule bit_word_eqI)
  fix i assume i: "i < LENGTH(128)"
  have b: "bit (join64 hi lo) 127 \<longleftrightarrow> bit hi 63" by (simp add: bit_join64)
  have k: "bit (0x87 :: 128 word) i \<longleftrightarrow> i < 64 \<and> bit (0x87 :: u64) i"
  proof -
    have "(0x87 :: 128 word) = ucast (0x87 :: u64)" by simp
    then show ?thesis using bit_imp_le_length [of "0x87 :: u64" i] i by (simp only: bit_ucast_iff) auto
  qed
  have m: "bit (drop_bit 63 lo) (i - 64) \<longleftrightarrow> i = 64 \<and> bit lo 63" if "64 \<le> i"
    using that bit_imp_le_length [of lo "63 + (i - 64)"]
    by (cases "i = 64") (auto simp: bit_drop_bit_eq)
  show "bit (gf_double 0x87 (join64 hi lo)) i \<longleftrightarrow> bit (join64 (push_bit 1 hi OR drop_bit 63 lo)
      (push_bit 1 lo XOR (if bit hi 63 then 0x87 else 0))) i"
  proof -
    consider "i < 64" | "i = 64" | "64 < i" by linarith
    then show ?thesis
    proof cases
      case 3
      then have "\<not> i < 64" "\<not> i - 1 < 64" "i - 64 - 1 = i - 1 - 64" by simp_all
      with 3 i m k b show ?thesis
        unfolding gf_double_def bit_xor_iff bit_or_iff bit_join64 bit_push_bit_iff by auto
    next
      case 1
      with i k b show ?thesis
        unfolding gf_double_def bit_xor_iff bit_or_iff bit_join64 bit_push_bit_iff by auto
    next
      case 2
      have "\<not> bit (0x87 :: 128 word) 64" using k 2 by simp
      with 2 b show ?thesis
        unfolding gf_double_def bit_xor_iff bit_or_iff bit_join64 bit_push_bit_iff bit_drop_bit_eq by simp
    qed
  qed
qed

lemma put_get_be128: "get_be128 (put_be128 w) = w"
  by (simp add: get_be128_def put_be128_def get_put_le)

lemma get_be128_put: "get_be128 (put_be64 hi @ put_be64 lo) = join64 hi lo"
  using put_get_be128 [of "join64 hi lo"] by (simp add: put_be128_join)

lemma cmac_setkey_consts:
  assumes "bs = 16 \<or> bs = 8" and "child_setkey key = Inr child"
    and L: "L = encrypt child (replicate bs 0)" "length L = bs"
  shows "crypto_cmac_digest_setkey bs child_setkey encrypt key =
    Inr (child, cmac_const bs L @ cmac_const bs (cmac_const bs L))"
  using assms(1)
proof
  assume b: "bs = 16"
  show ?thesis
    unfolding crypto_cmac_digest_setkey_def assms(2) sum.case Let_def L(1) [symmetric] cmac_const_def
    by (simp only: b refl if_True get_be128_put get_be128_join [OF L(2) [unfolded b]] gf_double_join
        put_be128_join append_assoc)
next
  assume b: "bs = 8"
  show ?thesis
  proof -
    have n: "LENGTH(64) - 1 = 63" "(8 :: nat) \<noteq> 16" by simp_all
    show ?thesis
      unfolding crypto_cmac_digest_setkey_def assms(2) sum.case Let_def L(1) [symmetric] cmac_const_def
      by (simp only: b n refl if_True if_False gf_double_def get_put_word)
  qed
qed

section \<open>Correctness\<close>

lemma length_cmac_const: "bs = 16 \<or> bs = 8 \<Longrightarrow> length (cmac_const bs L) = bs"
  by (auto simp: cmac_const_def put_be128_def)

lemma xcbc_setkey_consts:
  assumes "child_setkey key = Inr child" "child_setkey (encrypt child (replicate 16 1)) = Inr child1"
  shows "crypto_xcbc_digest_setkey child_setkey encrypt key =
    Inr (child1, encrypt child (replicate 16 2) @ encrypt child (replicate 16 3))"
proof -
  have "take 16 xcbc_ks = replicate 16 1" "take 16 (drop 16 xcbc_ks) = replicate 16 2"
    "take 16 (drop (16 * 2) xcbc_ks) = replicate 16 3" by (simp_all add: xcbc_ks_def)
  then show ?thesis using assms by (simp add: crypto_xcbc_digest_setkey_def Let_def)
qed

text \<open>C12: CMAC and XCBC over any block cipher of 8 or 16 bytes compute their code of the concatenation
  of the chunks, for chunks shorter than \<open>2 ^ 32 - 16\<close> bytes: CMAC with the encrypted zero block
  doubled once and twice in the field as its constants, XCBC with three keys derived from the one.\<close>

theorem cmac_xcbc_correct:
  assumes bs: "bs = 16 \<or> bs = 8" and key: "child_setkey key = Inr child"
    and len: "\<And>c b. length b = bs \<Longrightarrow> length (encrypt c b) = bs"
    and ds: "\<forall>d\<in>set ds. length d < 2 ^ 32 - 16"
  shows "(\<exists>consts. crypto_cmac_digest_setkey bs child_setkey encrypt key = Inr (child, consts) \<and>
      mac_run bs (encrypt child) consts ds =
        Some (mac_spec bs (encrypt child) (cmac_const bs (encrypt child (replicate bs 0)))
          (cmac_const bs (cmac_const bs (encrypt child (replicate bs 0)))) (concat ds))) \<and>
    (bs = XCBC_BLOCKSIZE \<and> child_setkey (encrypt child (replicate 16 1)) = Inr child1 \<longrightarrow>
      (\<exists>consts. crypto_xcbc_digest_setkey child_setkey encrypt key = Inr (child1, consts) \<and>
      mac_run bs (encrypt child1) consts ds =
        Some (mac_spec bs (encrypt child1) (encrypt child (replicate 16 2)) (encrypt child (replicate 16 3))
          (concat ds))))"
proof (intro conjI impI)
  note run = mac_run_spec [OF bs ds]
  show "\<exists>consts. crypto_cmac_digest_setkey bs child_setkey encrypt key = Inr (child, consts) \<and>
      mac_run bs (encrypt child) consts ds =
        Some (mac_spec bs (encrypt child) (cmac_const bs (encrypt child (replicate bs 0)))
          (cmac_const bs (cmac_const bs (encrypt child (replicate bs 0)))) (concat ds))"
    using cmac_setkey_consts [of bs child_setkey key child _ encrypt, OF bs key refl] len
    by (simp add: run length_cmac_const [OF bs])
  assume x: "bs = XCBC_BLOCKSIZE \<and> child_setkey (encrypt child (replicate 16 1)) = Inr child1"
  then have b: "bs = 16" by (simp add: XCBC_BLOCKSIZE_def)
  have "crypto_xcbc_digest_setkey child_setkey encrypt key =
      Inr (child1, encrypt child (replicate 16 2) @ encrypt child (replicate 16 3))"
    using xcbc_setkey_consts [of child_setkey key child encrypt child1] key x by blast
  moreover have "length (encrypt child (replicate 16 c)) = bs" for c using len b by simp
  ultimately show "\<exists>consts. crypto_xcbc_digest_setkey child_setkey encrypt key = Inr (child1, consts) \<and>
      mac_run bs (encrypt child1) consts ds =
        Some (mac_spec bs (encrypt child1) (encrypt child (replicate 16 2)) (encrypt child (replicate 16 3))
          (concat ds))"
    using run by blast
qed

theorem cmac_xcbc_correct_witness:
  "\<exists>consts. crypto_cmac_digest_setkey 16 (\<lambda>k. Inr (seed_set_key k)) seed_encrypt [1, 2, 3] =
      Inr (seed_set_key [1, 2, 3], consts) \<and>
    mac_run 16 (seed_encrypt (seed_set_key [1, 2, 3])) consts [[1, 2], replicate 40 7, []] =
      Some (mac_spec 16 (seed_encrypt (seed_set_key [1, 2, 3]))
        (cmac_const 16 (seed_encrypt (seed_set_key [1, 2, 3]) (replicate 16 0)))
        (cmac_const 16 (cmac_const 16 (seed_encrypt (seed_set_key [1, 2, 3]) (replicate 16 0))))
        ([1, 2] @ replicate 40 7))"
  using cmac_xcbc_correct [of 16 "\<lambda>k. Inr (seed_set_key k)" "[1, 2, 3]" _ seed_encrypt
      "[[1, 2], replicate 40 7, []]", OF _ refl] seed.length_enc
  by simp

text \<open>C21: the length test of the update routines is a 32-bit sum: after one block of 16 bytes an update
  with \<open>2 ^ 32 - 16\<close> bytes passes it and is copied past the end of the buffer.\<close>

theorem mac_update_overruns_buffer:
  "\<exists>ctx. crypto_cmac_digest_update 16 enc (crypto_cmac_digest_init 16) (replicate 16 x) = Some ctx \<and>
    crypto_cmac_digest_update 16 enc ctx (replicate (2 ^ 32 - 16) y) = None \<and>
    crypto_xcbc_digest_update 16 enc ctx (replicate (2 ^ 32 - 16) y) = None"
  by (simp add: crypto_cmac_digest_update_def crypto_xcbc_digest_update_def crypto_cmac_digest_init_def
    mac_init_def mac_update_def)

end
