(* ===== verification/Sha3.thy ===== *)
theory Sha3
  imports HashStream
begin

text \<open>
  SHA-3 (\<open>sha3_generic.c\<close>): the Keccak permutation with its in-place lane moves, and the sponge
  driver. The digest size in bytes is an argument, as the four algorithms share the routines. The
  buffer of the request is modelled as its first \<open>rsiz\<close> bytes, which is all the code uses; lengths
  are sums of 32 bits, and where one wraps the copy runs over the buffer or the data, \<open>None\<close> here.
\<close>

section \<open>The Keccak permutation\<close>

definition keccakf_rndc :: "u64 list" where
  "keccakf_rndc = [
    0x0000000000000001, 0x0000000000008082, 0x800000000000808a, 0x8000000080008000,
    0x000000000000808b, 0x0000000080000001, 0x8000000080008081, 0x8000000000008009,
    0x000000000000008a, 0x0000000000000088, 0x0000000080008009, 0x000000008000000a,
    0x000000008000808b, 0x800000000000008b, 0x8000000000008089, 0x8000000000008003,
    0x8000000000008002, 0x8000000000000080, 0x000000000000800a, 0x800000008000000a,
    0x8000000080008081, 0x8000000000008080, 0x0000000080000001, 0x8000000080008008]"

text \<open>The moves of the steps Rho and Pi: destination, source, word of \<open>t\<close> and rotation.\<close>

definition keccak_moves :: "(nat \<times> nat \<times> nat \<times> nat) list" where
  "keccak_moves = [
    (1, 6, 1, 44), (6, 9, 4, 20), (9, 22, 2, 61), (22, 14, 4, 39), (14, 20, 0, 18), (20, 2, 2, 62),
    (2, 12, 2, 43), (12, 13, 3, 25), (13, 19, 4, 8), (19, 23, 3, 56), (23, 15, 0, 41), (15, 4, 4, 27),
    (4, 24, 4, 14), (24, 21, 1, 2), (21, 8, 3, 55), (8, 16, 1, 45), (16, 5, 0, 36), (5, 3, 3, 28),
    (3, 18, 3, 21), (18, 17, 2, 15), (17, 11, 1, 10), (11, 7, 2, 6), (7, 10, 0, 3)]"

definition keccak_move :: "u64 list \<Rightarrow> u64 list \<Rightarrow> nat \<times> nat \<times> nat \<times> nat \<Rightarrow> u64 list" where
  "keccak_move t st = (\<lambda>(d, s, i, r). st[d := rol64 (st ! s XOR t ! i) r])"

definition keccak_chi_row :: "u64 list \<Rightarrow> nat \<Rightarrow> u64 list" where
  "keccak_chi_row st y =
    (let b0 = NOT (st ! (y + 1)) AND st ! (y + 2);
         b1 = NOT (st ! (y + 2)) AND st ! (y + 3);
         b2 = NOT (st ! (y + 3)) AND st ! (y + 4);
         b3 = NOT (st ! (y + 4)) AND st ! y;
         b4 = NOT (st ! y) AND st ! (y + 1)
     in st[y := st ! y XOR b0, y + 1 := st ! (y + 1) XOR b1, y + 2 := st ! (y + 2) XOR b2,
       y + 3 := st ! (y + 3) XOR b3, y + 4 := st ! (y + 4) XOR b4])"

definition keccakf_round :: "u64 list \<Rightarrow> u64 list" where
  "keccakf_round st =
    (let b0 = st ! 0 XOR st ! 5 XOR st ! 10 XOR st ! 15 XOR st ! 20;
         b1 = st ! 1 XOR st ! 6 XOR st ! 11 XOR st ! 16 XOR st ! 21;
         b2 = st ! 2 XOR st ! 7 XOR st ! 12 XOR st ! 17 XOR st ! 22;
         b3 = st ! 3 XOR st ! 8 XOR st ! 13 XOR st ! 18 XOR st ! 23;
         b4 = st ! 4 XOR st ! 9 XOR st ! 14 XOR st ! 19 XOR st ! 24;
         t = [b4 XOR rol64 b1 1, b0 XOR rol64 b2 1, b1 XOR rol64 b3 1, b2 XOR rol64 b4 1, b3 XOR rol64 b0 1];
         st = st[0 := st ! 0 XOR t ! 0];
         tt = st ! 1;
         st = foldl (keccak_move t) st keccak_moves;
         st = st[10 := rol64 (tt XOR t ! 1) 1]
     in foldl keccak_chi_row st [0, 5, 10, 15, 20])"

definition keccakf :: "u64 list \<Rightarrow> u64 list" where
  "keccakf st = foldl (\<lambda>st round. let st = keccakf_round st in st[0 := st ! 0 XOR keccakf_rndc ! round]) st [0..<24]"

section \<open>The sponge\<close>

record sha3_state =
  sha3_st :: "u64 list"
  rsiz :: nat
  rsizw :: nat
  partial :: nat
  sha3_buf :: bytes

definition crypto_sha3_init :: "nat \<Rightarrow> sha3_state" where
  "crypto_sha3_init digest_size =
    (let r = 200 - 2 * digest_size
     in \<lparr>sha3_st = replicate 25 0, rsiz = r, rsizw = r div 8, partial = 0, sha3_buf = replicate r 0\<rparr>)"

text \<open>One block is added to the state and permuted.\<close>

definition sha3_absorb :: "nat \<Rightarrow> u64 list \<Rightarrow> bytes \<Rightarrow> u64 list" where
  "sha3_absorb n st src =
    keccakf (map (\<lambda>i. if i < n then st ! i XOR get_le64 (drop (8 * i) src) else st ! i) [0..<25])"

text \<open>The loop after the first block; \<open>done\<close> bytes of the data are consumed.\<close>

function sha3_loop :: "nat \<Rightarrow> nat \<Rightarrow> u64 list \<Rightarrow> nat \<Rightarrow> bytes \<Rightarrow> (u64 list \<times> nat) option" where
  "sha3_loop r n st done data =
    (if (done + (r - 1)) mod 2 ^ 32 < length data then
       (if 0 < r \<and> done + r \<le> length data then
          sha3_loop r n (sha3_absorb n st (take r (drop done data))) (done + r) data
        else None)
     else Some (st, done))"
  by auto
termination by (relation "measure (\<lambda>(r, n, st, done, data). length data - done)") auto

declare sha3_loop.simps [simp del]

definition crypto_sha3_update :: "sha3_state \<Rightarrow> bytes \<Rightarrow> sha3_state option" where
  "crypto_sha3_update sctx data =
    (let r = rsiz sctx; n = rsizw sctx; len = length data in
     case (if (partial sctx + len) mod 2 ^ 32 > r - 1 then
        (let fill = (if partial sctx \<noteq> 0 then r - partial sctx else r);
             src = (if partial sctx \<noteq> 0 then memcpy_at (sha3_buf sctx) (partial sctx) (take fill data)
                    else take fill data)
         in map_option (\<lambda>(st, done). (sctx\<lparr>sha3_st := st, partial := 0,
              sha3_buf := if partial sctx \<noteq> 0 then src else sha3_buf sctx\<rparr>, done))
            (sha3_loop r n (sha3_absorb n (sha3_st sctx) src) fill data))
      else Some (sctx, 0)) of
       None \<Rightarrow> None
     | Some (sctx, done) \<Rightarrow>
         let src = drop done data in
         if partial sctx + length src \<le> length (sha3_buf sctx) then
           Some (sctx\<lparr>sha3_buf := memcpy_at (sha3_buf sctx) (partial sctx) src,
             partial := partial sctx + length src\<rparr>)
         else None)"

definition crypto_sha3_final :: "nat \<Rightarrow> sha3_state \<Rightarrow> bytes" where
  "crypto_sha3_final digest_size sctx =
    (let inlen = partial sctx; r = rsiz sctx;
         buf = (sha3_buf sctx)[inlen := 0x06];
         inlen = inlen + 1;
         buf = memcpy_at buf inlen (replicate (r - inlen) 0);
         buf = buf[r - 1 := buf ! (r - 1) OR 0x80];
         st = sha3_absorb (rsizw sctx) (sha3_st sctx) buf
     in concat (map put_le64 (take (digest_size div 8) st)) @
       (if digest_size AND 4 \<noteq> 0 then put_le32 (ucast (st ! (digest_size div 8))) else []))"

section \<open>The permutation of the standard\<close>

text \<open>
  The steps of FIPS 202 on the lanes \<open>A (x, y)\<close> at index \<open>x + 5 * y\<close>. The rotations of Rho follow
  from its walk over the lanes, and the constants of Iota from its feedback register.
\<close>

definition theta :: "u64 list \<Rightarrow> u64 list" where
  "theta A =
    (let C = \<lambda>x. A ! x XOR A ! (x + 5) XOR A ! (x + 10) XOR A ! (x + 15) XOR A ! (x + 20)
     in map (\<lambda>i. A ! i XOR (C ((i + 4) mod 5) XOR rol64 (C ((i + 1) mod 5)) 1)) [0..<25])"

fun rho_walk :: "nat \<Rightarrow> nat \<Rightarrow> nat \<Rightarrow> nat \<Rightarrow> nat list \<Rightarrow> nat list" where
  "rho_walk 0 t x y offs = offs"
| "rho_walk (Suc n) t x y offs =
    rho_walk n (t + 1) y ((2 * x + 3 * y) mod 5) (offs[x + 5 * y := ((t + 1) * (t + 2) div 2) mod 64])"

definition rho_offsets :: "nat list" where
  "rho_offsets = rho_walk 24 0 1 0 (replicate 25 0)"

definition rho :: "u64 list \<Rightarrow> u64 list" where
  "rho A = map (\<lambda>i. rol64 (A ! i) (rho_offsets ! i)) [0..<25]"

definition keccak_pi :: "u64 list \<Rightarrow> u64 list" where
  "keccak_pi A = map (\<lambda>i. let x = i mod 5; y = i div 5 in A ! ((x + 3 * y) mod 5 + 5 * x)) [0..<25]"

definition chi :: "u64 list \<Rightarrow> u64 list" where
  "chi A = map (\<lambda>i. let x = i mod 5; y = i div 5 in
    A ! i XOR (NOT (A ! ((x + 1) mod 5 + 5 * y)) AND A ! ((x + 2) mod 5 + 5 * y))) [0..<25]"

definition rc_step :: "u8 \<Rightarrow> u8" where
  "rc_step R = push_bit 1 R XOR (if bit R 7 then 0x71 else 0)"

definition rc_round :: "u8 \<Rightarrow> u64 \<times> u8" where
  "rc_round R = foldl (\<lambda>(c, R) j. (if bit R 0 then c OR push_bit (2 ^ j - 1) 1 else c, rc_step R)) (0, R)
    [0, 1, 2, 3, 4, 5, 6]"

fun round_constants :: "nat \<Rightarrow> u8 \<Rightarrow> u64 list" where
  "round_constants 0 R = []"
| "round_constants (Suc n) R = (case rc_round R of (c, R') \<Rightarrow> c # round_constants n R')"

definition keccak_iota :: "(u64 list \<Rightarrow> u64 list) \<Rightarrow> u64 list \<Rightarrow> u64 \<Rightarrow> u64 list" where
  "keccak_iota f A c = (let A = f A in A[0 := A ! 0 XOR c])"

definition keccak_p :: "u64 list \<Rightarrow> u64 list" where
  "keccak_p A = foldl (keccak_iota (\<lambda>A. chi (keccak_pi (rho (theta A))))) A (round_constants 24 1)"

lemma upt25: "[0..<25] = [0, 1, 2, 3, 4, 5, 6, 7, 8, 9, 10, 11, 12, 13, 14, 15, 16, 17, 18, 19, 20, 21, 22, 23, 24 :: nat]"
  by code_simp

lemma rho_offsets_eq: "rho_offsets =
    [0, 1, 62, 28, 27, 36, 44, 6, 55, 20, 3, 10, 43, 25, 39, 41, 45, 15, 21, 8, 18, 2, 61, 56, 14]"
  by code_simp

lemma round_constants_step:
  "round_constants (numeral v) R = (case rc_round R of (c, R') \<Rightarrow> c # round_constants (numeral v - 1) R')"
  "round_constants (Suc 0) R = [fst (rc_round R)]"
  by (simp_all add: numeral_eq_Suc split: prod.split)

lemma rc_rounds:
  "rc_round 1 = (0x0000000000000001, 0x80)"
  "rc_round 0x80 = (0x0000000000008082, 0xd8)"
  "rc_round 0xd8 = (0x800000000000808a, 0x1a)"
  "rc_round 0x1a = (0x8000000080008000, 0xdf)"
  "rc_round 0xdf = (0x000000000000808b, 0x09)"
  "rc_round 0x09 = (0x0000000080000001, 0x35)"
  "rc_round 0x35 = (0x8000000080008081, 0x4f)"
  "rc_round 0x4f = (0x8000000000008009, 0xca)"
  "rc_round 0xca = (0x000000000000008a, 0x70)"
  "rc_round 0x70 = (0x0000000000000088, 0x41)"
  "rc_round 0x41 = (0x0000000080008009, 0xec)"
  "rc_round 0xec = (0x000000008000000a, 0xd5)"
  "rc_round 0xd5 = (0x000000008000808b, 0xcd)"
  "rc_round 0xcd = (0x800000000000008b, 0x63)"
  "rc_round 0x63 = (0x8000000000008089, 0xab)"
  "rc_round 0xab = (0x8000000000008003, 0xaa)"
  "rc_round 0xaa = (0x8000000000008002, 0x2a)"
  "rc_round 0x2a = (0x8000000000000080, 0xf2)"
  "rc_round 0xf2 = (0x000000000000800a, 0xe8)"
  "rc_round 0xe8 = (0x800000008000000a, 0x37)"
  "rc_round 0x37 = (0x8000000080008081, 0x3e)"
  "rc_round 0x3e = (0x8000000000008080, 0x0b)"
  "rc_round 0x0b = (0x0000000080000001, 0x44)"
  "rc_round 0x44 = (0x8000000080008008, 0x8e)"
  by (simp_all add: rc_round_def rc_step_def)

lemma keccakf_rndc_eq: "round_constants 24 1 = keccakf_rndc"
  by (simp add: round_constants_step rc_rounds keccakf_rndc_def del: round_constants.simps)

lemma list25E:
  assumes "length xs = 25"
  obtains a b c d e f g h i j k l m n p q r s t u v w x y z where
    "xs = [a, b, c, d, e, f, g, h, i, j, k, l, m, n, p, q, r, s, t, u, v, w, x, y, z]"
proof -
  have "xs = map (nth xs) [0..<25]" by (metis map_nth assms)
  then show ?thesis unfolding upt25 list.map by (rule that)
qed

lemma rol64_0: "rol64 x 0 = x"
  by (rule bit_word_eqI) (simp add: rol64_def bit_word_rotl_iff)

lemma keccakf_round_standard:
  assumes "length st = 25"
  shows "keccakf_round st = chi (keccak_pi (rho (theta st)))"
  using assms
  by (rule list25E)
    (simp add: keccakf_round_def keccak_moves_def keccak_move_def keccak_chi_row_def theta_def rho_def
      keccak_pi_def chi_def upt25 rho_offsets_eq Let_def rol64_0)

lemma length_keccak_steps [simp]: "length (theta A) = 25" "length (rho A) = 25" "length (keccak_pi A) = 25" "length (chi A) = 25"
  by (simp_all add: theta_def rho_def keccak_pi_def chi_def)

lemma foldl_nth: "foldl (\<lambda>s i. g s (xs ! i)) s [0..<length xs] = foldl g s xs"
proof (induction xs rule: rev_induct)
  case (snoc x xs)
  have "foldl (\<lambda>s i. g s ((xs @ [x]) ! i)) s [0..<length xs] = foldl (\<lambda>s i. g s (xs ! i)) s [0..<length xs]"
    by (rule foldl_cong) (auto simp: nth_append)
  with snoc show ?case by simp
qed simp

lemma length_keccakf_rndc: "length keccakf_rndc = 24"
  by (simp add: keccakf_rndc_def)

lemma keccakf_standard:
  assumes "length st = 25"
  shows "keccakf st = keccak_p st \<and> length (keccakf st) = 25"
proof -
  let ?g = "keccak_iota (\<lambda>A. chi (keccak_pi (rho (theta A))))"
  have step: "keccak_iota keccakf_round A c = ?g A c \<and> length (?g A c) = 25" if "length A = 25" for A c
    using that by (simp add: keccak_iota_def keccakf_round_standard Let_def)
  have "foldl (keccak_iota keccakf_round) st cs = foldl ?g st cs \<and> length (foldl ?g st cs) = 25" for cs
    using assms
  proof (induction cs arbitrary: st)
    case (Cons c cs)
    with step [of st c] show ?case by simp
  qed simp
  moreover have "keccakf st = foldl (keccak_iota keccakf_round) st keccakf_rndc"
    using foldl_nth [of "keccak_iota keccakf_round" keccakf_rndc st, unfolded length_keccakf_rndc]
    unfolding keccakf_def keccak_iota_def by (rule sym [OF sym])
  moreover have "keccak_p st = foldl ?g st keccakf_rndc"
    by (simp only: keccak_p_def keccakf_rndc_eq)
  ultimately show ?thesis by simp
qed

section \<open>Streaming\<close>

text \<open>
  The specification: the message is followed by the byte \<open>0x06\<close>, zeros up to a block and a one bit at
  the end of it; the blocks are absorbed and the digest is the first bytes of the state.
\<close>

definition sha3_pad :: "nat \<Rightarrow> bytes \<Rightarrow> bytes" where
  "sha3_pad r M = M @ (let n = r - length M mod r in
    if n = 1 then [0x86] else [0x06] @ replicate (n - 2) 0 @ [0x80])"

definition sha3_sponge :: "nat \<Rightarrow> bytes list \<Rightarrow> u64 list" where
  "sha3_sponge r bs = foldl (sha3_absorb (r div 8)) (replicate 25 0) bs"

definition sha3_digest :: "nat \<Rightarrow> bytes \<Rightarrow> bytes" where
  "sha3_digest digest_size M =
    (let r = 200 - 2 * digest_size in
     take digest_size (concat (map put_le64 (sha3_sponge r (blocks r (sha3_pad r M))))))"

definition sha3_absorbed :: "nat \<Rightarrow> bytes \<Rightarrow> sha3_state \<Rightarrow> bool" where
  "sha3_absorbed r M s \<longleftrightarrow> rsiz s = r \<and> rsizw s = r div 8 \<and> partial s = length M mod r \<and>
    length (sha3_buf s) = r \<and> take (length M mod r) (sha3_buf s) = leftover r M \<and>
    sha3_st s = sha3_sponge r (blocks r M)"

lemma length_sha3_absorb [simp]: "length (sha3_absorb n st b) = 25"
  unfolding sha3_absorb_def by (rule keccakf_standard [THEN conjunct2]) simp

lemma length_sha3_sponge [simp]: "length (sha3_sponge r bs) = 25"
  by (cases bs rule: rev_cases) (simp_all add: sha3_sponge_def)

lemma sha3_sponge_append: "sha3_sponge r (bs @ cs) = foldl (sha3_absorb (r div 8)) (sha3_sponge r bs) cs"
  by (simp add: sha3_sponge_def)

lemma sha3_loop_result:
  assumes "0 < r" "length data < 2 ^ 32 - r" "done \<le> length data"
  shows "sha3_loop r n st done data = Some (foldl (sha3_absorb n) st (blocks r (drop done data)),
    length data - length (leftover r (drop done data)))"
  using assms
proof (induction r n st "done" data rule: sha3_loop.induct)
  case (1 r n st "done" data)
  let ?d = "drop done data"
  have m: "(done + (r - 1)) mod 2 ^ 32 = done + (r - 1)" using 1(2-4) by (intro mod_less) linarith
  show ?case
  proof (cases "done + r \<le> length data")
    case True
    have "sha3_loop r n (sha3_absorb n st (take r ?d)) (done + r) data =
        Some (foldl (sha3_absorb n) (sha3_absorb n st (take r ?d)) (blocks r (drop (done + r) data)),
          length data - length (leftover r (drop (done + r) data)))"
      by (rule 1(1)) (use 1(2-4) True m in simp_all)
    moreover have "blocks r ?d = take r ?d # blocks r (drop (done + r) data)"
      "leftover r ?d = leftover r (drop (done + r) data)"
      using blocks_step [of r ?d] leftover_step [of r ?d] True 1(2) by (simp_all add: add.commute)
    ultimately show ?thesis
      using True 1(2) m by (simp add: sha3_loop.simps [of r n st "done" data])
  next
    case False
    then have "length ?d < r" using 1(4) by simp
    moreover have "\<not> done + (r - 1) < length data" using False by linarith
    ultimately show ?thesis
      using 1(4) m by (simp add: sha3_loop.simps [of r n st "done" data])
  qed
qed

lemma sha3_update_absorbs:
  assumes r: "0 < r" and abs: "sha3_absorbed r M s" and bound: "length d < 2 ^ 32 - r"
  shows "\<exists>s'. crypto_sha3_update s d = Some s' \<and> sha3_absorbed r (M @ d) s'"
proof -
  let ?o = "length M mod r" and ?rest = "leftover r M" and ?l = "leftover r (M @ d)"
  have s: "rsiz s = r" "rsizw s = r div 8" "partial s = ?o" "length (sha3_buf s) = r"
    "take ?o (sha3_buf s) = ?rest" "sha3_st s = sha3_sponge r (blocks r M)"
    using abs by (simp_all add: sha3_absorbed_def)
  have o: "?o < r" "length ?rest = ?o" using r by simp_all
  have m: "(?o + length d) mod 2 ^ 32 = ?o + length d" using o bound by (intro mod_less) linarith
  have split: "blocks r (M @ d) = blocks r M @ blocks r (?rest @ d)" "?l = leftover r (?rest @ d)"
    using blocks_append [OF r, of M d] by simp_all
  have l: "length ?l = length (M @ d) mod r" by (rule length_leftover [OF r])
  show ?thesis
  proof (cases "?o + length d < r")
    case True
    then have short: "?l = ?rest @ d" using split o by simp
    then have "(length M + length d) mod r = ?o + length d" using l o by simp
    moreover have "\<not> r - Suc 0 < ?o + length d" using True by linarith
    ultimately show ?thesis
      using True s o split short m take_memcpy_at [of ?o "sha3_buf s" d]
      by (simp add: sha3_absorbed_def crypto_sha3_update_def Let_def)
  next
    case False
    let ?fill = "r - ?o"
    let ?b = "?rest @ take ?fill d" and ?d = "drop ?fill d"
    have full: "length ?b = r" using False o by simp
    have src: "(if ?o \<noteq> 0 then memcpy_at (sha3_buf s) ?o (take ?fill d) else take ?fill d) = ?b"
      "(if ?o \<noteq> 0 then r - ?o else r) = ?fill"
      using False o s by (auto simp: memcpy_at_full leftover_def)
    define B where "B = (if ?o \<noteq> 0 then ?b else sha3_buf s)"
    have B: "length B = r" using full s by (simp add: B_def)
    have bl: "blocks r (?rest @ d) = ?b # blocks r ?d" "?l = leftover r ?d"
      using blocks_Cons [OF r full, of ?d] leftover_Cons [OF r full, of ?d] split(2) by simp_all
    define k where "k = length d - length ?l"
    have loop: "sha3_loop r (r div 8) st ?fill d = Some (foldl (sha3_absorb (r div 8)) st (blocks r ?d), k)" for st
      using sha3_loop_result [OF r bound, of ?fill] False o unfolding k_def bl(2) by simp
    have rest: "drop k d = ?l"
      unfolding k_def bl(2) using False o by (intro drop_leftover [OF r]) simp
    have lt: "length ?l < r" using l r by simp
    have lk: "length d - k = length ?l" using arg_cong [OF rest, of length] by (simp only: length_drop)
    have g: "r - 1 < ?o + length d" using False r by linarith
    have "crypto_sha3_update s d = Some (s\<lparr>sha3_st := sha3_sponge r (blocks r (M @ d)),
        partial := length ?l, sha3_buf := memcpy_at B 0 ?l\<rparr>)"
      unfolding crypto_sha3_update_def Let_def s(1-3) m src loop B_def [symmetric] split(1) bl(1)
        sha3_sponge_append
      using g lt B by (simp add: rest lk s(6) del: length_leftover)
    then show ?thesis
      using s l lt B memcpy_at_0 [of ?l B] by (simp add: sha3_absorbed_def)
  qed
qed

lemma sha3_init_absorbs: "sha3_absorbed (200 - 2 * ds) [] (crypto_sha3_init ds)"
  by (simp add: sha3_absorbed_def crypto_sha3_init_def sha3_sponge_def leftover_def Let_def)

lemma sha3_stream: "2 * ds < 200 \<Longrightarrow>
    bounded_stream (crypto_sha3_init ds) crypto_sha3_update (2 ^ 32 - 200) (sha3_absorbed (200 - 2 * ds))"
  by unfold_locales (simp_all only: sha3_init_absorbs, rule sha3_update_absorbs, simp_all)

interpretation sha3_224: bounded_stream "crypto_sha3_init 28" crypto_sha3_update "2 ^ 32 - 200" "sha3_absorbed (200 - 2 * 28)"
  by (rule sha3_stream) simp

interpretation sha3_256: bounded_stream "crypto_sha3_init 32" crypto_sha3_update "2 ^ 32 - 200" "sha3_absorbed (200 - 2 * 32)"
  by (rule sha3_stream) simp

interpretation sha3_384: bounded_stream "crypto_sha3_init 48" crypto_sha3_update "2 ^ 32 - 200" "sha3_absorbed (200 - 2 * 48)"
  by (rule sha3_stream) simp

interpretation sha3_512: bounded_stream "crypto_sha3_init 64" crypto_sha3_update "2 ^ 32 - 200" "sha3_absorbed (200 - 2 * 64)"
  by (rule sha3_stream) simp

lemma sha3_pad_blocks:
  assumes "1 < r" "sha3_absorbed r M s"
  defines "buf \<equiv> memcpy_at ((sha3_buf s)[length M mod r := 0x06]) (length M mod r + 1)
    (replicate (r - (length M mod r + 1)) 0)"
  shows "blocks r (sha3_pad r M) = blocks r M @ [buf[r - 1 := buf ! (r - 1) OR 0x80]]"
proof -
  let ?o = "length M mod r" and ?rest = "leftover r M"
  define n where "n = r - ?o"
  have s: "length (sha3_buf s) = r" "take ?o (sha3_buf s) = ?rest"
    using assms(2) by (simp_all add: sha3_absorbed_def)
  have o: "?o < r" "length ?rest = ?o" using assms(1) by simp_all
  have "take (?o + 1) ((sha3_buf s)[?o := 0x06]) = ?rest @ [0x06]"
    using s o by (simp add: take_Suc_conv_app_nth)
  then have buf: "buf = ?rest @ [0x06] @ replicate (n - 1) 0"
    using s o unfolding buf_def n_def by (subst memcpy_at_full) simp_all
  have n: "0 < n" "r = ?o + n" using o by (simp_all add: n_def)
  have "buf[r - 1 := buf ! (r - 1) OR 0x80] =
      ?rest @ (if n = 1 then [0x86] else [0x06] @ replicate (n - 2) 0 @ [0x80])"
  proof (cases "n = 1")
    case True
    then have "r - 1 = length ?rest" using n(2) o by linarith
    then show ?thesis using True by (simp add: buf)
  next
    case False
    define k where "k = n - 2"
    have k: "n = Suc (Suc k)" using False n(1) unfolding k_def by linarith
    have "replicate (n - 1) (0 :: u8) = replicate k 0 @ [0]" by (simp add: k replicate_append_same)
    then have "buf = (?rest @ [0x06] @ replicate k 0) @ [0]" by (simp only: buf append_assoc)
    moreover have "r - 1 = length (?rest @ [0x06] @ replicate k (0 :: u8))"
      using n(2) o k unfolding length_append length_replicate list.size by linarith
    ultimately have "buf[r - 1 := buf ! (r - 1) OR 0x80] = (?rest @ [0x06] @ replicate k 0) @ [0x80]"
      by (simp only: list_update_length nth_append_length) simp
    with k show ?thesis by simp
  qed
  moreover have "length (?rest @ (if n = 1 then [0x86] else [0x06] @ replicate (n - 2) 0 @ [0x80])) = r"
  proof -
    have "length (if n = 1 then [0x86] else [0x06] @ replicate (n - 2) 0 @ [0x80 :: u8]) = n" using n(1) by auto
    then show ?thesis using n(2) o(2) by (metis length_append)
  qed
  ultimately show ?thesis
    using blocks_append [of r M] assms(1) by (simp add: sha3_pad_def n_def [symmetric] Let_def blocks_single)
qed

lemma put_le32_low: "put_le32 (ucast w) = take 4 (put_le64 w)"
  by (rule nth_equalityI) (auto simp: put_le32_def put_le64_def nth_put_le intro!: bit_word_eqI simp: bit_simps)

lemma take_concat_put_le64: "take (8 * n) (concat (map put_le64 ws)) = concat (map put_le64 (take n ws))"
proof (induction n arbitrary: ws)
  case (Suc n)
  then show ?case by (cases ws) simp_all
qed simp

lemma drop_concat_put_le64: "drop (8 * n) (concat (map put_le64 ws)) = concat (map put_le64 (drop n ws))"
proof (induction n arbitrary: ws)
  case (Suc n)
  then show ?case by (cases ws) simp_all
qed simp

lemma take28:
  assumes "length S = 25"
  shows "take 28 (concat (map put_le64 S)) = concat (map put_le64 (take 3 S)) @ take 4 (put_le64 (S ! 3))"
proof -
  have "drop 3 S = S ! 3 # drop 4 S" using Cons_nth_drop_Suc [of 3 S] assms by simp
  then have "take 4 (drop 24 (concat (map put_le64 S))) = take 4 (put_le64 (S ! 3))"
    using drop_concat_put_le64 [of 3 S] by simp
  moreover have "take 24 (concat (map put_le64 S)) = concat (map put_le64 (take 3 S))"
    using take_concat_put_le64 [of 3 S] by simp
  moreover have "take 28 xs = take 24 xs @ take 4 (drop 24 xs)" for xs :: bytes
    using take_add [of 24 4 xs] by simp
  ultimately show ?thesis by simp
qed

lemma sha3_final_digest:
  assumes ds: "ds \<in> {28, 32, 48, 64}" and abs: "sha3_absorbed (200 - 2 * ds) M s"
  shows "crypto_sha3_final ds s = sha3_digest ds M"
proof -
  let ?r = "200 - 2 * ds"
  let ?S = "sha3_sponge ?r (blocks ?r (sha3_pad ?r M))"
  have r: "1 < ?r" using ds by auto
  have "partial s = length M mod ?r" "rsiz s = ?r" "rsizw s = ?r div 8" "sha3_st s = sha3_sponge ?r (blocks ?r M)"
    using abs by (simp_all add: sha3_absorbed_def)
  then have f: "crypto_sha3_final ds s = concat (map put_le64 (take (ds div 8) ?S)) @
      (if ds AND 4 \<noteq> 0 then put_le32 (ucast (?S ! (ds div 8))) else [])"
    unfolding crypto_sha3_final_def Let_def sha3_pad_blocks [OF r abs] sha3_sponge_append by simp
  have S: "length ?S = 25" by simp
  have d: "sha3_digest ds M = take ds (concat (map put_le64 ?S))" by (simp only: sha3_digest_def Let_def)
  show ?thesis
  proof (cases "ds = 28")
    case True
    note take28 [OF S]
    moreover have "(28 :: nat) div 8 = 3" "(28 :: nat) AND 4 \<noteq> 0" by simp_all
    ultimately show ?thesis unfolding f d by (simp only: True put_le32_low if_True not_False_eq_True)
  next
    case False
    then have "ds = 32 \<or> ds = 48 \<or> ds = 64" using ds by auto
    then have "8 * (ds div 8) = ds" "ds AND 4 = 0" by auto
    then show ?thesis using take_concat_put_le64 [of "ds div 8" ?S] unfolding f d by simp
  qed
qed

section \<open>Correctness\<close>

lemma sha3_chunks:
  assumes "ds \<in> {28, 32, 48, 64}" and "\<forall>c\<in>set chunks. length c < 2 ^ 32 - 200"
  shows "\<exists>s. upd_all crypto_sha3_update (crypto_sha3_init ds) chunks = Some s \<and>
    sha3_absorbed (200 - 2 * ds) (concat chunks) s"
  using assms(1) sha3_224.chunks_absorbed [OF assms(2)] sha3_256.chunks_absorbed [OF assms(2)]
    sha3_384.chunks_absorbed [OF assms(2)] sha3_512.chunks_absorbed [OF assms(2)] by blast

text \<open>C13: the four SHA-3 algorithms give the sponge digest of the concatenation of the chunks, for
  chunks shorter than \<open>2 ^ 32 - 200\<close> bytes.\<close>

theorem sha3_correct:
  assumes "ds \<in> {28, 32, 48, 64}" and "\<forall>c\<in>set chunks. length c < 2 ^ 32 - 200"
  shows "\<exists>s. upd_all crypto_sha3_update (crypto_sha3_init ds) chunks = Some s \<and>
    crypto_sha3_final ds s = sha3_digest ds (concat chunks)"
  using sha3_chunks [OF assms] sha3_final_digest [OF assms(1)] by blast

theorem sha3_correct_witness:
  "\<exists>s. upd_all crypto_sha3_update (crypto_sha3_init 32) [[1, 2], replicate 300 3] = Some s \<and>
    crypto_sha3_final 32 s = sha3_digest 32 ([1, 2] @ replicate 300 3)"
  using sha3_correct [of 32 "[[1, 2], replicate 300 3]"] by simp

text \<open>C14: the permutation of the code, which moves the lanes in place along one cycle, is the one of
  the standard: 24 rounds of Theta, Rho, Pi, Chi and Iota with the rotations of the walk over the
  lanes and the constants of the feedback register.\<close>

theorem keccakf_is_keccak_p: "length st = 25 \<Longrightarrow> keccakf st = keccak_p st"
  by (simp add: keccakf_standard)

theorem keccakf_is_keccak_p_witness: "keccakf (replicate 25 7) = keccak_p (replicate 25 7)"
  by (rule keccakf_is_keccak_p) simp

text \<open>The sum of the partial length and the data length wraps at \<open>2 ^ 32\<close>: the data is then copied into
  the buffer as if it fitted.\<close>

lemma sha3_update_overruns_buffer:
  "\<exists>s. crypto_sha3_update (crypto_sha3_init 32) (replicate 100 x) = Some s \<and>
    crypto_sha3_update s (replicate (2 ^ 32 - 50) y) = None"
  by (simp add: crypto_sha3_update_def crypto_sha3_init_def)

end
