(* ===== verification/DrbgBase.thy ===== *)
theory DrbgBase
  imports Prelude
begin

text \<open>
  The state of a deterministic random bit generator (\<open>drbg.c\<close>), the table of the generators with
  their names, and the arithmetic on the value \<open>V\<close>. The length macros of \<open>drbg.h\<close>, which is outside
  the repository, are fields of a record of limits; the state and block lengths come from the core.
\<close>

section \<open>The generators\<close>

datatype drbg_type = DRBG_CTR | DRBG_HASH | DRBG_HMAC
datatype drbg_strength = DRBG_STRENGTH128 | DRBG_STRENGTH192 | DRBG_STRENGTH256

record drbg_core =
  core_type :: drbg_type
  core_strength :: drbg_strength
  statelen :: nat
  blocklen :: nat
  cra_name :: string
  backend_cra_name :: string

abbreviation drbg_core_of ::
    "drbg_type \<Rightarrow> drbg_strength \<Rightarrow> nat \<Rightarrow> nat \<Rightarrow> string \<Rightarrow> string \<Rightarrow> drbg_core" where
  "drbg_core_of t s l b n a \<equiv> \<lparr>core_type = t, core_strength = s, statelen = l, blocklen = b,
    cra_name = n, backend_cra_name = a\<rparr>"

definition drbg_cores :: "drbg_core list" where
  "drbg_cores = [
    drbg_core_of DRBG_CTR DRBG_STRENGTH128 32 16 ''ctr_aes128'' ''aes'',
    drbg_core_of DRBG_CTR DRBG_STRENGTH192 40 16 ''ctr_aes192'' ''aes'',
    drbg_core_of DRBG_CTR DRBG_STRENGTH256 48 16 ''ctr_aes256'' ''aes'',
    drbg_core_of DRBG_HASH DRBG_STRENGTH256 111 48 ''sha384'' ''sha384'',
    drbg_core_of DRBG_HASH DRBG_STRENGTH256 111 64 ''sha512'' ''sha512'',
    drbg_core_of DRBG_HASH DRBG_STRENGTH256 55 32 ''sha256'' ''sha256'',
    drbg_core_of DRBG_HMAC DRBG_STRENGTH256 48 48 ''hmac_sha384'' ''hmac(sha384)'',
    drbg_core_of DRBG_HMAC DRBG_STRENGTH256 32 32 ''hmac_sha256'' ''hmac(sha256)'',
    drbg_core_of DRBG_HMAC DRBG_STRENGTH256 64 64 ''hmac_sha512'' ''hmac(sha512)'']"

definition drbg_sec_strength :: "drbg_strength \<Rightarrow> nat" where
  "drbg_sec_strength s =
    (case s of DRBG_STRENGTH128 \<Rightarrow> 16 | DRBG_STRENGTH192 \<Rightarrow> 24 | DRBG_STRENGTH256 \<Rightarrow> 32)"

text \<open>
  The name a generator is registered under, and the lookup of the core and of the prediction
  resistance flag by name. \<open>memcmp\<close> compares as many characters as the name has after its prefix,
  so a core matches when the rest is a prefix of its name.
\<close>

definition drbg_driver_name :: "drbg_core \<Rightarrow> bool \<Rightarrow> string" where
  "drbg_driver_name core pr = (if pr then ''drbg_pr_'' else ''drbg_nopr_'') @ cra_name core"

fun drbg_find_core :: "string \<Rightarrow> nat \<Rightarrow> drbg_core list \<Rightarrow> nat option" where
  "drbg_find_core rest i [] = None"
| "drbg_find_core rest i (c # cs) =
    (if take (length rest) (cra_name c) = rest then Some i else drbg_find_core rest (i + 1) cs)"

definition drbg_convert_tfm_core :: "string \<Rightarrow> nat \<Rightarrow> nat \<times> bool" where
  "drbg_convert_tfm_core name coreref =
    (let find = \<lambda>start pr. (case drbg_find_core (drop start name) 0 drbg_cores of
          Some i \<Rightarrow> (i, pr) | None \<Rightarrow> (coreref, pr))
     in if take 10 name = ''drbg_nopr_'' then find 10 False
        else if take 8 name = ''drbg_pr_'' then find 8 True
        else (coreref, True))"

section \<open>The state\<close>

datatype drbg_seed_state = SEED_UNSEEDED | SEED_PARTIAL | SEED_FULL

record drbg_state =
  drbg_V :: bytes
  drbg_C :: bytes
  reseed_ctr :: nat
  reseed_threshold :: nat
  seeded :: drbg_seed_state
  last_seed_time :: nat
  drbg_pr :: bool
  core :: "drbg_core option"
  fips_primed :: bool
  drbg_prev :: bytes
  test_data :: "bytes option"
  has_jent :: bool
  backend_key :: bytes
  df_data :: bytes

text \<open>
  The constants and inline functions of \<open>drbg.h\<close>: the four prefix bytes, the limits, and the key
  length. A backend writes its output buffer and returns an error code or none; the strings of the
  linked lists it is given are a list.
\<close>

record drbg_hdr =
  drbg_prefix :: "nat \<Rightarrow> u8"
  max_request_bytes :: nat
  max_addtl :: nat
  max_requests :: nat
  keylen :: "drbg_core \<Rightarrow> nat"

type_synonym hash_backend = "bytes list \<Rightarrow> errno option \<times> bytes"

section \<open>Addition to a big-endian buffer\<close>

text \<open>
  The two loops of \<open>drbg_add_buf\<close> run from the last byte to the first; here they run over the
  reversed buffers. \<open>remainder\<close> is an unsigned int that never exceeds 511.
\<close>

fun drbg_add_loop :: "bytes \<Rightarrow> bytes \<Rightarrow> nat \<Rightarrow> bytes \<times> bytes \<times> nat" where
  "drbg_add_loop (d # dst) (a # add) remainder =
    (let remainder = remainder + unat d + unat a;
         (out, rest, remainder') = drbg_add_loop dst add (remainder div 256)
     in (of_nat (remainder mod 256) # out, rest, remainder'))"
| "drbg_add_loop dst add remainder = ([], dst, remainder)"

fun drbg_carry_loop :: "bytes \<Rightarrow> nat \<Rightarrow> bytes" where
  "drbg_carry_loop (d # dst) remainder =
    (if remainder > 0 then
       (let remainder = unat d + 1 in of_nat (remainder mod 256) # drbg_carry_loop dst (remainder div 256))
     else d # dst)"
| "drbg_carry_loop [] remainder = []"

definition drbg_add_buf :: "bytes \<Rightarrow> bytes \<Rightarrow> bytes" where
  "drbg_add_buf dst add =
    (case drbg_add_loop (rev dst) (rev add) 0 of
       (out, rest, remainder) \<Rightarrow> rev (out @ drbg_carry_loop rest remainder))"

lemma unat_byte_of_nat: "n < 256 \<Longrightarrow> unat (of_nat n :: u8) = n"
  by (simp add: unat_of_nat)

lemma drbg_add_digit: "x = y + q \<Longrightarrow> s = 256 * q + m \<Longrightarrow> m + 256 * x = s + 256 * (y :: nat)"
  by simp

lemma drbg_add_loop_val:
  "length add \<le> length dst \<Longrightarrow> r \<le> 1 \<Longrightarrow> drbg_add_loop dst add r = (out, rest, r') \<Longrightarrow>
    length out = length add \<and> rest = drop (length add) dst \<and> r' \<le> 1 \<and>
    le_val out + 256 ^ length add * r' = le_val (take (length add) dst) + le_val add + r"
proof (induction dst add r arbitrary: out rest r' rule: drbg_add_loop.induct)
  case (1 d dst a add r)
  let ?s = "r + unat d + unat a"
  obtain out1 r1 where l: "drbg_add_loop dst add (?s div 256) = (out1, rest, r1)"
      "out = of_nat (?s mod 256) # out1" "r' = r1"
    using "1.prems"(3) by (auto simp: Let_def split: prod.splits)
  have s: "?s div 256 \<le> 1"
  proof -
    have "?s < 512" using "1.prems"(2) unat_byte_less [of d] unat_byte_less [of a] by linarith
    then show ?thesis by linarith
  qed
  have IH: "length out1 = length add \<and> rest = drop (length add) dst \<and> r1 \<le> 1 \<and>
      le_val out1 + 256 ^ length add * r1 = le_val (take (length add) dst) + le_val add + ?s div 256"
    by (rule "1.IH" [OF refl _ s l(1)]) (use "1.prems"(1) in simp)
  define X where "X = le_val out1 + 256 ^ length add * r1"
  have "X = le_val (take (length add) dst) + le_val add + ?s div 256" using IH by (simp add: X_def)
  moreover have "?s = 256 * (?s div 256) + ?s mod 256" by (rule mult_div_mod_eq [symmetric])
  ultimately have "?s mod 256 + 256 * X = ?s + 256 * (le_val (take (length add) dst) + le_val add)"
    by (rule drbg_add_digit)
  then have E: "?s mod 256 + 256 * (le_val out1 + 256 ^ length add * r1) =
      ?s + 256 * (le_val (take (length add) dst) + le_val add)" by (simp only: X_def)
  have U: "unat (of_nat (?s mod 256) :: u8) = ?s mod 256" by (rule unat_byte_of_nat) simp
  have "le_val out + 256 ^ length (a # add) * r' = ?s mod 256 + 256 * (le_val out1 + 256 ^ length add * r1)"
    unfolding l(2,3) le_val.simps U by (simp add: algebra_simps)
  moreover have "le_val (take (length (a # add)) (d # dst)) + le_val (a # add) + r =
      ?s + 256 * (le_val (take (length add) dst) + le_val add)" by simp
  ultimately show ?case using IH l(2,3) E by simp
qed auto

lemma drbg_carry_loop_val:
  "r \<le> 1 \<Longrightarrow> length (drbg_carry_loop dst r) = length dst \<and>
    le_val (drbg_carry_loop dst r) = (le_val dst + r) mod 256 ^ length dst"
proof (induction dst r rule: drbg_carry_loop.induct)
  case (1 d dst r)
  show ?case
  proof (cases "r = 1")
    case False
    then show ?thesis using 1(2) le_val_less [of "d # dst"] by simp
  next
    case True
    let ?s = "unat d + 1"
    have d: "?s div 256 \<le> 1" using unat_byte_less [of d] by linarith
    have IH: "length (drbg_carry_loop dst (?s div 256)) = length dst \<and>
        le_val (drbg_carry_loop dst (?s div 256)) = (le_val dst + ?s div 256) mod 256 ^ length dst"
      by (rule 1(1)) (use True d in simp_all)
    have "unat (of_nat (?s mod 256) :: u8) = ?s mod 256" by (rule unat_byte_of_nat) simp
    moreover have "(?s + 256 * le_val dst) mod (256 * 256 ^ length dst) =
        256 * ((le_val dst + ?s div 256) mod 256 ^ length dst) + ?s mod 256"
    proof -
      have "(?s + 256 * le_val dst) div 256 = le_val dst + ?s div 256" "(?s + 256 * le_val dst) mod 256 = ?s mod 256"
        by simp_all
      then show ?thesis using mod_mult2_eq [of "?s + 256 * le_val dst" 256 "256 ^ length dst"] by simp
    qed
    ultimately show ?thesis using True IH by (simp add: algebra_simps)
  qed
qed simp

lemma drbg_add_buf_val:
  assumes "length add \<le> length dst"
  shows "length (drbg_add_buf dst add) = length dst \<and>
    be_val (drbg_add_buf dst add) = (be_val dst + be_val add) mod 256 ^ length dst"
proof -
  let ?n = "length add"
  obtain out rest r where l: "drbg_add_loop (rev dst) (rev add) 0 = (out, rest, r)" by (metis prod_cases3)
  have s: "length out = ?n" "rest = drop ?n (rev dst)" "r \<le> 1"
    "le_val out + 256 ^ ?n * r = le_val (take ?n (rev dst)) + le_val (rev add)"
    using drbg_add_loop_val [OF _ _ l] assms by simp_all
  note c = drbg_carry_loop_val [OF s(3), of rest]
  define m where "m = length dst - ?n"
  have len: "length rest = m" "length dst = ?n + m" using s(2) assms by (simp_all add: m_def)
  have split: "le_val (rev dst) = le_val (take ?n (rev dst)) + 256 ^ ?n * le_val rest"
    using le_val_append [of "take ?n (rev dst)" rest] s(2) assms by simp
  have out: "le_val out < 256 ^ ?n" using le_val_less [of out] s(1) by simp
  have "le_val (out @ drbg_carry_loop rest r) = le_val out + 256 ^ ?n * ((le_val rest + r) mod 256 ^ m)"
    using c len(1) s(1) by (simp add: le_val_append)
  also have "\<dots> = (le_val out + 256 ^ ?n * (le_val rest + r)) mod (256 ^ ?n * 256 ^ m)"
    using out mod_mult2_eq [of "le_val out + 256 ^ ?n * (le_val rest + r)" "256 ^ ?n" "256 ^ m"]
    by (simp add: div_mult_self1)
  also have "le_val out + 256 ^ ?n * (le_val rest + r) = le_val (rev dst) + le_val (rev add)"
    using s(4) split by (simp add: distrib_left)
  finally show ?thesis
    using l c len s(1) by (simp add: drbg_add_buf_def be_val_def power_add)
qed

section \<open>Numbers as big-endian strings\<close>

fun le_bytes :: "nat \<Rightarrow> nat \<Rightarrow> bytes" where
  "le_bytes 0 v = []"
| "le_bytes (Suc n) v = of_nat (v mod 256) # le_bytes n (v div 256)"

definition be_bytes :: "nat \<Rightarrow> nat \<Rightarrow> bytes" where
  "be_bytes n v = rev (le_bytes n v)"

lemma length_be_bytes [simp]: "length (be_bytes n v) = n"
proof -
  have "length (le_bytes n v) = n" by (induction n v rule: le_bytes.induct) simp_all
  then show ?thesis by (simp add: be_bytes_def)
qed

lemma be_val_be_bytes: "be_val (be_bytes n v) = v mod 256 ^ n"
proof -
  have "le_val (le_bytes n v) = v mod 256 ^ n"
  proof (induction n v rule: le_bytes.induct)
    case (2 n v)
    have "unat (of_nat (v mod 256) :: u8) = v mod 256" by (rule unat_byte_of_nat) simp
    with 2 show ?case using mod_mult2_eq [of v 256 "256 ^ n"] by simp
  qed simp
  then show ?thesis by (simp add: be_bytes_def be_val_def)
qed

lemma be_bytes_unique: "length xs = n \<Longrightarrow> be_val xs = v mod 256 ^ n \<Longrightarrow> be_bytes n v = xs"
  by (rule be_val_inj) (simp_all add: be_val_be_bytes)

section \<open>The names\<close>

text \<open>Every generator is found again under the name it is registered with, with and without
  prediction resistance.\<close>

theorem drbg_names_roundtrip:
  "map (\<lambda>c. drbg_convert_tfm_core (drbg_driver_name c pr) coreref) drbg_cores =
    map (\<lambda>i. (i, pr)) [0..<length drbg_cores]"
  by (cases pr) (simp_all add: drbg_cores_def drbg_driver_name_def drbg_convert_tfm_core_def)

end
