(* ===== verification/DrbgHash.thy ===== *)
theory DrbgHash
  imports DrbgBase CryptoInc Hmac
begin

text \<open>
  The Hash DRBG of \<open>drbg.c\<close>: derivation function, update, additional input, Hashgen and generate.
  \<open>hash\<close> is \<open>drbg_kcapi_hash\<close>, which hashes the concatenation of a list of strings. The scratchpad
  is cleared at the end of every routine, so its parts are local bindings here.
\<close>

section \<open>The model\<close>

text \<open>
  \<open>drbg_kcapi_hash\<close> over a hash given by its operations: the state after init, update, and final, whose
  error is the only one it returns.
\<close>

definition drbg_kcapi_hash ::
    "'s \<Rightarrow> ('s \<Rightarrow> bytes \<Rightarrow> 's) \<Rightarrow> ('s \<Rightarrow> errno option \<times> bytes) \<Rightarrow> hash_backend" where
  "drbg_kcapi_hash init update final ins = final (foldl update init ins)"

function hash_df_loop ::
    "hash_backend \<Rightarrow> nat \<Rightarrow> nat \<Rightarrow> u8 \<Rightarrow> bytes list \<Rightarrow> nat \<Rightarrow> bytes \<Rightarrow> errno option \<times> bytes" where
  "hash_df_loop hash bl outlen i ins len acc =
    (if 0 < bl \<and> len < outlen then
       (case hash ((i # put_be32 (of_nat (outlen * 8))) # ins) of
          (Some err, tmp) \<Rightarrow> (Some err, acc)
        | (None, tmp) \<Rightarrow>
            let n = (if bl < outlen - len then bl else outlen - len)
            in hash_df_loop hash bl outlen (i + 1) ins (len + n) (acc @ take n tmp))
     else (None, acc))"
  by auto
termination by (relation "measure (\<lambda>(hash, bl, outlen, i, ins, len, acc). outlen - len)") auto

declare hash_df_loop.simps [simp del]

definition drbg_hash_df :: "hash_backend \<Rightarrow> nat \<Rightarrow> bytes \<Rightarrow> nat \<Rightarrow> bytes list \<Rightarrow> errno option \<times> bytes" where
  "drbg_hash_df hash bl outval outlen entropylist =
    (case hash_df_loop hash bl outlen 1 entropylist 0 [] of
       (ret, out) \<Rightarrow> (ret, memcpy_at outval 0 out))"

definition drbg_hash_update ::
    "drbg_hdr \<Rightarrow> hash_backend \<Rightarrow> nat \<Rightarrow> nat \<Rightarrow> bytes list option \<Rightarrow> bool \<Rightarrow> drbg_state \<Rightarrow> errno option \<times> drbg_state" where
  "drbg_hash_update hdr hash sl bl seed reseed drbg =
    (case seed of
       None \<Rightarrow> (Some EINVAL, drbg)
     | Some seed \<Rightarrow>
       (let datalist = (if reseed then [[drbg_prefix hdr 1], drbg_V drbg] else []) @ seed;
            (ret, V) = drbg_hash_df hash bl (drbg_V drbg) sl datalist;
            drbg = drbg\<lparr>drbg_V := V\<rparr>
        in if ret \<noteq> None then (ret, drbg)
           else let (ret, C) = drbg_hash_df hash bl (drbg_C drbg) sl [[drbg_prefix hdr 0], drbg_V drbg]
             in (ret, drbg\<lparr>drbg_C := C\<rparr>)))"

definition drbg_hash_process_addtl ::
    "drbg_hdr \<Rightarrow> hash_backend \<Rightarrow> nat \<Rightarrow> bytes list \<Rightarrow> drbg_state \<Rightarrow> errno option \<times> drbg_state" where
  "drbg_hash_process_addtl hdr hash bl addtl drbg =
    (if addtl = [] then (None, drbg)
     else case hash ([[drbg_prefix hdr 2], drbg_V drbg] @ addtl) of
       (Some err, _) \<Rightarrow> (Some err, drbg)
     | (None, h) \<Rightarrow> (None, drbg\<lparr>drbg_V := drbg_add_buf (drbg_V drbg) (take bl h)\<rparr>))"

function hashgen_loop ::
    "bool \<Rightarrow> hash_backend \<Rightarrow> nat \<Rightarrow> nat \<Rightarrow> nat \<Rightarrow> nat \<Rightarrow> bytes \<Rightarrow> bytes \<Rightarrow> (errno + nat) \<times> bytes" where
  "hashgen_loop wide hash sl bl buflen len src buf =
    (if 0 < bl \<and> len < buflen then
       (case hash [src] of
          (Some err, _) \<Rightarrow> (Inl err, buf)
        | (None, dst) \<Rightarrow>
            let outlen = (if bl < buflen - len then bl else buflen - len);
                buf = buf @ take outlen dst; len = len + outlen;
                src = (if len < buflen then crypto_inc wide src sl else src)
            in hashgen_loop wide hash sl bl buflen len src buf)
     else (Inr len, buf))"
  by auto
termination by (relation "measure (\<lambda>(wide, hash, sl, bl, buflen, len, src, buf). buflen - len)") auto

declare hashgen_loop.simps [simp del]

definition drbg_hash_hashgen ::
    "bool \<Rightarrow> hash_backend \<Rightarrow> nat \<Rightarrow> nat \<Rightarrow> nat \<Rightarrow> drbg_state \<Rightarrow> (errno + nat) \<times> bytes" where
  "drbg_hash_hashgen wide hash sl bl buflen drbg = hashgen_loop wide hash sl bl buflen 0 (drbg_V drbg) []"

text \<open>The result is the return value, the bytes written to the caller's buffer and the new state.\<close>

definition drbg_hash_generate ::
    "bool \<Rightarrow> drbg_hdr \<Rightarrow> hash_backend \<Rightarrow> nat \<Rightarrow> nat \<Rightarrow> nat \<Rightarrow> bytes list \<Rightarrow> drbg_state \<Rightarrow>
      (errno + nat) \<times> bytes \<times> drbg_state" where
  "drbg_hash_generate wide hdr hash sl bl buflen addtl drbg =
    (case drbg_hash_process_addtl hdr hash bl addtl drbg of
       (Some err, drbg) \<Rightarrow> (Inl err, [], drbg)
     | (None, drbg) \<Rightarrow>
       (case drbg_hash_hashgen wide hash sl bl buflen drbg of
          (len, buf) \<Rightarrow>
         (case hash [[drbg_prefix hdr 3], drbg_V drbg] of
            (Some err, _) \<Rightarrow> (Inl err, buf, drbg)
          | (None, h) \<Rightarrow>
             let V = drbg_add_buf (drbg_V drbg) (take bl h);
                 V = drbg_add_buf V (take sl (drbg_C drbg));
                 V = drbg_add_buf V (put_be64 (of_nat (reseed_ctr drbg)))
             in (len, buf, drbg\<lparr>drbg_V := V\<rparr>))))"

section \<open>The specification of SP 800-90A\<close>

text \<open>
  Here \<open>H\<close> is the hash function of \<open>bl\<close> bytes. \<open>Hash_df\<close> concatenates the hashes of a counter, the
  length in bits and the input; \<open>Hashgen\<close> those of \<open>V\<close>, \<open>V + 1\<close>, \<open>V + 2\<close> and so on, modulo
  \<open>256 ^ sl\<close>.
\<close>

definition blocks_for :: "nat \<Rightarrow> nat \<Rightarrow> nat" where
  "blocks_for bl n = (n + bl - 1) div bl"

definition hash_df_spec :: "(bytes \<Rightarrow> bytes) \<Rightarrow> nat \<Rightarrow> nat \<Rightarrow> bytes \<Rightarrow> bytes" where
  "hash_df_spec H bl n M =
    take n (concat (map (\<lambda>i. H (of_nat (i + 1) # put_be32 (of_nat (n * 8)) @ M)) [0..<blocks_for bl n]))"

definition hashgen_spec :: "(bytes \<Rightarrow> bytes) \<Rightarrow> nat \<Rightarrow> nat \<Rightarrow> nat \<Rightarrow> bytes \<Rightarrow> bytes" where
  "hashgen_spec H bl sl n V =
    take n (concat (map (\<lambda>i. H (be_bytes sl (be_val V + i))) [0..<blocks_for bl n]))"

definition hash_generate_V :: "(nat \<Rightarrow> u8) \<Rightarrow> (bytes \<Rightarrow> bytes) \<Rightarrow> nat \<Rightarrow> bytes \<Rightarrow> bytes \<Rightarrow> nat \<Rightarrow> bytes" where
  "hash_generate_V p H sl V C ctr = be_bytes sl (be_val V + be_val (H (p 3 # V)) + be_val C + ctr)"

definition hash_addtl_V :: "(nat \<Rightarrow> u8) \<Rightarrow> (bytes \<Rightarrow> bytes) \<Rightarrow> nat \<Rightarrow> bytes list \<Rightarrow> bytes \<Rightarrow> bytes" where
  "hash_addtl_V p H sl addtl V =
    (if addtl = [] then V else be_bytes sl (be_val V + be_val (H (p 2 # V @ concat addtl))))"

section \<open>Loops that fill a buffer block by block\<close>

lemma blocks_for_step:
  assumes "0 < bl" "0 < n"
  shows "blocks_for bl n = Suc (blocks_for bl (n - min bl n))"
proof (cases "bl < n")
  case True
  then have "n + bl - 1 = (n - bl + bl - 1) + bl" using assms(1) by simp
  then show ?thesis using assms(1) True unfolding blocks_for_def by (metis Suc_eq_plus1 div_add_self2 min.absorb1 less_imp_le less_not_refl2)
next
  case False
  then have "(n + bl - 1) div bl = 1" using assms by (intro div_nat_eqI) simp_all
  moreover have "(bl - 1) div bl = 0" using assms(1) by simp
  ultimately show ?thesis using False by (simp add: blocks_for_def min_def)
qed

lemma blocks_for_0 [simp]: "0 < bl \<Longrightarrow> blocks_for bl 0 = 0"
  by (simp add: blocks_for_def)

lemma take_blocks_step:
  assumes "0 < bl" "0 < n" "length (f 0) = bl"
  shows "take n (concat (map f [0..<blocks_for bl n])) =
    take (min bl n) (f 0) @ take (n - min bl n) (concat (map (\<lambda>i. f (Suc i)) [0..<blocks_for bl (n - min bl n)]))"
proof -
  have "map f [0..<blocks_for bl n] = f 0 # map (\<lambda>i. f (Suc i)) [0..<blocks_for bl (n - min bl n)]"
    unfolding blocks_for_step [OF assms(1,2)] by (simp add: upt_conv_Cons map_Suc_upt [symmetric] comp_def del: upt_Suc)
  then show ?thesis using assms(3) by (simp add: min_def)
qed

lemma hash_df_loop_spec:
  assumes hash: "\<And>ins. hash ins = (None, H (concat ins))" and H: "\<And>M. length (H M) = bl" and bl: "0 < bl"
  shows "len \<le> outlen \<Longrightarrow> hash_df_loop hash bl outlen i ins len acc =
    (None, acc @ take (outlen - len) (concat (map (\<lambda>k. H ((i + of_nat k) # put_be32 (of_nat (outlen * 8)) @ concat ins))
      [0..<blocks_for bl (outlen - len)])))"
proof (induction "outlen - len" arbitrary: len i acc rule: less_induct)
  case less
  let ?f = "\<lambda>i k. H ((i + of_nat k) # put_be32 (of_nat (outlen * 8)) @ concat ins)"
  show ?case
  proof (cases "len < outlen")
    case True
    let ?n = "min bl (outlen - len)"
    have n: "(if bl < outlen - len then bl else outlen - len) = ?n" by simp
    have IH: "hash_df_loop hash bl outlen (i + 1) ins (len + ?n) (acc @ take ?n (?f i 0)) =
        (None, (acc @ take ?n (?f i 0)) @ take (outlen - (len + ?n)) (concat (map (?f (i + 1)) [0..<blocks_for bl (outlen - (len + ?n))])))"
      by (rule less) (use True bl in auto)
    have shift: "(\<lambda>k. ?f i (Suc k)) = ?f (i + 1)" by (simp add: fun_eq_iff ac_simps)
    have "take (outlen - len) (concat (map (?f i) [0..<blocks_for bl (outlen - len)])) =
        take ?n (?f i 0) @ take (outlen - len - ?n) (concat (map (\<lambda>k. ?f i (Suc k)) [0..<blocks_for bl (outlen - len - ?n)]))"
      by (rule take_blocks_step) (use True bl H in simp_all)
    then show ?thesis
      using True bl IH unfolding shift
      by (subst hash_df_loop.simps) (simp add: hash n Let_def diff_diff_left)
  next
    case False
    then show ?thesis by (subst hash_df_loop.simps) simp
  qed
qed

lemma length_blocks:
  "(\<And>i. length (f i) = bl) \<Longrightarrow> length (concat (map f [0..<k])) = bl * k"
  by (induction k) simp_all

lemma blocks_for_le: "0 < bl \<Longrightarrow> n \<le> bl * blocks_for bl n"
proof -
  assume "0 < bl"
  then have "(n + bl - 1) mod bl < bl" by simp
  moreover have "bl * ((n + bl - 1) div bl) + (n + bl - 1) mod bl = n + bl - 1" by (rule mult_div_mod_eq)
  ultimately show "n \<le> bl * blocks_for bl n" unfolding blocks_for_def using \<open>0 < bl\<close> by linarith
qed

lemma drbg_hash_df_spec:
  assumes "\<And>ins. hash ins = (None, H (concat ins))" "\<And>M. length (H M) = bl" "0 < bl" "length outval = n"
  shows "drbg_hash_df hash bl outval n ins = (None, hash_df_spec H bl n (concat ins))"
proof -
  have "length (concat (map (\<lambda>k. H (of_nat (k + 1) # put_be32 (of_nat (n * 8)) @ concat ins)) [0..<blocks_for bl n])) =
      bl * blocks_for bl n"
    by (rule length_blocks) (rule assms(2))
  then have "length (hash_df_spec H bl n (concat ins)) = n"
    using blocks_for_le [OF assms(3), of n] by (simp add: hash_df_spec_def)
  then show ?thesis
    using hash_df_loop_spec [of hash H bl 0 n 1 ins "[]", OF assms(1-3)] assms(4)
    by (simp add: drbg_hash_df_def hash_df_spec_def memcpy_at_def add.commute)
qed

lemma crypto_inc_be_bytes:
  assumes "length V = sl"
  shows "crypto_inc wide (be_bytes sl v) sl = be_bytes sl (v + 1)"
proof -
  have "inc_ok (be_bytes sl v) sl (crypto_inc wide (be_bytes sl v) sl)" by (rule crypto_inc_ok) simp
  then have l: "length (crypto_inc wide (be_bytes sl v) sl) = sl"
    and v: "be_val (take sl (crypto_inc wide (be_bytes sl v) sl)) = (be_val (take sl (be_bytes sl v)) + 1) mod 256 ^ sl"
    by (simp_all add: inc_ok_def)
  have "be_val (crypto_inc wide (be_bytes sl v) sl) = (v + 1) mod 256 ^ sl"
    using v l by (simp add: be_val_be_bytes mod_Suc_eq)
  with l show ?thesis by (intro be_bytes_unique [symmetric]) simp_all
qed

lemma hashgen_loop_spec:
  assumes hash: "\<And>ins. hash ins = (None, H (concat ins))" and H: "\<And>M. length (H M) = bl" and bl: "0 < bl"
  shows "len \<le> n \<Longrightarrow> hashgen_loop wide hash sl bl n len (be_bytes sl v) buf =
    (Inr n, buf @ take (n - len) (concat (map (\<lambda>k. H (be_bytes sl (v + k))) [0..<blocks_for bl (n - len)])))"
proof (induction "n - len" arbitrary: len v buf rule: less_induct)
  case less
  let ?f = "\<lambda>v k. H (be_bytes sl (v + k))"
  show ?case
  proof (cases "len < n")
    case True
    define m where "m = min bl (n - len)"
    have m: "(if bl < n - len then bl else n - len) = m" "0 < m" "len + m \<le> n"
      using True bl by (auto simp: m_def)
    have inc: "crypto_inc wide (be_bytes sl v) sl = be_bytes sl (v + 1)"
      by (rule crypto_inc_be_bytes [of "be_bytes sl v"]) simp
    have IH: "hashgen_loop wide hash sl bl n (len + m) (be_bytes sl w) (buf @ take m (?f v 0)) =
        (Inr n, (buf @ take m (?f v 0)) @ take (n - (len + m)) (concat (map (?f w) [0..<blocks_for bl (n - (len + m))])))" for w
      by (rule less) (use True m in auto)
    have shift: "(\<lambda>k. ?f v (Suc k)) = ?f (v + 1)" by simp
    have "take (n - len) (concat (map (?f v) [0..<blocks_for bl (n - len)])) =
        take m (?f v 0) @ take (n - len - m) (concat (map (\<lambda>k. ?f v (Suc k)) [0..<blocks_for bl (n - len - m)]))"
      unfolding m_def by (rule take_blocks_step) (use True bl H in simp_all)
    then have split: "take (n - len) (concat (map (?f v) [0..<blocks_for bl (n - len)])) =
        take m (?f v 0) @ take (n - (len + m)) (concat (map (?f (v + 1)) [0..<blocks_for bl (n - (len + m))]))"
      unfolding shift by (simp only: diff_diff_left)
    have "hashgen_loop wide hash sl bl n len (be_bytes sl v) buf =
        hashgen_loop wide hash sl bl n (len + m) (be_bytes sl (if len + m < n then v + 1 else v))
          (buf @ take m (?f v 0))"
      using True bl by (subst hashgen_loop.simps) (simp add: hash m(1) Let_def inc)
    then show ?thesis
      using IH [of "v + 1"] IH [of v] m(3) unfolding split by (cases "len + m < n") simp_all
  next
    case False
    with less(2) show ?thesis by (subst hashgen_loop.simps) simp
  qed
qed

section \<open>The generator is the one of SP 800-90A\<close>

lemma drbg_add_buf_be_bytes:
  assumes "length V = sl" "length a \<le> sl" "be_val V = v mod 256 ^ sl"
  shows "drbg_add_buf V a = be_bytes sl (v + be_val a)"
  using drbg_add_buf_val [of a V] assms by (intro be_bytes_unique [symmetric]) (simp_all add: mod_add_left_eq)

lemma be_val_put_be64 [simp]: "be_val (put_be64 w) = unat w"
  using unat_get_be64 [of "put_be64 w"] by simp

lemma be_bytes_be_val: "length V = sl \<Longrightarrow> be_bytes sl (be_val V) = V"
  using be_val_less [of V] by (intro be_bytes_unique) simp_all

lemma length_hash_addtl_V [simp]: "length V = sl \<Longrightarrow> length (hash_addtl_V p H sl addtl V) = sl"
  by (simp add: hash_addtl_V_def)

lemma drbg_hash_process_addtl_spec:
  assumes "\<And>ins. hash ins = (None, H (concat ins))" "\<And>M. length (H M) = bl" "bl \<le> sl" "length (drbg_V drbg) = sl"
  shows "drbg_hash_process_addtl hdr hash bl addtl drbg =
    (None, drbg\<lparr>drbg_V := hash_addtl_V (drbg_prefix hdr) H sl addtl (drbg_V drbg)\<rparr>)"
proof (cases "addtl = []")
  case False
  have "drbg_add_buf (drbg_V drbg) a = be_bytes sl (be_val (drbg_V drbg) + be_val a)" if "length a = bl" for a
    using that assms(3,4) be_val_less [of "drbg_V drbg"] by (intro drbg_add_buf_be_bytes) simp_all
  with False show ?thesis by (simp add: drbg_hash_process_addtl_def assms(1,2) hash_addtl_V_def)
qed (simp add: drbg_hash_process_addtl_def hash_addtl_V_def)

lemma drbg_hash_hashgen_spec:
  assumes "\<And>ins. hash ins = (None, H (concat ins))" "\<And>M. length (H M) = bl" "0 < bl" "length (drbg_V drbg) = sl"
  shows "drbg_hash_hashgen wide hash sl bl n drbg = (Inr n, hashgen_spec H bl sl n (drbg_V drbg))"
  using hashgen_loop_spec [of hash H bl 0 n wide sl "be_val (drbg_V drbg)" "[]", OF assms(1-3)] assms(4)
  by (simp add: drbg_hash_hashgen_def hashgen_spec_def be_bytes_be_val)

lemma hash_V_chain:
  assumes "length V = sl" "length h \<le> sl" "length C = sl" "8 \<le> sl" "ctr < 2 ^ 64"
  shows "drbg_add_buf (drbg_add_buf (drbg_add_buf V h) C) (put_be64 (of_nat ctr)) =
    be_bytes sl (be_val V + be_val h + be_val C + ctr)"
proof -
  have 1: "drbg_add_buf V h = be_bytes sl (be_val V + be_val h)"
    using assms be_val_less [of V] by (intro drbg_add_buf_be_bytes) simp_all
  have 2: "drbg_add_buf (be_bytes sl (be_val V + be_val h)) C = be_bytes sl (be_val V + be_val h + be_val C)"
    using assms by (intro drbg_add_buf_be_bytes) (simp_all add: be_val_be_bytes)
  have 3: "unat (of_nat ctr :: u64) = ctr" using assms(5) by (simp add: unat_of_nat)
  have "drbg_add_buf (be_bytes sl (be_val V + be_val h + be_val C)) (put_be64 (of_nat ctr)) =
      be_bytes sl (be_val V + be_val h + be_val C + be_val (put_be64 (of_nat ctr)))"
    using assms by (intro drbg_add_buf_be_bytes) (simp_all add: be_val_be_bytes)
  then show ?thesis by (simp only: 1 2 3 be_val_put_be64)
qed

lemma drbg_hash_generate_spec:
  assumes "\<And>ins. hash ins = (None, H (concat ins))" "\<And>M. length (H M) = bl" "0 < bl" "bl \<le> sl" "8 \<le> sl"
    "length (drbg_V drbg) = sl" "length (drbg_C drbg) = sl" "reseed_ctr drbg < 2 ^ 64"
    "V1 = hash_addtl_V (drbg_prefix hdr) H sl addtl (drbg_V drbg)"
  shows "drbg_hash_generate wide hdr hash sl bl n addtl drbg =
    (Inr n, hashgen_spec H bl sl n V1,
     drbg\<lparr>drbg_V := hash_generate_V (drbg_prefix hdr) H sl V1 (drbg_C drbg) (reseed_ctr drbg)\<rparr>)"
proof -
  have V1: "length V1 = sl" using assms(6,9) by simp
  have "drbg_hash_process_addtl hdr hash bl addtl drbg = (None, drbg\<lparr>drbg_V := V1\<rparr>)"
    unfolding assms(9) by (rule drbg_hash_process_addtl_spec) (use assms in simp_all)
  moreover have "drbg_hash_hashgen wide hash sl bl n (drbg\<lparr>drbg_V := V1\<rparr>) = (Inr n, hashgen_spec H bl sl n V1)"
    using drbg_hash_hashgen_spec [of hash H bl "drbg\<lparr>drbg_V := V1\<rparr>" sl wide n, OF assms(1-3)] V1 by simp
  moreover have "drbg_add_buf (drbg_add_buf (drbg_add_buf V1 (H (drbg_prefix hdr 3 # V1))) (drbg_C drbg))
      (put_be64 (of_nat (reseed_ctr drbg))) = hash_generate_V (drbg_prefix hdr) H sl V1 (drbg_C drbg) (reseed_ctr drbg)"
    unfolding hash_generate_V_def by (rule hash_V_chain) (use assms V1 in simp_all)
  ultimately show ?thesis by (simp add: drbg_hash_generate_def assms(1,2,7) Let_def)
qed

lemma drbg_hash_update_spec:
  assumes "\<And>ins. hash ins = (None, H (concat ins))" "\<And>M. length (H M) = bl" "0 < bl"
    "length (drbg_V drbg) = sl" "length (drbg_C drbg) = sl"
    "V1 = hash_df_spec H bl sl ((if reseed then drbg_prefix hdr 1 # drbg_V drbg else []) @ concat seed)"
  shows "drbg_hash_update hdr hash sl bl (Some seed) reseed drbg =
    (None, drbg\<lparr>drbg_V := V1, drbg_C := hash_df_spec H bl sl (drbg_prefix hdr 0 # V1)\<rparr>)"
proof -
  have df: "drbg_hash_df hash bl out sl ins = (None, hash_df_spec H bl sl (concat ins))" if "length out = sl" for out ins
    by (rule drbg_hash_df_spec) (use assms that in simp_all)
  show ?thesis by (simp add: drbg_hash_update_def df assms(4-6) Let_def)
qed

text \<open>C15: a Hash DRBG follows SP 800-90A. Seeding sets \<open>V\<close> to the derivation function of the seed (after
  a prefix byte and the old \<open>V\<close> when reseeding) and \<open>C\<close> to that of \<open>V\<close>; generating first adds the hash of
  the additional input to \<open>V\<close>, returns the concatenated hashes of \<open>V\<close>, \<open>V + 1\<close>, ..., and then adds
  the hash of \<open>V\<close>, \<open>C\<close> and the reseed counter to \<open>V\<close> modulo its size. The backend is a hash that does
  not fail.\<close>

theorem drbg_hash_is_sp800_90a:
  assumes "\<And>ins. hash ins = (None, H (concat ins))" "\<And>M. length (H M) = bl" "0 < bl" "bl \<le> sl" "8 \<le> sl"
    "length (drbg_V drbg) = sl" "length (drbg_C drbg) = sl" "reseed_ctr drbg < 2 ^ 64"
    "V0 = hash_df_spec H bl sl ((if reseed then drbg_prefix hdr 1 # drbg_V drbg else []) @ concat seed)"
    "V1 = hash_addtl_V (drbg_prefix hdr) H sl addtl (drbg_V drbg)"
  shows "drbg_hash_update hdr hash sl bl (Some seed) reseed drbg =
      (None, drbg\<lparr>drbg_V := V0, drbg_C := hash_df_spec H bl sl (drbg_prefix hdr 0 # V0)\<rparr>) \<and>
    drbg_hash_generate wide hdr hash sl bl n addtl drbg =
      (Inr n, hashgen_spec H bl sl n V1,
       drbg\<lparr>drbg_V := hash_generate_V (drbg_prefix hdr) H sl V1 (drbg_C drbg) (reseed_ctr drbg)\<rparr>)"
  by (intro conjI drbg_hash_update_spec drbg_hash_generate_spec) (fact assms)+

text \<open>
  The interface of hash drivers gives the hypothesis on the backend: here for RIPEMD-160, whose
  20 byte digests fit any state of at least that size.
\<close>

definition rmd160_backend :: hash_backend where
  "rmd160_backend = drbg_kcapi_hash rmd160_init rmd160_update (\<lambda>s. (None, rmd160_final s))"

lemma rmd160_backend: "rmd160_backend ins = (None, md_digest rmd160_transform RMD_H (concat ins))"
  by (simp add: rmd160_backend_def drbg_kcapi_hash_def rmd160_stream.chunks_digest)

definition drbg_example :: "bytes \<Rightarrow> bytes \<Rightarrow> drbg_state" where
  "drbg_example V C = \<lparr>drbg_V = V, drbg_C = C, reseed_ctr = 1, reseed_threshold = 50, seeded = SEED_FULL,
    last_seed_time = 0, drbg_pr = False, core = None, fips_primed = False, drbg_prev = [], test_data = None,
    has_jent = False, backend_key = [], df_data = []\<rparr>"

definition hdr_example :: drbg_hdr where
  "hdr_example = \<lparr>drbg_prefix = of_nat, max_request_bytes = 65536, max_addtl = 65536, max_requests = 1048576,
    keylen = (\<lambda>c. statelen c - blocklen c)\<rparr>"

theorem drbg_hash_is_sp800_90a_witness:
  "drbg_hash_generate True hdr_example rmd160_backend 55 20 100 [[7]] (drbg_example (replicate 55 1) (replicate 55 2)) =
    (Inr 100, hashgen_spec (md_digest rmd160_transform RMD_H) 20 55 100
       (hash_addtl_V (drbg_prefix hdr_example) (md_digest rmd160_transform RMD_H) 55 [[7]] (replicate 55 1)),
     drbg_example (hash_generate_V (drbg_prefix hdr_example) (md_digest rmd160_transform RMD_H) 55
       (hash_addtl_V (drbg_prefix hdr_example) (md_digest rmd160_transform RMD_H) 55 [[7]] (replicate 55 1))
       (replicate 55 2) 1) (replicate 55 2))"
proof -
  have l: "length (md_digest rmd160_transform RMD_H M) = 20" for M by (simp add: length_md_digest [of _ 5])
  show ?thesis
    using drbg_hash_is_sp800_90a [of rmd160_backend "md_digest rmd160_transform RMD_H" 20 55
        "drbg_example (replicate 55 1) (replicate 55 2)", OF rmd160_backend l _ _ _ _ _ _ refl refl]
    by (simp add: drbg_example_def)
qed

end
