(* ===== verification/DrbgHmac.thy ===== *)
theory DrbgHmac
  imports DrbgHash
begin

text \<open>
  The HMAC DRBG of \<open>drbg.c\<close>. The keyed hash \<open>hm\<close> is \<open>drbg_kcapi_hash\<close> under the key that the last
  \<open>drbg_kcapi_hmacsetkey\<close> gave to the transform, which the state keeps as \<open>backend_key\<close>.
\<close>

section \<open>The model\<close>

type_synonym hmac_backend = "bytes \<Rightarrow> bytes list \<Rightarrow> errno option \<times> bytes"

definition drbg_kcapi_hmacsetkey :: "nat \<Rightarrow> bytes \<Rightarrow> drbg_state \<Rightarrow> drbg_state" where
  "drbg_kcapi_hmacsetkey sl key drbg = drbg\<lparr>backend_key := take sl key\<rparr>"

text \<open>One round of the loop of \<open>drbg_hmac_update\<close>: a new key, then a new \<open>V\<close>.\<close>

definition drbg_hmac_round ::
    "hmac_backend \<Rightarrow> nat \<Rightarrow> u8 \<Rightarrow> bytes list \<Rightarrow> drbg_state \<Rightarrow> errno option \<times> drbg_state" where
  "drbg_hmac_round hm sl prefix seed drbg =
    (let (ret, out) = hm (backend_key drbg) ([drbg_V drbg, [prefix]] @ seed);
         drbg = drbg\<lparr>drbg_C := memcpy_at (drbg_C drbg) 0 out\<rparr>
     in if ret \<noteq> None then (ret, drbg)
        else
          let drbg = drbg_kcapi_hmacsetkey sl (drbg_C drbg) drbg;
              (ret, out) = hm (backend_key drbg) [drbg_V drbg]
          in (ret, drbg\<lparr>drbg_V := memcpy_at (drbg_V drbg) 0 out\<rparr>))"

definition drbg_hmac_update ::
    "drbg_hdr \<Rightarrow> hmac_backend \<Rightarrow> nat \<Rightarrow> bytes list option \<Rightarrow> bool \<Rightarrow> drbg_state \<Rightarrow> errno option \<times> drbg_state" where
  "drbg_hmac_update hdr hm sl seed reseed drbg =
    (let drbg = (if reseed then drbg
           else drbg_kcapi_hmacsetkey sl (drbg_C drbg) (drbg\<lparr>drbg_V := replicate sl 1\<rparr>))
     in case drbg_hmac_round hm sl (drbg_prefix hdr 0) (case seed of None \<Rightarrow> [] | Some s \<Rightarrow> s) drbg of
          (Some err, drbg) \<Rightarrow> (Some err, drbg)
        | (None, drbg) \<Rightarrow>
            (case seed of None \<Rightarrow> (None, drbg)
             | Some s \<Rightarrow> drbg_hmac_round hm sl (drbg_prefix hdr 1) s drbg))"

function hmac_output_loop ::
    "hmac_backend \<Rightarrow> nat \<Rightarrow> nat \<Rightarrow> nat \<Rightarrow> bytes \<Rightarrow> drbg_state \<Rightarrow> errno option \<times> nat \<times> bytes \<times> drbg_state" where
  "hmac_output_loop hm bl buflen len buf drbg =
    (if 0 < bl \<and> len < buflen then
       (case hm (backend_key drbg) [drbg_V drbg] of
          (Some err, out) \<Rightarrow> (Some err, len, buf, drbg\<lparr>drbg_V := memcpy_at (drbg_V drbg) 0 out\<rparr>)
        | (None, out) \<Rightarrow>
            let drbg = drbg\<lparr>drbg_V := memcpy_at (drbg_V drbg) 0 out\<rparr>;
                outlen = (if bl < buflen - len then bl else buflen - len)
            in hmac_output_loop hm bl buflen (len + outlen) (buf @ take outlen (drbg_V drbg)) drbg)
     else (None, len, buf, drbg))"
  by auto
termination by (relation "measure (\<lambda>(hm, bl, buflen, len, buf, drbg). buflen - len)") auto

declare hmac_output_loop.simps [simp del]

definition drbg_hmac_generate ::
    "drbg_hdr \<Rightarrow> hmac_backend \<Rightarrow> nat \<Rightarrow> nat \<Rightarrow> nat \<Rightarrow> bytes list \<Rightarrow> drbg_state \<Rightarrow>
      (errno + nat) \<times> bytes \<times> drbg_state" where
  "drbg_hmac_generate hdr hm sl bl buflen addtl drbg =
    (case (if addtl \<noteq> [] then drbg_hmac_update hdr hm sl (Some addtl) True drbg else (None, drbg)) of
       (Some err, drbg) \<Rightarrow> (Inl err, [], drbg)
     | (None, drbg) \<Rightarrow>
       (case hmac_output_loop hm bl buflen 0 [] drbg of
          (Some err, len, buf, drbg) \<Rightarrow> (Inl err, buf, drbg)
        | (None, len, buf, drbg) \<Rightarrow>
          (case drbg_hmac_update hdr hm sl (if addtl \<noteq> [] then Some addtl else None) True drbg of
             (Some err, drbg) \<Rightarrow> (Inl err, buf, drbg)
           | (None, drbg) \<Rightarrow> (Inr len, buf, drbg))))"

section \<open>The specification of SP 800-90A\<close>

text \<open>Key and value are a pair; no data is \<open>None\<close>.\<close>

definition hmac_kv :: "(bytes \<Rightarrow> bytes \<Rightarrow> bytes) \<Rightarrow> u8 \<Rightarrow> bytes \<Rightarrow> bytes \<times> bytes \<Rightarrow> bytes \<times> bytes" where
  "hmac_kv HM p data kv = (let K = HM (fst kv) (snd kv @ p # data) in (K, HM K (snd kv)))"

definition hmac_drbg_upd ::
    "(bytes \<Rightarrow> bytes \<Rightarrow> bytes) \<Rightarrow> (nat \<Rightarrow> u8) \<Rightarrow> bytes option \<Rightarrow> bytes \<times> bytes \<Rightarrow> bytes \<times> bytes" where
  "hmac_drbg_upd HM p data kv =
    (case data of None \<Rightarrow> hmac_kv HM (p 0) [] kv | Some d \<Rightarrow> hmac_kv HM (p 1) d (hmac_kv HM (p 0) d kv))"

text \<open>The output is a prefix of the concatenated iterates of \<open>HM K\<close> on \<open>V\<close>.\<close>

definition hmac_iterates :: "(bytes \<Rightarrow> bytes \<Rightarrow> bytes) \<Rightarrow> nat \<Rightarrow> nat \<Rightarrow> bytes \<times> bytes \<Rightarrow> bytes" where
  "hmac_iterates HM bl n kv =
    take n (concat (map (\<lambda>i. (HM (fst kv) ^^ Suc i) (snd kv)) [0..<blocks_for bl n]))"

definition hmac_drbg_out ::
    "(bytes \<Rightarrow> bytes \<Rightarrow> bytes) \<Rightarrow> (nat \<Rightarrow> u8) \<Rightarrow> nat \<Rightarrow> nat \<Rightarrow> bytes option \<Rightarrow> bytes \<times> bytes \<Rightarrow>
      bytes \<times> (bytes \<times> bytes)" where
  "hmac_drbg_out HM p bl n data kv =
    (let kv1 = (if data = None then kv else hmac_drbg_upd HM p data kv)
     in (hmac_iterates HM bl n kv1,
         hmac_drbg_upd HM p data (fst kv1, (HM (fst kv1) ^^ blocks_for bl n) (snd kv1))))"

text \<open>The abstraction: the key is held twice, in the state and in the transform.\<close>

definition has_kv :: "nat \<Rightarrow> bytes \<times> bytes \<Rightarrow> drbg_state \<Rightarrow> bool" where
  "has_kv sl kv drbg \<longleftrightarrow> drbg_C drbg = fst kv \<and> backend_key drbg = fst kv \<and> drbg_V drbg = snd kv \<and>
    length (fst kv) = sl \<and> length (snd kv) = sl"

definition set_kv :: "bytes \<times> bytes \<Rightarrow> drbg_state \<Rightarrow> drbg_state" where
  "set_kv kv drbg = drbg\<lparr>drbg_C := fst kv, backend_key := fst kv, drbg_V := snd kv\<rparr>"

section \<open>The code implements it\<close>

lemma has_set_kv [simp]: "length (fst kv) = sl \<Longrightarrow> length (snd kv) = sl \<Longrightarrow> has_kv sl kv (set_kv kv drbg)"
  by (simp add: has_kv_def set_kv_def)

lemma set_kv_twice [simp]: "set_kv kv' (set_kv kv drbg) = set_kv kv' drbg"
  by (simp add: set_kv_def)

lemma set_kv_same: "has_kv sl kv drbg \<Longrightarrow> set_kv kv drbg = drbg"
  by (simp add: has_kv_def set_kv_def)

lemma length_hmac_kv [simp]:
  assumes "\<And>K M. length (HM K M) = sl"
  shows "length (fst (hmac_kv HM p d kv)) = sl" "length (snd (hmac_kv HM p d kv)) = sl"
  by (simp_all add: hmac_kv_def Let_def assms)

lemma length_hmac_drbg_upd [simp]:
  assumes "\<And>K M. length (HM K M) = sl"
  shows "length (fst (hmac_drbg_upd HM p d kv)) = sl" "length (snd (hmac_drbg_upd HM p d kv)) = sl"
  using assms by (simp_all add: hmac_drbg_upd_def split: option.split)


lemma drbg_hmac_round_spec:
  assumes "\<And>K ins. hm K ins = (None, HM K (concat ins))" "\<And>K M. length (HM K M) = sl" "has_kv sl kv drbg"
  shows "drbg_hmac_round hm sl p seed drbg = (None, set_kv (hmac_kv HM p (concat seed) kv) drbg)"
  using assms(2,3)
  by (simp add: drbg_hmac_round_def assms(1) has_kv_def memcpy_at_def drbg_kcapi_hmacsetkey_def hmac_kv_def
    set_kv_def Let_def)

lemma drbg_hmac_update_spec:
  assumes "\<And>K ins. hm K ins = (None, HM K (concat ins))" "\<And>K M. length (HM K M) = sl" "has_kv sl kv drbg"
  shows "drbg_hmac_update hdr hm sl seed True drbg =
    (None, set_kv (hmac_drbg_upd HM (drbg_prefix hdr) (map_option concat seed) kv) drbg)"
proof -
  note r = drbg_hmac_round_spec [of hm HM sl, OF assms(1,2)]
  show ?thesis
    using assms(3)
    by (cases seed) (simp_all add: drbg_hmac_update_def r [of kv] hmac_drbg_upd_def
      r [of "hmac_kv HM (drbg_prefix hdr 0) d kv" "set_kv (hmac_kv HM (drbg_prefix hdr 0) d kv) drbg" for d]
      assms(2))
qed

lemma hmac_output_loop_spec:
  assumes hm: "\<And>K ins. hm K ins = (None, HM K (concat ins))" and l: "\<And>K M. length (HM K M) = sl" and sl: "0 < sl"
  shows "len \<le> n \<Longrightarrow> has_kv sl (K, V) drbg \<Longrightarrow> hmac_output_loop hm sl n len buf drbg =
    (None, n, buf @ hmac_iterates HM sl (n - len) (K, V),
     set_kv (K, (HM K ^^ blocks_for sl (n - len)) V) drbg)"
proof (induction "n - len" arbitrary: len V buf drbg rule: less_induct)
  case less
  show ?case
  proof (cases "len < n")
    case True
    define m where "m = min sl (n - len)"
    have m: "(if sl < n - len then sl else n - len) = m" "0 < m" "len + m \<le> n"
      using True sl by (auto simp: m_def)
    let ?V = "HM K V" and ?f = "\<lambda>V i. (HM K ^^ Suc i) V"
    have kv: "has_kv sl (K, ?V) (set_kv (K, ?V) drbg)" using less(3) l by (simp add: has_kv_def set_kv_def)
    have V: "drbg\<lparr>drbg_V := ?V\<rparr> = set_kv (K, ?V) drbg"
      using less(3) by (simp add: has_kv_def set_kv_def)
    have IH: "hmac_output_loop hm sl n (len + m) (buf @ take m ?V) (set_kv (K, ?V) drbg) =
        (None, n, (buf @ take m ?V) @ hmac_iterates HM sl (n - (len + m)) (K, ?V),
         set_kv (K, (HM K ^^ blocks_for sl (n - (len + m))) ?V) (set_kv (K, ?V) drbg))"
      by (rule less(1) [OF _ m(3) kv]) (use True m in auto)
    have "take (n - len) (concat (map (?f V) [0..<blocks_for sl (n - len)])) =
        take m (?f V 0) @ take (n - len - m) (concat (map (\<lambda>k. ?f V (Suc k)) [0..<blocks_for sl (n - len - m)]))"
      unfolding m_def by (rule take_blocks_step) (use True sl l in simp_all)
    moreover have "?f V (Suc k) = ?f ?V k" for k by (simp add: funpow_swap1)
    ultimately have split: "hmac_iterates HM sl (n - len) (K, V) =
        take m ?V @ hmac_iterates HM sl (n - (len + m)) (K, ?V)"
      by (simp add: hmac_iterates_def diff_diff_left)
    have steps: "(HM K ^^ blocks_for sl (n - len)) V = (HM K ^^ blocks_for sl (n - (len + m))) ?V"
      using blocks_for_step [of sl "n - len"] sl True by (simp add: funpow_swap1 m_def diff_diff_left)
    have "hmac_output_loop hm sl n len buf drbg =
        hmac_output_loop hm sl n (len + m) (buf @ take m ?V) (set_kv (K, ?V) drbg)"
      using True sl V less(3) by (subst hmac_output_loop.simps) (simp add: hm m(1) Let_def has_kv_def memcpy_at_def l)
    then show ?thesis by (simp add: IH split steps)
  next
    case False
    with less(2,3) sl show ?thesis by (subst hmac_output_loop.simps) (simp add: set_kv_same hmac_iterates_def)
  qed
qed

lemma length_funpow_HM:
  "(\<And>M. length (HM K M) = sl) \<Longrightarrow> length V = sl \<Longrightarrow> length (((HM :: bytes \<Rightarrow> bytes \<Rightarrow> bytes) K ^^ n) V) = sl"
  by (induction n) simp_all

lemma drbg_hmac_generate_spec:
  assumes hm: "\<And>K ins. hm K ins = (None, HM K (concat ins))" and l: "\<And>K M. length (HM K M) = sl"
    and sl: "0 < sl" and kv: "has_kv sl kv drbg"
  shows "drbg_hmac_generate hdr hm sl sl n addtl drbg =
    (case hmac_drbg_out HM (drbg_prefix hdr) sl n (if addtl = [] then None else Some (concat addtl)) kv of
       (out, kv') \<Rightarrow> (Inr n, out, set_kv kv' drbg))"
proof -
  let ?data = "if addtl = [] then None else Some (concat addtl)"
  define kv1 where "kv1 = (if ?data = None then kv else hmac_drbg_upd HM (drbg_prefix hdr) ?data kv)"
  let ?V = "(HM (fst kv1) ^^ blocks_for sl n) (snd kv1)"
  have len: "length (fst kv1) = sl" "length (snd kv1) = sl" using kv l by (simp_all add: kv1_def has_kv_def)
  have 1: "(if addtl \<noteq> [] then drbg_hmac_update hdr hm sl (Some addtl) True drbg else (None, drbg)) =
      (None, set_kv kv1 drbg)"
    using drbg_hmac_update_spec [of hm HM sl kv drbg hdr "Some addtl", OF hm l kv] kv by (simp add: kv1_def set_kv_same)
  have "has_kv sl (fst kv1, snd kv1) (set_kv kv1 drbg)" using len by simp
  from hmac_output_loop_spec [of hm HM sl 0 n, OF hm l sl _ this]
  have 2: "hmac_output_loop hm sl n 0 [] (set_kv kv1 drbg) =
      (None, n, hmac_iterates HM sl n kv1, set_kv (fst kv1, ?V) drbg)" by simp
  have "length ?V = sl" by (rule length_funpow_HM) (use l len in simp_all)
  then have kv2: "has_kv sl (fst kv1, ?V) (set_kv (fst kv1, ?V) drbg)" using len by simp
  have "map_option concat (if addtl \<noteq> [] then Some addtl else None) = ?data" by simp
  with drbg_hmac_update_spec [of hm HM sl "(fst kv1, ?V)" "set_kv (fst kv1, ?V) drbg" hdr
      "if addtl \<noteq> [] then Some addtl else None", OF hm l kv2]
  have 3: "drbg_hmac_update hdr hm sl (if addtl \<noteq> [] then Some addtl else None) True (set_kv (fst kv1, ?V) drbg) =
      (None, set_kv (hmac_drbg_upd HM (drbg_prefix hdr) ?data (fst kv1, ?V)) drbg)" by simp
  show ?thesis
    unfolding drbg_hmac_generate_def 1 prod.case option.case 2 3 hmac_drbg_out_def Let_def kv1_def [symmetric] by simp
qed

lemma drbg_hmac_instantiate_spec:
  assumes "\<And>K ins. hm K ins = (None, HM K (concat ins))" "\<And>K M. length (HM K M) = sl" "length (drbg_C drbg) = sl"
  shows "drbg_hmac_update hdr hm sl seed False drbg =
    (None, set_kv (hmac_drbg_upd HM (drbg_prefix hdr) (map_option concat seed) (drbg_C drbg, replicate sl 1)) drbg)"
proof -
  let ?kv = "(drbg_C drbg, replicate sl 1)"
  have "has_kv sl ?kv (set_kv ?kv drbg)" using assms(3) by simp
  from drbg_hmac_update_spec [of hm HM sl ?kv "set_kv ?kv drbg" hdr seed, OF assms(1,2) this]
  have "drbg_hmac_update hdr hm sl seed True (set_kv ?kv drbg) =
      (None, set_kv (hmac_drbg_upd HM (drbg_prefix hdr) (map_option concat seed) ?kv) drbg)" by simp
  moreover have "drbg_hmac_update hdr hm sl seed False drbg = drbg_hmac_update hdr hm sl seed True (set_kv ?kv drbg)"
    using assms(3) by (cases drbg) (simp add: drbg_hmac_update_def drbg_kcapi_hmacsetkey_def set_kv_def)
  ultimately show ?thesis by simp
qed

text \<open>C16: an HMAC DRBG follows SP 800-90A. The first seeding updates the key \<open>C\<close> and a \<open>V\<close> of ones, the
  later ones the current pair; generating updates the pair with the additional input if there is
  any, returns the iterates of the keyed hash on \<open>V\<close> cut to the request, and updates the pair again,
  the key of the transform always being \<open>C\<close>. The backend is a keyed hash that does not fail, with
  digests as long as the state.\<close>

theorem drbg_hmac_is_sp800_90a:
  assumes "\<And>K ins. hm K ins = (None, HM K (concat ins))" "\<And>K M. length (HM K M) = sl" "0 < sl" "has_kv sl kv drbg"
  shows "drbg_hmac_update hdr hm sl seed reseed drbg =
      (None, set_kv (hmac_drbg_upd HM (drbg_prefix hdr) (map_option concat seed)
         (if reseed then kv else (fst kv, replicate sl 1))) drbg) \<and>
    drbg_hmac_generate hdr hm sl sl n addtl drbg =
      (case hmac_drbg_out HM (drbg_prefix hdr) sl n (if addtl = [] then None else Some (concat addtl)) kv of
         (out, kv') \<Rightarrow> (Inr n, out, set_kv kv' drbg))"
proof
  show "drbg_hmac_generate hdr hm sl sl n addtl drbg =
      (case hmac_drbg_out HM (drbg_prefix hdr) sl n (if addtl = [] then None else Some (concat addtl)) kv of
         (out, kv') \<Rightarrow> (Inr n, out, set_kv kv' drbg))"
    by (rule drbg_hmac_generate_spec) (fact assms)+
  have "length (drbg_C drbg) = sl" "drbg_C drbg = fst kv" using assms(4) by (simp_all add: has_kv_def)
  with drbg_hmac_update_spec [of hm HM sl kv drbg hdr seed, OF assms(1,2,4)]
    drbg_hmac_instantiate_spec [of hm HM sl drbg hdr seed, OF assms(1,2)]
  show "drbg_hmac_update hdr hm sl seed reseed drbg =
      (None, set_kv (hmac_drbg_upd HM (drbg_prefix hdr) (map_option concat seed)
         (if reseed then kv else (fst kv, replicate sl 1))) drbg)"
    by (cases reseed) simp_all
qed

text \<open>The backend over the model of HMAC: the contract of its hash gives the hypotheses.\<close>

definition hmac_rmd160_backend :: "u8 \<Rightarrow> u8 \<Rightarrow> hmac_backend" where
  "hmac_rmd160_backend ip op key ins =
    (case hmac_run ip op False rmd160_alg key ins of Inl err \<Rightarrow> (Some err, []) | Inr out \<Rightarrow> (None, out))"

lemma hmac_rmd160_backend:
  "hmac_rmd160_backend ip op key ins =
    (None, hmac_spec ip op (md_digest rmd160_transform RMD_H) 64 key (concat ins))"
  by (simp add: hmac_rmd160_backend_def rmd160_shash.run_spec)

lemma length_hmac_rmd160: "length (hmac_spec ip op (md_digest rmd160_transform RMD_H) 64 key M) = 20"
  by (simp add: hmac_spec_def length_md_digest [of _ 5])

theorem drbg_hmac_is_sp800_90a_witness:
  "drbg_hmac_generate hdr_example (hmac_rmd160_backend 54 92) 20 20 33 [[7]]
      (set_kv (replicate 20 1, replicate 20 2) (drbg_example [] [])) =
    (case hmac_drbg_out (hmac_spec 54 92 (md_digest rmd160_transform RMD_H) 64) (drbg_prefix hdr_example) 20 33
         (Some [7]) (replicate 20 1, replicate 20 2) of
       (out, kv') \<Rightarrow> (Inr 33, out, set_kv kv' (drbg_example [] [])))"
  using drbg_hmac_is_sp800_90a [of "hmac_rmd160_backend 54 92" "hmac_spec 54 92 (md_digest rmd160_transform RMD_H) 64"
      20 "(replicate 20 1, replicate 20 2)" "set_kv (replicate 20 1, replicate 20 2) (drbg_example [] [])"
      hdr_example _ _ 33 "[[7]]", OF hmac_rmd160_backend length_hmac_rmd160]
  by simp

end
