(* ===== verification/DrbgCtrDf.thy ===== *)
theory DrbgCtrDf
  imports DrbgHash Cmac
begin

text \<open>
  The derivation function of the CTR DRBG of \<open>drbg.c\<close>. \<open>E\<close> is the block cipher \<open>drbg_kcapi_sym\<close> calls,
  with the key of the last \<open>drbg_kcapi_symsetkey\<close> (whose error is ignored) as its first argument;
  \<open>drbg_kcapi_sym\<close> itself always returns 0. \<open>sl\<close>, \<open>kl\<close> and \<open>bl\<close> are the state, key and block lengths.
\<close>

section \<open>The model\<close>

definition drbg_kcapi_sym :: "(bytes \<Rightarrow> bytes \<Rightarrow> bytes) \<Rightarrow> bytes \<Rightarrow> bytes \<Rightarrow> errno option \<times> bytes" where
  "drbg_kcapi_sym E key inp = (None, E key inp)"

text \<open>One byte of the inner loop of \<open>drbg_ctr_bcc\<close>, on the output block and \<open>cnt\<close>.\<close>

fun bcc_byte :: "(bytes \<Rightarrow> bytes) \<Rightarrow> nat \<Rightarrow> bytes \<times> nat \<Rightarrow> u8 \<Rightarrow> bytes \<times> nat" where
  "bcc_byte enc bl (out, cnt) pos =
    (let (out, cnt) = (if bl = cnt then (enc out, 0) else (out, cnt))
     in (out[cnt := out ! cnt XOR pos], cnt + 1))"

definition drbg_ctr_bcc ::
    "(bytes \<Rightarrow> bytes \<Rightarrow> bytes) \<Rightarrow> nat \<Rightarrow> bytes \<Rightarrow> bytes \<Rightarrow> bytes list \<Rightarrow> bytes" where
  "drbg_ctr_bcc E bl out key ins =
    (case foldl (foldl (bcc_byte (E key) bl)) (out, 0) ins of
       (out, cnt) \<Rightarrow> if cnt \<noteq> 0 then snd (drbg_kcapi_sym E key out) else out)"

definition df_key :: bytes where
  "df_key = [0x00, 0x01, 0x02, 0x03, 0x04, 0x05, 0x06, 0x07, 0x08, 0x09, 0x0a, 0x0b, 0x0c, 0x0d, 0x0e, 0x0f,
    0x10, 0x11, 0x12, 0x13, 0x14, 0x15, 0x16, 0x17, 0x18, 0x19, 0x1a, 0x1b, 0x1c, 0x1d, 0x1e, 0x1f]"

text \<open>The first loop of \<open>drbg_ctr_df\<close> fills \<open>temp\<close>, the second encrypts the block \<open>X\<close> again and again.\<close>

function df_temp_loop ::
    "(bytes \<Rightarrow> bytes \<Rightarrow> bytes) \<Rightarrow> nat \<Rightarrow> nat \<Rightarrow> bytes list \<Rightarrow> u32 \<Rightarrow> nat \<Rightarrow> bytes \<Rightarrow> bytes" where
  "df_temp_loop E kl bl bcc_list i templen temp =
    (if 0 < bl \<and> templen < kl + bl then
       (let iv = put_be32 i @ replicate (bl - 4) 0;
            out = drbg_ctr_bcc E bl (take bl (drop templen temp)) (take kl df_key) (iv # bcc_list)
        in df_temp_loop E kl bl bcc_list (i + 1) (templen + bl) (memcpy_at temp templen out))
     else temp)"
  by auto
termination by (relation "measure (\<lambda>(E, kl, bl, ls, i, templen, temp). kl + bl - templen)") auto

function df_output_loop :: "(bytes \<Rightarrow> bytes \<Rightarrow> bytes) \<Rightarrow> nat \<Rightarrow> bytes \<Rightarrow> nat \<Rightarrow> nat \<Rightarrow> bytes \<Rightarrow> bytes \<Rightarrow> bytes" where
  "df_output_loop E bl key n len X dfd =
    (if 0 < bl \<and> len < n then
       (let X = snd (drbg_kcapi_sym E key X);
            blocklen = (if bl < n - len then bl else n - len)
        in df_output_loop E bl key n (len + blocklen) X (memcpy_at dfd len (take blocklen X)))
     else dfd)"
  by auto
termination by (relation "measure (\<lambda>(E, bl, key, n, len, X, dfd). n - len)") auto

declare df_temp_loop.simps [simp del] df_output_loop.simps [simp del]

text \<open>
  The part of the scratchpad the function calls \<open>temp\<close> is zero when it is entered: it is allocated so, and
  cleared before every return. \<open>pad\<close> has one block, of which \<open>padlen\<close> bytes are used.
\<close>

definition drbg_ctr_df ::
    "(bytes \<Rightarrow> bytes \<Rightarrow> bytes) \<Rightarrow> nat \<Rightarrow> nat \<Rightarrow> nat \<Rightarrow> bytes \<Rightarrow> nat \<Rightarrow> bytes list \<Rightarrow> errno option \<times> bytes" where
  "drbg_ctr_df E sl kl bl dfd n seedlist =
    (if 512 div 8 < n then (Some EINVAL, dfd)
     else
       let inputlen = sum_list (map length seedlist);
           L_N = put_be32 (of_nat inputlen) @ put_be32 (of_nat n);
           padlen = (inputlen + length L_N + 1) mod bl;
           padlen = (if padlen \<noteq> 0 then bl - padlen else padlen);
           padlen = padlen + 1;
           pad = 0x80 # replicate (bl - 1) 0;
           temp = df_temp_loop E kl bl ([L_N] @ seedlist @ [take padlen pad]) 0 0 (replicate (sl + bl) 0);
           X = take bl (drop kl temp)
       in (None, df_output_loop E bl (take kl temp) n 0 X dfd))"

section \<open>The specification of SP 800-90A\<close>

definition bcc_spec :: "(bytes \<Rightarrow> bytes) \<Rightarrow> nat \<Rightarrow> bytes \<Rightarrow> bytes" where
  "bcc_spec enc bl M = cbc_mac enc (replicate bl 0) (blocks bl M)"

text \<open>The input is padded with a one bit and zeros to whole blocks.\<close>

definition df_pad :: "nat \<Rightarrow> bytes \<Rightarrow> bytes" where
  "df_pad bl M = M @ 0x80 # replicate ((bl - (length M + 1) mod bl) mod bl) 0"

definition df_temp :: "(bytes \<Rightarrow> bytes \<Rightarrow> bytes) \<Rightarrow> nat \<Rightarrow> nat \<Rightarrow> bytes \<Rightarrow> bytes" where
  "df_temp E kl bl S = concat (map (\<lambda>i. bcc_spec (E (take kl df_key)) bl (put_be32 (of_nat i) @ replicate (bl - 4) 0 @ S))
    [0..<blocks_for bl (kl + bl)])"

definition block_cipher_df :: "(bytes \<Rightarrow> bytes \<Rightarrow> bytes) \<Rightarrow> nat \<Rightarrow> nat \<Rightarrow> nat \<Rightarrow> bytes \<Rightarrow> bytes" where
  "block_cipher_df E kl bl n M =
    (let S = df_pad bl (put_be32 (of_nat (length M)) @ put_be32 (of_nat n) @ M);
         temp = df_temp E kl bl S; K = take kl temp; X = take bl (drop kl temp)
     in take n (concat (map (\<lambda>i. (E K ^^ Suc i) X) [0..<blocks_for bl n])))"

section \<open>BCC is the CBC-MAC of the concatenated input\<close>

lemma bcc_byte_part:
  "c + length xs \<le> bl \<Longrightarrow> length out = bl \<Longrightarrow> foldl (bcc_byte enc bl) (out, c) xs =
    (take c out @ xor_bytes (take (length xs) (drop c out)) xs @ drop (c + length xs) out, c + length xs)"
proof (induction xs arbitrary: out c)
  case (Cons x xs)
  let ?o = "out[c := out ! c XOR x]"
  have c: "c < length out" "bl \<noteq> c" using Cons.prems by auto
  have "foldl (bcc_byte enc bl) (out, c) (x # xs) = foldl (bcc_byte enc bl) (?o, c + 1) xs" using c(2) by simp
  also have "\<dots> = (take (c + 1) ?o @ xor_bytes (take (length xs) (drop (c + 1) ?o)) xs @ drop (c + 1 + length xs) ?o,
      c + 1 + length xs)"
    by (rule Cons.IH) (use Cons.prems in simp_all)
  also have "take (c + 1) ?o = take c out @ [out ! c XOR x]" using c(1) by (simp add: take_Suc_conv_app_nth)
  also have "drop (c + 1) ?o = drop (c + 1) out" by simp
  also have "drop (c + 1 + length xs) ?o = drop (c + 1 + length xs) out" by simp
  finally show ?case
    using c(1) by (simp add: xor_bytes_def Cons_nth_drop_Suc [OF c(1), symmetric])
qed (simp add: xor_bytes_def)

lemma bcc_whole_block:
  "length out = bl \<Longrightarrow> length b = bl \<Longrightarrow> foldl (bcc_byte enc bl) (out, 0) b = (xor_bytes out b, bl)"
  using bcc_byte_part [of 0 b bl out enc] by simp

lemma bcc_next_block:
  "b \<noteq> [] \<Longrightarrow> 0 < bl \<Longrightarrow> foldl (bcc_byte enc bl) (out, bl) b = foldl (bcc_byte enc bl) (enc out, 0) b"
  by (cases b) simp_all

lemma bcc_blocks:
  assumes "0 < bl" "\<And>b. length b = bl \<Longrightarrow> length (enc b) = bl" "length out = bl"
  shows "bs \<noteq> [] \<Longrightarrow> \<forall>b \<in> set bs. length b = bl \<Longrightarrow>
    \<exists>o'. foldl (bcc_byte enc bl) (out, 0) (concat bs) = (o', bl) \<and> length o' = bl \<and> enc o' = cbc_mac enc out bs"
proof (induction bs rule: rev_induct)
  case (snoc b bs)
  have b: "length b = bl" using snoc.prems by simp
  show ?case
  proof (cases "bs = []")
    case True
    then show ?thesis using bcc_whole_block [OF assms(3) b] b assms(3) by simp
  next
    case False
    obtain o' where o: "foldl (bcc_byte enc bl) (out, 0) (concat bs) = (o', bl)" "length o' = bl"
        "enc o' = cbc_mac enc out bs"
      using snoc False by auto
    have "b \<noteq> []" using b assms(1) by auto
    have e: "length (enc o') = bl" using o(2) assms(2) by simp
    have "foldl (bcc_byte enc bl) (out, 0) (concat (bs @ [b])) = (xor_bytes (enc o') b, bl)"
      using bcc_next_block [OF \<open>b \<noteq> []\<close> assms(1), of enc o'] bcc_whole_block [OF e b, of enc] o(1) by simp
    then show ?thesis using o(3) e b by simp
  qed
qed simp

lemma foldl_foldl: "foldl (foldl f) s xss = foldl f s (concat xss)"
  by (induction xss arbitrary: s) simp_all

lemma concat_whole_blocks: "0 < bl \<Longrightarrow> bl dvd length M \<Longrightarrow> concat (blocks bl M) = M"
  using concat_blocks [of bl M] by (auto simp: leftover_def)

lemma drbg_ctr_bcc_spec:
  assumes "0 < bl" "\<And>b. length b = bl \<Longrightarrow> length (E key b) = bl" "length out = bl"
    "bl dvd length (concat ins)"
  shows "drbg_ctr_bcc E bl out key ins = cbc_mac (E key) out (blocks bl (concat ins))"
proof (cases "blocks bl (concat ins) = []")
  case True
  then have "concat ins = []" using concat_whole_blocks [OF assms(1,4)] by simp
  then show ?thesis by (simp only: drbg_ctr_bcc_def foldl_foldl foldl.simps blocks_Nil cbc_mac_simps) simp
next
  case False
  have "\<forall>b \<in> set (blocks bl (concat ins)). length b = bl" using blocks_length [OF assms(1)] by blast
  from bcc_blocks [of bl "E key" out, OF assms(1-3) False this] obtain o' where
    "foldl (bcc_byte (E key) bl) (out, 0) (concat ins) = (o', bl)"
    "E key o' = cbc_mac (E key) out (blocks bl (concat ins))"
    unfolding concat_whole_blocks [OF assms(1,4)] by blast
  then show ?thesis using assms(1) by (simp add: drbg_ctr_bcc_def foldl_foldl drbg_kcapi_sym_def)
qed

section \<open>The derivation function\<close>

lemma length_cbc_mac:
  "(\<And>b. length b = bl \<Longrightarrow> length (enc b) = bl) \<Longrightarrow> length p = bl \<Longrightarrow> \<forall>b \<in> set bs. length b = bl \<Longrightarrow>
    length (cbc_mac enc p bs) = bl"
  by (induction bs arbitrary: p) simp_all

lemma length_bcc_spec:
  "0 < bl \<Longrightarrow> (\<And>b. length b = bl \<Longrightarrow> length (enc b) = bl) \<Longrightarrow> length (bcc_spec enc bl M) = bl"
  unfolding bcc_spec_def by (rule length_cbc_mac) (auto simp: blocks_length)

lemma drop_memcpy_at:
  "length d = b \<Longrightarrow> off + b \<le> length buf \<Longrightarrow> drop (off + b + n) (memcpy_at buf off d) = drop (off + b + n) buf"
  by (simp add: memcpy_at_def add.commute)

lemma df_temp_loop_spec:
  assumes E: "\<And>K b. length b = bl \<Longrightarrow> length (E K b) = bl" and bl: "4 \<le> bl" "bl dvd length (concat ls)"
  shows "templen + bl * blocks_for bl (kl + bl - templen) \<le> length temp \<Longrightarrow>
    drop templen temp = replicate (length temp - templen) 0 \<Longrightarrow>
    df_temp_loop E kl bl ls i templen temp = take templen temp @
      concat (map (\<lambda>k. bcc_spec (E (take kl df_key)) bl (put_be32 (i + of_nat k) @ replicate (bl - 4) 0 @ concat ls))
        [0..<blocks_for bl (kl + bl - templen)]) @
      drop (templen + bl * blocks_for bl (kl + bl - templen)) temp"
proof (induction "kl + bl - templen" arbitrary: templen temp i rule: less_induct)
  case less
  let ?f = "\<lambda>i k. bcc_spec (E (take kl df_key)) bl (put_be32 (i + of_nat k) @ replicate (bl - 4) 0 @ concat ls)"
  let ?m = "\<lambda>t. blocks_for bl (kl + bl - t)"
  show ?case
  proof (cases "templen < kl + bl")
    case True
    have len: "length (?f i k) = bl" for i k by (rule length_bcc_spec) (use E bl in simp_all)
    have m: "?m templen = Suc (?m (templen + bl))"
    proof -
      have "kl + bl - templen - min bl (kl + bl - templen) = kl + bl - (templen + bl)" by simp
      then show ?thesis using blocks_for_step [of bl "kl + bl - templen"] bl(1) True by simp
    qed
    have le: "templen + bl + bl * ?m (templen + bl) \<le> length temp" using less(2) unfolding m by simp
    have "bl dvd length (concat ((put_be32 i @ replicate (bl - 4) 0) # ls))" using bl by simp
    moreover have "take bl (drop templen temp) = replicate bl 0" using less(3) le by simp
    ultimately have out: "drbg_ctr_bcc E bl (take bl (drop templen temp)) (take kl df_key)
        ((put_be32 i @ replicate (bl - 4) 0) # ls) = ?f i 0"
      using drbg_ctr_bcc_spec [of bl E "take kl df_key" "replicate bl 0" "(put_be32 i @ replicate (bl - 4) 0) # ls"] E bl
      by (simp add: bcc_spec_def)
    let ?t = "memcpy_at temp templen (?f i 0)"
    note len0 = len [of i 0]
    have t: "length ?t = length temp" using le len0 by (intro length_memcpy_at) linarith
    have tk: "take (templen + bl) ?t = take templen temp @ ?f i 0"
      using take_memcpy_at [of templen temp "?f i 0"] le unfolding len0 by linarith
    have dr: "drop (templen + bl + n) ?t = drop (templen + bl + n) temp" for n
      by (rule drop_memcpy_at) (use le len0 in simp_all)
    have "drop (templen + bl) ?t = drop bl (drop templen temp)" using dr [of 0] by (simp add: add.commute)
    then have zeros: "drop (templen + bl) ?t = replicate (length ?t - (templen + bl)) 0"
      unfolding less(3) t by simp
    have IH: "df_temp_loop E kl bl ls (i + 1) (templen + bl) ?t = take (templen + bl) ?t @
        concat (map (?f (i + 1)) [0..<?m (templen + bl)]) @ drop (templen + bl + bl * ?m (templen + bl)) ?t"
      by (rule less(1) [OF _ _ zeros]) (use True bl le t in simp_all)
    have "map (?f i) [0..<?m templen] = ?f i 0 # map (?f (i + 1)) [0..<?m (templen + bl)]"
      unfolding m by (simp add: upt_conv_Cons map_Suc_upt [symmetric] comp_def ac_simps del: upt_Suc)
    moreover have "df_temp_loop E kl bl ls i templen temp = df_temp_loop E kl bl ls (i + 1) (templen + bl) ?t"
      using True bl(1) by (subst df_temp_loop.simps) (simp only: Let_def out, simp)
    moreover have "templen + bl * ?m templen = templen + bl + bl * ?m (templen + bl)" unfolding m by simp
    ultimately show ?thesis by (simp only: IH tk dr list.map concat.simps append.assoc)
  next
    case False
    with bl(1) show ?thesis by (subst df_temp_loop.simps) simp
  qed
qed

lemma df_output_loop_spec:
  assumes E: "\<And>b. length b = bl \<Longrightarrow> length (E K b) = bl" and bl: "0 < bl"
  shows "len \<le> n \<Longrightarrow> n \<le> length dfd \<Longrightarrow> length X = bl \<Longrightarrow> df_output_loop E bl K n len X dfd =
    take len dfd @ take (n - len) (concat (map (\<lambda>i. (E K ^^ Suc i) X) [0..<blocks_for bl (n - len)])) @ drop n dfd"
proof (induction "n - len" arbitrary: len X dfd rule: less_induct)
  case less
  show ?case
  proof (cases "len < n")
    case True
    define m where "m = min bl (n - len)"
    have m: "(if bl < n - len then bl else n - len) = m" "0 < m" "len + m \<le> n" "m \<le> bl"
      using True bl by (auto simp: m_def)
    let ?X = "E K X" and ?f = "\<lambda>X i. (E K ^^ Suc i) X"
    have X: "length ?X = bl" using E less(4) by simp
    let ?d = "memcpy_at dfd len (take m ?X)"
    have d: "length ?d = length dfd" "take (len + m) ?d = take len dfd @ take m ?X" "drop n ?d = drop n dfd"
      using m less(3) X take_memcpy_at [of len dfd "take m ?X"] by (simp_all add: memcpy_at_def)
    have IH: "df_output_loop E bl K n (len + m) ?X ?d = take (len + m) ?d @
        take (n - (len + m)) (concat (map (?f ?X) [0..<blocks_for bl (n - (len + m))])) @ drop n ?d"
      by (rule less(1) [OF _ m(3)]) (use True m less(3) X d in auto)
    have "take (n - len) (concat (map (?f X) [0..<blocks_for bl (n - len)])) =
        take m (?f X 0) @ take (n - len - m) (concat (map (\<lambda>k. ?f X (Suc k)) [0..<blocks_for bl (n - len - m)]))"
      unfolding m_def by (rule take_blocks_step) (use True bl X in simp_all)
    moreover have "?f X (Suc k) = ?f ?X k" for k by (simp add: funpow_swap1)
    ultimately have split: "take (n - len) (concat (map (?f X) [0..<blocks_for bl (n - len)])) =
        take m ?X @ take (n - (len + m)) (concat (map (?f ?X) [0..<blocks_for bl (n - (len + m))]))"
      by (simp add: diff_diff_left)
    have "df_output_loop E bl K n len X dfd = df_output_loop E bl K n (len + m) ?X ?d"
      using True bl by (subst df_output_loop.simps) (simp add: drbg_kcapi_sym_def m(1) Let_def)
    then show ?thesis unfolding IH split d by simp
  next
    case False
    with less(2) show ?thesis by (subst df_output_loop.simps) simp
  qed
qed

lemma dvd_round_up: "0 < (b :: nat) \<Longrightarrow> b dvd n + (b - n mod b) mod b"
proof -
  assume b: "0 < b"
  have "n mod b < b" using b by simp
  have "n mod b + (b - n mod b) = b" using \<open>n mod b < b\<close> by linarith
  then have "(n mod b + (b - n mod b)) mod b = 0" by simp
  then have "(n + (b - n mod b)) mod b = 0" by (simp only: mod_add_left_eq)
  then have "(n + (b - n mod b) mod b) mod b = 0" by (simp only: mod_add_right_eq)
  then show ?thesis by (simp only: dvd_eq_mod_eq_0)
qed

lemma length_df_pad: "0 < bl \<Longrightarrow> bl dvd length (df_pad bl M)"
  using dvd_round_up [of bl "length M + 1"] by (simp add: df_pad_def)

lemma df_pad_take:
  assumes "0 < bl" "r = (length M + 1) mod bl"
  shows "M @ take ((if r \<noteq> 0 then bl - r else r) + 1) (0x80 # replicate (bl - 1) 0) = df_pad bl M"
proof -
  have "r < bl" using assms by simp
  then have "(bl - r) mod bl = (if r \<noteq> 0 then bl - r else r)" by simp
  moreover have "take (if r \<noteq> 0 then bl - r else r) (replicate (bl - 1) 0) = replicate (if r \<noteq> 0 then bl - r else r) (0 :: u8)"
    using \<open>r < bl\<close> by simp
  ultimately show ?thesis unfolding df_pad_def assms(2) by simp
qed

lemma blocks_for_bound: "0 < bl \<Longrightarrow> bl * blocks_for bl n \<le> n + bl - 1"
  unfolding blocks_for_def by (metis mult.commute times_div_less_eq_dividend)

lemma length_df_temp:
  assumes "\<And>K b. length b = bl \<Longrightarrow> length (E K b) = bl" "0 < bl"
  shows "length (df_temp E kl bl S) = bl * blocks_for bl (kl + bl)" "kl + bl \<le> length (df_temp E kl bl S)"
proof -
  show "length (df_temp E kl bl S) = bl * blocks_for bl (kl + bl)"
    unfolding df_temp_def by (rule length_blocks) (rule length_bcc_spec, use assms in simp_all)
  then show "kl + bl \<le> length (df_temp E kl bl S)" using blocks_for_le [OF assms(2), of "kl + bl"] by simp
qed

lemma length_funpow_block:
  "(\<And>b. length b = bl \<Longrightarrow> length (f b) = bl) \<Longrightarrow> length X = bl \<Longrightarrow> length (((f :: bytes \<Rightarrow> bytes) ^^ n) X) = bl"
  by (induction n) simp_all

lemma length_block_cipher_df:
  assumes "\<And>K b. length b = bl \<Longrightarrow> length (E K b) = bl" "0 < bl"
  shows "length (block_cipher_df E kl bl n M) = n"
proof -
  define S where "S = df_pad bl (put_be32 (of_nat (length M)) @ put_be32 (of_nat n) @ M)"
  define K X where "K = take kl (df_temp E kl bl S)" and "X = take bl (drop kl (df_temp E kl bl S))"
  have X: "length X = bl" using length_df_temp(2) [of bl E kl S, OF assms] by (simp add: X_def)
  have "length (concat (map (\<lambda>i. (E K ^^ Suc i) X) [0..<blocks_for bl n])) = bl * blocks_for bl n"
    by (rule length_blocks) (rule length_funpow_block, use assms X in simp_all)
  then show ?thesis
    using blocks_for_le [OF assms(2), of n]
    by (simp add: block_cipher_df_def Let_def S_def [symmetric] K_def [symmetric] X_def [symmetric])
qed

lemma drbg_ctr_df_spec:
  assumes E: "\<And>K b. length b = bl \<Longrightarrow> length (E K b) = bl" and bl: "4 \<le> bl" and sl: "kl + bl \<le> sl"
    and n: "n \<le> 64" "length dfd = n"
  shows "drbg_ctr_df E sl kl bl dfd n seed = (None, block_cipher_df E kl bl n (concat seed))"
proof -
  let ?M = "put_be32 (of_nat (length (concat seed))) @ put_be32 (of_nat n) @ concat seed"
  define r where "r = (length ?M + 1) mod bl"
  define pad where "pad = take ((if r \<noteq> 0 then bl - r else r) + 1) (0x80 # replicate (bl - 1) 0 :: bytes)"
  let ?ls = "[put_be32 (of_nat (length (concat seed))) @ put_be32 (of_nat n)] @ seed @ [pad]"
  let ?S = "df_pad bl ?M" and ?out = "\<lambda>K X. take n (concat (map (\<lambda>i. (E K ^^ Suc i) X) [0..<blocks_for bl n]))"
  have ls: "concat ?ls = ?S" using df_pad_take [of bl r ?M] bl by (simp add: pad_def r_def)
  have dvd: "bl dvd length (concat ?ls)" unfolding ls by (rule length_df_pad) (use bl in simp)
  have "bl * blocks_for bl (kl + bl) \<le> sl + bl" using blocks_for_bound [of bl "kl + bl"] bl sl by simp
  with df_temp_loop_spec [of bl E ?ls 0 kl "replicate (sl + bl) 0" 0, OF E bl dvd]
  have T: "\<exists>rest. df_temp_loop E kl bl ?ls 0 0 (replicate (sl + bl) 0) = df_temp E kl bl ?S @ rest"
    unfolding ls by (simp add: df_temp_def)
  then obtain rest where temp: "df_temp_loop E kl bl ?ls 0 0 (replicate (sl + bl) 0) = df_temp E kl bl ?S @ rest" ..
  note L = length_df_temp(2) [of bl E kl ?S, OF E]
  let ?K = "take kl (df_temp E kl bl ?S)" and ?X = "take bl (drop kl (df_temp E kl bl ?S))"
  have KX: "take kl (df_temp E kl bl ?S @ rest) = ?K" "take bl (drop kl (df_temp E kl bl ?S @ rest)) = ?X" "length ?X = bl"
    using L bl by simp_all
  have "df_output_loop E bl ?K n 0 ?X dfd = ?out ?K ?X"
    using df_output_loop_spec [of bl E ?K 0 n dfd ?X] E bl n KX(3) by simp
  moreover have "drbg_ctr_df E sl kl bl dfd n seed = (None, df_output_loop E bl ?K n 0 ?X dfd)"
  proof -
    have "(sum_list (map length seed) + length (put_be32 (of_nat (length (concat seed))) @ put_be32 (of_nat n)) + 1) mod bl = r"
      by (simp add: r_def length_concat add.commute)
    then show ?thesis
      using n(1) by (simp only: drbg_ctr_df_def Let_def length_concat [symmetric] pad_def [symmetric] temp KX) simp
  qed
  ultimately show ?thesis by (simp only: block_cipher_df_def Let_def)
qed

end
