(* ===== verification/DrbgCtr.thy ===== *)
theory DrbgCtr
  imports DrbgCtrDf Ctr Seed
begin

text \<open>
  The CTR DRBG of \<open>drbg.c\<close>: update and generate over a block cipher and a counter mode transform, whose
  \<open>setkey\<close> and encryption may fail. \<open>backend_key\<close> is the key of that transform. The scratchpad part
  \<open>df_data\<close> belongs to the state because one call leaves it to the next; the part \<open>temp\<close> is local.
\<close>

section \<open>The model\<close>

text \<open>The encryption takes key, IV and data, and returns an error or none, the output and the IV it leaves.\<close>

record sym_backend =
  sym_enc :: "bytes \<Rightarrow> bytes \<Rightarrow> bytes"
  skcipher_setkey :: "bytes \<Rightarrow> errno option"
  skcipher_encrypt :: "bytes \<Rightarrow> bytes \<Rightarrow> bytes \<Rightarrow> errno option \<times> bytes \<times> bytes"

definition DRBG_OUTSCRATCHLEN :: nat where "DRBG_OUTSCRATCHLEN = 256"
definition INT_MAX :: nat where "INT_MAX = 2 ^ 31 - 1"

text \<open>Every iteration encrypts the same input: the caller's, or a scratchpad that is zeroed again after it is copied.\<close>

function sym_ctr_loop ::
    "sym_backend \<Rightarrow> bytes \<Rightarrow> nat \<Rightarrow> bytes \<Rightarrow> drbg_state \<Rightarrow> errno option \<times> bytes \<times> drbg_state" where
  "sym_ctr_loop be inp outlen outbuf drbg =
    (if 0 < outlen \<and> 0 < length inp then
       (let cryptlen = min (min (length inp) outlen) DRBG_OUTSCRATCHLEN
        in case skcipher_encrypt be (backend_key drbg) (drbg_V drbg) (take cryptlen inp) of
             (Some err, out, iv) \<Rightarrow> (Some err, outbuf, drbg\<lparr>drbg_V := iv\<rparr>)
           | (None, out, iv) \<Rightarrow>
               sym_ctr_loop be inp (outlen - cryptlen) (outbuf @ take cryptlen out) (drbg\<lparr>drbg_V := iv\<rparr>))
     else (None, outbuf, drbg))"
  by auto
termination
  by (relation "measure (\<lambda>(be, inp, outlen, outbuf, drbg). outlen)") (auto simp: DRBG_OUTSCRATCHLEN_def)

declare sym_ctr_loop.simps [simp del]

definition drbg_kcapi_sym_ctr ::
    "sym_backend \<Rightarrow> bytes option \<Rightarrow> nat \<Rightarrow> drbg_state \<Rightarrow> errno option \<times> bytes \<times> drbg_state" where
  "drbg_kcapi_sym_ctr be inbuf outlen drbg =
    (let inp = (case inbuf of Some inp \<Rightarrow> inp | None \<Rightarrow> replicate (min outlen DRBG_OUTSCRATCHLEN) 0)
     in sym_ctr_loop be inp outlen [] drbg)"

text \<open>The label \<open>out\<close> of \<open>drbg_ctr_update\<close>.\<close>

definition ctr_update_out :: "nat \<Rightarrow> nat \<Rightarrow> errno option \<Rightarrow> drbg_state \<Rightarrow> errno option \<times> drbg_state" where
  "ctr_update_out sl reseed ret drbg =
    (ret, if reseed \<noteq> 2 then drbg\<lparr>df_data := replicate sl 0\<rparr> else drbg)"

definition ctr_update_key :: "bool \<Rightarrow> sym_backend \<Rightarrow> nat \<Rightarrow> nat \<Rightarrow> nat \<Rightarrow> drbg_state \<Rightarrow> errno option \<times> drbg_state" where
  "ctr_update_key wide be kl bl reseed drbg =
    (if reseed = 0 then
       (let drbg = drbg\<lparr>drbg_V := crypto_inc wide (drbg_V drbg) bl\<rparr>
        in case skcipher_setkey be (take kl (drbg_C drbg)) of
             Some err \<Rightarrow> (Some err, drbg)
           | None \<Rightarrow> (None, drbg\<lparr>backend_key := take kl (drbg_C drbg)\<rparr>))
     else (None, drbg))"

definition ctr_update_df :: "sym_backend \<Rightarrow> nat \<Rightarrow> nat \<Rightarrow> nat \<Rightarrow> bytes list option \<Rightarrow> drbg_state \<Rightarrow>
    errno option \<times> drbg_state" where
  "ctr_update_df be sl kl bl seed drbg =
    (case seed of None \<Rightarrow> (None, drbg)
     | Some seed \<Rightarrow> (case drbg_ctr_df (sym_enc be) sl kl bl (df_data drbg) sl seed of
         (ret, data) \<Rightarrow> (ret, drbg\<lparr>df_data := data\<rparr>)))"

definition drbg_ctr_update ::
    "bool \<Rightarrow> sym_backend \<Rightarrow> nat \<Rightarrow> nat \<Rightarrow> nat \<Rightarrow> bytes list option \<Rightarrow> nat \<Rightarrow> drbg_state \<Rightarrow> errno option \<times> drbg_state" where
  "drbg_ctr_update wide be sl kl bl seed reseed drbg =
    (let drbg = (if reseed < 3 then drbg\<lparr>df_data := replicate sl 0\<rparr> else drbg)
     in case ctr_update_key wide be kl bl reseed drbg of
       (Some err, drbg) \<Rightarrow> ctr_update_out sl reseed (Some err) drbg
     | (None, drbg) \<Rightarrow>
       (case ctr_update_df be sl kl bl seed drbg of
          (Some err, drbg) \<Rightarrow> ctr_update_out sl reseed (Some err) drbg
        | (None, drbg) \<Rightarrow>
          (case drbg_kcapi_sym_ctr be (Some (df_data drbg)) sl drbg of
             (Some err, temp, drbg) \<Rightarrow> (Some err, drbg)
           | (None, temp, drbg) \<Rightarrow>
             (case skcipher_setkey be (take kl temp) of
                Some err \<Rightarrow> ctr_update_out sl reseed (Some err) drbg
              | None \<Rightarrow> ctr_update_out sl reseed None
                  (drbg\<lparr>backend_key := take kl temp,
                        drbg_V := crypto_inc wide (take bl (drop kl temp)) bl\<rparr>)))))"

text \<open>The result is the return value, the bytes written and the new state.\<close>

definition drbg_ctr_generate ::
    "bool \<Rightarrow> sym_backend \<Rightarrow> nat \<Rightarrow> nat \<Rightarrow> nat \<Rightarrow> nat \<Rightarrow> bytes list \<Rightarrow> drbg_state \<Rightarrow>
      (errno + nat) \<times> bytes \<times> drbg_state" where
  "drbg_ctr_generate wide be sl kl bl buflen addtl drbg =
    (let len = min buflen INT_MAX
     in case (if addtl \<noteq> [] then drbg_ctr_update wide be sl kl bl (Some addtl) 2 drbg else (None, drbg)) of
       (Some err, drbg) \<Rightarrow> (Inr 0, [], drbg)
     | (None, drbg) \<Rightarrow>
       (case drbg_kcapi_sym_ctr be None len drbg of
          (Some err, buf, drbg) \<Rightarrow> (Inl err, buf, drbg)
        | (None, buf, drbg) \<Rightarrow>
          (case drbg_ctr_update wide be sl kl bl None 3 drbg of
             (Some err, drbg) \<Rightarrow> (Inl err, buf, drbg)
           | (None, drbg) \<Rightarrow> (Inr len, buf, drbg))))"

section \<open>The specification of SP 800-90A\<close>

text \<open>
  Here \<open>V\<close> is the value of the standard, which is incremented before every block; the code keeps the
  next counter block.
\<close>

definition ctr_stream :: "(bytes \<Rightarrow> bytes) \<Rightarrow> nat \<Rightarrow> nat \<Rightarrow> bytes \<Rightarrow> bytes" where
  "ctr_stream enc bl n iv = take n (concat (map (\<lambda>i. enc (be_bytes bl (be_val iv + i))) [0..<blocks_for bl n]))"

definition ctr_drbg_upd ::
    "(bytes \<Rightarrow> bytes \<Rightarrow> bytes) \<Rightarrow> nat \<Rightarrow> nat \<Rightarrow> bytes \<Rightarrow> bytes \<times> bytes \<Rightarrow> bytes \<times> bytes" where
  "ctr_drbg_upd E kl bl data kv =
    (let temp = xor_bytes (ctr_stream (E (fst kv)) bl (kl + bl) (be_bytes bl (be_val (snd kv) + 1))) data
     in (take kl temp, drop kl temp))"

definition ctr_drbg_out ::
    "(bytes \<Rightarrow> bytes \<Rightarrow> bytes) \<Rightarrow> nat \<Rightarrow> nat \<Rightarrow> nat \<Rightarrow> bytes option \<Rightarrow> bytes \<times> bytes \<Rightarrow> bytes \<times> (bytes \<times> bytes)" where
  "ctr_drbg_out E kl bl n addtl kv =
    (let data = (case addtl of None \<Rightarrow> replicate (kl + bl) 0 | Some a \<Rightarrow> block_cipher_df E kl bl (kl + bl) a);
         kv1 = (if addtl = None then kv else ctr_drbg_upd E kl bl data kv)
     in (ctr_stream (E (fst kv1)) bl n (be_bytes bl (be_val (snd kv1) + 1)),
         ctr_drbg_upd E kl bl data (fst kv1, be_bytes bl (be_val (snd kv1) + blocks_for bl n))))"

definition has_ctr_kv :: "nat \<Rightarrow> nat \<Rightarrow> bytes \<times> bytes \<Rightarrow> drbg_state \<Rightarrow> bool" where
  "has_ctr_kv kl bl kv drbg \<longleftrightarrow> backend_key drbg = fst kv \<and> drbg_V drbg = be_bytes bl (be_val (snd kv) + 1) \<and>
    length (fst kv) = kl \<and> length (snd kv) = bl"

definition set_ctr_kv :: "nat \<Rightarrow> bytes \<times> bytes \<Rightarrow> drbg_state \<Rightarrow> drbg_state" where
  "set_ctr_kv bl kv drbg = drbg\<lparr>backend_key := fst kv, drbg_V := be_bytes bl (be_val (snd kv) + 1)\<rparr>"

section \<open>Key streams\<close>

lemma be_bytes_cong: "v mod 256 ^ n = w mod 256 ^ n \<Longrightarrow> be_bytes n v = be_bytes n w"
  by (rule be_val_inj) (simp_all add: be_val_be_bytes)

lemma be_bytes_be_val_add [simp]: "be_bytes n (be_val (be_bytes n v) + i) = be_bytes n (v + i)"
  by (rule be_bytes_cong) (simp add: be_val_be_bytes mod_add_left_eq)

lemma be_bytes_be_val_simps [simp]:
  "be_bytes n (i + be_val (be_bytes n v)) = be_bytes n (i + v)" "be_bytes n (Suc (be_val (be_bytes n v))) = be_bytes n (Suc v)"
  using be_bytes_be_val_add [of n v i] be_bytes_be_val_add [of n v 1] by (simp_all add: add.commute)

lemma blocks_for_add: "0 < bl \<Longrightarrow> bl dvd a \<Longrightarrow> blocks_for bl (a + n) = a div bl + blocks_for bl n"
proof -
  assume bl: "0 < bl" and "bl dvd a"
  then obtain k where k: "a = bl * k" by (elim dvdE)
  have "a + n + bl - 1 = (n + bl - 1) + bl * k" using bl by (simp add: k)
  then show "blocks_for bl (a + n) = a div bl + blocks_for bl n"
    unfolding blocks_for_def using bl by (simp only: div_mult_self2) (simp add: k)
qed

lemma length_ctr_stream:
  assumes "\<And>b. length b = bl \<Longrightarrow> length (enc b) = bl" "0 < bl"
  shows "length (ctr_stream enc bl n iv) = n"
proof -
  have "length (concat (map (\<lambda>i. enc (be_bytes bl (be_val iv + i))) [0..<blocks_for bl n])) = bl * blocks_for bl n"
    by (rule length_blocks) (simp add: assms(1))
  then show ?thesis using blocks_for_le [OF assms(2), of n] by (simp add: ctr_stream_def)
qed

lemma ctr_stream_add:
  assumes "\<And>b. length b = bl \<Longrightarrow> length (enc b) = bl" "0 < bl" "bl dvd a"
  shows "ctr_stream enc bl (a + n) iv =
    ctr_stream enc bl a iv @ ctr_stream enc bl n (be_bytes bl (be_val iv + a div bl))"
proof -
  let ?f = "\<lambda>v i. enc (be_bytes bl (v + i))" and ?p = "a div bl"
  have p: "blocks_for bl a = ?p" using blocks_for_add [OF assms(2,3), of 0] assms(2) by simp
  have "length (concat (map (?f (be_val iv)) [0..<?p])) = bl * ?p"
    by (rule length_blocks) (simp add: assms(1))
  then have l: "length (concat (map (?f (be_val iv)) [0..<?p])) = a" using assms(3) by simp
  define q where "q = blocks_for bl n"
  have "map (?f (be_val iv)) [?p..<q + ?p] = map (?f (be_val iv + ?p)) [0..<q]"
    unfolding map_add_upt [symmetric] by (simp add: comp_def ac_simps)
  moreover have "[0..<?p + q] = [0..<?p] @ [?p..<q + ?p]" using upt_add_eq_append [of 0 ?p q] by (metis add.commute le0)
  ultimately have "map (?f (be_val iv)) [0..<?p + blocks_for bl n] =
      map (?f (be_val iv)) [0..<?p] @ map (?f (be_val iv + ?p)) [0..<blocks_for bl n]"
    by (simp only: map_append q_def)
  then show ?thesis using l by (simp add: ctr_stream_def blocks_for_add [OF assms(2,3)] p)
qed

section \<open>The contract of the transforms\<close>

text \<open>A block cipher, and a counter mode of the same cipher whose operations do not fail.\<close>

locale ctr_backend =
  fixes be :: sym_backend and bl :: nat
  assumes bl: "4 \<le> bl" "bl dvd 256"
    and length_sym: "length b = bl \<Longrightarrow> length (sym_enc be K b) = bl"
    and setkey_ok: "skcipher_setkey be K = None"
    and encrypt_ok: "length iv = bl \<Longrightarrow> skcipher_encrypt be K iv data =
      (None, xor_bytes (ctr_stream (sym_enc be K) bl (length data) iv) data,
       be_bytes bl (be_val iv + blocks_for bl (length data)))"

context ctr_backend
begin

lemma bl_pos: "0 < bl"
  using bl by simp

lemmas length_stream = length_ctr_stream [OF length_sym bl_pos]

text \<open>A single encryption, as in \<open>drbg_ctr_update\<close>.\<close>

lemma sym_ctr_data:
  assumes "length (drbg_V drbg) = bl" "length data = n" "n \<le> 256"
  shows "drbg_kcapi_sym_ctr be (Some data) n drbg =
    (None, xor_bytes (ctr_stream (sym_enc be (backend_key drbg)) bl n (drbg_V drbg)) data,
     drbg\<lparr>drbg_V := be_bytes bl (be_val (drbg_V drbg) + blocks_for bl n)\<rparr>)"
proof (cases "n = 0")
  case True
  then show ?thesis
    using assms(2) bl_pos
    by (simp add: drbg_kcapi_sym_ctr_def sym_ctr_loop.simps be_bytes_be_val [OF assms(1)] xor_bytes_def)
next
  case False
  then have "sym_ctr_loop be data n [] drbg =
      (None, xor_bytes (ctr_stream (sym_enc be (backend_key drbg)) bl n (drbg_V drbg)) data,
       drbg\<lparr>drbg_V := be_bytes bl (be_val (drbg_V drbg) + blocks_for bl n)\<rparr>)"
    using assms(2,3)
    by (subst sym_ctr_loop.simps)
      (simp add: DRBG_OUTSCRATCHLEN_def encrypt_ok [OF assms(1)] length_stream sym_ctr_loop.simps)
  then show ?thesis by (simp add: drbg_kcapi_sym_ctr_def)
qed

text \<open>The key stream, drawn in pieces of the scratchpad's size.\<close>

lemma sym_ctr_zeros_loop:
  "length (drbg_V drbg) = bl \<Longrightarrow> m \<le> 256 \<Longrightarrow> n \<le> m \<or> m = 256 \<Longrightarrow>
    sym_ctr_loop be (replicate m 0) n acc drbg =
      (None, acc @ ctr_stream (sym_enc be (backend_key drbg)) bl n (drbg_V drbg),
       drbg\<lparr>drbg_V := be_bytes bl (be_val (drbg_V drbg) + blocks_for bl n)\<rparr>)"
proof (induction n arbitrary: acc drbg rule: less_induct)
  case (less n)
  let ?iv = "\<lambda>n. be_bytes bl (be_val (drbg_V drbg) + blocks_for bl n)"
  let ?ks = "\<lambda>n iv. ctr_stream (sym_enc be (backend_key drbg)) bl n iv"
  show ?case
  proof (cases "n = 0")
    case True
    then show ?thesis
      using bl_pos by (simp add: sym_ctr_loop.simps be_bytes_be_val [OF less(2)] ctr_stream_def)
  next
    case False
    define c where "c = min m n"
    have c: "min (min m n) DRBG_OUTSCRATCHLEN = c" "0 < c" "c \<le> n" "c \<le> m"
      using False less(3,4) by (auto simp: c_def DRBG_OUTSCRATCHLEN_def)
    have step: "sym_ctr_loop be (replicate m 0) n acc drbg =
        sym_ctr_loop be (replicate m 0) (n - c) (acc @ ?ks c (drbg_V drbg)) (drbg\<lparr>drbg_V := ?iv c\<rparr>)"
      using False c by (subst sym_ctr_loop.simps)
        (simp add: encrypt_ok [OF less(2)] xor_bytes_zeros length_stream)
    show ?thesis
    proof (cases "n \<le> m")
      case True
      then have "c = n" by (simp add: c_def)
      with step show ?thesis by (simp add: sym_ctr_loop.simps)
    next
      case gt: False
      then have m: "m = 256" "c = 256" using less(3,4) by (simp_all add: c_def)
      have p: "blocks_for bl 256 = 256 div bl" using blocks_for_add [OF bl_pos bl(2), of 0] bl_pos by simp
      have n: "n = 256 + (n - 256)" using gt m by simp
      have IH: "sym_ctr_loop be (replicate m 0) (n - 256) (acc @ ?ks 256 (drbg_V drbg)) (drbg\<lparr>drbg_V := ?iv 256\<rparr>) =
          (None, (acc @ ?ks 256 (drbg_V drbg)) @ ?ks (n - 256) (?iv 256),
           drbg\<lparr>drbg_V := be_bytes bl (be_val (?iv 256) + blocks_for bl (n - 256))\<rparr>)"
        using less(1) [of "n - 256" "drbg\<lparr>drbg_V := ?iv 256\<rparr>"] m gt by simp
      have "?ks n (drbg_V drbg) = ?ks 256 (drbg_V drbg) @ ?ks (n - 256) (?iv 256)"
        using ctr_stream_add [of bl "sym_enc be (backend_key drbg)" 256 "n - 256" "drbg_V drbg", OF length_sym bl_pos bl(2)]
          n p by simp
      moreover have "blocks_for bl n = blocks_for bl 256 + blocks_for bl (n - 256)"
        using blocks_for_add [OF bl_pos bl(2), of "n - 256"] n p by simp
      ultimately show ?thesis using step IH m by (simp add: add.assoc)
    qed
  qed
qed

lemma sym_ctr_zeros:
  assumes "length (drbg_V drbg) = bl"
  shows "drbg_kcapi_sym_ctr be None n drbg =
    (None, ctr_stream (sym_enc be (backend_key drbg)) bl n (drbg_V drbg),
     drbg\<lparr>drbg_V := be_bytes bl (be_val (drbg_V drbg) + blocks_for bl n)\<rparr>)"
  using sym_ctr_zeros_loop [OF assms, of "min n 256" n "[]"]
  by (simp add: drbg_kcapi_sym_ctr_def DRBG_OUTSCRATCHLEN_def min_def)

lemma length_upd:
  assumes "length data = kl + bl"
  shows "length (fst (ctr_drbg_upd (sym_enc be) kl bl data kv)) = kl"
    "length (snd (ctr_drbg_upd (sym_enc be) kl bl data kv)) = bl"
  using assms by (simp_all add: ctr_drbg_upd_def Let_def length_stream)

text \<open>The input of the update function: the derived seed, or what is left in \<open>df_data\<close>.\<close>

definition upd_data :: "nat \<Rightarrow> bytes list option \<Rightarrow> nat \<Rightarrow> drbg_state \<Rightarrow> bytes" where
  "upd_data kl seed reseed drbg =
    (case seed of Some s \<Rightarrow> block_cipher_df (sym_enc be) kl bl (kl + bl) (concat s)
     | None \<Rightarrow> if reseed < 3 then replicate (kl + bl) 0 else df_data drbg)"

lemma length_upd_data: "length (df_data drbg) = kl + bl \<Longrightarrow> length (upd_data kl seed reseed drbg) = kl + bl"
  by (simp add: upd_data_def length_block_cipher_df [OF length_sym bl_pos] split: option.split)

lemma update_spec:
  assumes "has_ctr_kv kl bl kv drbg" "length (df_data drbg) = kl + bl" "kl + bl \<le> 64" "reseed \<noteq> 0"
    "data = upd_data kl seed reseed drbg"
  shows "drbg_ctr_update wide be (kl + bl) kl bl seed reseed drbg =
    (None, set_ctr_kv bl (ctr_drbg_upd (sym_enc be) kl bl data kv)
      (drbg\<lparr>df_data := (if reseed = 2 then data else replicate (kl + bl) 0)\<rparr>))"
proof -
  define drbg1 where "drbg1 = (if reseed < 3 then drbg\<lparr>df_data := replicate (kl + bl) 0\<rparr> else drbg)"
  have data: "length data = kl + bl" unfolding assms(5) by (rule length_upd_data [OF assms(2)])
  have df: "ctr_update_df be (kl + bl) kl bl seed drbg1 = (None, drbg\<lparr>df_data := data\<rparr>)"
  proof (cases seed)
    case (Some s)
    have "drbg_ctr_df (sym_enc be) (kl + bl) kl bl (df_data drbg1) (kl + bl) s =
        (None, block_cipher_df (sym_enc be) kl bl (kl + bl) (concat s))"
      by (rule drbg_ctr_df_spec) (use length_sym bl assms in \<open>simp_all add: drbg1_def\<close>)
    with Some show ?thesis by (simp add: ctr_update_df_def drbg1_def assms(5) upd_data_def)
  qed (simp add: ctr_update_df_def drbg1_def assms(5) upd_data_def)
  define temp where
    "temp = xor_bytes (ctr_stream (sym_enc be (fst kv)) bl (kl + bl) (be_bytes bl (be_val (snd kv) + 1))) data"
  let ?iv = "be_bytes bl (be_val (drbg_V drbg) + blocks_for bl (kl + bl))"
  have ctr: "drbg_kcapi_sym_ctr be (Some data) (kl + bl) (drbg\<lparr>df_data := data\<rparr>) =
      (None, temp, drbg\<lparr>df_data := data, drbg_V := ?iv\<rparr>)"
    using sym_ctr_data [of "drbg\<lparr>df_data := data\<rparr>" data "kl + bl"] assms data by (simp add: has_ctr_kv_def temp_def)
  have lt: "length temp = kl + bl" using data by (simp add: temp_def length_stream)
  have V: "crypto_inc wide (take bl (drop kl temp)) bl = be_bytes bl (be_val (drop kl temp) + 1)"
    using crypto_inc_be_bytes [of "drop kl temp" bl wide "be_val (drop kl temp)"] lt by (simp add: be_bytes_be_val)
  have key: "ctr_update_key wide be kl bl reseed drbg1 = (None, drbg1)" using assms(4) by (simp add: ctr_update_key_def)
  have "drbg_ctr_update wide be (kl + bl) kl bl seed reseed drbg =
      ctr_update_out (kl + bl) reseed None (drbg\<lparr>df_data := data, drbg_V := ?iv, backend_key := take kl temp,
        drbg_V := be_bytes bl (be_val (drop kl temp) + 1)\<rparr>)"
    unfolding drbg_ctr_update_def Let_def drbg1_def [symmetric] key df prod.case option.case
    by (simp add: ctr setkey_ok V)
  moreover have "ctr_drbg_upd (sym_enc be) kl bl data kv = (take kl temp, drop kl temp)"
    by (simp only: ctr_drbg_upd_def Let_def temp_def)
  ultimately show ?thesis by (cases drbg) (simp add: ctr_update_out_def set_ctr_kv_def)
qed

lemma ctr_update_out_1: "ctr_update_out sl 1 = ctr_update_out sl 0"
  by (simp add: ctr_update_out_def fun_eq_iff)

text \<open>The first seeding turns the zero key and counter into a key and counter of the standard.\<close>

lemma first_update_spec:
  assumes "length (drbg_V drbg) = bl" "kl \<le> length (drbg_C drbg)" "length (df_data drbg) = kl + bl" "kl + bl \<le> 64"
  shows "drbg_ctr_update wide be (kl + bl) kl bl (Some seed) 0 drbg =
    (None, set_ctr_kv bl (ctr_drbg_upd (sym_enc be) kl bl (block_cipher_df (sym_enc be) kl bl (kl + bl) (concat seed))
      (take kl (drbg_C drbg), drbg_V drbg)) (drbg\<lparr>df_data := replicate (kl + bl) 0\<rparr>))"
proof -
  let ?kv = "(take kl (drbg_C drbg), drbg_V drbg)"
  have V: "crypto_inc wide (drbg_V drbg) bl = be_bytes bl (be_val (drbg_V drbg) + 1)"
    using crypto_inc_be_bytes [of "drbg_V drbg" bl wide "be_val (drbg_V drbg)"] assms(1) by (simp add: be_bytes_be_val)
  have kv: "has_ctr_kv kl bl ?kv (set_ctr_kv bl ?kv drbg)" using assms by (simp add: has_ctr_kv_def set_ctr_kv_def)
  have "ctr_update_key wide be kl bl 0 (drbg\<lparr>df_data := replicate (kl + bl) 0\<rparr>) =
      (None, (set_ctr_kv bl ?kv drbg)\<lparr>df_data := replicate (kl + bl) 0\<rparr>)"
    by (cases drbg) (use V in \<open>simp add: ctr_update_key_def setkey_ok set_ctr_kv_def\<close>)
  moreover have "ctr_update_key wide be kl bl 1 d = (None, d)" for d by (simp add: ctr_update_key_def)
  ultimately have "drbg_ctr_update wide be (kl + bl) kl bl (Some seed) 0 drbg =
      drbg_ctr_update wide be (kl + bl) kl bl (Some seed) 1 (set_ctr_kv bl ?kv drbg)"
    unfolding drbg_ctr_update_def ctr_update_out_1 by simp
  also have "\<dots> = (None, set_ctr_kv bl (ctr_drbg_upd (sym_enc be) kl bl (block_cipher_df (sym_enc be) kl bl (kl + bl)
      (concat seed)) ?kv) ((set_ctr_kv bl ?kv drbg)\<lparr>df_data := replicate (kl + bl) 0\<rparr>))"
    using update_spec [OF kv, where seed = "Some seed" and reseed = 1] assms by (simp add: upd_data_def set_ctr_kv_def)
  finally show ?thesis by (simp add: set_ctr_kv_def)
qed

lemma generate_spec:
  assumes kv: "has_ctr_kv kl bl kv drbg" and df: "df_data drbg = replicate (kl + bl) 0" and l: "kl + bl \<le> 64" "n \<le> INT_MAX"
  shows "drbg_ctr_generate wide be (kl + bl) kl bl n addtl drbg =
    (case ctr_drbg_out (sym_enc be) kl bl n (if addtl = [] then None else Some (concat addtl)) kv of
       (out, kv') \<Rightarrow> (Inr n, out, set_ctr_kv bl kv' drbg))"
proof -
  define data where "data = (if addtl = [] then replicate (kl + bl) 0
    else block_cipher_df (sym_enc be) kl bl (kl + bl) (concat addtl))"
  define kv1 where "kv1 = (if addtl = [] then kv else ctr_drbg_upd (sym_enc be) kl bl data kv)"
  have data: "length data = kl + bl" by (simp add: data_def length_block_cipher_df [OF length_sym bl_pos])
  have kv1: "length (fst kv1) = kl" "length (snd kv1) = bl"
    using kv length_upd [OF data, of kv] by (simp_all add: kv1_def has_ctr_kv_def)
  define drbg1 where "drbg1 = set_ctr_kv bl kv1 (drbg\<lparr>df_data := data\<rparr>)"
  have 1: "(if addtl \<noteq> [] then drbg_ctr_update wide be (kl + bl) kl bl (Some addtl) 2 drbg else (None, drbg)) =
      (None, drbg1)"
  proof (cases "addtl = []")
    case True
    with kv df show ?thesis by (simp add: drbg1_def kv1_def data_def set_ctr_kv_def has_ctr_kv_def)
  next
    case False
    with update_spec [OF kv, where seed = "Some addtl" and reseed = 2] df l
    show ?thesis by (simp add: drbg1_def kv1_def data_def upd_data_def)
  qed
  have d1: "backend_key drbg1 = fst kv1" "drbg_V drbg1 = be_bytes bl (be_val (snd kv1) + 1)" "df_data drbg1 = data"
    by (simp_all add: drbg1_def set_ctr_kv_def)
  let ?V = "be_bytes bl (be_val (snd kv1) + blocks_for bl n)"
  define drbg2 where "drbg2 = drbg1\<lparr>drbg_V := be_bytes bl (be_val ?V + 1)\<rparr>"
  have 2: "drbg_kcapi_sym_ctr be None n drbg1 =
      (None, ctr_stream (sym_enc be (fst kv1)) bl n (be_bytes bl (be_val (snd kv1) + 1)), drbg2)"
    using sym_ctr_zeros [of drbg1 n] by (simp add: d1 drbg2_def add.commute)
  have kv2: "has_ctr_kv kl bl (fst kv1, ?V) drbg2" using kv1 d1 by (simp add: has_ctr_kv_def drbg2_def)
  have 3: "drbg_ctr_update wide be (kl + bl) kl bl None 3 drbg2 =
      (None, set_ctr_kv bl (ctr_drbg_upd (sym_enc be) kl bl data (fst kv1, ?V)) drbg)"
    using update_spec [OF kv2, where seed = None and reseed = 3] l data d1 df
    by (cases drbg) (simp add: upd_data_def drbg2_def drbg1_def set_ctr_kv_def)
  have out: "ctr_drbg_out (sym_enc be) kl bl n (if addtl = [] then None else Some (concat addtl)) kv =
      (ctr_stream (sym_enc be (fst kv1)) bl n (be_bytes bl (be_val (snd kv1) + 1)),
       ctr_drbg_upd (sym_enc be) kl bl data (fst kv1, ?V))"
    by (simp add: ctr_drbg_out_def kv1_def data_def Let_def)
  have n: "min n INT_MAX = n" using l by simp
  show ?thesis unfolding drbg_ctr_generate_def n Let_def 1 out prod.case option.case 2 3 ..
qed

end

section \<open>The counter mode of the repository gives the contract\<close>

text \<open>A transform over the model of \<open>ctr.c\<close>, for any block cipher and any layout with memory.\<close>

definition ctr_template :: "bool \<Rightarrow> nat \<Rightarrow> (bytes \<Rightarrow> bytes \<Rightarrow> bytes) \<Rightarrow> layout \<Rightarrow> sym_backend" where
  "ctr_template wide bl E env = \<lparr>sym_enc = E, skcipher_setkey = (\<lambda>key. None),
    skcipher_encrypt = (\<lambda>key iv data. case crypto_ctr_crypt wide bl (E key) env iv data of
      None \<Rightarrow> (Some EINVAL, [], iv) | Some (err, iv', out) \<Rightarrow> (err, out, iv'))\<rparr>"

lemma ctr_advance_be_bytes: "length iv = bl \<Longrightarrow> ctr_advance wide bl i iv = be_bytes bl (be_val iv + i)"
  using ctr_advance_value [of iv bl wide i] by (intro be_bytes_unique [symmetric]) simp_all

lemma ctr_keystream_be_bytes:
  assumes "length iv = bl"
  shows "ctr_keystream wide bl enc k iv = concat (map (\<lambda>i. enc (be_bytes bl (be_val iv + i))) [0..<k])"
proof (induction k)
  case (Suc k)
  then show ?case unfolding ctr_keystream_snoc ctr_advance_be_bytes [OF assms] by simp
qed simp

lemma ctr_template_backend:
  assumes "4 \<le> bl" "bl dvd 256" "allocates env" "\<And>K. block_fun bl (E K)"
  shows "ctr_backend (ctr_template wide bl E env) bl"
proof
  fix K iv data :: bytes
  assume iv: "length iv = bl"
  have "(length data + bl - 1) div bl = blocks_for bl (length data)" by (simp add: blocks_for_def)
  with block_fun.ctr_crypt_flat [OF assms(4) iv, of wide K env data] assms(3)
  show "skcipher_encrypt (ctr_template wide bl E env) K iv data =
      (None, xor_bytes (ctr_stream (sym_enc (ctr_template wide bl E env) K) bl (length data) iv) data,
       be_bytes bl (be_val iv + blocks_for bl (length data)))"
    by (auto simp: ctr_template_def Let_def ctr_stream_def ctr_advance_be_bytes [OF iv] ctr_keystream_be_bytes [OF iv])
qed (use assms block_fun.length_enc [OF assms(4)] in \<open>simp_all add: ctr_template_def\<close>)

interpretation seed_ctr_drbg: ctr_backend "ctr_template wide 16 (\<lambda>K. seed_encrypt (seed_set_key K)) ragged" 16 for wide
  by (rule ctr_template_backend) (simp_all add: ragged_allocates seed.block_fun_axioms)

text \<open>C17: a CTR DRBG follows SP 800-90A with a derivation function. Reseeding updates key and counter with
  the derived seed; generating derives and mixes in the additional input if there is any, returns the key
  stream of the following counters cut to the request, drawn in pieces of 256 bytes, and updates again with
  the derived input kept from before, or with zeros. The transform's counter is always one ahead.\<close>

theorem drbg_ctr_is_sp800_90a:
  assumes "ctr_backend be bl" "has_ctr_kv kl bl kv drbg" "df_data drbg = replicate (kl + bl) 0" "kl + bl \<le> 64" "n \<le> INT_MAX"
  shows "drbg_ctr_update wide be (kl + bl) kl bl (Some seed) 1 drbg =
      (None, set_ctr_kv bl (ctr_drbg_upd (sym_enc be) kl bl
         (block_cipher_df (sym_enc be) kl bl (kl + bl) (concat seed)) kv) drbg) \<and>
    drbg_ctr_generate wide be (kl + bl) kl bl n addtl drbg =
      (case ctr_drbg_out (sym_enc be) kl bl n (if addtl = [] then None else Some (concat addtl)) kv of
         (out, kv') \<Rightarrow> (Inr n, out, set_ctr_kv bl kv' drbg))"
proof
  show "drbg_ctr_generate wide be (kl + bl) kl bl n addtl drbg =
      (case ctr_drbg_out (sym_enc be) kl bl n (if addtl = [] then None else Some (concat addtl)) kv of
         (out, kv') \<Rightarrow> (Inr n, out, set_ctr_kv bl kv' drbg))"
    by (rule ctr_backend.generate_spec) (fact assms)+
  have "drbg\<lparr>df_data := replicate (kl + bl) 0\<rparr> = drbg" using assms(3) by simp
  with ctr_backend.update_spec [OF assms(1,2), where seed = "Some seed" and reseed = 1] assms(3,4)
  show "drbg_ctr_update wide be (kl + bl) kl bl (Some seed) 1 drbg =
      (None, set_ctr_kv bl (ctr_drbg_upd (sym_enc be) kl bl
         (block_cipher_df (sym_enc be) kl bl (kl + bl) (concat seed)) kv) drbg)"
    by (simp add: ctr_backend.upd_data_def [OF assms(1)])
qed

theorem drbg_ctr_is_sp800_90a_witness:
  "drbg_ctr_generate True (ctr_template True 16 (\<lambda>K. seed_encrypt (seed_set_key K)) ragged) 32 16 16 300 [[7]]
      (set_ctr_kv 16 (replicate 16 1, replicate 16 255) ((drbg_example [] [])\<lparr>df_data := replicate 32 0\<rparr>)) =
    (case ctr_drbg_out (\<lambda>K. seed_encrypt (seed_set_key K)) 16 16 300 (Some [7]) (replicate 16 1, replicate 16 255) of
       (out, kv') \<Rightarrow> (Inr 300, out, set_ctr_kv 16 kv' ((drbg_example [] [])\<lparr>df_data := replicate 32 0\<rparr>)))"
proof -
  let ?be = "ctr_template True 16 (\<lambda>K. seed_encrypt (seed_set_key K)) ragged"
  have "sym_enc ?be = (\<lambda>K. seed_encrypt (seed_set_key K))" by (simp add: ctr_template_def)
  then show ?thesis
    using drbg_ctr_is_sp800_90a [OF seed_ctr_drbg.ctr_backend_axioms [of True], of 16 "(replicate 16 1, replicate 16 255)"
        "set_ctr_kv 16 (replicate 16 1, replicate 16 255) ((drbg_example [] [])\<lparr>df_data := replicate 32 0\<rparr>)" 300 True _ "[[7]]"]
    by (simp add: has_ctr_kv_def set_ctr_kv_def INT_MAX_def)
qed

end
