(* ===== verification/Drbg.thy ===== *)
theory Drbg
  imports DrbgHmac DrbgCtr
begin

text \<open>
  What the generators of \<open>drbg.c\<close> share: seeding and its sources, the FIPS continuous test, the reseed
  policy, generate, instantiate, uninstantiate and the entry points of the crypto API. The three kinds of
  generator enter through the two operations of \<open>struct drbg_state_ops\<close> (\<open>drbg_ops\<close>). The environment is a
  record: random bytes of the successive calls, the state of the kernel's generator, the clock, the jitter
  generator, allocations. The mutex is not modelled: every operation runs under it from start to end.
\<close>

section \<open>Panics\<close>

text \<open>\<open>panic\<close> and \<open>BUG_ON\<close> do not return.\<close>

datatype 'a run = Panic | Done 'a

fun bind_run :: "'a run \<Rightarrow> ('a \<Rightarrow> 'b run) \<Rightarrow> 'b run" where
  "bind_run Panic f = Panic"
| "bind_run (Done x) f = f x"

section \<open>The environment\<close>

record drbg_env =
  random_bytes :: "nat \<Rightarrow> nat \<Rightarrow> bytes"
  rng_is_initialized :: bool
  jiffies :: u64
  HZ :: u64
  fips_enabled :: bool
  config_fips :: bool
  jent_bytes :: "nat \<Rightarrow> errno option \<times> bytes"
  jent_alloc :: "errno option"
  crypto_init :: "errno option"
  kmalloc_ok :: "nat \<Rightarrow> bool"
  heap_bytes :: "nat \<Rightarrow> bytes"

record drbg_ops =
  op_update :: "bytes list option \<Rightarrow> bool \<Rightarrow> drbg_state \<Rightarrow> errno option \<times> drbg_state"
  op_generate :: "nat \<Rightarrow> bytes list \<Rightarrow> drbg_state \<Rightarrow> (errno + nat) \<times> bytes \<times> drbg_state"

text \<open>A \<open>struct drbg_string\<close>: a buffer that may be missing, and a length. Its bytes are as many of the buffer.\<close>

type_synonym drbg_string = "bytes option \<times> nat"

definition string_bytes :: "drbg_string \<Rightarrow> bytes" where
  "string_bytes s = (case fst s of None \<Rightarrow> [] | Some b \<Rightarrow> take (snd s) b)"

definition core_of :: "drbg_state \<Rightarrow> drbg_core" where
  "core_of drbg = (case core drbg of Some c \<Rightarrow> c | None \<Rightarrow> hd drbg_cores)"

abbreviation entropy_len :: "drbg_state \<Rightarrow> nat" where
  "entropy_len drbg \<equiv> drbg_sec_strength (core_strength (core_of drbg))"

section \<open>Seeding\<close>

definition drbg_fips_continuous_test ::
    "drbg_env \<Rightarrow> bytes \<Rightarrow> drbg_state \<Rightarrow> (errno option \<times> drbg_state) run" where
  "drbg_fips_continuous_test env entropy drbg =
    (let entropylen = entropy_len drbg
     in if \<not> config_fips env then Done (None, drbg)
        else if test_data drbg \<noteq> None then Done (None, drbg)
        else if \<not> fips_enabled env then Done (None, drbg)
        else if \<not> fips_primed drbg then
          Done (Some EAGAIN, drbg\<lparr>drbg_prev := take entropylen entropy, fips_primed := True\<rparr>)
        else if take entropylen (drbg_prev drbg) = take entropylen entropy then Panic
        else Done (None, drbg\<lparr>drbg_prev := take entropylen entropy\<rparr>))"

text \<open>\<open>k\<close> numbers the calls of \<open>get_random_bytes\<close>.\<close>

function drbg_get_random_bytes ::
    "drbg_env \<Rightarrow> nat \<Rightarrow> nat \<Rightarrow> drbg_state \<Rightarrow> (errno option \<times> bytes \<times> drbg_state) run" where
  "drbg_get_random_bytes env k entropylen drbg =
    (let entropy = random_bytes env k entropylen
     in case drbg_fips_continuous_test env entropy drbg of
          Panic \<Rightarrow> Panic
        | Done (None, drbg') \<Rightarrow> Done (None, entropy, drbg')
        | Done (Some err, drbg') \<Rightarrow>
            if err \<noteq> EAGAIN then Done (Some err, entropy, drbg')
            else drbg_get_random_bytes env (k + 1) entropylen drbg')"
  by auto
termination
  by (relation "measure (\<lambda>(env, k, n, drbg). of_bool (\<not> fips_primed drbg))")
    (auto simp: drbg_fips_continuous_test_def Let_def split: if_splits)

declare drbg_get_random_bytes.simps [simp del]

definition drbg_seed_with ::
    "drbg_hdr \<Rightarrow> drbg_env \<Rightarrow> drbg_ops \<Rightarrow> bytes list \<Rightarrow> bool \<Rightarrow> drbg_seed_state \<Rightarrow> drbg_state \<Rightarrow> errno option \<times> drbg_state" where
  "drbg_seed_with hdr env ops seed reseed new_seed_state drbg =
    (case op_update ops (Some seed) reseed drbg of
       (Some err, drbg) \<Rightarrow> (Some err, drbg)
     | (None, drbg) \<Rightarrow>
        (None, drbg\<lparr>seeded := new_seed_state, last_seed_time := unat (jiffies env), reseed_ctr := 1,
           reseed_threshold := (case new_seed_state of SEED_FULL \<Rightarrow> max_requests hdr | _ \<Rightarrow> 50)\<rparr>))"

definition drbg_seed_from_random ::
    "drbg_hdr \<Rightarrow> drbg_env \<Rightarrow> drbg_ops \<Rightarrow> drbg_state \<Rightarrow> (errno option \<times> drbg_state) run" where
  "drbg_seed_from_random hdr env ops drbg =
    (let entropylen = entropy_len drbg
     in if entropylen = 0 \<or> entropylen > 32 then Panic
        else bind_run (drbg_get_random_bytes env 0 entropylen drbg) (\<lambda>(ret, entropy, drbg).
          if ret \<noteq> None then Done (ret, drbg)
          else Done (drbg_seed_with hdr env ops [entropy] True SEED_FULL drbg)))"

text \<open>\<open>time_after (a, b)\<close> is \<open>(long)(b - a) < 0\<close>.\<close>

definition drbg_nopr_reseed_interval_elapsed :: "drbg_env \<Rightarrow> drbg_state \<Rightarrow> bool" where
  "drbg_nopr_reseed_interval_elapsed env drbg =
    (if test_data drbg \<noteq> None then False
     else let next_reseed = of_nat (last_seed_time drbg) + 300 * HZ env
       in sint (next_reseed - jiffies env) < 0)"

text \<open>
  The entropy of \<open>drbg_seed\<close>: the test data, or random bytes with, when there is a jitter generator, as
  many of its bytes. The result is an error, or the seed string and the new seed state.
\<close>

definition drbg_seed_entropy ::
    "drbg_env \<Rightarrow> bool \<Rightarrow> drbg_state \<Rightarrow> ((errno + bytes \<times> drbg_seed_state) \<times> drbg_state) run" where
  "drbg_seed_entropy env reseed drbg =
    (case test_data drbg of
       Some t \<Rightarrow> Done (Inr (t, SEED_FULL), drbg)
     | None \<Rightarrow>
       let entropylen = entropy_len drbg
       in if entropylen = 0 then Panic
          else let entropylen = (if \<not> reseed then ((entropylen + 1) div 2) * 3 else entropylen)
       in if entropylen * 2 > (32 + 16) * 2 then Panic
          else let new_seed_state = (if \<not> rng_is_initialized env then SEED_PARTIAL else SEED_FULL)
       in bind_run (drbg_get_random_bytes env 0 entropylen drbg) (\<lambda>(ret, entropy, drbg).
            case ret of
              Some err \<Rightarrow> Done (Inl err, drbg)
            | None \<Rightarrow>
              if \<not> has_jent drbg then Done (Inr (entropy, new_seed_state), drbg)
              else (case jent_bytes env entropylen of
                (jret, jbytes) \<Rightarrow>
                  if fips_enabled env \<and> jret \<noteq> None \<and> (\<not> reseed \<or> jret \<noteq> Some EAGAIN)
                  then Done (Inl (the jret), drbg)
                  else Done (Inr (entropy @ jbytes, new_seed_state), drbg))))"

definition drbg_seed ::
    "drbg_hdr \<Rightarrow> drbg_env \<Rightarrow> drbg_ops \<Rightarrow> drbg_string option \<Rightarrow> bool \<Rightarrow> drbg_state \<Rightarrow> (errno option \<times> drbg_state) run" where
  "drbg_seed hdr env ops pers reseed drbg =
    (if (case pers of Some p \<Rightarrow> snd p > max_addtl hdr | None \<Rightarrow> False) then Done (Some EINVAL, drbg)
     else bind_run (drbg_seed_entropy env reseed drbg) (\<lambda>(src, drbg).
       case src of
         Inl err \<Rightarrow> Done (Some err, drbg)
       | Inr (data1, new_seed_state) \<Rightarrow>
          let seedlist = [data1] @ (case pers of
                Some p \<Rightarrow> if fst p \<noteq> None \<and> 0 < snd p then [string_bytes p] else [] | None \<Rightarrow> []);
              sl = statelen (core_of drbg);
              drbg = (if \<not> reseed then drbg\<lparr>drbg_V := replicate sl 0, drbg_C := replicate sl 0\<rparr> else drbg)
          in Done (drbg_seed_with hdr env ops seedlist reseed new_seed_state drbg)))"

section \<open>Generate\<close>

text \<open>
  The reseed policy of \<open>drbg_generate\<close>: the result says whether the request may go on, with the
  additional input that is left for it.
\<close>

definition drbg_reseed_policy ::
    "drbg_hdr \<Rightarrow> drbg_env \<Rightarrow> drbg_ops \<Rightarrow> drbg_string option \<Rightarrow> drbg_state \<Rightarrow>
      (errno option \<times> drbg_string option \<times> drbg_state) run" where
  "drbg_reseed_policy hdr env ops addtl drbg =
    (let drbg = (if reseed_threshold drbg < reseed_ctr drbg then drbg\<lparr>seeded := SEED_UNSEEDED\<rparr> else drbg)
     in if drbg_pr drbg \<or> seeded drbg = SEED_UNSEEDED then
          bind_run (drbg_seed hdr env ops addtl True drbg) (\<lambda>(ret, drbg). Done (ret, None, drbg))
        else if rng_is_initialized env \<and>
            (seeded drbg = SEED_PARTIAL \<or> drbg_nopr_reseed_interval_elapsed env drbg) then
          bind_run (drbg_seed_from_random hdr env ops drbg) (\<lambda>(ret, drbg). Done (ret, addtl, drbg))
        else Done (None, addtl, drbg))"

text \<open>\<open>buf_null\<close> says that the output pointer is null. The result is the code returned (\<open>None\<close> is 0), the
  bytes written and the new state.\<close>

definition drbg_generate ::
    "drbg_hdr \<Rightarrow> drbg_env \<Rightarrow> drbg_ops \<Rightarrow> bool \<Rightarrow> nat \<Rightarrow> drbg_string option \<Rightarrow> drbg_state \<Rightarrow>
      (errno option \<times> bytes \<times> drbg_state) run" where
  "drbg_generate hdr env ops buf_null buflen addtl drbg =
    (if core drbg = None then Done (Some EINVAL, [], drbg)
     else if buflen = 0 \<or> buf_null then Done (Some EINVAL, [], drbg)
     else if (case addtl of Some a \<Rightarrow> fst a = None \<and> 0 < snd a | None \<Rightarrow> False) then Done (Some EINVAL, [], drbg)
     else if buflen > max_request_bytes hdr then Done (Some EINVAL, [], drbg)
     else if (case addtl of Some a \<Rightarrow> snd a > max_addtl hdr | None \<Rightarrow> False) then Done (Some EINVAL, [], drbg)
     else bind_run (drbg_reseed_policy hdr env ops addtl drbg) (\<lambda>(ret, addtl, drbg).
       if ret \<noteq> None then Done (ret, [], drbg)
       else
         let addtllist = (case addtl of Some a \<Rightarrow> if 0 < snd a then [string_bytes a] else [] | None \<Rightarrow> [])
         in case op_generate ops buflen addtllist drbg of
              (len, buf, drbg) \<Rightarrow>
                let drbg = drbg\<lparr>reseed_ctr := reseed_ctr drbg + 1\<rparr>
                in (case len of Inl err \<Rightarrow> Done (Some err, buf, drbg) | Inr n \<Rightarrow> Done (None, buf, drbg))))"

text \<open>
  \<open>drbg_generate_long\<close>: chunk \<open>i\<close> runs in the environment \<open>envs i\<close>. The buffer is the caller's from
  position \<open>len\<close>; the model collects what is written chunk by chunk.
\<close>

function drbg_generate_long_loop ::
    "drbg_hdr \<Rightarrow> (nat \<Rightarrow> drbg_env) \<Rightarrow> drbg_ops \<Rightarrow> bool \<Rightarrow> nat \<Rightarrow> drbg_string option \<Rightarrow> nat \<Rightarrow> nat \<Rightarrow> bytes list \<Rightarrow>
      drbg_state \<Rightarrow> (errno option \<times> bytes list \<times> drbg_state) run" where
  "drbg_generate_long_loop hdr envs ops buf_null buflen addtl i len written drbg =
    (let slice = (buflen - len) div max_request_bytes hdr;
         chunk = (if slice \<noteq> 0 then max_request_bytes hdr else buflen - len)
     in case drbg_generate hdr (envs i) ops buf_null chunk addtl drbg of
          Panic \<Rightarrow> Panic
        | Done (Some err, buf, drbg) \<Rightarrow> Done (Some err, written @ [buf], drbg)
        | Done (None, buf, drbg) \<Rightarrow>
            if slice > 0 \<and> len + chunk < buflen
            then drbg_generate_long_loop hdr envs ops buf_null buflen addtl (i + 1) (len + chunk) (written @ [buf]) drbg
            else Done (None, written @ [buf], drbg))"
  by auto
termination
  by (relation "measure (\<lambda>(hdr, envs, ops, buf_null, buflen, addtl, i, len, written, drbg). buflen - len)")
    (auto simp: div_greater_zero_iff split: if_splits)

declare drbg_generate_long_loop.simps [simp del]

definition drbg_generate_long ::
    "drbg_hdr \<Rightarrow> (nat \<Rightarrow> drbg_env) \<Rightarrow> drbg_ops \<Rightarrow> bool \<Rightarrow> nat \<Rightarrow> drbg_string option \<Rightarrow> drbg_state \<Rightarrow>
      (errno option \<times> bytes list \<times> drbg_state) run" where
  "drbg_generate_long hdr envs ops buf_null buflen addtl drbg =
    drbg_generate_long_loop hdr envs ops buf_null buflen addtl 0 0 [] drbg"

section \<open>Instantiate\<close>

text \<open>The operations of a core, over the transforms the crypto API gives for its backend name.\<close>

record drbg_backends =
  bk_hash :: "string \<Rightarrow> hash_backend"
  bk_hmac :: "string \<Rightarrow> hmac_backend"
  bk_sym :: "string \<Rightarrow> sym_backend"

definition drbg_ops_of :: "drbg_hdr \<Rightarrow> bool \<Rightarrow> drbg_backends \<Rightarrow> drbg_core \<Rightarrow> drbg_ops" where
  "drbg_ops_of hdr wide bk c =
    (let sl = statelen c; bl = blocklen c; name = backend_cra_name c
     in case core_type c of
       DRBG_HMAC \<Rightarrow> \<lparr>op_update = drbg_hmac_update hdr (bk_hmac bk name) sl,
         op_generate = drbg_hmac_generate hdr (bk_hmac bk name) sl bl\<rparr>
     | DRBG_HASH \<Rightarrow> \<lparr>op_update = drbg_hash_update hdr (bk_hash bk name) sl bl,
         op_generate = drbg_hash_generate wide hdr (bk_hash bk name) sl bl\<rparr>
     | DRBG_CTR \<Rightarrow> \<lparr>op_update = (\<lambda>seed reseed. drbg_ctr_update wide (bk_sym bk name) sl (keylen hdr c) bl seed (of_bool reseed)),
         op_generate = drbg_ctr_generate wide (bk_sym bk name) sl (keylen hdr c) bl\<rparr>)"

definition drbg_dealloc_state :: "drbg_env \<Rightarrow> drbg_state \<Rightarrow> drbg_state" where
  "drbg_dealloc_state env drbg =
    (let drbg = drbg\<lparr>drbg_V := [], drbg_C := [], df_data := [], reseed_ctr := 0, core := None\<rparr>
     in if config_fips env then drbg\<lparr>drbg_prev := [], fips_primed := False\<rparr> else drbg)"

text \<open>
  The allocations of \<open>drbg_alloc_state\<close> are numbered: \<open>V\<close>, \<open>C\<close>, the scratchpad, the last entropy. The first
  two are not cleared.
\<close>

definition drbg_alloc_state :: "drbg_env \<Rightarrow> drbg_state \<Rightarrow> errno option \<times> drbg_state" where
  "drbg_alloc_state env drbg =
    (let c = core_of drbg; sl = statelen c; scratch = (core_type c \<noteq> DRBG_HMAC)
     in case crypto_init env of
          Some err \<Rightarrow> (Some err, drbg_dealloc_state env drbg)
        | None \<Rightarrow>
          if \<not> kmalloc_ok env 0 \<or> \<not> kmalloc_ok env 1 \<or> (scratch \<and> \<not> kmalloc_ok env 2) \<or>
             (config_fips env \<and> \<not> kmalloc_ok env 3)
          then (Some ENOMEM, drbg_dealloc_state env drbg)
          else
            let drbg = drbg\<lparr>drbg_V := heap_bytes env sl, drbg_C := heap_bytes env sl,
                  df_data := (if scratch then replicate sl 0 else [])\<rparr>
            in (None, if config_fips env
                      then drbg\<lparr>drbg_prev := replicate (drbg_sec_strength (core_strength c)) 0, fips_primed := False\<rparr>
                      else drbg))"

definition drbg_prepare_hrng :: "drbg_env \<Rightarrow> drbg_state \<Rightarrow> errno option \<times> drbg_state" where
  "drbg_prepare_hrng env drbg =
    (if test_data drbg \<noteq> None then (None, drbg)
     else case jent_alloc env of
       None \<Rightarrow> (None, drbg\<lparr>has_jent := True\<rparr>)
     | Some err \<Rightarrow> (if fips_enabled env then Some err else None, drbg\<lparr>has_jent := False\<rparr>))"

definition drbg_uninstantiate :: "drbg_env \<Rightarrow> drbg_state \<Rightarrow> drbg_state" where
  "drbg_uninstantiate env drbg = drbg_dealloc_state env (drbg\<lparr>has_jent := False\<rparr>)"

definition drbg_instantiate ::
    "drbg_hdr \<Rightarrow> drbg_env \<Rightarrow> (drbg_core \<Rightarrow> drbg_ops) \<Rightarrow> drbg_string option \<Rightarrow> nat \<Rightarrow> bool \<Rightarrow> drbg_state \<Rightarrow>
      (errno option \<times> drbg_state) run" where
  "drbg_instantiate hdr env ops pers coreref pr drbg =
    (if core drbg = None then
       (let drbg = drbg\<lparr>core := Some (drbg_cores ! coreref), drbg_pr := pr, seeded := SEED_UNSEEDED,
              last_seed_time := 0, reseed_threshold := max_requests hdr\<rparr>
        in case drbg_alloc_state env drbg of
             (Some err, drbg) \<Rightarrow> Done (Some err, drbg)
           | (None, drbg) \<Rightarrow>
             (case drbg_prepare_hrng env drbg of
                (Some err, drbg) \<Rightarrow> Done (Some err, drbg_uninstantiate env drbg)
              | (None, drbg) \<Rightarrow>
                bind_run (drbg_seed hdr env (ops (core_of drbg)) pers False drbg) (\<lambda>(ret, drbg).
                  Done (ret, if ret \<noteq> None then drbg_uninstantiate env drbg else drbg))))
     else drbg_seed hdr env (ops (core_of drbg)) pers True drbg)"

section \<open>The entry points of the crypto API\<close>

definition drbg_kcapi_random ::
    "drbg_hdr \<Rightarrow> (nat \<Rightarrow> drbg_env) \<Rightarrow> (drbg_core \<Rightarrow> drbg_ops) \<Rightarrow> drbg_string \<Rightarrow> bool \<Rightarrow> nat \<Rightarrow> drbg_state \<Rightarrow>
      (errno option \<times> bytes list \<times> drbg_state) run" where
  "drbg_kcapi_random hdr envs ops src dst_null dlen drbg =
    drbg_generate_long hdr envs (ops (core_of drbg)) dst_null dlen (if snd src \<noteq> 0 then Some src else None) drbg"

definition drbg_kcapi_seed ::
    "drbg_hdr \<Rightarrow> drbg_env \<Rightarrow> (drbg_core \<Rightarrow> drbg_ops) \<Rightarrow> string \<Rightarrow> drbg_string \<Rightarrow> drbg_state \<Rightarrow>
      (errno option \<times> drbg_state) run" where
  "drbg_kcapi_seed hdr env ops driver_name seed drbg =
    (case drbg_convert_tfm_core driver_name 0 of
       (coreref, pr) \<Rightarrow> drbg_instantiate hdr env ops (if 0 < snd seed then Some seed else None) coreref pr drbg)"

definition drbg_kcapi_set_entropy :: "bytes \<Rightarrow> drbg_state \<Rightarrow> drbg_state" where
  "drbg_kcapi_set_entropy data drbg = drbg\<lparr>test_data := Some data\<rparr>"

definition drbg_kcapi_cleanup :: "drbg_env \<Rightarrow> drbg_state \<Rightarrow> drbg_state" where
  "drbg_kcapi_cleanup env drbg = drbg_uninstantiate env drbg"

text \<open>The states of a handle: seeded first, then used in any order.\<close>

inductive drbg_reach :: "drbg_hdr \<Rightarrow> (drbg_core \<Rightarrow> drbg_ops) \<Rightarrow> drbg_state \<Rightarrow> bool" for hdr ops where
  reach_init: "core d = None \<Longrightarrow> drbg_kcapi_seed hdr env ops name seed d = Done (None, d') \<Longrightarrow> drbg_reach hdr ops d'"
| reach_seed: "drbg_reach hdr ops d \<Longrightarrow> drbg_kcapi_seed hdr env ops name seed d = Done (ret, d') \<Longrightarrow> drbg_reach hdr ops d'"
| reach_generate: "drbg_reach hdr ops d \<Longrightarrow>
    drbg_generate hdr env (ops (core_of d)) buf_null buflen addtl d = Done (ret, buf, d') \<Longrightarrow> drbg_reach hdr ops d'"
| reach_entropy: "drbg_reach hdr ops d \<Longrightarrow> drbg_reach hdr ops (drbg_kcapi_set_entropy data d)"

section \<open>What the operations of a generator leave alone\<close>

text \<open>\<open>update\<close> and \<open>generate\<close> may change \<open>V\<close>, \<open>C\<close> and the scratchpad, not the fields the policy reads.\<close>

definition policy where
  "policy d = (reseed_ctr d, reseed_threshold d, seeded d, drbg_pr d, core d, test_data d, has_jent d)"

locale drbg_generator =
  fixes ops :: drbg_ops
  assumes update_frame: "policy (snd (op_update ops seed reseed d)) = policy d"
    and generate_frame: "policy (snd (snd (op_generate ops n addtl d))) = policy d"

lemma hash_update_frame: "policy (snd (drbg_hash_update hdr hash sl bl seed reseed d)) = policy d"
  by (simp add: drbg_hash_update_def policy_def Let_def split: option.split prod.split)

lemma hash_generate_frame: "policy (snd (snd (drbg_hash_generate wide hdr hash sl bl n addtl d))) = policy d"
  by (simp add: drbg_hash_generate_def drbg_hash_process_addtl_def policy_def Let_def split: option.split prod.split)

lemma hmac_round_frame: "policy (snd (drbg_hmac_round hm sl p s d)) = policy d"
  by (simp add: drbg_hmac_round_def drbg_kcapi_hmacsetkey_def policy_def Let_def split: option.split prod.split)

lemma hmac_update_frame: "policy (snd (drbg_hmac_update hdr hm sl seed reseed d)) = policy d"
proof -
  have k: "policy (drbg_kcapi_hmacsetkey sl k (d\<lparr>drbg_V := v\<rparr>)) = policy d" for k v
    by (simp add: drbg_kcapi_hmacsetkey_def policy_def)
  show ?thesis
    unfolding drbg_hmac_update_def Let_def
    by (auto split: option.split prod.split) (metis hmac_round_frame k snd_conv)+
qed

lemma hmac_output_frame: "policy (snd (snd (snd (hmac_output_loop hm bl n len buf d)))) = policy d"
proof (induction hm bl n len buf d rule: hmac_output_loop.induct)
  case (1 hm bl n len buf d)
  show ?case
    using 1 by (subst hmac_output_loop.simps) (auto simp: policy_def Let_def split: option.split prod.split)
qed

lemma hmac_generate_frame: "policy (snd (snd (drbg_hmac_generate hdr hm sl bl n addtl d))) = policy d"
  unfolding drbg_hmac_generate_def
  by (auto split: option.split prod.split if_splits) (metis hmac_update_frame hmac_output_frame snd_conv)+

lemma sym_ctr_frame: "policy (snd (snd (drbg_kcapi_sym_ctr be inp n d))) = policy d"
proof -
  have "policy (snd (snd (sym_ctr_loop be inp n buf d))) = policy d" for inp buf
  proof (induction be inp n buf d rule: sym_ctr_loop.induct)
    case (1 be inp n buf d)
    show ?case
      using 1 by (subst sym_ctr_loop.simps) (auto simp: policy_def Let_def split: option.split prod.split)
  qed
  then show ?thesis by (simp add: drbg_kcapi_sym_ctr_def Let_def)
qed

lemma policy_simps [simp]:
  "policy (d\<lparr>drbg_V := v\<rparr>) = policy d" "policy (d\<lparr>drbg_C := c\<rparr>) = policy d"
  "policy (d\<lparr>backend_key := k\<rparr>) = policy d" "policy (d\<lparr>df_data := x\<rparr>) = policy d"
  "policy (d\<lparr>drbg_prev := p\<rparr>) = policy d" "policy (d\<lparr>fips_primed := b\<rparr>) = policy d"
  by (simp_all add: policy_def)

lemma ctr_update_out_frame: "policy (snd (ctr_update_out sl reseed ret d)) = policy d"
  by (simp add: ctr_update_out_def)

lemma ctr_update_key_frame: "policy (snd (ctr_update_key wide be kl bl reseed d)) = policy d"
  by (simp add: ctr_update_key_def Let_def split: option.split)

lemma ctr_update_df_frame: "policy (snd (ctr_update_df be sl kl bl seed d)) = policy d"
  by (simp add: ctr_update_df_def split: option.split prod.split)

lemma ctr_update_frame: "policy (snd (drbg_ctr_update wide be sl kl bl seed reseed d)) = policy d"
proof -
  define d1 where "d1 = (if reseed < 3 then d\<lparr>df_data := replicate sl 0\<rparr> else d)"
  obtain r2 d2 where 2: "ctr_update_key wide be kl bl reseed d1 = (r2, d2)" by fastforce
  obtain r3 d3 where 3: "ctr_update_df be sl kl bl seed d2 = (r3, d3)" by fastforce
  obtain r4 t d4 where 4: "drbg_kcapi_sym_ctr be (Some (df_data d3)) sl d3 = (r4, t, d4)" by (metis prod_cases3)
  have "policy d1 = policy d" by (simp add: d1_def)
  moreover have "policy d2 = policy d1" using ctr_update_key_frame [of wide be kl bl reseed d1] 2 by simp
  moreover have "policy d3 = policy d2" using ctr_update_df_frame [of be sl kl bl seed d2] 3 by simp
  moreover have "policy d4 = policy d3" using sym_ctr_frame [of be "Some (df_data d3)" sl d3] 4 by simp
  ultimately show ?thesis
    unfolding drbg_ctr_update_def Let_def d1_def [symmetric] 2 prod.case
    by (cases r2; simp add: 3 ctr_update_out_frame; cases r3; simp add: 4 ctr_update_out_frame;
        cases r4; simp add: ctr_update_out_frame split: option.split)
qed

lemma ctr_generate_frame: "policy (snd (snd (drbg_ctr_generate wide be sl kl bl n addtl d))) = policy d"
proof -
  let ?first = "if addtl \<noteq> [] then drbg_ctr_update wide be sl kl bl (Some addtl) 2 d else (None, d)"
  obtain r1 d1 where 1: "?first = (r1, d1)" by fastforce
  obtain r2 buf d2 where 2: "drbg_kcapi_sym_ctr be None (min n INT_MAX) d1 = (r2, buf, d2)" by (metis prod_cases3)
  obtain r3 d3 where 3: "drbg_ctr_update wide be sl kl bl None 3 d2 = (r3, d3)" by fastforce
  have "policy d1 = policy d"
    using ctr_update_frame [of wide be sl kl bl "Some addtl" 2 d] 1 by (auto split: if_splits)
  moreover have "policy d2 = policy d1" using sym_ctr_frame [of be None "min n INT_MAX" d1] 2 by simp
  moreover have "policy d3 = policy d2" using ctr_update_frame [of wide be sl kl bl None 3 d2] 3 by simp
  ultimately show ?thesis
    unfolding drbg_ctr_generate_def Let_def 1 prod.case by (cases r1; simp add: 2; cases r2; simp add: 3; cases r3; simp)
qed

interpretation core_ops: drbg_generator "drbg_ops_of hdr wide bk c" for hdr wide bk c
  by unfold_locales
    (simp_all add: drbg_ops_of_def Let_def hash_update_frame hash_generate_frame hmac_update_frame
      hmac_generate_frame ctr_update_frame ctr_generate_frame split: drbg_type.split)

section \<open>Seeding sets the counters\<close>

lemma get_random_bytes_result:
  "\<exists>entropy d'. drbg_get_random_bytes env k n d = Panic \<or>
    drbg_get_random_bytes env k n d = Done (None, entropy, d') \<and> policy d' = policy d"
proof (induction env k n d rule: drbg_get_random_bytes.induct)
  case (1 env k n d)
  let ?e = "random_bytes env k n"
  show ?case
  proof (cases "drbg_fips_continuous_test env ?e d")
    case Panic
    then show ?thesis by (subst drbg_get_random_bytes.simps) simp
  next
    case (Done x)
    obtain r d1 where x: "x = (r, d1)" by fastforce
    have p: "policy d1 = policy d" "r = None \<or> r = Some EAGAIN"
      using Done unfolding x by (auto simp: drbg_fips_continuous_test_def Let_def split: if_splits)
    show ?thesis
    proof (cases r)
      case None
      with Done x p show ?thesis by (subst drbg_get_random_bytes.simps) simp
    next
      case (Some err)
      then have e: "err = EAGAIN" using p by simp
      have "\<exists>entropy d'. drbg_get_random_bytes env (k + 1) n d1 = Panic \<or>
          drbg_get_random_bytes env (k + 1) n d1 = Done (None, entropy, d') \<and> policy d' = policy d1"
        by (rule 1 [OF refl Done x [symmetric] Some]) (simp add: e)
      then show ?thesis using Done x p Some e by (subst (1 2) drbg_get_random_bytes.simps) simp
    qed
  qed
qed

definition threshold_of :: "drbg_hdr \<Rightarrow> drbg_seed_state \<Rightarrow> nat" where
  "threshold_of hdr st = (case st of SEED_FULL \<Rightarrow> max_requests hdr | _ \<Rightarrow> 50)"

text \<open>A successful seeding restarts the counter and sets the threshold of the new seed state.\<close>

definition reseeded :: "drbg_hdr \<Rightarrow> drbg_state \<Rightarrow> drbg_state \<Rightarrow> bool" where
  "reseeded hdr d d' \<longleftrightarrow> seeded d' \<noteq> SEED_UNSEEDED \<and> reseed_ctr d' = 1 \<and>
    reseed_threshold d' = threshold_of hdr (seeded d') \<and> drbg_pr d' = drbg_pr d \<and> core d' = core d"

lemma policy_eq:
  "policy d' = policy d \<longleftrightarrow> reseed_ctr d' = reseed_ctr d \<and> reseed_threshold d' = reseed_threshold d \<and>
    seeded d' = seeded d \<and> drbg_pr d' = drbg_pr d \<and> core d' = core d \<and> test_data d' = test_data d \<and> has_jent d' = has_jent d"
  by (simp add: policy_def)

lemma reseeded_trans: "policy d1 = policy d \<Longrightarrow> reseeded hdr d1 d' \<Longrightarrow> reseeded hdr d d'"
  by (simp add: reseeded_def policy_eq)

lemma bind_run_Done: "bind_run m f = Done y \<longleftrightarrow> (\<exists>x. m = Done x \<and> f x = Done y)"
  by (cases m) simp_all

lemma get_random_bytes_Done:
  "drbg_get_random_bytes env k n d = Done (ret, entropy, d') \<Longrightarrow> ret = None \<and> policy d' = policy d"
  using get_random_bytes_result [of env k n d] by auto

lemma seed_entropy_result:
  "drbg_seed_entropy env reseed d = Done (src, d') \<Longrightarrow>
    policy d' = policy d \<and> (case src of Inl e \<Rightarrow> True | Inr x \<Rightarrow> snd x \<noteq> SEED_UNSEEDED)"
  by (auto simp: drbg_seed_entropy_def Let_def bind_run_Done split: option.splits if_splits prod.splits
      dest!: get_random_bytes_Done)

context drbg_generator
begin

lemma seed_with_result:
  assumes "drbg_seed_with hdr env ops seed reseed new d = (ret, d')" "new \<noteq> SEED_UNSEEDED"
  shows "if ret = None then reseeded hdr d d' else policy d' = policy d"
  using assms update_frame [of "Some seed" reseed d]
  by (auto simp: drbg_seed_with_def policy_def reseeded_def threshold_of_def split: prod.splits option.splits)

lemma seed_from_random_result:
  assumes "drbg_seed_from_random hdr env ops d = Done (ret, d')"
  shows "if ret = None then reseeded hdr d d' else policy d' = policy d"
proof -
  obtain entropy d1 where "policy d1 = policy d" "drbg_seed_with hdr env ops [entropy] True SEED_FULL d1 = (ret, d')"
    using assms
    by (auto simp: drbg_seed_from_random_def Let_def bind_run_Done split: if_splits dest!: get_random_bytes_Done)
  then show ?thesis using seed_with_result reseeded_trans by (metis drbg_seed_state.distinct(3))
qed

lemma seed_result:
  assumes "drbg_seed hdr env ops pers reseed d = Done (ret, d')"
  shows "if ret = None then reseeded hdr d d' else policy d' = policy d"
proof (cases "(case pers of Some p \<Rightarrow> snd p > max_addtl hdr | None \<Rightarrow> False)")
  case True
  then show ?thesis using assms by (auto simp: drbg_seed_def)
next
  case False
  then obtain src d1 where src: "drbg_seed_entropy env reseed d = Done (src, d1)"
    and k: "(case src of Inl err \<Rightarrow> Done (Some err, d1)
       | Inr (data1, new_seed_state) \<Rightarrow>
          let seedlist = [data1] @ (case pers of
                Some p \<Rightarrow> if fst p \<noteq> None \<and> 0 < snd p then [string_bytes p] else [] | None \<Rightarrow> []);
              sl = statelen (core_of d1);
              drbg = (if \<not> reseed then d1\<lparr>drbg_V := replicate sl 0, drbg_C := replicate sl 0\<rparr> else d1)
          in Done (drbg_seed_with hdr env ops seedlist reseed new_seed_state drbg)) = Done (ret, d')"
    using assms by (auto simp: drbg_seed_def bind_run_Done)
  note e = seed_entropy_result [OF src]
  show ?thesis
  proof (cases src)
    case (Inl err)
    then show ?thesis using k e by auto
  next
    case (Inr x)
    obtain data1 new where x: "x = (data1, new)" by fastforce
    define d2 where "d2 = (if \<not> reseed then d1\<lparr>drbg_V := replicate (statelen (core_of d1)) 0,
      drbg_C := replicate (statelen (core_of d1)) 0\<rparr> else d1)"
    have "policy d2 = policy d1" by (simp add: d2_def)
    moreover obtain sds where "drbg_seed_with hdr env ops sds reseed new d2 = (ret, d')"
      using k Inr x unfolding Let_def d2_def [symmetric] by auto
    moreover have "new \<noteq> SEED_UNSEEDED" using e Inr x by simp
    ultimately show ?thesis using seed_with_result reseeded_trans e by metis
  qed
qed

lemma reseed_policy_result:
  assumes "drbg_reseed_policy hdr env ops addtl d = Done (ret, a, d1)"
  shows "if ret = None then
      reseeded hdr d d1 \<and> (drbg_pr d \<longrightarrow> a = None) \<or>
      d1 = d \<and> a = addtl \<and> \<not> drbg_pr d \<and> seeded d \<noteq> SEED_UNSEEDED \<and> reseed_ctr d \<le> reseed_threshold d
    else policy d1 = policy d \<or> policy d1 = policy (d\<lparr>seeded := SEED_UNSEEDED\<rparr>)"
proof -
  define d0 where "d0 = (if reseed_threshold d < reseed_ctr d then d\<lparr>seeded := SEED_UNSEEDED\<rparr> else d)"
  have r: "reseeded hdr d0 d1 \<Longrightarrow> reseeded hdr d d1" by (simp add: d0_def reseeded_def split: if_splits)
  have p: "policy d1 = policy d0 \<Longrightarrow> policy d1 = policy d \<or> policy d1 = policy (d\<lparr>seeded := SEED_UNSEEDED\<rparr>)"
    by (simp add: d0_def split: if_splits)
  have pr: "drbg_pr d0 = drbg_pr d" by (simp add: d0_def)
  consider (seed) "drbg_seed hdr env ops addtl True d0 = Done (ret, d1)" "a = None"
    | (random) "drbg_seed_from_random hdr env ops d0 = Done (ret, d1)" "\<not> drbg_pr d0"
    | (keep) "ret = None" "d1 = d0" "a = addtl" "\<not> drbg_pr d0" "seeded d0 \<noteq> SEED_UNSEEDED"
    using assms unfolding drbg_reseed_policy_def Let_def d0_def [symmetric]
    by (auto simp: bind_run_Done split: if_splits)
  then show ?thesis
  proof cases
    case seed
    with seed_result [OF seed(1)] r p show ?thesis by (auto split: if_splits)
  next
    case random
    with seed_from_random_result [OF random(1)] r p pr show ?thesis by (auto split: if_splits)
  next
    case keep
    then have "\<not> reseed_threshold d < reseed_ctr d" by (auto simp: d0_def split: if_splits)
    with keep show ?thesis by (simp add: d0_def)
  qed
qed

text \<open>A call of \<open>drbg_generate\<close> that reaches the generator does so in a state \<open>d1\<close> within the threshold.\<close>

lemma generate_result:
  assumes "drbg_generate hdr env ops buf_null n addtl d = Done (ret, buf, d')"
  shows "ret = Some EINVAL \<and> buf = [] \<and> d' = d \<or>
    ret \<noteq> None \<and> buf = [] \<and> (policy d' = policy d \<or> policy d' = policy (d\<lparr>seeded := SEED_UNSEEDED\<rparr>)) \<or>
    (\<exists>d1 a len d2. op_generate ops n a d1 = (len, buf, d2) \<and> d' = d2\<lparr>reseed_ctr := reseed_ctr d2 + 1\<rparr> \<and>
      ret = (case len of Inl e \<Rightarrow> Some e | Inr _ \<Rightarrow> None) \<and>
      (reseeded hdr d d1 \<and> (drbg_pr d \<longrightarrow> a = []) \<or>
       d1 = d \<and> \<not> drbg_pr d \<and> seeded d \<noteq> SEED_UNSEEDED \<and> reseed_ctr d \<le> reseed_threshold d))"
proof (cases "core d = None \<or> n = 0 \<or> buf_null \<or> (case addtl of Some a \<Rightarrow> fst a = None \<and> 0 < snd a | None \<Rightarrow> False) \<or>
    n > max_request_bytes hdr \<or> (case addtl of Some a \<Rightarrow> snd a > max_addtl hdr | None \<Rightarrow> False)")
  case True
  then have "drbg_generate hdr env ops buf_null n addtl d = Done (Some EINVAL, [], d)"
    unfolding drbg_generate_def by auto
  then show ?thesis using assms by auto
next
  case False
  then obtain ret1 a d1 where pol: "drbg_reseed_policy hdr env ops addtl d = Done (ret1, a, d1)"
    and k: "(if ret1 \<noteq> None then Done (ret1, [], d1)
       else
         let addtllist = (case a of Some a \<Rightarrow> if 0 < snd a then [string_bytes a] else [] | None \<Rightarrow> [])
         in case op_generate ops n addtllist d1 of
              (len, buf, drbg) \<Rightarrow>
                let drbg = drbg\<lparr>reseed_ctr := reseed_ctr drbg + 1\<rparr>
                in (case len of Inl err \<Rightarrow> Done (Some err, buf, drbg) | Inr n \<Rightarrow> Done (None, buf, drbg))) =
      Done (ret, buf, d')"
    using assms unfolding drbg_generate_def by (auto simp: bind_run_Done split: if_splits)
  note p = reseed_policy_result [OF pol]
  show ?thesis
  proof (cases ret1)
    case (Some err)
    then show ?thesis using k p by auto
  next
    case None
    define al where "al = (case a of Some a \<Rightarrow> if 0 < snd a then [string_bytes a] else [] | None \<Rightarrow> [])"
    obtain len buf2 d2 where g: "op_generate ops n al d1 = (len, buf2, d2)" by (metis prod_cases3)
    have "buf2 = buf \<and> d' = d2\<lparr>reseed_ctr := reseed_ctr d2 + 1\<rparr> \<and> ret = (case len of Inl e \<Rightarrow> Some e | Inr _ \<Rightarrow> None)"
      using k None g unfolding Let_def al_def [symmetric] by (auto split: sum.splits)
    moreover have "reseeded hdr d d1 \<and> (drbg_pr d \<longrightarrow> al = []) \<or>
       d1 = d \<and> \<not> drbg_pr d \<and> seeded d \<noteq> SEED_UNSEEDED \<and> reseed_ctr d \<le> reseed_threshold d"
      using p None by (auto simp: al_def)
    ultimately show ?thesis using g by blast
  qed
qed

end

section \<open>The states of a handle\<close>

text \<open>
  The counter of a handle in use is at most one above the threshold its seed state stands for.
\<close>

definition drbg_ok :: "drbg_hdr \<Rightarrow> drbg_state \<Rightarrow> bool" where
  "drbg_ok hdr d \<longleftrightarrow> core d \<noteq> None \<and> 1 \<le> reseed_ctr d \<and> reseed_ctr d \<le> reseed_threshold d + 1 \<and>
    (seeded d \<noteq> SEED_UNSEEDED \<longrightarrow> reseed_threshold d = threshold_of hdr (seeded d))"

lemma reseeded_ok: "1 \<le> max_requests hdr \<Longrightarrow> core d \<noteq> None \<Longrightarrow> reseeded hdr d d' \<Longrightarrow>
    drbg_ok hdr d' \<and> reseed_ctr d' \<le> reseed_threshold d'"
  by (auto simp: reseeded_def drbg_ok_def threshold_of_def split: drbg_seed_state.split)

lemma drbg_ok_policy: "drbg_ok hdr d \<Longrightarrow> policy d' = policy d \<Longrightarrow> drbg_ok hdr d'"
  by (simp add: drbg_ok_def policy_eq)

lemma drbg_ok_unseeded: "drbg_ok hdr d \<Longrightarrow> drbg_ok hdr (d\<lparr>seeded := SEED_UNSEEDED\<rparr>)"
  by (simp add: drbg_ok_def)

context drbg_generator
begin

lemma generate_ok:
  assumes "1 \<le> max_requests hdr" "drbg_ok hdr d" "drbg_generate hdr env ops buf_null n addtl d = Done (ret, buf, d')"
  shows "drbg_ok hdr d'"
  using generate_result [OF assms(3)]
proof (elim disjE exE conjE)
  fix d1 a len d2
  assume g: "op_generate ops n a d1 = (len, buf, d2)" "d' = d2\<lparr>reseed_ctr := reseed_ctr d2 + 1\<rparr>"
    and d1: "reseeded hdr d d1"
  have "core d \<noteq> None" using assms(2) by (simp add: drbg_ok_def)
  moreover have "policy d2 = policy d1" using generate_frame [of n a d1] g by simp
  ultimately show ?thesis using reseeded_ok [OF assms(1) _ d1] g(2) by (auto simp: drbg_ok_def policy_eq)
next
  fix d1 a len d2
  assume g: "op_generate ops n a d1 = (len, buf, d2)" "d' = d2\<lparr>reseed_ctr := reseed_ctr d2 + 1\<rparr>"
    and d1: "d1 = d" "reseed_ctr d \<le> reseed_threshold d"
  have "policy d2 = policy d" using generate_frame [of n a d1] g d1 by simp
  then show ?thesis using g(2) d1 assms(2) by (auto simp: drbg_ok_def policy_eq)
qed (use assms(2) drbg_ok_policy drbg_ok_unseeded in \<open>blast+\<close>)

lemma seed_ok:
  assumes "1 \<le> max_requests hdr" "drbg_ok hdr d" "drbg_seed hdr env ops pers reseed d = Done (ret, d')"
  shows "drbg_ok hdr d'"
proof (cases "ret = None")
  case True
  have "core d \<noteq> None" using assms(2) by (simp add: drbg_ok_def)
  with True seed_result [OF assms(3)] reseeded_ok [OF assms(1)] show ?thesis by simp
next
  case False
  with seed_result [OF assms(3)] drbg_ok_policy [OF assms(2)] show ?thesis by simp
qed

end

lemma instantiate_fresh:
  assumes "\<And>c. drbg_generator (ops c)" "1 \<le> max_requests hdr" "core d = None"
    "drbg_instantiate hdr env ops pers coreref pr d = Done (None, d')"
  shows "drbg_ok hdr d'"
proof -
  define d0 where "d0 = d\<lparr>core := Some (drbg_cores ! coreref), drbg_pr := pr, seeded := SEED_UNSEEDED,
    last_seed_time := 0, reseed_threshold := max_requests hdr\<rparr>"
  obtain d1 d2 where "drbg_alloc_state env d0 = (None, d1)" "drbg_prepare_hrng env d1 = (None, d2)"
    and seed: "drbg_seed hdr env (ops (core_of d2)) pers False d2 = Done (None, d')"
    using assms(3,4) unfolding drbg_instantiate_def d0_def [symmetric] Let_def
    by (auto simp: bind_run_Done split: prod.splits option.splits if_splits)
  then have "core d2 \<noteq> None"
    by (auto simp: drbg_alloc_state_def drbg_prepare_hrng_def d0_def Let_def split: option.splits if_splits)
  with drbg_generator.seed_result [OF assms(1) seed] reseeded_ok [OF assms(2)] show ?thesis by auto
qed

lemma instantiate_again:
  assumes "drbg_generator (ops (core_of d))" "1 \<le> max_requests hdr" "drbg_ok hdr d"
    "drbg_instantiate hdr env ops pers coreref pr d = Done (ret, d')"
  shows "drbg_ok hdr d'"
proof -
  have "core d \<noteq> None" using assms(3) by (simp add: drbg_ok_def)
  then have "drbg_seed hdr env (ops (core_of d)) pers True d = Done (ret, d')"
    using assms(4) unfolding drbg_instantiate_def by (simp only: if_False)
  then show ?thesis by (rule drbg_generator.seed_ok [OF assms(1-3)])
qed

lemma reach_ok:
  assumes gen: "\<And>c. drbg_generator (ops c)" and m: "1 \<le> max_requests hdr" and r: "drbg_reach hdr ops d"
  shows "drbg_ok hdr d"
  using r
proof (induction rule: drbg_reach.induct)
  case (reach_init d env name seed d')
  then show ?case
    using instantiate_fresh [OF gen m reach_init(1)] by (auto simp: drbg_kcapi_seed_def split: prod.splits)
next
  case (reach_seed d env name seed ret d')
  then show ?case
    using instantiate_again [OF gen m reach_seed(3)] by (auto simp: drbg_kcapi_seed_def split: prod.splits)
next
  case (reach_generate d env buf_null buflen addtl ret buf d')
  then show ?case using drbg_generator.generate_ok [OF gen m] by blast
next
  case (reach_entropy d data)
  then show ?case by (simp add: drbg_ok_def drbg_kcapi_set_entropy_def)
qed

section \<open>Properties\<close>

text \<open>A handle of the Hash DRBG over a constant hash, for the witnesses.\<close>

definition env_example :: drbg_env where
  "env_example = \<lparr>random_bytes = (\<lambda>k n. replicate n (of_nat k)), rng_is_initialized = True, jiffies = 1000, HZ = 100,
    fips_enabled = False, config_fips = True, jent_bytes = (\<lambda>n. (None, replicate n 1)), jent_alloc = Some ENOENT,
    crypto_init = None, kmalloc_ok = (\<lambda>i. True), heap_bytes = (\<lambda>n. replicate n 165)\<rparr>"

definition bk_example :: drbg_backends where
  "bk_example = \<lparr>bk_hash = (\<lambda>name ins. (None, replicate 32 9)), bk_hmac = (\<lambda>name key ins. (None, replicate 32 9)),
    bk_sym = (\<lambda>name. \<lparr>sym_enc = (\<lambda>K b. b), skcipher_setkey = (\<lambda>K. None),
      skcipher_encrypt = (\<lambda>K iv data. (Some ENOMEM, [], iv))\<rparr>)\<rparr>"

lemma example_seeded:
  "\<exists>V C. length V = 55 \<and> length C = 55 \<and>
    drbg_kcapi_seed hdr_example env_example (drbg_ops_of hdr_example True bk_example) ''drbg_nopr_sha256'' (None, 0)
      (drbg_example [] []) =
    Done (None, \<lparr>drbg_V = V, drbg_C = C, reseed_ctr = 1, reseed_threshold = 1048576, seeded = SEED_FULL,
      last_seed_time = 1000, drbg_pr = False, core = Some (drbg_cores ! 5), fips_primed = False,
      drbg_prev = replicate 32 0, test_data = None, has_jent = False, backend_key = [], df_data = replicate 55 0\<rparr>)"
proof -
  let ?H = "\<lambda>M :: bytes. replicate 32 (9 :: u8)"
  have name: "drbg_convert_tfm_core ''drbg_nopr_sha256'' 0 = (5, False)"
    by (simp add: drbg_convert_tfm_core_def drbg_cores_def)
  have upd: "drbg_hash_update hdr_example (\<lambda>ins. (None, ?H (concat ins))) 55 32 (Some sd) False d =
      (None, d\<lparr>drbg_V := hash_df_spec ?H 32 55 (concat sd),
        drbg_C := hash_df_spec ?H 32 55 (drbg_prefix hdr_example 0 # hash_df_spec ?H 32 55 (concat sd))\<rparr>)"
    if "length (drbg_V d) = 55" "length (drbg_C d) = 55" for d sd
    by (rule drbg_hash_update_spec) (use that in simp_all)
  have len: "length (hash_df_spec ?H 32 55 M) = 55" for M
    by (simp add: hash_df_spec_def blocks_for_def length_blocks [where bl = 32])
  show ?thesis
    apply (simp add: drbg_kcapi_seed_def name drbg_instantiate_def drbg_example_def drbg_cores_def)
    apply (simp add: drbg_alloc_state_def core_of_def Let_def env_example_def drbg_prepare_hrng_def drbg_seed_def
      drbg_seed_entropy_def drbg_sec_strength_def drbg_get_random_bytes.simps drbg_fips_continuous_test_def
      drbg_seed_with_def drbg_ops_of_def bk_example_def upd len hdr_example_def [symmetric])
    apply (simp add: hdr_example_def)
    done
qed

lemma example_generates:
  "\<exists>d d' buf. drbg_reach hdr_example (drbg_ops_of hdr_example True bk_example) d \<and> core_of d = drbg_cores ! 5 \<and>
    drbg_generate hdr_example env_example (drbg_ops_of hdr_example True bk_example (core_of d)) False 40 None d =
      Done (None, buf, d')"
proof -
  let ?H = "\<lambda>M :: bytes. replicate 32 (9 :: u8)"
  obtain V C where VC: "length V = 55" "length C = 55" and seed:
    "drbg_kcapi_seed hdr_example env_example (drbg_ops_of hdr_example True bk_example) ''drbg_nopr_sha256'' (None, 0)
      (drbg_example [] []) =
    Done (None, \<lparr>drbg_V = V, drbg_C = C, reseed_ctr = 1, reseed_threshold = 1048576, seeded = SEED_FULL,
      last_seed_time = 1000, drbg_pr = False, core = Some (drbg_cores ! 5), fips_primed = False,
      drbg_prev = replicate 32 0, test_data = None, has_jent = False, backend_key = [], df_data = replicate 55 0\<rparr>)"
    (is "_ = Done (None, ?d)")
    using example_seeded by blast
  have r: "drbg_reach hdr_example (drbg_ops_of hdr_example True bk_example) ?d"
    by (rule reach_init [OF _ seed]) (simp add: drbg_example_def)
  have c: "core_of ?d = drbg_core_of DRBG_HASH DRBG_STRENGTH256 55 32 ''sha256'' ''sha256''"
    by (simp add: core_of_def drbg_cores_def)
  have pol: "drbg_reseed_policy hdr_example env_example ops None ?d = Done (None, None, ?d)" for ops
    by (simp add: drbg_reseed_policy_def drbg_nopr_reseed_interval_elapsed_def env_example_def)
  have "drbg_hash_generate True hdr_example (\<lambda>ins. (None, ?H (concat ins))) 55 32 40 [] ?d =
      (Inr 40, hashgen_spec ?H 32 55 40 (hash_addtl_V (drbg_prefix hdr_example) ?H 55 [] (drbg_V ?d)),
       ?d\<lparr>drbg_V := hash_generate_V (drbg_prefix hdr_example) ?H 55
         (hash_addtl_V (drbg_prefix hdr_example) ?H 55 [] (drbg_V ?d)) (drbg_C ?d) (reseed_ctr ?d)\<rparr>)"
    by (rule drbg_hash_generate_spec) (use VC in simp_all)
  then have "\<exists>buf d'. drbg_generate hdr_example env_example (drbg_ops_of hdr_example True bk_example (core_of ?d)) False 40
      None ?d = Done (None, buf, d')"
    unfolding c drbg_generate_def pol
    by (simp add: drbg_ops_of_def bk_example_def hdr_example_def [symmetric]) (simp add: hdr_example_def)
  moreover have "core_of ?d = drbg_cores ! 5" by (simp add: core_of_def)
  ultimately show ?thesis using r by blast
qed

text \<open>C18: on a handle seeded through the crypto API and then used in any order, whenever \<open>drbg_generate\<close>
  succeeds, the generator ran on a seeded state within the threshold its seed allows (50 requests while
  the kernel's generator was not ready, the maximum of the standard after), and with prediction
  resistance on a state seeded for this very request, which then consumed the additional input.\<close>

theorem drbg_output_is_freshly_seeded:
  assumes "drbg_reach hdr (drbg_ops_of hdr wide bk) d" "1 \<le> max_requests hdr"
    "drbg_generate hdr env (drbg_ops_of hdr wide bk (core_of d)) buf_null n addtl d = Done (None, buf, d')"
  shows "\<exists>d1 a len d2. op_generate (drbg_ops_of hdr wide bk (core_of d)) n a d1 = (Inr len, buf, d2) \<and>
    d' = d2\<lparr>reseed_ctr := reseed_ctr d2 + 1\<rparr> \<and> seeded d1 \<noteq> SEED_UNSEEDED \<and> 1 \<le> reseed_ctr d1 \<and>
    reseed_ctr d1 \<le> (case seeded d1 of SEED_FULL \<Rightarrow> max_requests hdr | _ \<Rightarrow> 50) \<and>
    (if drbg_pr d then reseed_ctr d1 = 1 \<and> a = [] else True)"
proof -
  have ok: "drbg_ok hdr d" by (rule reach_ok [OF core_ops.drbg_generator_axioms assms(2,1)])
  then have "core d \<noteq> None" by (simp add: drbg_ok_def)
  note fresh = reseeded_ok [OF assms(2) this]
  obtain d1 a len d2 where g: "op_generate (drbg_ops_of hdr wide bk (core_of d)) n a d1 = (len, buf, d2)"
      "d' = d2\<lparr>reseed_ctr := reseed_ctr d2 + 1\<rparr>" "None = (case len of Inl e \<Rightarrow> Some e | Inr _ \<Rightarrow> None)"
    and c: "reseeded hdr d d1 \<and> (drbg_pr d \<longrightarrow> a = []) \<or>
      d1 = d \<and> \<not> drbg_pr d \<and> seeded d \<noteq> SEED_UNSEEDED \<and> reseed_ctr d \<le> reseed_threshold d"
    using core_ops.generate_result [OF assms(3)] by auto
  from g(3) obtain m where "len = Inr m" by (auto split: sum.splits)
  moreover have "seeded d1 \<noteq> SEED_UNSEEDED \<and> 1 \<le> reseed_ctr d1 \<and> reseed_ctr d1 \<le> threshold_of hdr (seeded d1) \<and>
      (if drbg_pr d then reseed_ctr d1 = 1 \<and> a = [] else True)"
    using c
  proof
    assume "reseeded hdr d d1 \<and> (drbg_pr d \<longrightarrow> a = [])"
    with fresh [of d1] show ?thesis by (auto simp: reseeded_def drbg_ok_def)
  next
    assume "d1 = d \<and> \<not> drbg_pr d \<and> seeded d \<noteq> SEED_UNSEEDED \<and> reseed_ctr d \<le> reseed_threshold d"
    with ok show ?thesis by (auto simp: drbg_ok_def)
  qed
  ultimately show ?thesis using g(1,2) unfolding threshold_of_def by metis
qed

theorem drbg_output_is_freshly_seeded_witness:
  "\<exists>d d1 a len buf d2. drbg_reach hdr_example (drbg_ops_of hdr_example True bk_example) d \<and>
    op_generate (drbg_ops_of hdr_example True bk_example (core_of d)) 40 a d1 = (Inr len, buf, d2) \<and>
    seeded d1 \<noteq> SEED_UNSEEDED \<and> 1 \<le> reseed_ctr d1"
proof -
  obtain d d' buf where r: "drbg_reach hdr_example (drbg_ops_of hdr_example True bk_example) d"
    and g: "drbg_generate hdr_example env_example (drbg_ops_of hdr_example True bk_example (core_of d)) False 40 None d =
      Done (None, buf, d')"
    using example_generates by blast
  have "1 \<le> max_requests hdr_example" by (simp add: hdr_example_def)
  from drbg_output_is_freshly_seeded [OF r this g] r show ?thesis by blast
qed

text \<open>A request is refused with \<open>EINVAL\<close>, the state and the buffer untouched, on a handle that was never
  seeded, without an output buffer, above the maximal request, or with additional input that is malformed
  or too long.\<close>

theorem drbg_generate_rejects:
  assumes "core d = None \<or> n = 0 \<or> buf_null \<or> n > max_request_bytes hdr \<or>
    addtl = Some (None, Suc k) \<or> addtl = Some (b, m) \<and> m > max_addtl hdr"
  shows "drbg_generate hdr env ops buf_null n addtl d = Done (Some EINVAL, [], d)"
  using assms unfolding drbg_generate_def by auto

theorem drbg_generate_rejects_witness:
  "drbg_generate hdr_example env_example (drbg_ops_of hdr_example True bk_example (drbg_cores ! 0)) False 65537 None
     (drbg_example [] []) = Done (Some EINVAL, [], drbg_example [] [])"
  by (rule drbg_generate_rejects) (simp add: hdr_example_def)

text \<open>C20: when a CTR DRBG fails to mix in the additional input, \<open>drbg_generate\<close> nevertheless returns 0, with
  nothing written to the output buffer: \<open>drbg_ctr_generate\<close> answers the error with 0, which its caller
  takes as neither an error nor a success of its own.\<close>

theorem drbg_ctr_error_is_success:
  assumes "core d = Some c" "core_type c = DRBG_CTR" "0 < n" "n \<le> max_request_bytes hdr" "0 < length a" "length a \<le> max_addtl hdr"
    and "drbg_reseed_policy hdr env (drbg_ops_of hdr wide bk c) (Some (Some a, length a)) d =
      Done (None, Some (Some a, length a), d1)"
    and "drbg_ctr_update wide (bk_sym bk (backend_cra_name c)) (statelen c) (keylen hdr c) (blocklen c) (Some [a]) 2 d1 =
      (Some err, d2)"
  shows "drbg_generate hdr env (drbg_ops_of hdr wide bk c) False n (Some (Some a, length a)) d =
    Done (None, [], d2\<lparr>reseed_ctr := reseed_ctr d2 + 1\<rparr>)"
proof -
  have gen: "op_generate (drbg_ops_of hdr wide bk c) n [a] d1 = (Inr 0, [], d2)"
    using assms(2,8) by (simp add: drbg_ops_of_def Let_def drbg_ctr_generate_def)
  show ?thesis unfolding drbg_generate_def assms(7) using assms(1,3-6) by (simp add: string_bytes_def gen)
qed

theorem drbg_ctr_error_is_success_witness:
  "\<exists>d'. drbg_generate hdr_example env_example (drbg_ops_of hdr_example True bk_example (drbg_cores ! 0)) False 16
      (Some (Some [1, 2], length [1 :: u8, 2]))
      ((drbg_example (replicate 16 0) (replicate 32 0))\<lparr>core := Some (drbg_cores ! 0), last_seed_time := 1000\<rparr>) =
    Done (None, [], d')"
proof -
  let ?d = "(drbg_example (replicate 16 0) (replicate 32 0))\<lparr>core := Some (drbg_cores ! 0), last_seed_time := 1000\<rparr>"
  have c: "core_type (drbg_cores ! 0) = DRBG_CTR" by (simp add: drbg_cores_def)
  have pol: "drbg_reseed_policy hdr_example env_example ops (Some (Some [1, 2], length [1 :: u8, 2])) ?d =
      Done (None, Some (Some [1, 2], length [1 :: u8, 2]), ?d)" for ops
    by (simp add: drbg_reseed_policy_def drbg_nopr_reseed_interval_elapsed_def env_example_def drbg_example_def)
  have df: "drbg_ctr_df (\<lambda>K b. b) 32 16 16 (replicate 32 0) 32 [[1, 2]] = (None, block_cipher_df (\<lambda>K b. b) 16 16 32 [1, 2])"
    using drbg_ctr_df_spec [of 16 "\<lambda>K b. b" 16 32 32 "replicate 32 0" "[[1, 2]]"] by simp
  have l: "length (block_cipher_df (\<lambda>K b. b) 16 16 32 [1, 2]) = 32" by (rule length_block_cipher_df) simp_all
  have "\<exists>d2. drbg_ctr_update True (bk_sym bk_example (backend_cra_name (drbg_cores ! 0))) (statelen (drbg_cores ! 0))
      (keylen hdr_example (drbg_cores ! 0)) (blocklen (drbg_cores ! 0)) (Some [[1, 2]]) 2 ?d = (Some ENOMEM, d2)"
    by (simp add: drbg_cores_def hdr_example_def drbg_ctr_update_def ctr_update_key_def ctr_update_df_def bk_example_def
      df l drbg_kcapi_sym_ctr_def sym_ctr_loop.simps Let_def DRBG_OUTSCRATCHLEN_def length_greater_0_conv [symmetric]
      del: length_greater_0_conv)
  then obtain d2 where u: "drbg_ctr_update True (bk_sym bk_example (backend_cra_name (drbg_cores ! 0))) (statelen (drbg_cores ! 0))
      (keylen hdr_example (drbg_cores ! 0)) (blocklen (drbg_cores ! 0)) (Some [[1, 2]]) 2 ?d = (Some ENOMEM, d2)" ..
  show ?thesis
    by (rule exI, rule drbg_ctr_error_is_success [OF _ c _ _ _ _ pol u]) (simp_all add: hdr_example_def drbg_example_def)
qed

section \<open>Requests of any length\<close>







end
