(* ===== verification/Mpi.thy ===== *)
theory Mpi
  imports Prelude "HOL-Library.Word" Complex_Main
begin

text \<open>
  The interface of the big number library that RSA and Diffie-Hellman call (\<open>lib/mpi\<close>, outside the
  repository): its functions are fields of a record, and the locale \<open>mpi_laws\<close> states what their documentation
  promises, with an error result wherever the code checks for one. The theory also proves the number theory
  behind the two algorithms: Fermat's little theorem and the recombination of residues modulo two primes.
\<close>

section \<open>The interface\<close>

text \<open>
  A number is an integer. \<open>mpi_alloc\<close> says whether the allocation with a given number succeeds; reading may
  fail too (\<open>None\<close> is a null pointer). Writing returns the bytes and the sign.
\<close>

record mpi_lib =
  mpi_alloc :: "nat \<Rightarrow> bool"
  mpi_cmp :: "int \<Rightarrow> int \<Rightarrow> int"
  mpi_cmp_ui :: "int \<Rightarrow> nat \<Rightarrow> int"
  mpi_sub_ui :: "int \<Rightarrow> nat \<Rightarrow> errno + int"
  mpi_sub :: "int \<Rightarrow> int \<Rightarrow> errno + int"
  mpi_mul :: "int \<Rightarrow> int \<Rightarrow> errno + int"
  mpi_mulm :: "int \<Rightarrow> int \<Rightarrow> int \<Rightarrow> errno + int"
  mpi_addm :: "int \<Rightarrow> int \<Rightarrow> int \<Rightarrow> errno + int"
  mpi_powm :: "int \<Rightarrow> int \<Rightarrow> int \<Rightarrow> errno + int"
  mpi_rshift :: "int \<Rightarrow> nat \<Rightarrow> errno + int"
  mpi_test_bit :: "int \<Rightarrow> nat \<Rightarrow> bool"
  mpi_set_bit :: "int \<Rightarrow> nat \<Rightarrow> errno + int"
  mpi_get_size :: "int \<Rightarrow> nat"
  mpi_read :: "bytes \<Rightarrow> int option"
  mpi_write :: "int \<Rightarrow> nat \<Rightarrow> errno + bytes \<times> int"

text \<open>
  \<open>mpi_mulm\<close> takes a truncating remainder, so that its result is only fixed up to congruence;
  the other modular operations give the least non-negative residue. \<open>mpi_write\<close> pads on the left.
\<close>

locale mpi_laws =
  fixes lib :: mpi_lib
  assumes alloc: "mpi_alloc lib k"
    and cmp: "(mpi_cmp lib a b < 0 \<longleftrightarrow> a < b) \<and> (mpi_cmp lib a b = 0 \<longleftrightarrow> a = b)"
    and cmp_ui: "(mpi_cmp_ui lib a n < 0 \<longleftrightarrow> a < int n) \<and> (mpi_cmp_ui lib a n = 0 \<longleftrightarrow> a = int n)"
    and sub_ui: "mpi_sub_ui lib a n = Inr (a - int n)"
    and sub: "mpi_sub lib a b = Inr (a - b)"
    and mul: "mpi_mul lib a b = Inr (a * b)"
    and mulm: "0 < m \<Longrightarrow> \<exists>r. mpi_mulm lib a b m = Inr r \<and> r mod m = (a * b) mod m"
    and addm: "0 < m \<Longrightarrow> mpi_addm lib a b m = Inr ((a + b) mod m)"
    and powm: "0 \<le> e \<Longrightarrow> 0 < m \<Longrightarrow> mpi_powm lib a e m = Inr (a ^ nat e mod m)"
    and rshift: "0 \<le> a \<Longrightarrow> mpi_rshift lib a n = Inr (a div 2 ^ n)"
    and read_ok: "mpi_read lib bs = Some (int (be_val bs))"
    and write_ok: "0 \<le> a \<Longrightarrow> a < 256 ^ n \<Longrightarrow> \<exists>bs s. mpi_write lib a n = Inr (bs, s) \<and> 0 \<le> s \<and> length bs = n \<and> int (be_val bs) = a"
    and write_length: "mpi_write lib a n = Inr (bs, s) \<Longrightarrow> length bs = n"

section \<open>Prime numbers\<close>

definition is_prime :: "nat \<Rightarrow> bool" where
  "is_prime p \<longleftrightarrow> 1 < p \<and> (\<forall>d. d dvd p \<longrightarrow> d = 1 \<or> d = p)"

lemma prime_coprime:
  assumes "is_prime p" "\<not> p dvd a"
  shows "coprime a p"
proof (rule coprimeI)
  fix d assume "d dvd a" "d dvd p"
  then show "is_unit d" using assms by (auto simp: is_prime_def)
qed

lemma prime_dvd_mult:
  assumes "is_prime p" "p dvd a * b"
  shows "p dvd a \<or> p dvd b"
proof (cases "p dvd a")
  case False
  then have "coprime p a" using prime_coprime [OF assms(1)] by (simp add: coprime_commute)
  with assms(2) show ?thesis by (simp add: coprime_dvd_mult_right_iff)
qed simp

lemma prime_dvd_choose:
  assumes "is_prime p" "0 < k" "k < p"
  shows "p dvd p choose k"
proof -
  obtain k' p' where k: "k = Suc k'" "p = Suc p'" using assms by (metis gr0_implies_Suc less_imp_Suc_add)
  have "k * (p choose k) = p * (p' choose k')"
    unfolding k using Suc_times_binomial_eq [of p' k'] by (simp add: mult.commute)
  then have "p dvd k * (p choose k)" by (metis dvd_triv_left)
  moreover have "\<not> p dvd k" using assms(2,3) by (auto dest: dvd_imp_le)
  ultimately show ?thesis using prime_dvd_mult [OF assms(1)] by blast
qed

lemma power_prime_Suc:
  assumes "is_prime p"
  shows "(a + 1) ^ p mod p = (a ^ p + 1) mod p"
proof -
  have p: "1 < p" using assms by (simp add: is_prime_def)
  have "(a + 1) ^ p = (\<Sum>k\<le>p. (p choose k) * a ^ k)" using binomial [of a 1 p] by simp
  also have "\<dots> = (\<Sum>k \<in> insert 0 (insert p {0<..<p}). (p choose k) * a ^ k)"
    using p by (intro sum.cong) auto
  also have "\<dots> = 1 + (a ^ p + (\<Sum>k \<in> {0<..<p}. (p choose k) * a ^ k))" using p by simp
  also have "\<dots> mod p = (1 + a ^ p) mod p"
  proof -
    have "p dvd (\<Sum>k \<in> {0<..<p}. (p choose k) * a ^ k)"
      by (rule dvd_sum) (use prime_dvd_choose [OF assms] in \<open>simp add: dvd_mult2\<close>)
    then obtain c where c: "(\<Sum>k \<in> {0<..<p}. (p choose k) * a ^ k) = p * c" by (elim dvdE)
    show ?thesis unfolding c by (metis add.assoc mod_mult_self2)
  qed
  finally show ?thesis by (simp add: add.commute)
qed

lemma fermat_nat: "is_prime p \<Longrightarrow> a ^ p mod p = a mod p"
proof (induction a)
  case 0
  then show ?case by (cases p) (auto simp: is_prime_def)
next
  case (Suc a)
  then show ?case using power_prime_Suc [of p a] by (metis Suc_eq_plus1 mod_add_left_eq)
qed

lemma power_cong_1:
  assumes "is_prime p"
  shows "(a :: nat) ^ (1 + k * (p - 1)) mod p = a mod p"
proof (induction k)
  case (Suc k)
  have p: "1 < p" using assms by (simp add: is_prime_def)
  then have e: "1 + Suc k * (p - 1) = k * (p - 1) + p" by (cases p) simp_all
  have "a ^ (1 + Suc k * (p - 1)) mod p = (a ^ (k * (p - 1)) * (a ^ p mod p)) mod p"
    unfolding e power_add by (simp add: mod_mult_right_eq)
  also have "\<dots> = a ^ (1 + k * (p - 1)) mod p"
    unfolding fermat_nat [OF assms] by (simp add: mod_mult_right_eq mod_mult_left_eq mult.commute)
  finally show ?case using Suc by simp
qed simp

lemma power_mod_prime:
  assumes "is_prime p" "e mod (p - 1) = 1 mod (p - 1)" "0 < e"
  shows "(a :: int) ^ e mod int p = a mod int p"
proof -
  have p: "1 < p" using assms by (simp add: is_prime_def)
  have "(p - 1) dvd e - 1" using assms(2,3) mod_eq_dvd_iff_nat [of 1 e "p - 1"] by linarith
  then obtain k where "e - 1 = k * (p - 1)" by (metis dvd_div_mult_self)
  then have e: "e = 1 + k * (p - 1)" using assms(3) by simp
  define b where "b = nat (a mod int p)"
  have b: "int b = a mod int p" using p by (simp add: b_def)
  have "a ^ e mod int p = int b ^ e mod int p" by (simp add: b power_mod)
  also have "\<dots> = int (b ^ e mod p)" by (simp add: zmod_int)
  also have "\<dots> = int (b mod p)" unfolding e power_cong_1 [OF assms(1)] ..
  also have "\<dots> = a mod int p" by (simp add: zmod_int b)
  finally show ?thesis .
qed

lemma distinct_primes_coprime:
  assumes "is_prime p" "is_prime q" "p \<noteq> q"
  shows "coprime p q"
  using prime_coprime [OF assms(2), of p] assms by (auto simp: is_prime_def)

lemma residues_unique:
  assumes "is_prime p" "is_prime q" "p \<noteq> q"
    and "x mod int p = y mod int p" "x mod int q = y mod int q"
    and "0 \<le> x" "x < int (p * q)" "0 \<le> y" "y < int (p * q)"
  shows "x = y"
proof -
  have "int p dvd x - y" "int q dvd x - y" using assms(4,5) by (simp_all add: mod_eq_dvd_iff)
  moreover have "coprime (int p) (int q)" using distinct_primes_coprime [OF assms(1-3)] by simp
  ultimately have "int (p * q) dvd x - y" by (simp add: divides_mult)
  then obtain k where k: "x - y = int (p * q) * k" by (elim dvdE)
  have "0 < int (p * q)" using assms by (simp add: is_prime_def)
  have "int (p * q) * k < int (p * q) * 1" "int (p * q) * (-1) < int (p * q) * k" using assms(6-9) k by linarith+
  with \<open>0 < int (p * q)\<close> have "k = 0" by (simp only: mult_less_cancel_left_pos)
  with k show ?thesis by simp
qed

section \<open>An instance\<close>

fun put_le_int :: "nat \<Rightarrow> int \<Rightarrow> bytes" where
  "put_le_int 0 a = []"
| "put_le_int (Suc n) a = of_int (a mod 256) # put_le_int n (a div 256)"

lemma length_put_le_int [simp]: "length (put_le_int n a) = n"
  by (induction n arbitrary: a) simp_all

lemma put_le_int:
  "0 \<le> a \<Longrightarrow> a < 256 ^ n \<Longrightarrow> length (put_le_int n a) = n \<and> int (le_val (put_le_int n a)) = a"
proof (induction n arbitrary: a)
  case (Suc n)
  have "a div 256 < 256 ^ n" using Suc.prems by (simp add: div_less_iff_less_mult mult.commute)
  then have IH: "length (put_le_int n (a div 256)) = n \<and> int (le_val (put_le_int n (a div 256))) = a div 256"
    using Suc.prems(1) by (intro Suc.IH) simp_all
  have "int (unat (of_int (a mod 256) :: u8)) = a mod 256"
    using pos_mod_bound [of 256 a] pos_mod_sign [of 256 a] by (simp add: uint_word_of_int)
  moreover have "int (le_val (put_le_int (Suc n) a)) =
      int (unat (of_int (a mod 256) :: u8)) + 256 * int (le_val (put_le_int n (a div 256)))" by simp
  ultimately show ?case using IH by simp
qed simp

text \<open>The library on mathematical integers: it shows that the laws can hold.\<close>

definition int_mpi :: mpi_lib where
  "int_mpi = \<lparr>mpi_alloc = (\<lambda>k. True), mpi_cmp = (\<lambda>a b. if a < b then -1 else if a = b then 0 else 1),
    mpi_cmp_ui = (\<lambda>a n. if a < int n then -1 else if a = int n then 0 else 1),
    mpi_sub_ui = (\<lambda>a n. Inr (a - int n)), mpi_sub = (\<lambda>a b. Inr (a - b)), mpi_mul = (\<lambda>a b. Inr (a * b)),
    mpi_mulm = (\<lambda>a b m. Inr ((a * b) mod m)), mpi_addm = (\<lambda>a b m. Inr ((a + b) mod m)),
    mpi_powm = (\<lambda>a e m. Inr (a ^ nat e mod m)), mpi_rshift = (\<lambda>a n. Inr (a div 2 ^ n)),
    mpi_test_bit = (\<lambda>a n. bit a n), mpi_set_bit = (\<lambda>a n. Inr (or a (2 ^ n))), mpi_get_size = (\<lambda>a. 64),
    mpi_read = (\<lambda>bs. Some (int (be_val bs))),
    mpi_write = (\<lambda>a n. if a < 256 ^ n then Inr (rev (put_le_int n a), if a < 0 then -1 else 1) else Inl EOVERFLOW)\<rparr>"

interpretation int_mpi: mpi_laws int_mpi
proof
  fix a :: int and n :: nat
  assume "0 \<le> a" "a < 256 ^ n"
  with put_le_int [OF this]
  show "\<exists>bs s. mpi_write int_mpi a n = Inr (bs, s) \<and> 0 \<le> s \<and> length bs = n \<and> int (be_val bs) = a"
    by (simp add: int_mpi_def be_val_def)
qed (auto simp: int_mpi_def split: if_splits)

end
