(* ===== verification/Rsa.thy ===== *)
theory Rsa
  imports Mpi
begin

text \<open>
  RSA (\<open>rsa.c\<close>): the payload check, encryption, decryption by the Chinese remainder theorem, the requests on
  byte strings, and the keys with their callbacks (\<open>rsa_helper.c\<close>) and checks. Functions that the source starts with an underscore are
  \<open>rsa_enc_mpi\<close> and \<open>rsa_dec_crt\<close> here. Allocations are numbered within a request.
\<close>

section \<open>Keys\<close>

record rsa_key =
  raw_n :: bytes
  raw_e :: bytes
  raw_d :: bytes
  raw_p :: bytes
  raw_q :: bytes
  raw_dp :: bytes
  raw_dq :: bytes
  raw_qinv :: bytes

definition empty_rsa_key :: rsa_key where
  "empty_rsa_key = \<lparr>raw_n = [], raw_e = [], raw_d = [], raw_p = [], raw_q = [], raw_dp = [], raw_dq = [], raw_qinv = []\<rparr>"

definition rsa_get_n :: "bool \<Rightarrow> bytes \<Rightarrow> rsa_key \<Rightarrow> errno + rsa_key" where
  "rsa_get_n fips_enabled value key =
    (if value = [] then Inl EINVAL
     else if fips_enabled \<and> length (dropWhile (\<lambda>b. b = 0) value) < 256 then Inl EINVAL
     else Inr (key\<lparr>raw_n := value\<rparr>))"

definition rsa_get_e :: "bytes \<Rightarrow> rsa_key \<Rightarrow> errno + rsa_key" where
  "rsa_get_e value key =
    (if raw_n key = [] \<or> value = [] \<or> length value > length (raw_n key) then Inl EINVAL else Inr (key\<lparr>raw_e := value\<rparr>))"

definition rsa_get_d :: "bytes \<Rightarrow> rsa_key \<Rightarrow> errno + rsa_key" where
  "rsa_get_d value key =
    (if raw_n key = [] \<or> value = [] \<or> length value > length (raw_n key) then Inl EINVAL else Inr (key\<lparr>raw_d := value\<rparr>))"

definition rsa_get_p :: "bytes \<Rightarrow> rsa_key \<Rightarrow> errno + rsa_key" where
  "rsa_get_p value key =
    (if value = [] \<or> length value > length (raw_n key) then Inl EINVAL else Inr (key\<lparr>raw_p := value\<rparr>))"

definition rsa_get_q :: "bytes \<Rightarrow> rsa_key \<Rightarrow> errno + rsa_key" where
  "rsa_get_q value key =
    (if value = [] \<or> length value > length (raw_n key) then Inl EINVAL else Inr (key\<lparr>raw_q := value\<rparr>))"

definition rsa_get_dp :: "bytes \<Rightarrow> rsa_key \<Rightarrow> errno + rsa_key" where
  "rsa_get_dp value key =
    (if value = [] \<or> length value > length (raw_n key) then Inl EINVAL else Inr (key\<lparr>raw_dp := value\<rparr>))"

definition rsa_get_dq :: "bytes \<Rightarrow> rsa_key \<Rightarrow> errno + rsa_key" where
  "rsa_get_dq value key =
    (if value = [] \<or> length value > length (raw_n key) then Inl EINVAL else Inr (key\<lparr>raw_dq := value\<rparr>))"

definition rsa_get_qinv :: "bytes \<Rightarrow> rsa_key \<Rightarrow> errno + rsa_key" where
  "rsa_get_qinv value key =
    (if value = [] \<or> length value > length (raw_n key) then Inl EINVAL else Inr (key\<lparr>raw_qinv := value\<rparr>))"

text \<open>
  The BER decoder is outside the repository: \<open>ber k\<close> decodes a sequence of \<open>k\<close> integers into their contents,
  and the actions of the two grammars run in the order of the fields, the first error ending the parse.
\<close>

fun run_actions :: "(bytes \<Rightarrow> rsa_key \<Rightarrow> errno + rsa_key) list \<Rightarrow> bytes list \<Rightarrow> rsa_key \<Rightarrow> errno + rsa_key" where
  "run_actions (f # fs) (v # vs) key = bind_err (f v key) (run_actions fs vs)"
| "run_actions fs vs key = Inr key"

definition rsa_parse_pub_key ::
    "(nat \<Rightarrow> bytes \<Rightarrow> errno + bytes list) \<Rightarrow> bool \<Rightarrow> bytes \<Rightarrow> rsa_key \<Rightarrow> errno + rsa_key" where
  "rsa_parse_pub_key ber fips_enabled data key =
    bind_err (ber 2 data) (\<lambda>vs. run_actions [rsa_get_n fips_enabled, rsa_get_e] vs key)"

definition rsa_parse_priv_key ::
    "(nat \<Rightarrow> bytes \<Rightarrow> errno + bytes list) \<Rightarrow> bool \<Rightarrow> bytes \<Rightarrow> rsa_key \<Rightarrow> errno + rsa_key" where
  "rsa_parse_priv_key ber fips_enabled data key =
    bind_err (ber 9 data) (\<lambda>vs. run_actions
      [\<lambda>version. Inr, rsa_get_n fips_enabled, rsa_get_e, rsa_get_d, rsa_get_p, rsa_get_q, rsa_get_dp, rsa_get_dq, rsa_get_qinv] vs key)"

text \<open>A missing number is a null pointer.\<close>

record rsa_mpi_key =
  key_n :: "int option"
  key_e :: "int option"
  key_d :: "int option"
  key_p :: "int option"
  key_q :: "int option"
  key_dp :: "int option"
  key_dq :: "int option"
  key_qinv :: "int option"

definition rsa_free_mpi_key :: "rsa_mpi_key \<Rightarrow> rsa_mpi_key" where
  "rsa_free_mpi_key key = \<lparr>key_n = None, key_e = None, key_d = None, key_p = None, key_q = None,
    key_dp = None, key_dq = None, key_qinv = None\<rparr>"

definition rsa_check_key_length :: "bool \<Rightarrow> nat \<Rightarrow> errno option" where
  "rsa_check_key_length fips_enabled len =
    (if len \<in> {512, 1024, 1536} then (if fips_enabled then Some EINVAL else None)
     else if len \<in> {2048, 3072, 4096} then None
     else Some EINVAL)"

definition rsa_check_exponent_fips :: "mpi_lib \<Rightarrow> int \<Rightarrow> errno option" where
  "rsa_check_exponent_fips lib e =
    (if \<not> mpi_test_bit lib e 0 then Some EINVAL
     else if mpi_cmp_ui lib e 65536 \<le> 0 then Some EINVAL
     else if \<not> mpi_alloc lib 0 then Some ENOMEM
     else case mpi_set_bit lib 0 256 of
       Inl err \<Rightarrow> Some err
     | Inr e_max \<Rightarrow> if mpi_cmp lib e e_max \<ge> 0 then Some EINVAL else None)"

definition rsa_check_key :: "mpi_lib \<Rightarrow> bool \<Rightarrow> rsa_mpi_key \<Rightarrow> errno option \<times> rsa_mpi_key" where
  "rsa_check_key lib fips_enabled key =
    (if rsa_check_key_length fips_enabled (mpi_get_size lib (the (key_n key)) * 8) \<noteq> None
     then (Some EINVAL, rsa_free_mpi_key key)
     else if fips_enabled \<and> rsa_check_exponent_fips lib (the (key_e key)) \<noteq> None
     then (Some EINVAL, rsa_free_mpi_key key)
     else (None, key))"

definition rsa_set_pub_key ::
    "mpi_lib \<Rightarrow> (nat \<Rightarrow> bytes \<Rightarrow> errno + bytes list) \<Rightarrow> bool \<Rightarrow> bytes \<Rightarrow> rsa_mpi_key \<Rightarrow> errno option \<times> rsa_mpi_key" where
  "rsa_set_pub_key lib ber fips_enabled key mpi_key =
    (let mpi_key = rsa_free_mpi_key mpi_key
     in case rsa_parse_pub_key ber fips_enabled key empty_rsa_key of
          Inl err \<Rightarrow> (Some err, mpi_key)
        | Inr raw \<Rightarrow>
          (case (mpi_read lib (raw_e raw), mpi_read lib (raw_n raw)) of
             (Some e, Some n) \<Rightarrow> rsa_check_key lib fips_enabled (mpi_key\<lparr>key_e := Some e, key_n := Some n\<rparr>)
           | _ \<Rightarrow> (Some ENOMEM, mpi_key)))"

definition rsa_set_priv_key ::
    "mpi_lib \<Rightarrow> (nat \<Rightarrow> bytes \<Rightarrow> errno + bytes list) \<Rightarrow> bool \<Rightarrow> bytes \<Rightarrow> rsa_mpi_key \<Rightarrow> errno option \<times> rsa_mpi_key" where
  "rsa_set_priv_key lib ber fips_enabled key mpi_key =
    (let mpi_key = rsa_free_mpi_key mpi_key
     in case rsa_parse_priv_key ber fips_enabled key empty_rsa_key of
          Inl err \<Rightarrow> (Some err, mpi_key)
        | Inr raw \<Rightarrow>
          (let k = \<lparr>key_n = mpi_read lib (raw_n raw), key_e = mpi_read lib (raw_e raw), key_d = mpi_read lib (raw_d raw),
             key_p = mpi_read lib (raw_p raw), key_q = mpi_read lib (raw_q raw), key_dp = mpi_read lib (raw_dp raw),
             key_dq = mpi_read lib (raw_dq raw), key_qinv = mpi_read lib (raw_qinv raw)\<rparr>
           in if None \<in> {key_n k, key_e k, key_d k, key_p k, key_q k, key_dp k, key_dq k, key_qinv k}
              then (Some ENOMEM, mpi_key)
              else rsa_check_key lib fips_enabled k))"

definition rsa_max_size :: "mpi_lib \<Rightarrow> rsa_mpi_key \<Rightarrow> nat" where
  "rsa_max_size lib key = mpi_get_size lib (the (key_n key))"

section \<open>Operations\<close>

definition rsa_check_payload :: "mpi_lib \<Rightarrow> int \<Rightarrow> int \<Rightarrow> errno option" where
  "rsa_check_payload lib x n =
    (if mpi_cmp_ui lib x 1 \<le> 0 then Some EINVAL
     else if \<not> mpi_alloc lib 1 then Some ENOMEM
     else case mpi_sub_ui lib n 1 of
       Inl err \<Rightarrow> Some EINVAL
     | Inr n1 \<Rightarrow> if mpi_cmp lib x n1 \<ge> 0 then Some EINVAL else None)"

definition rsa_enc_mpi :: "mpi_lib \<Rightarrow> rsa_mpi_key \<Rightarrow> int \<Rightarrow> errno + int" where
  "rsa_enc_mpi lib key m =
    (if rsa_check_payload lib m (the (key_n key)) \<noteq> None then Inl EINVAL
     else mpi_powm lib m (the (key_e key)) (the (key_n key)))"

definition rsa_dec_crt :: "mpi_lib \<Rightarrow> rsa_mpi_key \<Rightarrow> int \<Rightarrow> errno + int" where
  "rsa_dec_crt lib key c =
    (if rsa_check_payload lib c (the (key_n key)) \<noteq> None then Inl EINVAL
     else if \<not> mpi_alloc lib 2 \<or> \<not> mpi_alloc lib 3 then Inl ENOMEM
     else
       bind_err (mpi_powm lib c (the (key_dp key)) (the (key_p key))) (\<lambda>m1.
       bind_err (mpi_powm lib c (the (key_dq key)) (the (key_q key))) (\<lambda>m2.
       bind_err (mpi_sub lib m1 m2) (\<lambda>m12.
       bind_err (mpi_mulm lib m12 (the (key_qinv key)) (the (key_p key))) (\<lambda>h.
       bind_err (mpi_mul lib (the (key_q key)) h) (\<lambda>qh.
       mpi_addm lib m2 qh (the (key_n key))))))))"

text \<open>The requests: bytes in, \<open>dst_len\<close> bytes out.\<close>

definition rsa_enc :: "mpi_lib \<Rightarrow> rsa_mpi_key \<Rightarrow> bytes \<Rightarrow> nat \<Rightarrow> errno + bytes" where
  "rsa_enc lib pkey src dst_len =
    (if \<not> mpi_alloc lib 0 then Inl ENOMEM
     else if key_n pkey = None \<or> key_e pkey = None then Inl EINVAL
     else case mpi_read lib src of
       None \<Rightarrow> Inl ENOMEM
     | Some m \<Rightarrow>
       bind_err (rsa_enc_mpi lib pkey m) (\<lambda>c.
       bind_err (mpi_write lib c dst_len) (\<lambda>(out, sign).
         if sign < 0 then Inl EBADMSG else Inr out)))"

definition rsa_dec :: "mpi_lib \<Rightarrow> rsa_mpi_key \<Rightarrow> bytes \<Rightarrow> nat \<Rightarrow> errno + bytes" where
  "rsa_dec lib pkey src dst_len =
    (if \<not> mpi_alloc lib 0 then Inl ENOMEM
     else if key_n pkey = None \<or> key_d pkey = None then Inl EINVAL
     else case mpi_read lib src of
       None \<Rightarrow> Inl ENOMEM
     | Some c \<Rightarrow>
       bind_err (rsa_dec_crt lib pkey c) (\<lambda>m.
       bind_err (mpi_write lib m dst_len) (\<lambda>(out, sign).
         if sign < 0 then Inl EBADMSG else Inr out)))"

section \<open>The two directions are inverse\<close>

text \<open>A private key as RFC 3447 defines it: two primes, their product, \<open>e\<close> with its inverses, and \<open>qInv\<close>.\<close>

definition inverse_exponents :: "nat \<Rightarrow> nat \<Rightarrow> nat \<Rightarrow> bool" where
  "inverse_exponents p a b \<longleftrightarrow> is_prime p \<and> 0 < a \<and> 0 < b \<and> (a * b) mod (p - 1) = 1 mod (p - 1)"

definition rsa_key_ok :: "nat \<Rightarrow> nat \<Rightarrow> nat \<Rightarrow> nat \<Rightarrow> nat \<Rightarrow> rsa_mpi_key \<Rightarrow> bool" where
  "rsa_key_ok p q e dp dq key \<longleftrightarrow> p \<noteq> q \<and> inverse_exponents p e dp \<and> inverse_exponents q e dq \<and>
    key_n key = Some (int (p * q)) \<and> key_e key = Some (int e) \<and> key_d key \<noteq> None \<and>
    key_p key = Some (int p) \<and> key_q key = Some (int q) \<and> key_dp key = Some (int dp) \<and> key_dq key = Some (int dq) \<and>
    (\<exists>qinv. key_qinv key = Some qinv \<and> (qinv * int q) mod int p = 1)"

lemma inverse_exponents_sym: "inverse_exponents p a b \<Longrightarrow> inverse_exponents p b a"
  by (simp add: inverse_exponents_def mult.commute)

lemma exponents_prime: "inverse_exponents p a b \<Longrightarrow> is_prime p"
  by (simp add: inverse_exponents_def)

lemma inverse_exponents_power:
  assumes "inverse_exponents p a b" "y mod int p = x ^ a mod int p"
  shows "y ^ b mod int p = x mod int p"
proof -
  have "y ^ b mod int p = (x ^ a) ^ b mod int p" using assms(2) by (metis power_mod)
  also have "\<dots> = x ^ (a * b) mod int p" by (simp add: power_mult)
  also have "\<dots> = x mod int p" using assms(1) by (intro power_mod_prime) (simp_all add: inverse_exponents_def)
  finally show ?thesis .
qed

lemma minus_one_power:
  assumes "inverse_exponents p a b"
  shows "(-1 :: int) ^ a mod int p = -1 mod int p"
proof (cases "odd a")
  case False
  have p: "is_prime p" "(a * b) mod (p - 1) = 1 mod (p - 1)" using assms by (simp_all add: inverse_exponents_def)
  have "\<not> even (p - 1)"
  proof
    assume e: "even (p - 1)"
    then have "even ((a * b) mod (p - 1))" using False by (simp add: even_mod_2_iff dvd_mod)
    then have "even (1 mod (p - 1))" using p(2) by simp
    moreover have "1 mod (p - 1) = 1"
    proof -
      have "p - 1 \<noteq> 1" using e by (metis odd_one)
      moreover have "1 < p" using p(1) by (simp add: is_prime_def)
      ultimately have "1 < p - 1" by arith
      then show ?thesis by simp
    qed
    ultimately show False by simp
  qed
  then have "2 dvd p" using p(1) by (cases p) (auto simp: is_prime_def)
  then have "p = 2" using p(1) by (auto simp: is_prime_def)
  with False show ?thesis by simp
qed simp

text \<open>A value strictly inside the range stays strictly inside under either exponent.\<close>

lemma payload_range:
  assumes p: "inverse_exponents p a b" and q: "inverse_exponents q a' b'" and ne: "p \<noteq> q"
    and y: "y mod int p = x ^ a mod int p" "y mod int q = x ^ a' mod int q" "0 \<le> y" "y < int (p * q)"
    and x: "1 < x" "x < int (p * q) - 1"
  shows "1 < y \<and> y < int (p * q) - 1"
proof (rule ccontr)
  assume "\<not> ?thesis"
  then consider "y = 0" | "y = 1" | "y = int (p * q) - 1" using y by linarith
  then have "y ^ b mod int p = y mod int p \<and> y ^ b' mod int q = y mod int q"
  proof cases
    case 3
    have "int (p * q) - 1 = -1 + int p * int q" "int (p * q) - 1 = -1 + int q * int p" by simp_all
    then have m: "y mod int p = -1 mod int p" "y mod int q = -1 mod int q" unfolding 3 by (metis mod_mult_self2)+
    have "y ^ b mod int p = (-1) ^ b mod int p" "y ^ b' mod int q = (-1) ^ b' mod int q" using m by (metis power_mod)+
    then show ?thesis using m minus_one_power inverse_exponents_sym p q by metis
  qed (use p q in \<open>simp_all add: inverse_exponents_def power_0_left\<close>)
  then have "x mod int p = y mod int p" "x mod int q = y mod int q"
    using inverse_exponents_power [OF p y(1)] inverse_exponents_power [OF q y(2)] by simp_all
  then have "x = y"
    using residues_unique [OF exponents_prime [OF p] exponents_prime [OF q] ne _ _ _ _ y(3,4)] x by simp
  with \<open>\<not> ?thesis\<close> x show False by simp
qed

text \<open>Step 2.iii of the decryption.\<close>

lemma garner_step:
  assumes "h mod p = (d * i) mod p" "(i * q) mod p = 1"
  shows "(m2 + q * h) mod p = (m2 + d) mod (p :: int)"
proof -
  have "(q * h) mod p = (q * (d * i)) mod p" by (rule mod_mult_cong [OF refl assms(1)])
  also have "q * (d * i) = d * (i * q)" by simp
  also have "(d * (i * q)) mod p = (d * ((i * q) mod p)) mod p" by (rule mod_mult_right_eq [symmetric])
  also have "\<dots> = d mod p" unfolding assms(2) by simp
  finally show ?thesis by (rule mod_add_cong [OF refl])
qed

context mpi_laws
begin

lemma check_payload: "rsa_check_payload lib x n = (if 1 < x \<and> x < n - 1 then None else Some EINVAL)"
proof -
  have "mpi_cmp_ui lib x 1 \<le> 0 \<longleftrightarrow> x \<le> 1" using cmp_ui [of x 1] by auto
  moreover have "mpi_cmp lib x (n - 1) \<ge> 0 \<longleftrightarrow> n - 1 \<le> x" using cmp [of x "n - 1"] by auto
  ultimately show ?thesis by (auto simp: rsa_check_payload_def alloc sub_ui)
qed

lemma enc_value:
  assumes "rsa_key_ok p q e dp dq key" "1 < m" "m < int (p * q) - 1"
  shows "rsa_enc_mpi lib key m = Inr (m ^ e mod int (p * q))"
proof -
  have "0 < p * q" using assms(2,3) by (cases "p * q") simp_all
  then have "0 < int (p * q)" by (simp only: of_nat_0_less_iff)
  from powm [OF _ this, of "int e" m] assms show ?thesis
    by (simp add: rsa_enc_mpi_def check_payload rsa_key_ok_def)
qed

lemma dec_value:
  assumes "rsa_key_ok p q e dp dq key" "1 < c" "c < int (p * q) - 1"
  shows "\<exists>m. rsa_dec_crt lib key c = Inr m \<and> 0 \<le> m \<and> m < int (p * q) \<and>
    m mod int p = c ^ dp mod int p \<and> m mod int q = c ^ dq mod int q"
proof -
  obtain qinv where k: "key_n key = Some (int (p * q))" "key_p key = Some (int p)" "key_q key = Some (int q)"
      "key_dp key = Some (int dp)" "key_dq key = Some (int dq)" "key_qinv key = Some qinv" "(qinv * int q) mod int p = 1"
    using assms(1) by (auto simp: rsa_key_ok_def)
  have pos: "0 < int p" "0 < int q" "0 < int (p * q)"
    using assms(1) by (simp_all add: rsa_key_ok_def inverse_exponents_def is_prime_def)
  let ?m1 = "c ^ dp mod int p" and ?m2 = "c ^ dq mod int q"
  obtain h where h: "mpi_mulm lib (?m1 - ?m2) qinv (int p) = Inr h" "h mod int p = ((?m1 - ?m2) * qinv) mod int p"
    using mulm [OF pos(1)] by blast
  let ?m = "(?m2 + int q * h) mod int (p * q)"
  have "rsa_dec_crt lib key c = Inr ?m"
    using assms(2,3) powm [OF _ pos(1), of "int dp" c] powm [OF _ pos(2), of "int dq" c] h(1)
    by (simp add: rsa_dec_crt_def check_payload k alloc sub mul addm [OF pos(3), unfolded of_nat_mult])
  moreover have "?m mod int p = ?m1"
  proof -
    have "?m mod int p = (?m2 + int q * h) mod int p" by (simp add: mod_mod_cancel)
    also have "\<dots> = (?m2 + (?m1 - ?m2)) mod int p" by (rule garner_step [OF h(2) k(7)])
    finally show ?thesis by simp
  qed
  moreover have "?m mod int q = ?m2" by (simp add: mod_mod_cancel)
  ultimately show ?thesis using pos(3) by (metis mod_mod_trivial pos_mod_bound pos_mod_sign)
qed

lemma dec_enc:
  assumes k: "rsa_key_ok p q e dp dq key" and m: "1 < m" "m < int (p * q) - 1"
  shows "\<exists>c. rsa_enc_mpi lib key m = Inr c \<and> 0 \<le> c \<and> c < int (p * q) \<and> rsa_dec_crt lib key c = Inr m"
proof -
  let ?c = "m ^ e mod int (p * q)"
  have pq: "inverse_exponents p e dp" "inverse_exponents q e dq" "p \<noteq> q" using k by (simp_all add: rsa_key_ok_def)
  have pos: "0 < int (p * q)" using pq by (simp add: inverse_exponents_def is_prime_def)
  have c: "?c mod int p = m ^ e mod int p" "?c mod int q = m ^ e mod int q" "0 \<le> ?c" "?c < int (p * q)"
    using pos by (simp_all add: mod_mod_cancel)
  obtain m' where m': "rsa_dec_crt lib key ?c = Inr m'" "0 \<le> m'" "m' < int (p * q)"
      "m' mod int p = ?c ^ dp mod int p" "m' mod int q = ?c ^ dq mod int q"
    using dec_value [OF k] payload_range [OF pq c m] by blast
  have "m' mod int p = m mod int p" "m' mod int q = m mod int q"
    using m'(4,5) inverse_exponents_power [OF pq(1) c(1)] inverse_exponents_power [OF pq(2) c(2)] by simp_all
  then have "m' = m"
    using residues_unique [OF exponents_prime [OF pq(1)] exponents_prime [OF pq(2)] pq(3) _ _ m'(2,3)] m by simp
  with m' c enc_value [OF k m] show ?thesis by blast
qed

lemma enc_dec:
  assumes k: "rsa_key_ok p q e dp dq key" and c: "1 < c" "c < int (p * q) - 1"
  shows "\<exists>m. rsa_dec_crt lib key c = Inr m \<and> 0 \<le> m \<and> m < int (p * q) \<and> rsa_enc_mpi lib key m = Inr c"
proof -
  have pq: "inverse_exponents p dp e" "inverse_exponents q dq e" "p \<noteq> q"
    using k inverse_exponents_sym by (auto simp: rsa_key_ok_def)
  obtain m where m: "rsa_dec_crt lib key c = Inr m" "0 \<le> m" "m < int (p * q)"
      "m mod int p = c ^ dp mod int p" "m mod int q = c ^ dq mod int q"
    using dec_value [OF k c] by blast
  have "1 < m \<and> m < int (p * q) - 1" by (rule payload_range [OF pq m(4,5,2,3) c])
  then have e: "rsa_enc_mpi lib key m = Inr (m ^ e mod int (p * q))" using enc_value [OF k] by blast
  have "m ^ e mod int p = c mod int p" "m ^ e mod int q = c mod int q"
    using inverse_exponents_power [OF pq(1) m(4)] inverse_exponents_power [OF pq(2) m(5)] by simp_all
  then have A: "(m ^ e mod int (p * q)) mod int p = c mod int p" and B: "(m ^ e mod int (p * q)) mod int q = c mod int q"
    by (simp_all add: mod_mod_cancel)
  have N: "0 < int (p * q)" and c2: "0 \<le> c" "c < int (p * q)" using c by linarith+
  have "m ^ e mod int (p * q) = c"
    by (rule residues_unique [OF exponents_prime [OF pq(1)] exponents_prime [OF pq(2)] pq(3) A B
      pos_mod_sign [OF N] pos_mod_bound [OF N] c2])
  with m e show ?thesis by auto
qed

end

context mpi_laws
begin

lemma enc_bytes:
  assumes "rsa_key_ok p q e dp dq key" "rsa_enc_mpi lib key (int (be_val src)) = Inr c" "0 \<le> c" "c < 256 ^ k"
  shows "\<exists>out. rsa_enc lib key src k = Inr out \<and> length out = k \<and> int (be_val out) = c"
  using write_ok [OF assms(3,4)] assms(1,2) by (auto simp: rsa_enc_def alloc read_ok rsa_key_ok_def)

lemma dec_bytes:
  assumes "rsa_key_ok p q e dp dq key" "rsa_dec_crt lib key (int (be_val src)) = Inr m" "0 \<le> m" "m < 256 ^ k"
  shows "\<exists>out. rsa_dec lib key src k = Inr out \<and> length out = k \<and> int (be_val out) = m"
  using write_ok [OF assms(3,4)] assms(1,2) by (auto simp: rsa_dec_def alloc read_ok rsa_key_ok_def)

lemma dec_enc_bytes:
  assumes k: "rsa_key_ok p q e dp dq key" and m: "1 < be_val src" "be_val src < p * q - 1" and l: "p * q \<le> 256 ^ l"
  shows "\<exists>ct pt. rsa_enc lib key src l = Inr ct \<and> length ct = l \<and> rsa_dec lib key ct l = Inr pt \<and> length pt = l \<and>
    be_val pt = be_val src"
proof -
  have m': "1 < int (be_val src)" "int (be_val src) < int (p * q) - 1" using m by linarith+
  have l': "int (p * q) \<le> 256 ^ l" using l by (metis of_nat_le_iff of_nat_numeral of_nat_power)
  have b: "be_val src < 256 ^ l" using m l by linarith
  obtain c where c: "rsa_enc_mpi lib key (int (be_val src)) = Inr c" "0 \<le> c" "c < int (p * q)"
      "rsa_dec_crt lib key c = Inr (int (be_val src))"
    using dec_enc [OF k m'] by blast
  obtain ct where ct: "rsa_enc lib key src l = Inr ct" "length ct = l" "int (be_val ct) = c"
    using enc_bytes [OF k c(1,2), of l] c(3) l' by auto
  moreover obtain pt where "rsa_dec lib key ct l = Inr pt" "length pt = l" "int (be_val pt) = int (be_val src)"
    using dec_bytes [OF k, of ct "int (be_val src)" l] c(4) ct(3) b by auto
  ultimately show ?thesis by auto
qed

lemma enc_dec_bytes:
  assumes k: "rsa_key_ok p q e dp dq key" and m: "1 < be_val src" "be_val src < p * q - 1" and l: "p * q \<le> 256 ^ l"
  shows "\<exists>sg pt. rsa_dec lib key src l = Inr sg \<and> length sg = l \<and> rsa_enc lib key sg l = Inr pt \<and> length pt = l \<and>
    be_val pt = be_val src"
proof -
  have m': "1 < int (be_val src)" "int (be_val src) < int (p * q) - 1" using m by linarith+
  have l': "int (p * q) \<le> 256 ^ l" using l by (metis of_nat_le_iff of_nat_numeral of_nat_power)
  have b: "be_val src < 256 ^ l" using m l by linarith
  obtain c where c: "rsa_dec_crt lib key (int (be_val src)) = Inr c" "0 \<le> c" "c < int (p * q)"
      "rsa_enc_mpi lib key c = Inr (int (be_val src))"
    using enc_dec [OF k m'] by blast
  obtain ct where ct: "rsa_dec lib key src l = Inr ct" "length ct = l" "int (be_val ct) = c"
    using dec_bytes [OF k c(1,2), of l] c(3) l' by auto
  moreover obtain pt where "rsa_enc lib key ct l = Inr pt" "length pt = l" "int (be_val pt) = int (be_val src)"
    using enc_bytes [OF k, of ct "int (be_val src)" l] c(4) ct(3) b by auto
  ultimately show ?thesis by auto
qed

lemma out_of_range:
  assumes "rsa_key_ok p q e dp dq key" "\<not> (1 < be_val src \<and> be_val src < p * q - 1)"
  shows "rsa_enc lib key src l = Inl EINVAL \<and> rsa_dec lib key src l = Inl EINVAL"
proof -
  have "0 < p * q" using assms(1) by (simp add: rsa_key_ok_def inverse_exponents_def is_prime_def)
  then have "\<not> (1 < int (be_val src) \<and> int (be_val src) < int (p * q) - 1)" using assms(2) by linarith
  with assms(1) show ?thesis
    by (auto simp: rsa_enc_def rsa_dec_def rsa_enc_mpi_def rsa_dec_crt_def check_payload rsa_key_ok_def alloc read_ok)
qed

end

text \<open>C30: with a key of two distinct primes and matching exponents, RSA decryption by the Chinese
  remainder theorem inverts encryption and encryption inverts decryption, on every byte string whose
  number lies strictly between 1 and \<open>n - 1\<close>; any other number is refused by both with \<open>EINVAL\<close>.\<close>

theorem rsa_roundtrip:
  assumes "mpi_laws lib" "rsa_key_ok p q e dp dq key" "p * q \<le> 256 ^ l"
  shows "if 1 < be_val src \<and> be_val src < p * q - 1 then
      (\<exists>ct pt. rsa_enc lib key src l = Inr ct \<and> length ct = l \<and> rsa_dec lib key ct l = Inr pt \<and> length pt = l \<and>
         be_val pt = be_val src) \<and>
      (\<exists>sg pt. rsa_dec lib key src l = Inr sg \<and> length sg = l \<and> rsa_enc lib key sg l = Inr pt \<and> length pt = l \<and>
         be_val pt = be_val src)
    else rsa_enc lib key src l = Inl EINVAL \<and> rsa_dec lib key src l = Inl EINVAL"
  using mpi_laws.dec_enc_bytes [OF assms(1,2) _ _ assms(3)] mpi_laws.enc_dec_bytes [OF assms(1,2) _ _ assms(3)]
    mpi_laws.out_of_range [OF assms(1,2)]
  by (cases "1 < be_val src \<and> be_val src < p * q - 1") simp_all

definition rsa_example :: rsa_mpi_key where
  "rsa_example = \<lparr>key_n = Some 187, key_e = Some 3, key_d = Some 107, key_p = Some 11, key_q = Some 17,
    key_dp = Some 7, key_dq = Some 11, key_qinv = Some 2\<rparr>"

lemma is_prime_trial: "is_prime p \<longleftrightarrow> 1 < p \<and> (\<forall>d \<in> set [2..<p]. \<not> d dvd p)"
proof
  assume p: "is_prime p"
  then have "1 < p" by (simp add: is_prime_def)
  moreover have "\<not> d dvd p" if "d \<in> set [2..<p]" for d using p that by (auto simp: is_prime_def)
  ultimately show "1 < p \<and> (\<forall>d \<in> set [2..<p]. \<not> d dvd p)" by blast
next
  assume r: "1 < p \<and> (\<forall>d \<in> set [2..<p]. \<not> d dvd p)"
  have "d = 1 \<or> d = p" if d: "d dvd p" for d
  proof -
    have "d \<le> p" "0 < d" using d r by (auto dest: dvd_imp_le intro: Nat.gr0I)
    then show ?thesis using d r by (cases "d = 1 \<or> d = p") auto
  qed
  with r show "is_prime p" by (simp add: is_prime_def)
qed

lemma primes_example: "is_prime 11" "is_prime 17"
  by (simp_all add: is_prime_trial upt_conv_Cons)

lemma rsa_example_ok: "rsa_key_ok 11 17 3 7 11 rsa_example"
  by (simp add: rsa_key_ok_def inverse_exponents_def primes_example rsa_example_def)

theorem rsa_roundtrip_witness:
  "\<exists>ct pt. rsa_enc int_mpi rsa_example [0, 42] 2 = Inr ct \<and> rsa_dec int_mpi rsa_example ct 2 = Inr pt \<and> be_val pt = 42"
proof -
  have "be_val [0, 42] = 42" by (simp add: be_val_def)
  then show ?thesis
    using rsa_roundtrip [OF int_mpi.mpi_laws_axioms rsa_example_ok, of 2 "[0, 42]"] by auto
qed

end
