(* ===== verification/Proth.thy ===== *)
theory Proth
  imports Mpi
begin

text \<open>
  Proth's criterion, by which the primes of concrete keys are certified: the examples of the public-key
  theories need primes too large for trial division.
\<close>

lemma least_divisor_prime:
  assumes "1 < n" "\<not> is_prime n"
  shows "\<exists>r. is_prime r \<and> r dvd n \<and> r * r \<le> n"
proof -
  define r where "r = (LEAST d. 1 < d \<and> d dvd n)"
  have r: "1 < r \<and> r dvd n" unfolding r_def by (rule LeastI [of _ n]) (use assms in simp)
  have le: "r \<le> d" if "1 < d" "d dvd n" for d unfolding r_def by (rule Least_le) (use that in simp)
  have pr: "is_prime r"
    unfolding is_prime_def
  proof (intro conjI allI impI)
    fix d assume d: "d dvd r"
    have "0 < d" using d r by (auto intro: Nat.gr0I)
    moreover have "r \<le> d" if "1 < d" using le [OF that] d r dvd_trans by blast
    moreover have "d \<le> r" using d r by (auto dest: dvd_imp_le)
    ultimately show "d = 1 \<or> d = r" by linarith
  qed (use r in simp)
  obtain c where c: "n = r * c" using r by (elim conjE dvdE)
  have "c \<noteq> 1" using c pr assms(2) by auto
  moreover have "0 < c" using c assms(1) by (auto intro: Nat.gr0I)
  ultimately have "r \<le> c" using le [of c] c by simp
  then have "r * r \<le> n" unfolding c by (rule mult_le_mono2)
  with pr r show ?thesis by blast
qed

lemma fermat_little:
  assumes "is_prime r" "\<not> r dvd b"
  shows "b ^ (r - 1) mod r = 1"
proof -
  have r: "1 < r" using assms(1) by (simp add: is_prime_def)
  have "b ^ r = b * b ^ (r - 1)" using r by (cases r) simp_all
  moreover have "0 < b" using assms(2) by (auto intro: Nat.gr0I)
  then have "1 \<le> b ^ (r - 1)" by simp
  moreover have "b ^ r mod r = b mod r" by (rule fermat_nat [OF assms(1)])
  moreover have "b \<le> b ^ r" using r by (intro self_le_power) (use \<open>0 < b\<close> in simp_all)
  ultimately have "r dvd b * (b ^ (r - 1) - 1)"
    using mod_eq_dvd_iff_nat [of b "b ^ r" r] by (simp add: diff_mult_distrib2)
  then have "r dvd b ^ (r - 1) - 1" using prime_dvd_mult [OF assms(1)] assms(2) by blast
  then have "b ^ (r - 1) mod r = 1 mod r" using mod_eq_dvd_iff_nat [of 1 "b ^ (r - 1)" r] \<open>1 \<le> b ^ (r - 1)\<close> by simp
  with r show ?thesis by simp
qed

lemma square_root_order:
  assumes r: "2 < (r :: nat)" and m1: "int x mod int r = -1 mod int r" and odd: "odd m"
  shows "x ^ m mod r \<noteq> 1"
proof
  assume "x ^ m mod r = 1"
  then have "int x ^ m mod int r = 1" by (metis of_nat_1 of_nat_power zmod_int)
  moreover have "int x ^ m mod int r = (-1) ^ m mod int r" using m1 by (metis power_mod)
  ultimately have "-1 mod int r = 1" using odd by simp
  moreover have "-1 mod int r = int r - 1" using r by (simp add: zmod_minus1)
  ultimately show False using r by simp
qed

lemma order_divides:
  assumes pr: "is_prime r" and r: "2 < r" and m1: "int (b ^ 2 ^ (n - 1)) mod int r = -1 mod int r"
  shows "j \<le> n \<Longrightarrow> 2 ^ j dvd r - 1"
proof (induction j)
  case (Suc j)
  then obtain m where m: "r - 1 = 2 ^ j * m" by (metis Suc_leD dvdE)
  have nd: "\<not> r dvd b"
  proof
    assume "r dvd b"
    then have "r dvd b ^ 2 ^ (n - 1)" by (rule dvd_trans) (simp add: dvd_power)
    then have "int r dvd int (b ^ 2 ^ (n - 1))" by (simp only: int_dvd_int_iff)
    then have "-1 mod int r = 0" using m1 by simp
    then show False using r by (simp add: zmod_minus1)
  qed
  have "even m"
  proof (rule ccontr)
    assume o: "odd m"
    have e: "2 ^ (n - 1) * m = (r - 1) * 2 ^ (n - 1 - j)"
    proof -
      have "(2 :: nat) ^ (n - 1) = 2 ^ j * 2 ^ (n - 1 - j)" using Suc.prems by (simp flip: power_add)
      then show ?thesis using m by simp
    qed
    have "(b ^ 2 ^ (n - 1)) ^ m mod r = (b ^ (r - 1)) ^ 2 ^ (n - 1 - j) mod r"
      by (simp only: power_mult [symmetric] e)
    also have "\<dots> = (b ^ (r - 1) mod r) ^ 2 ^ (n - 1 - j) mod r" by (simp only: power_mod)
    also have "\<dots> = 1" using fermat_little [OF pr nd] r by simp
    finally show False using square_root_order [OF r m1 o] by simp
  qed
  then show ?case using m by auto
qed simp

theorem proth:
  assumes N: "N = h * 2 ^ n + 1" and h: "0 < h" "h < 2 ^ n" and a: "a ^ (h * 2 ^ (n - 1)) mod N = N - 1"
  shows "is_prime N"
proof (rule ccontr)
  assume np: "\<not> is_prime N"
  have n: "0 < n" using h by (cases n) auto
  have "1 < N" using N h by simp
  with np obtain r where r: "is_prime r" "r dvd N" "r * r \<le> N" using least_divisor_prime by blast
  have "odd N" using N n by simp
  then have "r \<noteq> 2" using r(2) by auto
  then have r2: "2 < r" using r(1) by (simp add: is_prime_def)
  define x where "x = (a ^ h) ^ 2 ^ (n - 1)"
  have "x mod N = N - 1" using a by (simp add: x_def power_mult)
  then have "int x mod int N = int N - 1" using \<open>1 < N\<close> by (metis of_nat_1 of_nat_diff less_imp_le zmod_int)
  then have "(int x + 1) mod int N = 0" by (metis add.commute diff_add_cancel mod_add_right_eq mod_self)
  then have "int r dvd int x + 1" using r(2) by (meson dvd_trans int_dvd_int_iff mod_0_imp_dvd)
  then have "int x mod int r = -1 mod int r" by (simp add: mod_eq_dvd_iff)
  then have "2 ^ n dvd r - 1" using order_divides [OF r(1) r2, of "a ^ h" n n] by (simp add: x_def)
  then have g: "2 ^ n + 1 \<le> r" using r2 by (auto dest: dvd_imp_le)
  have "h * 2 ^ n < 2 ^ n * (2 ^ n :: nat)" using h(2) by simp
  also have "2 ^ n * 2 ^ n + 1 \<le> (2 ^ n + 1) * (2 ^ n + 1 :: nat)" by (simp add: algebra_simps)
  also have "\<dots> \<le> r * r" using g by (intro mult_le_mono)
  finally show False using r(3) N by simp
qed

text \<open>The power by repeated squaring, to be evaluated.\<close>

fun square_mod :: "nat \<Rightarrow> nat \<Rightarrow> nat \<Rightarrow> nat" where
  "square_mod N 0 x = x"
| "square_mod N (Suc n) x = square_mod N n (x * x mod N)"

lemma square_mod_numeral [simp]: "square_mod N (numeral k) x = square_mod N (pred_numeral k) (x * x mod N)"
  by (simp add: numeral_eq_Suc)

lemma square_mod: "square_mod N n x mod N = x ^ 2 ^ n mod N"
proof (induction n arbitrary: x)
  case (Suc n)
  have "(x * x mod N) ^ 2 ^ n mod N = (x * x) ^ 2 ^ n mod N" by (rule power_mod)
  also have "(x * x) ^ 2 ^ n = x ^ 2 ^ Suc n" by (simp add: power_mult power2_eq_square)
  finally show ?case using Suc.IH by simp
qed simp

lemma proth_square:
  assumes "N = h * 2 ^ n + 1" "0 < h" "h < 2 ^ n" "square_mod N (n - 1) (a ^ h mod N) = N - 1"
  shows "is_prime N"
proof (rule proth [OF assms(1-3)])
  have "a ^ (h * 2 ^ (n - 1)) mod N = (a ^ h mod N) ^ 2 ^ (n - 1) mod N" by (simp add: power_mult power_mod)
  also have "\<dots> = (N - 1) mod N" by (metis assms(4) square_mod)
  finally show "a ^ (h * 2 ^ (n - 1)) mod N = N - 1" using assms(1) by simp
qed

lemma proth_prime_19: "is_prime 1337006139375617"
  by (rule proth_square [of _ 19 46 3]) simp_all

lemma proth_prime_27: "is_prime 1899956092796929"
  by (rule proth_square [of _ 27 46 7]) simp_all

end
