(* ===== verification/Pkcs1pad.thy ===== *)
theory Pkcs1pad
  imports Rsa Proth
begin

text \<open>
  The padding template of PKCS #1 version 1.5 over RSA (\<open>rsa-pkcs1pad.c\<close>). The child's \<open>enc\<close> and \<open>dec\<close> take
  the input and the length of the output buffer and answer at once; the calls that complete later run the
  same completion. Allocations are arguments, and \<open>rnd\<close> gives the random padding bytes.
\<close>

section \<open>The DigestInfo templates\<close>

definition rsa_digest_info_md5 :: bytes where
  "rsa_digest_info_md5 = [0x30, 0x20, 0x30, 0x0c, 0x06, 0x08] @ [0x2a, 0x86, 0x48, 0x86, 0xf7, 0x0d, 0x02, 0x05] @ [0x05, 0x00, 0x04, 0x10]"

definition rsa_digest_info_sha1 :: bytes where
  "rsa_digest_info_sha1 = [0x30, 0x21, 0x30, 0x09, 0x06, 0x05] @ [0x2b, 0x0e, 0x03, 0x02, 0x1a] @ [0x05, 0x00, 0x04, 0x14]"

definition rsa_digest_info_rmd160 :: bytes where
  "rsa_digest_info_rmd160 = [0x30, 0x21, 0x30, 0x09, 0x06, 0x05] @ [0x2b, 0x24, 0x03, 0x02, 0x01] @ [0x05, 0x00, 0x04, 0x14]"

definition rsa_digest_info_sha224 :: bytes where
  "rsa_digest_info_sha224 = [0x30, 0x2d, 0x30, 0x0d, 0x06, 0x09] @ [0x60, 0x86, 0x48, 0x01, 0x65, 0x03, 0x04, 0x02, 0x04] @ [0x05, 0x00, 0x04, 0x1c]"

definition rsa_digest_info_sha256 :: bytes where
  "rsa_digest_info_sha256 = [0x30, 0x31, 0x30, 0x0d, 0x06, 0x09] @ [0x60, 0x86, 0x48, 0x01, 0x65, 0x03, 0x04, 0x02, 0x01] @ [0x05, 0x00, 0x04, 0x20]"

definition rsa_digest_info_sha384 :: bytes where
  "rsa_digest_info_sha384 = [0x30, 0x41, 0x30, 0x0d, 0x06, 0x09] @ [0x60, 0x86, 0x48, 0x01, 0x65, 0x03, 0x04, 0x02, 0x02] @ [0x05, 0x00, 0x04, 0x30]"

definition rsa_digest_info_sha512 :: bytes where
  "rsa_digest_info_sha512 = [0x30, 0x51, 0x30, 0x0d, 0x06, 0x09] @ [0x60, 0x86, 0x48, 0x01, 0x65, 0x03, 0x04, 0x02, 0x03] @ [0x05, 0x00, 0x04, 0x40]"

definition rsa_digest_info_sha3_256 :: bytes where
  "rsa_digest_info_sha3_256 = [0x30, 0x31, 0x30, 0x0d, 0x06, 0x09] @ [0x60, 0x86, 0x48, 0x01, 0x65, 0x03, 0x04, 0x02, 0x08] @ [0x05, 0x00, 0x04, 0x20]"

definition rsa_digest_info_sha3_384 :: bytes where
  "rsa_digest_info_sha3_384 = [0x30, 0x41, 0x30, 0x0d, 0x06, 0x09] @ [0x60, 0x86, 0x48, 0x01, 0x65, 0x03, 0x04, 0x02, 0x09] @ [0x05, 0x00, 0x04, 0x30]"

definition rsa_digest_info_sha3_512 :: bytes where
  "rsa_digest_info_sha3_512 = [0x30, 0x51, 0x30, 0x0d, 0x06, 0x09] @ [0x60, 0x86, 0x48, 0x01, 0x65, 0x03, 0x04, 0x02, 0x0a] @ [0x05, 0x00, 0x04, 0x40]"

definition rsa_asn1_templates :: "(string \<times> bytes) list" where
  "rsa_asn1_templates = [
    (''md5'', rsa_digest_info_md5),
    (''sha1'', rsa_digest_info_sha1),
    (''rmd160'', rsa_digest_info_rmd160),
    (''sha256'', rsa_digest_info_sha256),
    (''sha384'', rsa_digest_info_sha384),
    (''sha512'', rsa_digest_info_sha512),
    (''sha224'', rsa_digest_info_sha224),
    (''sha3-256'', rsa_digest_info_sha3_256),
    (''sha3-384'', rsa_digest_info_sha3_384),
    (''sha3-512'', rsa_digest_info_sha3_512)]"

definition rsa_lookup_asn1 :: "string \<Rightarrow> bytes option" where
  "rsa_lookup_asn1 name = map_of rsa_asn1_templates name"

section \<open>The template\<close>

type_synonym rsa_op = "bytes \<Rightarrow> nat \<Rightarrow> errno + bytes"

text \<open>
  A key is set on the child first, which then tells the size of its modulus; the result is the key size kept.
\<close>

definition pkcs1pad_set_key :: "errno option \<Rightarrow> nat \<Rightarrow> errno option \<times> nat" where
  "pkcs1pad_set_key child_err maxsize =
    (if child_err \<noteq> None then (child_err, 0)
     else if maxsize > 4096 then (Some ENOTSUPP, 0)
     else (None, maxsize))"

text \<open>
  The completion of encryption and signing pads the child's output on the left. \<open>pad_len\<close> is unsigned: for an
  output longer than the key the copy goes to an address outside the buffer, which is \<open>None\<close>.
\<close>

definition pkcs1pad_encrypt_sign_complete :: "nat \<Rightarrow> bool \<Rightarrow> errno + bytes \<Rightarrow> (errno + bytes) option" where
  "pkcs1pad_encrypt_sign_complete key_size alloc child =
    (case child of
       Inl err \<Rightarrow> Some (Inl err)
     | Inr out \<Rightarrow>
       (let len = length out; pad_len = (of_nat key_size - of_nat len :: u32)
        in if pad_len = 0 then Some (Inr out)
           else if \<not> alloc then Some (Inl ENOMEM)
           else if unat pad_len + len > key_size then None
           else Some (Inr (replicate (unat pad_len) 0 @ out))))"

definition pkcs1pad_encrypt ::
    "rsa_op \<Rightarrow> nat \<Rightarrow> (nat \<Rightarrow> u8) \<Rightarrow> (nat \<Rightarrow> bool) \<Rightarrow> bytes \<Rightarrow> nat \<Rightarrow> (errno + bytes) option" where
  "pkcs1pad_encrypt enc key_size rnd alloc src dst_len =
    (if key_size = 0 then Some (Inl EINVAL)
     else if length src > unat (of_nat key_size - 11 :: u32) then Some (Inl EOVERFLOW)
     else if dst_len < key_size then Some (Inl EOVERFLOW)
     else if \<not> alloc 0 then Some (Inl ENOMEM)
     else if length src + 2 > key_size then None
     else
       let ps_end = key_size - length src - 2;
           in_buf = (if ps_end = 0 then [0x00] else [0x02] @ map rnd [1..<ps_end] @ [0x00])
       in pkcs1pad_encrypt_sign_complete key_size (alloc 1) (enc (in_buf @ src) dst_len))"

text \<open>
  A key of less than 11 bytes makes the room for the message wrap; what then leaves the buffer is \<open>None\<close>, as is
  a source so long that the sum of the sizes wraps. When the output is too small the code also reports the size
  needed, which is left out.
\<close>

text \<open>What decryption and verification do first: the output without its leading zero byte.\<close>

definition pkcs1pad_strip :: "nat \<Rightarrow> bytes \<Rightarrow> bytes option" where
  "pkcs1pad_strip key_size out_buf =
    (if length out_buf < key_size - 1 then None
     else if length out_buf = key_size then (if hd out_buf \<noteq> 0 then None else Some (tl out_buf))
     else Some out_buf)"

text \<open>The loop over the padding: the first position from 1 on whose byte is not (or is) the given one.\<close>

definition scan_from_1 :: "(u8 \<Rightarrow> bool) \<Rightarrow> bytes \<Rightarrow> nat" where
  "scan_from_1 continue buf = (if buf = [] then 1 else 1 + length (takeWhile continue (tl buf)))"

definition pkcs1pad_decrypt_complete :: "nat \<Rightarrow> nat \<Rightarrow> errno + bytes \<Rightarrow> errno + bytes" where
  "pkcs1pad_decrypt_complete key_size req_dst_len child =
    (case child of
       Inl err \<Rightarrow> Inl err
     | Inr out \<Rightarrow>
       (case pkcs1pad_strip key_size out of
          None \<Rightarrow> Inl EINVAL
        | Some out_buf \<Rightarrow>
          if hd out_buf \<noteq> 0x02 then Inl EINVAL
          else
            let pos = scan_from_1 (\<lambda>b. b \<noteq> 0) out_buf
            in if pos < 9 \<or> pos = length out_buf then Inl EINVAL
               else if req_dst_len < length out_buf - (pos + 1) then Inl EOVERFLOW
               else Inr (drop (pos + 1) out_buf)))"

definition pkcs1pad_decrypt :: "rsa_op \<Rightarrow> nat \<Rightarrow> bool \<Rightarrow> bytes \<Rightarrow> nat \<Rightarrow> errno + bytes" where
  "pkcs1pad_decrypt dec key_size alloc src dst_len =
    (if key_size = 0 \<or> length src \<noteq> key_size then Inl EINVAL
     else if \<not> alloc then Inl ENOMEM
     else pkcs1pad_decrypt_complete key_size dst_len (dec src key_size))"

text \<open>A missing template is the empty list of bytes: it has size 0 and is copied and compared as such.\<close>

definition pkcs1pad_sign ::
    "rsa_op \<Rightarrow> nat \<Rightarrow> bytes \<Rightarrow> (nat \<Rightarrow> bool) \<Rightarrow> bytes \<Rightarrow> nat \<Rightarrow> (errno + bytes) option" where
  "pkcs1pad_sign dec key_size digest_info alloc src dst_len =
    (if key_size = 0 then Some (Inl EINVAL)
     else if (of_nat (length src) + of_nat (length digest_info) :: u32) > of_nat key_size - 11 then Some (Inl EOVERFLOW)
     else if dst_len < key_size then Some (Inl EOVERFLOW)
     else if \<not> alloc 0 then Some (Inl ENOMEM)
     else if length digest_info + length src + 3 > key_size then None
     else
       let ps_end = key_size - length digest_info - length src - 2;
           in_buf = [0x01] @ replicate (ps_end - 1) 0xff @ [0x00] @ digest_info
       in pkcs1pad_encrypt_sign_complete key_size (alloc 1) (dec (in_buf @ src) dst_len))"

definition pkcs1pad_verify_complete :: "nat \<Rightarrow> bytes \<Rightarrow> bytes \<Rightarrow> errno + bytes \<Rightarrow> errno option" where
  "pkcs1pad_verify_complete key_size digest_info digest child =
    (case child of
       Inl err \<Rightarrow> Some err
     | Inr out \<Rightarrow>
       (case pkcs1pad_strip key_size out of
          None \<Rightarrow> Some EINVAL
        | Some out_buf \<Rightarrow>
          if hd out_buf \<noteq> 0x01 then Some EBADMSG
          else
            let pos = scan_from_1 (\<lambda>b. b = 0xff) out_buf
            in if pos < 9 \<or> pos = length out_buf \<or> out_buf ! pos \<noteq> 0x00 then Some EBADMSG
               else
                 let pos = pos + 1
                 in if length digest_info > length out_buf - pos then Some EBADMSG
                    else if take (length digest_info) (drop pos out_buf) \<noteq> digest_info then Some EBADMSG
                    else
                      let pos = pos + length digest_info
                      in if length digest \<noteq> length out_buf - pos then Some EKEYREJECTED
                         else if digest \<noteq> take (length digest) (drop pos out_buf) then Some EKEYREJECTED
                         else None))"

text \<open>The source of a verification is the signature followed by the digest.\<close>

definition pkcs1pad_verify :: "rsa_op \<Rightarrow> nat \<Rightarrow> bytes \<Rightarrow> bool \<Rightarrow> bytes \<Rightarrow> bytes \<Rightarrow> errno option" where
  "pkcs1pad_verify enc key_size digest_info alloc sig digest =
    (if digest = [] \<or> key_size = 0 \<or> length sig \<noteq> key_size then Some EINVAL
     else if \<not> alloc then Some ENOMEM
     else pkcs1pad_verify_complete key_size digest_info digest (enc sig key_size))"

section \<open>The encoding\<close>

text \<open>EMSA-PKCS1-v1_5 of RFC 8017: the block a signature of \<open>digest\<close> encodes, \<open>k\<close> bytes long.\<close>

definition emsa_pkcs1 :: "nat \<Rightarrow> bytes \<Rightarrow> bytes \<Rightarrow> bytes" where
  "emsa_pkcs1 k digest_info digest =
    [0x00, 0x01] @ replicate (k - 3 - length digest_info - length digest) 0xff @ [0x00] @ digest_info @ digest"

lemma scan_padding:
  "\<forall>b \<in> set ps. continue b \<Longrightarrow> \<not> continue b0 \<Longrightarrow> scan_from_1 continue (b1 # ps @ b0 # rest) = 1 + length ps"
  by (simp add: scan_from_1_def takeWhile_append1 takeWhile_append2)

lemma scan_split:
  assumes "buf \<noteq> []" "scan_from_1 continue buf \<noteq> length buf"
  shows "\<exists>ps b0 rest. buf = hd buf # ps @ b0 # rest \<and> (\<forall>b \<in> set ps. continue b) \<and> \<not> continue b0 \<and>
    scan_from_1 continue buf = 1 + length ps"
proof -
  obtain b1 t where b: "buf = b1 # t" using assms(1) by (cases buf) auto
  have "length (takeWhile continue t) \<noteq> length t" using assms(2) by (simp add: b scan_from_1_def)
  then have d: "dropWhile continue t \<noteq> []" by (metis append_Nil2 takeWhile_dropWhile_id)
  then obtain b0 rest where r: "dropWhile continue t = b0 # rest" by (cases "dropWhile continue t") auto
  have "t = takeWhile continue t @ b0 # rest" by (metis r takeWhile_dropWhile_id)
  moreover have "\<not> continue b0" using hd_dropWhile [OF d] r by simp
  moreover have "\<forall>b \<in> set (takeWhile continue t). continue b" by (auto dest: set_takeWhileD)
  moreover have "scan_from_1 continue buf = 1 + length (takeWhile continue t)" by (simp add: b scan_from_1_def)
  ultimately show ?thesis unfolding b by (metis list.sel(1))
qed

lemma strip_full: "length out = k \<Longrightarrow> 0 < k \<Longrightarrow> pkcs1pad_strip k out = (if hd out = 0 then Some (tl out) else None)"
  by (auto simp: pkcs1pad_strip_def)

lemma replicate_eq: "(\<forall>b \<in> set ps. b = c) \<Longrightarrow> ps = replicate (length ps) c"
  by (induction ps) auto

lemma u32_room: "11 \<le> k \<Longrightarrow> k < 2 ^ 32 \<Longrightarrow> unat (of_nat k - 11 :: u32) = k - 11"
proof -
  assume k: "11 \<le> k" "k < 2 ^ 32"
  have "(of_nat k - 11 :: u32) = of_nat (k - 11)" using k(1) by (simp add: of_nat_diff)
  moreover have "unat (of_nat (k - 11) :: u32) = k - 11" using k by (simp only: unsigned_of_nat) (simp add: take_bit_nat_eq_self_iff)
  ultimately show ?thesis by metis
qed

lemma decrypt_complete_pad:
  assumes "\<forall>b \<in> set ps. b \<noteq> 0" "8 \<le> length ps" "length ps + length m + 3 = k" "length m \<le> dst_len"
  shows "pkcs1pad_decrypt_complete k dst_len (Inr (0 # 0x02 # ps @ 0x00 # m)) = Inr m"
proof -
  have "scan_from_1 (\<lambda>b. b \<noteq> 0) (0x02 # ps @ 0x00 # m) = 1 + length ps"
    by (rule scan_padding) (use assms(1) in auto)
  then show ?thesis using assms by (simp add: pkcs1pad_decrypt_complete_def strip_full Let_def)
qed

lemma verify_complete_iff:
  assumes out: "length out = k" and k: "0 < k"
  shows "pkcs1pad_verify_complete k di dg (Inr out) = None \<longleftrightarrow>
    length di + length dg + 11 \<le> k \<and> out = emsa_pkcs1 k di dg"
proof
  assume v: "length di + length dg + 11 \<le> k \<and> out = emsa_pkcs1 k di dg"
  define n where "n = k - 3 - length di - length dg"
  have n: "8 \<le> n" "k = n + length di + length dg + 3" using v unfolding n_def by linarith+
  have s: "scan_from_1 (\<lambda>b. b = 0xff) (0x01 # replicate n 0xff @ 0x00 # di @ dg) = 1 + length (replicate n (0xff :: u8))"
    by (rule scan_padding) auto
  have o: "out = 0 # 0x01 # replicate n 0xff @ 0x00 # di @ dg" using v by (simp add: emsa_pkcs1_def n_def)
  show "pkcs1pad_verify_complete k di dg (Inr out) = None"
    using n s by (simp add: pkcs1pad_verify_complete_def strip_full o Let_def nth_append)
next
  assume v: "pkcs1pad_verify_complete k di dg (Inr out) = None"
  define buf where "buf = tl out"
  define pos where "pos = scan_from_1 (\<lambda>b. b = 0xff) buf"
  have h: "hd out = 0" using v out k by (auto simp: pkcs1pad_verify_complete_def strip_full split: if_splits)
  have ob: "out = 0 # buf" using h out k by (cases out) (auto simp: buf_def)
  have c: "hd buf = 0x01" "8 < pos" "pos \<noteq> length buf" "buf ! pos = 0x00"
      "length di \<le> length buf - (pos + 1)" "take (length di) (drop (pos + 1) buf) = di"
      "length dg = length buf - (pos + 1 + length di)" "dg = take (length dg) (drop (pos + 1 + length di) buf)"
    using v out k h
    by (auto simp: pkcs1pad_verify_complete_def strip_full Let_def buf_def [symmetric] pos_def [symmetric] split: if_splits)
  have "buf \<noteq> []" using c(2) by (auto simp: pos_def scan_from_1_def split: if_splits)
  then obtain ps b0 rest where ps: "buf = hd buf # ps @ b0 # rest" "\<forall>b \<in> set ps. b = 0xff" "pos = 1 + length ps"
    using scan_split [of buf "\<lambda>b. b = 0xff"] c(3) unfolding pos_def by blast
  have b0: "b0 = 0" using c(4) ps(1,3) by (metis nth_Cons_Suc nth_append_length plus_1_eq_Suc)
  have d: "drop (pos + 1) buf = rest" using ps(3) by (subst ps(1)) simp
  have di: "take (length di) rest = di" using c(6) d by simp
  have lr: "length rest = length di + length dg" using c(5,7) d by (metis add_diff_cancel_left' diff_diff_left le_add_diff_inverse length_drop)
  have "drop (pos + 1 + length di) buf = drop (length di) rest" by (metis add.commute d drop_drop)
  then have "dg = drop (length di) rest" using c(8) lr by simp
  then have r: "rest = di @ dg" using di by (metis append_take_drop_id)
  have bf: "buf = 0x01 # replicate (length ps) 0xff @ 0x00 # di @ dg"
    using ps(1) c(1) b0 r replicate_eq [OF ps(2)] by metis
  have lk: "k = length ps + length di + length dg + 3" using out ob bf by simp
  have "8 \<le> length ps" using c(2) ps(3) by simp
  moreover have "out = emsa_pkcs1 k di dg" using ob bf lk by (simp add: emsa_pkcs1_def)
  ultimately show "length di + length dg + 11 \<le> k \<and> out = emsa_pkcs1 k di dg" using lk by simp
qed

section \<open>Over an RSA primitive\<close>

text \<open>
  What the template relies on: blocks of \<open>k - 1\<close> bytes that start with 1 or 2 survive the two operations,
  which fill the output buffer they are given.
\<close>

locale rsa_primitive =
  fixes enc dec :: rsa_op and k :: nat
  assumes key_size: "11 \<le> k" "k < 2 ^ 32"
    and dec_enc: "length src = k - 1 \<Longrightarrow> hd src \<in> {1, 2} \<Longrightarrow>
      \<exists>ct. enc src k = Inr ct \<and> length ct = k \<and> dec ct k = Inr (0 # src)"
    and enc_dec: "length src = k - 1 \<Longrightarrow> hd src \<in> {1, 2} \<Longrightarrow>
      \<exists>sg. dec src k = Inr sg \<and> length sg = k \<and> enc sg k = Inr (0 # src)"
    and enc_long: "length src = k - 1 \<Longrightarrow> hd src \<in> {1, 2} \<Longrightarrow> k \<le> l \<Longrightarrow> \<exists>ct. enc src l = Inr ct \<and> length ct = l"
    and enc_length: "enc src l = Inr out \<Longrightarrow> length out = l"
begin

lemma encrypt_block:
  assumes m: "length m + 11 \<le> k" and l: "k \<le> l" and a: "\<forall>i. alloc i"
  shows "pkcs1pad_encrypt enc k rnd alloc m l =
    pkcs1pad_encrypt_sign_complete k True (enc (0x02 # map rnd [1..<k - length m - 2] @ 0x00 # m) l)"
  using m l a u32_room [OF key_size] by (auto simp: pkcs1pad_encrypt_def Let_def)

lemma encrypt_then_decrypt:
  assumes m: "length m + 11 \<le> k" "length m \<le> dst_len" and a: "\<forall>i. alloc i" and r: "\<forall>i. rnd i \<noteq> 0"
  shows "\<exists>ct. pkcs1pad_encrypt enc k rnd alloc m k = Some (Inr ct) \<and> length ct = k \<and>
    pkcs1pad_decrypt dec k True ct dst_len = Inr m"
proof -
  define ps where "ps = map rnd [1..<k - length m - 2]"
  have lp: "length ps + length m + 3 = k" "8 \<le> length ps" using m(1) by (simp_all add: ps_def)
  obtain ct where ct: "enc (0x02 # ps @ 0x00 # m) k = Inr ct" "length ct = k" "dec ct k = Inr (0 # 0x02 # ps @ 0x00 # m)"
    using dec_enc [of "0x02 # ps @ 0x00 # m"] lp by auto
  have "\<forall>b \<in> set ps. b \<noteq> 0" using r by (auto simp: ps_def)
  then have "pkcs1pad_decrypt dec k True ct dst_len = Inr m"
    using decrypt_complete_pad [OF _ lp(2,1) m(2)] ct(2,3) key_size by (simp add: pkcs1pad_decrypt_def)
  moreover have "pkcs1pad_encrypt enc k rnd alloc m k = Some (Inr ct)"
    using encrypt_block [OF m(1) le_refl a] ct(1,2) by (simp add: ps_def pkcs1pad_encrypt_sign_complete_def Let_def)
  ultimately show ?thesis using ct(2) by blast
qed

lemma sign_then_verify:
  assumes m: "length di + length dg + 11 \<le> k" "dg \<noteq> []" and a: "\<forall>i. alloc i"
  shows "\<exists>sg. pkcs1pad_sign dec k di alloc dg k = Some (Inr sg) \<and> length sg = k \<and>
    pkcs1pad_verify enc k di True sg dg = None"
proof -
  define em where "em = 0x01 # replicate (k - 3 - length di - length dg) 0xff @ 0x00 # di @ dg"
  have le: "length em = k - 1" using m(1) by (simp add: em_def)
  have emsa: "emsa_pkcs1 k di dg = 0 # em" by (simp add: emsa_pkcs1_def em_def)
  obtain sg where sg: "dec em k = Inr sg" "length sg = k" "enc sg k = Inr (0 # em)"
    using enc_dec [OF le] by (auto simp: em_def)
  have sum: "\<not> (of_nat (length dg) + of_nat (length di) :: u32) > of_nat k - 11"
  proof -
    have "length dg + length di < 2 ^ 32" using m(1) key_size by linarith
    then have "unat (of_nat (length dg + length di) :: u32) = length dg + length di"
      by (simp only: unsigned_of_nat) (simp add: take_bit_nat_eq_self_iff)
    then show ?thesis unfolding word_less_nat_alt u32_room [OF key_size] using m(1) by simp
  qed
  have ps: "k - length di - length dg - 2 - 1 = k - 3 - length di - length dg" by linarith
  have "pkcs1pad_sign dec k di alloc dg k = pkcs1pad_encrypt_sign_complete k True (dec em k)"
    using m a sum key_size ps by (simp add: pkcs1pad_sign_def Let_def em_def)
  then have "pkcs1pad_sign dec k di alloc dg k = Some (Inr sg)"
    by (simp add: sg(1,2) pkcs1pad_encrypt_sign_complete_def Let_def)
  moreover have "pkcs1pad_verify_complete k di dg (Inr (0 # em)) = None"
    using verify_complete_iff [of "0 # em" k di dg] le key_size m(1) emsa by simp
  then have "pkcs1pad_verify enc k di True sg dg = None"
    using m(2) key_size sg(2,3) by (simp add: pkcs1pad_verify_def)
  ultimately show ?thesis using sg(2) by blast
qed

lemma verify_iff:
  "pkcs1pad_verify enc k di alloc sg dg = None \<longleftrightarrow>
    alloc \<and> length sg = k \<and> dg \<noteq> [] \<and> length di + length dg + 11 \<le> k \<and> enc sg k = Inr (emsa_pkcs1 k di dg)"
proof (cases "enc sg k")
  case (Inl err)
  then show ?thesis by (simp add: pkcs1pad_verify_def pkcs1pad_verify_complete_def)
next
  case (Inr out)
  have "length out = k" using enc_length [OF Inr] .
  from verify_complete_iff [OF this, of di dg] show ?thesis
    using key_size Inr by (auto simp: pkcs1pad_verify_def)
qed

lemma long_destination:
  assumes m: "length m + 11 \<le> k" and l: "k < l" "l < 2 ^ 32" and a: "\<forall>i. alloc i"
  shows "pkcs1pad_encrypt enc k rnd alloc m l = None"
proof -
  define ps where "ps = map rnd [1..<k - length m - 2]"
  have "length (0x02 # ps @ 0x00 # m) = k - 1" using m by (simp add: ps_def)
  then obtain ct where ct: "enc (0x02 # ps @ 0x00 # m) l = Inr ct" "length ct = l"
    using enc_long [of "0x02 # ps @ 0x00 # m" l] l by auto
  have "(of_nat k - of_nat l :: u32) \<noteq> 0"
  proof
    assume "(of_nat k - of_nat l :: u32) = 0"
    then have "unat (of_nat k :: u32) = unat (of_nat l :: u32)" by simp
    then show False using l by (simp only: unsigned_of_nat) (simp add: take_bit_nat_eq_self)
  qed
  then show ?thesis using encrypt_block [OF m _ a, of l rnd] l ct unfolding ps_def [symmetric]
    by (simp add: pkcs1pad_encrypt_sign_complete_def Let_def)
qed

end

section \<open>The primitive of rsa.c\<close>

lemma block_value:
  assumes "length src = k - 1" "hd src \<in> {1, 2 :: u8}" "11 \<le> k"
  shows "1 < be_val src \<and> be_val src < 256 ^ (k - 1) - 1"
proof -
  obtain b t where s: "src = b # t" "length t = k - 2" using assms(1,3) by (cases src) auto
  have v: "be_val src = unat b * 256 ^ (k - 2) + be_val t" using be_val_append [of "[b]" t] s by simp
  have t: "be_val t < 256 ^ (k - 2)" using be_val_less [of t] s(2) by simp
  have b: "1 \<le> unat b" "unat b \<le> 2" using assms(2) s(1) by auto
  have "k - 1 = Suc (k - 2)" using assms(3) by simp
  then have p: "(256 :: nat) ^ (k - 1) = 256 * 256 ^ (k - 2)" by simp
  have "(2 :: nat) \<le> 256 ^ (k - 2)" using assms(3) by (cases "k - 2") auto
  moreover have "1 * 256 ^ (k - 2) \<le> unat b * 256 ^ (k - 2)" "unat b * 256 ^ (k - 2) \<le> 2 * 256 ^ (k - 2)"
    using b by (intro mult_le_mono1; simp)+
  ultimately show ?thesis unfolding v p using t by linarith
qed

lemma same_value_longer:
  assumes "length out = Suc (length src)" "be_val out = be_val src"
  shows "out = 0 # src"
  using assms be_val_append [of "[0]" src] by (intro be_val_inj) simp_all

context mpi_laws
begin

lemma rsa_is_primitive:
  assumes key: "rsa_key_ok p q e dp dq key" and k: "11 \<le> k" "k < 2 ^ 32"
    and n: "256 ^ (k - 1) \<le> p * q" "p * q \<le> 256 ^ k"
  shows "rsa_primitive (rsa_enc lib key) (rsa_dec lib key) k"
proof
  fix src :: bytes and l
  assume src: "length src = k - 1" "hd src \<in> {1, 2}"
  have v: "1 < be_val src" "be_val src < p * q - 1" using block_value [OF src k(1)] n(1) by linarith+
  have z: "pt = 0 # src" if "length pt = k" "be_val pt = be_val src" for pt
    using that src(1) k(1) by (intro same_value_longer) simp_all
  show "\<exists>ct. rsa_enc lib key src k = Inr ct \<and> length ct = k \<and> rsa_dec lib key ct k = Inr (0 # src)"
    using dec_enc_bytes [OF key v n(2)] z by blast
  show "\<exists>sg. rsa_dec lib key src k = Inr sg \<and> length sg = k \<and> rsa_enc lib key sg k = Inr (0 # src)"
    using enc_dec_bytes [OF key v n(2)] z by blast
  assume "k \<le> l"
  then have "(256 :: nat) ^ k \<le> 256 ^ l" by (intro power_increasing) simp_all
  then have "p * q \<le> 256 ^ l" using n(2) by linarith
  then show "\<exists>ct. rsa_enc lib key src l = Inr ct \<and> length ct = l" using dec_enc_bytes [OF key v] by blast
next
  fix src out :: bytes and l
  assume "rsa_enc lib key src l = Inr out"
  then show "length out = l"
    by (auto simp: rsa_enc_def bind_err_eq_Inr write_length split: if_splits option.splits)
qed (use k in simp_all)

end

section \<open>Properties\<close>

text \<open>C31: over the RSA of \<open>rsa.c\<close>, with a modulus of \<open>k\<close> bytes, a message that leaves room for 11 bytes of
  padding is encrypted to \<open>k\<close> bytes that decrypt to it, whatever the non-zero padding bytes; and a signature made
  over a digest with its \<open>DigestInfo\<close> is accepted for that digest.\<close>

theorem pkcs1pad_roundtrip:
  assumes "mpi_laws lib" "rsa_key_ok p q e dp dq key" "256 ^ (k - 1) \<le> p * q" "p * q \<le> 256 ^ k"
    and "11 \<le> k" "k < 2 ^ 32" "length m + 11 \<le> k" "length m \<le> dst_len" "\<forall>i. alloc i" "\<forall>i. rnd i \<noteq> 0"
    and "length di + length dg + 11 \<le> k" "dg \<noteq> []"
  shows "(\<exists>ct. pkcs1pad_encrypt (rsa_enc lib key) k rnd alloc m k = Some (Inr ct) \<and> length ct = k \<and>
      pkcs1pad_decrypt (rsa_dec lib key) k True ct dst_len = Inr m) \<and>
    (\<exists>sg. pkcs1pad_sign (rsa_dec lib key) k di alloc dg k = Some (Inr sg) \<and> length sg = k \<and>
      pkcs1pad_verify (rsa_enc lib key) k di True sg dg = None)"
proof -
  have r: "rsa_primitive (rsa_enc lib key) (rsa_dec lib key) k"
    by (rule mpi_laws.rsa_is_primitive [OF assms(1,2,5,6,3,4)])
  show ?thesis
    using rsa_primitive.encrypt_then_decrypt [OF r assms(7-10)] rsa_primitive.sign_then_verify [OF r assms(11,12,9)]
    by blast
qed

text \<open>C32: a signature is accepted exactly when its public operation yields the one encoding of the digest, eight
  bytes of padding at least and no byte after the digest.\<close>

theorem pkcs1pad_verify_exact:
  assumes "mpi_laws lib" "rsa_key_ok p q e dp dq key" "256 ^ (k - 1) \<le> p * q" "p * q \<le> 256 ^ k" "11 \<le> k" "k < 2 ^ 32"
  shows "pkcs1pad_verify (rsa_enc lib key) k di alloc sg dg = None \<longleftrightarrow>
    alloc \<and> length sg = k \<and> dg \<noteq> [] \<and> length di + length dg + 11 \<le> k \<and>
    rsa_enc lib key sg k = Inr (emsa_pkcs1 k di dg)"
  by (rule rsa_primitive.verify_iff [OF mpi_laws.rsa_is_primitive [OF assms(1,2,5,6,3,4)]])

text \<open>C33: an output buffer longer than the modulus makes the length of the padding wrap, and the output is
  copied to an address outside the buffer that was allocated for it.\<close>

theorem pkcs1pad_long_destination:
  assumes "mpi_laws lib" "rsa_key_ok p q e dp dq key" "256 ^ (k - 1) \<le> p * q" "p * q \<le> 256 ^ k"
    and "11 \<le> k" "k < 2 ^ 32" "length m + 11 \<le> k" "k < l" "l < 2 ^ 32" "\<forall>i. alloc i"
  shows "pkcs1pad_encrypt (rsa_enc lib key) k rnd alloc m l = None"
  by (rule rsa_primitive.long_destination [OF mpi_laws.rsa_is_primitive [OF assms(1,2,5,6,3,4)] assms(7-10)])

text \<open>A key with a modulus of 13 bytes.\<close>

definition rsa_104 :: rsa_mpi_key where
  "rsa_104 = \<lparr>key_n = Some (int (1337006139375617 * 1899956092796929)), key_e = Some (int 65537),
    key_d = Some 1079482505349478447685889359873, key_p = Some (int 1337006139375617), key_q = Some (int 1899956092796929),
    key_dp = Some (int 844429225033729), key_dq = Some (int 914797969211393), key_qinv = Some 501377302265854\<rparr>"

lemma rsa_104_ok: "rsa_key_ok 1337006139375617 1899956092796929 65537 844429225033729 914797969211393 rsa_104"
  by (simp add: rsa_key_ok_def inverse_exponents_def rsa_104_def proth_prime_19 proth_prime_27)

lemma rsa_104_size: "256 ^ (13 - 1) \<le> 1337006139375617 * (1899956092796929 :: nat)" "1337006139375617 * (1899956092796929 :: nat) \<le> 256 ^ 13"
  by simp_all

interpretation rsa_104: rsa_primitive "rsa_enc int_mpi rsa_104" "rsa_dec int_mpi rsa_104" 13
  by (rule int_mpi.rsa_is_primitive [OF rsa_104_ok _ _ rsa_104_size]) simp_all

theorem pkcs1pad_roundtrip_witness:
  "(\<exists>ct. pkcs1pad_encrypt (rsa_enc int_mpi rsa_104) 13 (\<lambda>i. 1) (\<lambda>i. True) [7, 0] 13 = Some (Inr ct) \<and>
      pkcs1pad_decrypt (rsa_dec int_mpi rsa_104) 13 True ct 2 = Inr [7, 0]) \<and>
   (\<exists>sg. pkcs1pad_sign (rsa_dec int_mpi rsa_104) 13 [9] (\<lambda>i. True) [8] 13 = Some (Inr sg) \<and>
      pkcs1pad_verify (rsa_enc int_mpi rsa_104) 13 [9] True sg [8] = None)"
proof -
  have r: "\<forall>i::nat. (1 :: u8) \<noteq> 0" by simp
  show ?thesis
    using pkcs1pad_roundtrip [OF int_mpi.mpi_laws_axioms rsa_104_ok rsa_104_size, of "[7, 0]" 2 "\<lambda>i. True" "\<lambda>i. 1" "[9]" "[8]"] r
    by auto
qed

theorem pkcs1pad_verify_exact_witness:
  "pkcs1pad_verify (rsa_enc int_mpi rsa_104) 13 [] True [0] [1, 2, 3] \<noteq> None"
  using pkcs1pad_verify_exact [OF int_mpi.mpi_laws_axioms rsa_104_ok rsa_104_size, of "[]" True "[0]" "[1, 2, 3]"] by simp

theorem pkcs1pad_long_destination_witness:
  "pkcs1pad_encrypt (rsa_enc int_mpi rsa_104) 13 (\<lambda>i. 1) (\<lambda>i. True) [7, 0] 14 = None"
  using pkcs1pad_long_destination [OF int_mpi.mpi_laws_axioms rsa_104_ok rsa_104_size, of "[7, 0]" 14 "\<lambda>i. True"] by simp

end
