(* ===== verification/KppSecret.thy ===== *)
theory KppSecret
  imports Prelude
begin

text \<open>
  The packed form of Diffie-Hellman secrets (\<open>dh_helper.c\<close>, \<open>ecdh_helper.c\<close>). A pointer is the list of the bytes
  from it to the end of its object; a read beyond that end is \<open>None\<close>. The header \<open>struct kpp_secret\<close> and the two
  type codes come from kernel headers: they are the record \<open>kpp_abi\<close> with the laws of the locale \<open>kpp_layout\<close>.
  Integers are four bytes, shorts two, in the order of a little-endian machine.
\<close>

record kpp_abi =
  put_secret :: "u16 \<Rightarrow> u16 \<Rightarrow> bytes"
  get_secret :: "bytes \<Rightarrow> u16 \<times> u16"
  secret_size :: nat
  type_dh :: u16
  type_ecdh :: u16

definition mem_read :: "bytes \<Rightarrow> nat \<Rightarrow> bytes option" where
  "mem_read ptr n = (if n \<le> length ptr then Some (take n ptr) else None)"

lemma mem_read_append [simp]: "length xs = n \<Longrightarrow> mem_read (xs @ ys) n = Some xs"
  by (simp add: mem_read_def)

lemma mem_read_self [simp]: "length xs = n \<Longrightarrow> mem_read xs n = Some xs"
  by (simp add: mem_read_def)

lemma unat_short: "unat (w :: u32) < 2 ^ 16 \<Longrightarrow> unat (ucast w :: u16) = unat w"
  by (simp add: unsigned_ucast_eq unsigned_take_bit_eq take_bit_nat_eq_self)

lemma unat_unshort: "unat (ucast (w :: u16) :: u32) = unat w"
proof -
  have "unat w < 2 ^ LENGTH(16)" by (rule unsigned_less)
  then show ?thesis by (simp add: unsigned_ucast_eq unsigned_take_bit_eq take_bit_nat_eq_self)
qed

lemma short_roundtrip: "unat (w :: u32) < 2 ^ 16 \<Longrightarrow> ucast (ucast w :: u16) = w"
  by (rule word_unat_eq_iff [THEN iffD2]) (simp add: unat_short unat_unshort)

section \<open>Diffie-Hellman\<close>

record dh =
  dh_key :: bytes
  dh_p :: bytes
  dh_g :: bytes
  dh_key_size :: u32
  dh_p_size :: u32
  dh_g_size :: u32

definition DH_KPP_SECRET_MIN_SIZE :: "kpp_abi \<Rightarrow> nat" where
  "DH_KPP_SECRET_MIN_SIZE abi = secret_size abi + 3 * 4"

definition dh_data_size :: "dh \<Rightarrow> u32" where
  "dh_data_size p = dh_key_size p + dh_p_size p + dh_g_size p"

definition crypto_dh_key_len :: "kpp_abi \<Rightarrow> dh \<Rightarrow> u32" where
  "crypto_dh_key_len abi p = of_nat (DH_KPP_SECRET_MIN_SIZE abi) + dh_data_size p"

text \<open>The destination is what has been written so far, or \<open>None\<close> for the null pointer.\<close>

definition dh_pack_data :: "nat \<Rightarrow> bytes option \<Rightarrow> bytes \<Rightarrow> nat \<Rightarrow> bytes option option" where
  "dh_pack_data len dst src sz =
    (case dst of
       None \<Rightarrow> Some None
     | Some out \<Rightarrow>
       if sz > len - length out then Some None
       else map_option (\<lambda>d. Some (out @ d)) (mem_read src sz))"

fun dh_pack_fields :: "nat \<Rightarrow> bytes option \<Rightarrow> (bytes \<times> nat) list \<Rightarrow> bytes option option" where
  "dh_pack_fields len dst [] = Some dst"
| "dh_pack_fields len dst ((src, sz) # rest) =
    (case dh_pack_data len dst src sz of None \<Rightarrow> None | Some d \<Rightarrow> dh_pack_fields len d rest)"

definition crypto_dh_encode_key :: "kpp_abi \<Rightarrow> bool \<Rightarrow> u32 \<Rightarrow> dh \<Rightarrow> (errno + bytes) option" where
  "crypto_dh_encode_key abi buf_null len params =
    (if len = 0 then Some (Inl EINVAL)
     else map_option (\<lambda>dst. case dst of Some out \<Rightarrow> if length out = unat len then Inr out else Inl EINVAL | None \<Rightarrow> Inl EINVAL)
       (dh_pack_fields (unat len) (if buf_null then None else Some [])
         [(put_secret abi (type_dh abi) (ucast len), secret_size abi),
          (put_le32 (dh_key_size params), 4), (put_le32 (dh_p_size params), 4), (put_le32 (dh_g_size params), 4),
          (dh_key params, unat (dh_key_size params)), (dh_p params, unat (dh_p_size params)),
          (dh_g params, unat (dh_g_size params))]))"

text \<open>\<open>__crypto_dh_decode_key\<close>: the pointers set go into the buffer.\<close>

definition dh_decode_key_raw :: "kpp_abi \<Rightarrow> bytes option \<Rightarrow> errno + dh" where
  "dh_decode_key_raw abi buf =
    (case buf of
       None \<Rightarrow> Inl EINVAL
     | Some b \<Rightarrow>
       if length b < DH_KPP_SECRET_MIN_SIZE abi then Inl EINVAL
       else
         let (stype, slen) = get_secret abi b; ptr = drop (secret_size abi) b
         in if stype \<noteq> type_dh abi then Inl EINVAL
            else
              let ks = get_le32 ptr; ps = get_le32 (drop 4 ptr); gs = get_le32 (drop 8 ptr); ptr = drop 12 ptr;
                  params = \<lparr>dh_key = ptr, dh_p = drop (unat ks) ptr, dh_g = drop (unat ks + unat ps) ptr,
                    dh_key_size = ks, dh_p_size = ps, dh_g_size = gs\<rparr>
              in if ucast slen \<noteq> crypto_dh_key_len abi params then Inl EINVAL else Inr params)"

definition crypto_dh_decode_key :: "kpp_abi \<Rightarrow> bytes option \<Rightarrow> (errno + dh) option" where
  "crypto_dh_decode_key abi buf =
    (case dh_decode_key_raw abi buf of
       Inl err \<Rightarrow> Some (Inl err)
     | Inr params \<Rightarrow>
       if dh_key_size params > dh_p_size params \<or> dh_g_size params > dh_p_size params then Some (Inl EINVAL)
       else map_option (\<lambda>p. if \<forall>b \<in> set p. b = 0 then Inl EINVAL else Inr params)
         (mem_read (dh_p params) (unat (dh_p_size params))))"

section \<open>Elliptic curves\<close>

record ecdh =
  ecdh_key :: bytes
  ecdh_key_size :: u16

definition ECDH_KPP_SECRET_MIN_SIZE :: "kpp_abi \<Rightarrow> nat" where
  "ECDH_KPP_SECRET_MIN_SIZE abi = secret_size abi + 2"

definition crypto_ecdh_key_len :: "kpp_abi \<Rightarrow> ecdh \<Rightarrow> u32" where
  "crypto_ecdh_key_len abi params = of_nat (ECDH_KPP_SECRET_MIN_SIZE abi) + ucast (ecdh_key_size params)"

definition crypto_ecdh_encode_key :: "kpp_abi \<Rightarrow> bool \<Rightarrow> u32 \<Rightarrow> ecdh \<Rightarrow> (errno + bytes) option" where
  "crypto_ecdh_encode_key abi buf_null len params =
    (if buf_null \<or> len \<noteq> crypto_ecdh_key_len abi params then Some (Inl EINVAL)
     else map_option (\<lambda>key. Inr (put_secret abi (type_ecdh abi) (ucast len) @ put_le16 (ecdh_key_size params) @ key))
       (mem_read (ecdh_key params) (unat (ecdh_key_size params))))"

definition crypto_ecdh_decode_key :: "kpp_abi \<Rightarrow> bytes option \<Rightarrow> errno + ecdh" where
  "crypto_ecdh_decode_key abi buf =
    (case buf of
       None \<Rightarrow> Inl EINVAL
     | Some b \<Rightarrow>
       if length b < ECDH_KPP_SECRET_MIN_SIZE abi then Inl EINVAL
       else
         let (stype, slen) = get_secret abi b; ptr = drop (secret_size abi) b
         in if stype \<noteq> type_ecdh abi then Inl EINVAL
            else if length b < unat slen then Inl EINVAL
            else
              let params = \<lparr>ecdh_key = drop 2 ptr, ecdh_key_size = get_le16 ptr\<rparr>
              in if ucast slen \<noteq> crypto_ecdh_key_len abi params then Inl EINVAL else Inr params)"

section \<open>The laws of the header\<close>

text \<open>Parameters whose sizes are those of their fields and fit the header's 16-bit length.\<close>

definition dh_wf :: "kpp_abi \<Rightarrow> dh \<Rightarrow> bool" where
  "dh_wf abi p \<longleftrightarrow> length (dh_key p) = unat (dh_key_size p) \<and> length (dh_p p) = unat (dh_p_size p) \<and>
    length (dh_g p) = unat (dh_g_size p) \<and>
    secret_size abi + 12 + unat (dh_key_size p) + unat (dh_p_size p) + unat (dh_g_size p) < 2 ^ 16"

locale kpp_layout =
  fixes abi :: kpp_abi
  assumes put_size: "length (put_secret abi t l) = secret_size abi"
    and get_put: "get_secret abi (put_secret abi t l @ rest) = (t, l)"
    and small: "secret_size abi < 2 ^ 8"
begin

lemma dh_key_len:
  assumes "secret_size abi + 12 + unat (dh_key_size p) + unat (dh_p_size p) + unat (dh_g_size p) < 2 ^ 16"
  shows "unat (crypto_dh_key_len abi p) =
    secret_size abi + 12 + unat (dh_key_size p) + unat (dh_p_size p) + unat (dh_g_size p)"
proof -
  have "crypto_dh_key_len abi p =
      of_nat (secret_size abi + 12 + unat (dh_key_size p) + unat (dh_p_size p) + unat (dh_g_size p))"
    by (simp add: crypto_dh_key_len_def DH_KPP_SECRET_MIN_SIZE_def dh_data_size_def)
  then show ?thesis using assms by (simp only: unsigned_of_nat) (simp add: take_bit_nat_eq_self)
qed


lemma pack_field:
  "length d = sz \<Longrightarrow> length out + sz \<le> len \<Longrightarrow> mem_read src sz = Some d \<Longrightarrow>
   dh_pack_fields len (Some out) ((src, sz) # rest) = dh_pack_fields len (Some (out @ d)) rest"
  by (auto simp: dh_pack_data_def)

lemma dh_encode:
  assumes wf: "dh_wf abi p"
  shows "crypto_dh_encode_key abi False (crypto_dh_key_len abi p) p =
    Some (Inr (put_secret abi (type_dh abi) (ucast (crypto_dh_key_len abi p)) @ put_le32 (dh_key_size p) @
      put_le32 (dh_p_size p) @ put_le32 (dh_g_size p) @ dh_key p @ dh_p p @ dh_g p))"
proof -
  let ?len = "secret_size abi + 12 + unat (dh_key_size p) + unat (dh_p_size p) + unat (dh_g_size p)"
  have l: "unat (crypto_dh_key_len abi p) = ?len" using wf by (intro dh_key_len) (simp add: dh_wf_def)
  then have nz: "crypto_dh_key_len abi p \<noteq> 0" by (metis add_gr_0 less_numeral_extra(3) unsigned_0 zero_less_numeral)
  have s: "length (dh_key p) = unat (dh_key_size p)" "length (dh_p p) = unat (dh_p_size p)"
      "length (dh_g p) = unat (dh_g_size p)" using wf by (simp_all add: dh_wf_def)
  show ?thesis
    unfolding crypto_dh_encode_key_def l
    by (simp add: nz pack_field [OF put_size] pack_field [OF s(1)] pack_field [OF s(2)] pack_field [OF s(3)]
      pack_field [OF length_put(2)] put_size s del: dh_pack_fields.simps(2))
qed

lemma dh_decode_encode:
  assumes wf: "dh_wf abi p"
    and buf: "crypto_dh_encode_key abi False (crypto_dh_key_len abi p) p = Some (Inr buf)"
  shows "length buf = unat (crypto_dh_key_len abi p) \<and>
    dh_decode_key_raw abi (Some buf) = Inr (p\<lparr>dh_key := dh_key p @ dh_p p @ dh_g p, dh_p := dh_p p @ dh_g p\<rparr>)"
proof -
  have l: "unat (crypto_dh_key_len abi p) =
      secret_size abi + 12 + unat (dh_key_size p) + unat (dh_p_size p) + unat (dh_g_size p)"
    using wf by (intro dh_key_len) (simp add: dh_wf_def)
  have c: "ucast (ucast (crypto_dh_key_len abi p) :: u16) = crypto_dh_key_len abi p"
    using wf l by (intro short_roundtrip) (simp add: dh_wf_def)
  define rest where "rest = put_le32 (dh_key_size p) @ put_le32 (dh_p_size p) @ put_le32 (dh_g_size p) @
    dh_key p @ dh_p p @ dh_g p"
  have b: "buf = put_secret abi (type_dh abi) (ucast (crypto_dh_key_len abi p)) @ rest"
    using buf unfolding dh_encode [OF wf] by (simp add: rest_def)
  have k: "crypto_dh_key_len abi (p\<lparr>dh_key := a, dh_p := b\<rparr>) = crypto_dh_key_len abi p" for a b
    by (simp add: crypto_dh_key_len_def dh_data_size_def)
  have f: "get_le32 rest = dh_key_size p" "get_le32 (drop 4 rest) = dh_p_size p" "get_le32 (drop 8 rest) = dh_g_size p"
      "drop 12 rest = dh_key p @ dh_p p @ dh_g p"
    by (simp_all add: rest_def)
  have r: "\<lparr>dh_key = dh_key p @ dh_p p @ dh_g p, dh_p = dh_p p @ dh_g p, dh_g = dh_g p, dh_key_size = dh_key_size p,
      dh_p_size = dh_p_size p, dh_g_size = dh_g_size p\<rparr> = p\<lparr>dh_key := dh_key p @ dh_p p @ dh_g p, dh_p := dh_p p @ dh_g p\<rparr>"
    by (cases p) simp
  have lb: "length buf = unat (crypto_dh_key_len abi p)"
    using wf by (simp add: b l put_size rest_def dh_wf_def)
  then have "DH_KPP_SECRET_MIN_SIZE abi \<le> length buf" by (simp add: l DH_KPP_SECRET_MIN_SIZE_def)
  moreover have "get_secret abi buf = (type_dh abi, ucast (crypto_dh_key_len abi p))" "drop (secret_size abi) buf = rest"
    by (simp_all add: b get_put put_size)
  ultimately have "dh_decode_key_raw abi (Some buf) = Inr (p\<lparr>dh_key := dh_key p @ dh_p p @ dh_g p, dh_p := dh_p p @ dh_g p\<rparr>)"
    using wf by (simp add: dh_decode_key_raw_def Let_def f dh_wf_def r k c)
  with lb show ?thesis by simp
qed

lemma dh_decode_checks:
  assumes wf: "dh_wf abi p"
    and buf: "crypto_dh_encode_key abi False (crypto_dh_key_len abi p) p = Some (Inr buf)"
  shows "crypto_dh_decode_key abi (Some buf) = Some
    (if dh_key_size p \<le> dh_p_size p \<and> dh_g_size p \<le> dh_p_size p \<and> (\<exists>b \<in> set (dh_p p). b \<noteq> 0)
     then Inr (p\<lparr>dh_key := dh_key p @ dh_p p @ dh_g p, dh_p := dh_p p @ dh_g p\<rparr>) else Inl EINVAL)"
  using dh_decode_encode [OF wf buf] wf by (auto simp: crypto_dh_decode_key_def dh_wf_def not_le [symmetric])

lemma ecdh_key_len: "unat (crypto_ecdh_key_len abi p) = secret_size abi + 2 + unat (ecdh_key_size p)"
proof -
  have "unat (ecdh_key_size p) < 2 ^ 16" using unsigned_less [of "ecdh_key_size p"] by simp
  moreover have "crypto_ecdh_key_len abi p = of_nat (secret_size abi + 2 + unat (ecdh_key_size p))"
    by (simp add: crypto_ecdh_key_len_def ECDH_KPP_SECRET_MIN_SIZE_def)
  ultimately show ?thesis using small by (simp only: unsigned_of_nat) (simp add: take_bit_nat_eq_self)
qed

text \<open>A key accepted by the decoder lies inside the buffer.\<close>

lemma ecdh_decode_in_bounds:
  assumes "crypto_ecdh_decode_key abi (Some b) = Inr p"
  shows "mem_read (ecdh_key p) (unat (ecdh_key_size p)) \<noteq> None"
proof -
  obtain t l where g: "get_secret abi b = (t, l)" by (cases "get_secret abi b")
  have d: "p = \<lparr>ecdh_key = drop 2 (drop (secret_size abi) b), ecdh_key_size = get_le16 (drop (secret_size abi) b)\<rparr>"
      "unat l \<le> length b" "ucast l = crypto_ecdh_key_len abi p"
    using assms by (auto simp: crypto_ecdh_decode_key_def g Let_def split: if_splits)
  then have "unat l = secret_size abi + 2 + unat (ecdh_key_size p)" using ecdh_key_len [of p] unat_unshort [of l] by simp
  then show ?thesis using d(1,2) by (simp add: mem_read_def)
qed

lemma ecdh_decode_encode:
  assumes k: "length (ecdh_key p) = unat (ecdh_key_size p)" "secret_size abi + 2 + unat (ecdh_key_size p) < 2 ^ 16"
  shows "\<exists>buf. crypto_ecdh_encode_key abi False (crypto_ecdh_key_len abi p) p = Some (Inr buf) \<and>
    length buf = unat (crypto_ecdh_key_len abi p) \<and> crypto_ecdh_decode_key abi (Some buf) = Inr p"
proof -
  define buf where "buf = put_secret abi (type_ecdh abi) (ucast (crypto_ecdh_key_len abi p)) @
    put_le16 (ecdh_key_size p) @ ecdh_key p"
  have u: "unat (ucast (crypto_ecdh_key_len abi p) :: u16) = unat (crypto_ecdh_key_len abi p)"
    using k(2) by (intro unat_short) (simp add: ecdh_key_len)
  have c: "ucast (ucast (crypto_ecdh_key_len abi p) :: u16) = crypto_ecdh_key_len abi p"
    using k(2) by (intro short_roundtrip) (simp add: ecdh_key_len)
  have lb: "length buf = unat (crypto_ecdh_key_len abi p)" by (simp add: buf_def put_size ecdh_key_len k(1))
  have f: "get_secret abi buf = (type_ecdh abi, ucast (crypto_ecdh_key_len abi p))"
      "drop (secret_size abi) buf = put_le16 (ecdh_key_size p) @ ecdh_key p"
    by (simp_all add: buf_def get_put put_size)
  have r: "\<lparr>ecdh_key = ecdh_key p, ecdh_key_size = ecdh_key_size p\<rparr> = p" by (cases p) simp
  have "crypto_ecdh_decode_key abi (Some buf) = Inr p"
    using lb by (simp add: crypto_ecdh_decode_key_def r f Let_def u c ECDH_KPP_SECRET_MIN_SIZE_def ecdh_key_len)
  moreover have "crypto_ecdh_encode_key abi False (crypto_ecdh_key_len abi p) p = Some (Inr buf)"
    by (simp add: crypto_ecdh_encode_key_def buf_def k(1))
  ultimately show ?thesis using lb by blast
qed

end

text \<open>The header of the kernel's own interface: two shorts. It shows that the laws can hold.\<close>

definition kpp_example_abi :: kpp_abi where
  "kpp_example_abi = \<lparr>put_secret = (\<lambda>t l. put_le16 t @ put_le16 l), get_secret = (\<lambda>b. (get_le16 b, get_le16 (drop 2 b))),
    secret_size = 4, type_dh = 1, type_ecdh = 2\<rparr>"

interpretation kpp_example: kpp_layout kpp_example_abi
  by unfold_locales (simp_all add: kpp_example_abi_def)

section \<open>Properties\<close>

text \<open>Packing the parameters of a Diffie-Hellman secret and unpacking them gives their sizes and pointers to
  their bytes back, and the decoder of the driver accepts them unless key or generator are longer than the
  prime or the prime is zero; the elliptic-curve key survives its codec too.\<close>

theorem kpp_secret_roundtrip:
  assumes "kpp_layout abi" "dh_wf abi p" "length (ecdh_key e) = unat (ecdh_key_size e)"
    "secret_size abi + 2 + unat (ecdh_key_size e) < 2 ^ 16"
  shows "(\<exists>buf q. crypto_dh_encode_key abi False (crypto_dh_key_len abi p) p = Some (Inr buf) \<and>
      mem_read (dh_key q) (unat (dh_key_size q)) = Some (dh_key p) \<and>
      mem_read (dh_p q) (unat (dh_p_size q)) = Some (dh_p p) \<and>
      mem_read (dh_g q) (unat (dh_g_size q)) = Some (dh_g p) \<and>
      crypto_dh_decode_key abi (Some buf) = Some
        (if dh_key_size p \<le> dh_p_size p \<and> dh_g_size p \<le> dh_p_size p \<and> (\<exists>b \<in> set (dh_p p). b \<noteq> 0)
         then Inr q else Inl EINVAL)) \<and>
    (\<exists>buf. crypto_ecdh_encode_key abi False (crypto_ecdh_key_len abi e) e = Some (Inr buf) \<and>
      crypto_ecdh_decode_key abi (Some buf) = Inr e)"
proof -
  let ?q = "p\<lparr>dh_key := dh_key p @ dh_p p @ dh_g p, dh_p := dh_p p @ dh_g p\<rparr>"
  obtain buf where b: "crypto_dh_encode_key abi False (crypto_dh_key_len abi p) p = Some (Inr buf)"
    using kpp_layout.dh_encode [OF assms(1,2)] by blast
  have r: "mem_read (dh_key ?q) (unat (dh_key_size ?q)) = Some (dh_key p)"
      "mem_read (dh_p ?q) (unat (dh_p_size ?q)) = Some (dh_p p)" "mem_read (dh_g ?q) (unat (dh_g_size ?q)) = Some (dh_g p)"
    using assms(2) by (simp_all add: dh_wf_def)
  show ?thesis
    using b r kpp_layout.dh_decode_checks [OF assms(1,2) b] kpp_layout.ecdh_decode_encode [OF assms(1,3,4)] by blast
qed

theorem kpp_secret_roundtrip_witness:
  "\<exists>buf. crypto_ecdh_encode_key kpp_example_abi False (crypto_ecdh_key_len kpp_example_abi \<lparr>ecdh_key = [1, 2], ecdh_key_size = 2\<rparr>)
      \<lparr>ecdh_key = [1, 2], ecdh_key_size = 2\<rparr> = Some (Inr buf)"
  using kpp_secret_roundtrip [OF kpp_example.kpp_layout_axioms,
      of "\<lparr>dh_key = [1], dh_p = [23], dh_g = [5], dh_key_size = 1, dh_p_size = 1, dh_g_size = 1\<rparr>"
         "\<lparr>ecdh_key = [1, 2], ecdh_key_size = 2\<rparr>"]
  by (auto simp: dh_wf_def kpp_example_abi_def)

text \<open>C38: the two decoders treat a length field larger than the buffer differently. The elliptic-curve decoder
  refuses it, and whatever key it accepts lies inside the buffer. The Diffie-Hellman decoder never compares it:
  for a buffer of 16 bytes that announces a prime of 300 bytes it reads the prime past the end.\<close>

theorem dh_decode_overreads:
  "(\<forall>abi b p. kpp_layout abi \<longrightarrow> crypto_ecdh_decode_key abi (Some b) = Inr p \<longrightarrow>
      mem_read (ecdh_key p) (unat (ecdh_key_size p)) \<noteq> None) \<and>
   crypto_dh_decode_key kpp_example_abi
     (Some (put_le16 1 @ put_le16 316 @ put_le32 0 @ put_le32 300 @ put_le32 0)) = None"
proof (intro conjI allI impI)
  show "mem_read (ecdh_key p) (unat (ecdh_key_size p)) \<noteq> None"
    if "kpp_layout abi" "crypto_ecdh_decode_key abi (Some b) = Inr p" for abi b p
    using kpp_layout.ecdh_decode_in_bounds [OF that] .
  show "crypto_dh_decode_key kpp_example_abi
     (Some (put_le16 1 @ put_le16 316 @ put_le32 0 @ put_le32 300 @ put_le32 0)) = None"
    by (simp add: crypto_dh_decode_key_def dh_decode_key_raw_def kpp_example_abi_def Let_def mem_read_def
      crypto_dh_key_len_def DH_KPP_SECRET_MIN_SIZE_def dh_data_size_def)
qed

theorem dh_decode_overreads_witness:
  "mem_read (ecdh_key \<lparr>ecdh_key = [7], ecdh_key_size = 1\<rparr>) 1 \<noteq> None"
proof -
  have "crypto_ecdh_decode_key kpp_example_abi (Some (put_le16 2 @ put_le16 7 @ put_le16 1 @ [7])) =
      Inr \<lparr>ecdh_key = [7], ecdh_key_size = 1\<rparr>"
    by (simp add: crypto_ecdh_decode_key_def kpp_example_abi_def Let_def crypto_ecdh_key_len_def ECDH_KPP_SECRET_MIN_SIZE_def)
  then show ?thesis using dh_decode_overreads kpp_example.kpp_layout_axioms by fastforce
qed

end
