(* ===== verification/Dh.thy ===== *)
theory Dh
  imports Mpi KppSecret
begin

text \<open>
  Diffie-Hellman key agreement (\<open>dh.c\<close>) over the multi-precision library. The results of allocations and of the
  library are those of \<open>mpi_lib\<close>; a read outside the caller's buffer is \<open>None\<close>.
\<close>

record dh_ctx =
  ctx_p :: "int option"
  ctx_g :: "int option"
  ctx_xa :: "int option"

definition dh_clear_ctx :: dh_ctx where
  "dh_clear_ctx = \<lparr>ctx_p = None, ctx_g = None, ctx_xa = None\<rparr>"

definition compute_val :: "mpi_lib \<Rightarrow> dh_ctx \<Rightarrow> int \<Rightarrow> errno + int" where
  "compute_val lib ctx base = mpi_powm lib base (the (ctx_xa ctx)) (the (ctx_p ctx))"

definition dh_check_params_length :: "bool \<Rightarrow> u32 \<Rightarrow> errno option" where
  "dh_check_params_length fips_enabled p_len =
    (if fips_enabled then (if p_len < 2048 then Some EINVAL else None)
     else (if p_len < 1536 then Some EINVAL else None))"

text \<open>The numbers are read from the pointers of the decoded parameters.\<close>

definition dh_read :: "mpi_lib \<Rightarrow> bytes \<Rightarrow> u32 \<Rightarrow> int option option" where
  "dh_read lib ptr n = map_option (mpi_read lib) (mem_read ptr (unat n))"

definition dh_set_params :: "mpi_lib \<Rightarrow> bool \<Rightarrow> dh_ctx \<Rightarrow> dh \<Rightarrow> (errno option \<times> dh_ctx) option" where
  "dh_set_params lib fips_enabled ctx params =
    (if dh_check_params_length fips_enabled (push_bit 3 (dh_p_size params)) \<noteq> None then Some (Some EINVAL, ctx)
     else case dh_read lib (dh_p params) (dh_p_size params) of
       None \<Rightarrow> None
     | Some p \<Rightarrow>
       let ctx = ctx\<lparr>ctx_p := p\<rparr>
       in if p = None then Some (Some EINVAL, ctx)
          else case dh_read lib (dh_g params) (dh_g_size params) of
            None \<Rightarrow> None
          | Some g \<Rightarrow> Some (if g = None then Some EINVAL else None, ctx\<lparr>ctx_g := g\<rparr>))"

definition dh_set_secret ::
    "mpi_lib \<Rightarrow> kpp_abi \<Rightarrow> bool \<Rightarrow> bytes option \<Rightarrow> (errno option \<times> dh_ctx) option" where
  "dh_set_secret lib abi fips_enabled buf =
    (case crypto_dh_decode_key abi buf of
       None \<Rightarrow> None
     | Some (Inl err) \<Rightarrow> Some (Some EINVAL, dh_clear_ctx)
     | Some (Inr params) \<Rightarrow>
       (case dh_set_params lib fips_enabled dh_clear_ctx params of
          None \<Rightarrow> None
        | Some (Some err, ctx) \<Rightarrow> Some (Some EINVAL, dh_clear_ctx)
        | Some (None, ctx) \<Rightarrow>
          map_option (\<lambda>xa. if xa = None then (Some EINVAL, dh_clear_ctx) else (None, ctx\<lparr>ctx_xa := xa\<rparr>))
            (dh_read lib (dh_key params) (dh_key_size params))))"

definition dh_is_pubkey_valid :: "mpi_lib \<Rightarrow> bool \<Rightarrow> dh_ctx \<Rightarrow> int \<Rightarrow> errno option" where
  "dh_is_pubkey_valid lib fips_enabled ctx y =
    (if \<not> fips_enabled then None
     else case ctx_p ctx of
       None \<Rightarrow> Some EINVAL
     | Some p \<Rightarrow>
       if mpi_cmp_ui lib y 1 < 1 \<or> mpi_cmp lib y p \<ge> 0 then Some EINVAL
       else if \<not> mpi_alloc lib 0 \<or> \<not> mpi_alloc lib 1 then Some ENOMEM
       else case bind_err (mpi_rshift lib p 1) (\<lambda>q. mpi_powm lib y q p) of
         Inl err \<Rightarrow> Some err
       | Inr val \<Rightarrow> if mpi_cmp_ui lib val 1 \<noteq> 0 then Some EINVAL else None)"

text \<open>The last step of a shared secret in FIPS mode.\<close>

definition dh_check_shared :: "mpi_lib \<Rightarrow> dh_ctx \<Rightarrow> int \<Rightarrow> errno option" where
  "dh_check_shared lib ctx val =
    (if mpi_cmp_ui lib val 1 < 1 then Some EBADMSG
     else if \<not> mpi_alloc lib 0 then Some ENOMEM
     else case mpi_sub_ui lib (the (ctx_p ctx)) 1 of
       Inl err \<Rightarrow> Some err
     | Inr pone \<Rightarrow> if mpi_cmp lib pone val = 0 then Some EBADMSG else None)"

definition dh_compute_value ::
    "mpi_lib \<Rightarrow> bool \<Rightarrow> dh_ctx \<Rightarrow> bytes option \<Rightarrow> nat \<Rightarrow> errno + bytes" where
  "dh_compute_value lib fips_enabled ctx src dst_len =
    (if \<not> mpi_alloc lib 0 then Inl ENOMEM
     else if ctx_xa ctx = None then Inl EINVAL
     else
       let base = (case src of
           None \<Rightarrow> Inr (the (ctx_g ctx))
         | Some bs \<Rightarrow> (case mpi_read lib bs of
             None \<Rightarrow> Inl EINVAL
           | Some y \<Rightarrow> (case dh_is_pubkey_valid lib fips_enabled ctx y of Some err \<Rightarrow> Inl err | None \<Rightarrow> Inr y)));
         check = (\<lambda>val. if \<not> fips_enabled then None
           else if src \<noteq> None then dh_check_shared lib ctx val
           else if dh_is_pubkey_valid lib fips_enabled ctx val \<noteq> None then Some EAGAIN else None)
       in bind_err base (\<lambda>b. bind_err (compute_val lib ctx b) (\<lambda>val.
            case check val of
              Some err \<Rightarrow> Inl err
            | None \<Rightarrow> bind_err (mpi_write lib val dst_len) (\<lambda>(out, sign). if sign < 0 then Inl EBADMSG else Inr out))))"

definition dh_max_size :: "mpi_lib \<Rightarrow> dh_ctx \<Rightarrow> nat" where
  "dh_max_size lib ctx = mpi_get_size lib (the (ctx_p ctx))"

section \<open>Agreement\<close>

text \<open>A context whose prime modulus, generator and secret are set.\<close>

definition dh_ctx_ok :: "int \<Rightarrow> int \<Rightarrow> int \<Rightarrow> dh_ctx \<Rightarrow> bool" where
  "dh_ctx_ok p g xa ctx \<longleftrightarrow> ctx_p ctx = Some p \<and> ctx_g ctx = Some g \<and> ctx_xa ctx = Some xa \<and> 1 < p \<and> 0 \<le> xa"

text \<open>What validation of a public value checks in FIPS mode.\<close>

definition dh_value_ok :: "int \<Rightarrow> int \<Rightarrow> bool" where
  "dh_value_ok p y \<longleftrightarrow> 1 < y \<and> y < p \<and> y ^ nat (p div 2) mod p = 1"

context mpi_laws
begin

lemma cmp_ui_1: "mpi_cmp_ui lib y (Suc 0) < 1 \<longleftrightarrow> y \<le> 1" "mpi_cmp_ui lib v (Suc 0) = 0 \<longleftrightarrow> v = 1"
  using cmp_ui [of y 1] cmp_ui [of v 1] by auto

lemma cmp_le: "mpi_cmp lib y p \<ge> 0 \<longleftrightarrow> p \<le> y" "mpi_cmp lib y p = 0 \<longleftrightarrow> y = p"
  using cmp [of y p] by auto

lemma pubkey_valid:
  assumes "ctx_p ctx = Some p" "1 < p"
  shows "dh_is_pubkey_valid lib fips ctx y = (if \<not> fips \<or> dh_value_ok p y then None else Some EINVAL)"
proof -
  have "mpi_rshift lib p 1 = Inr (p div 2)" using rshift [of p 1] assms(2) by simp
  moreover have "mpi_powm lib y (p div 2) p = Inr (y ^ nat (p div 2) mod p)" using powm [of "p div 2" p y] assms(2) by simp
  ultimately show ?thesis
    using assms(1) by (simp add: dh_is_pubkey_valid_def alloc dh_value_ok_def cmp_ui_1 cmp_le not_le)
qed

lemma shared_ok:
  assumes "ctx_p ctx = Some p"
  shows "dh_check_shared lib ctx z = (if 1 < z \<and> z \<noteq> p - 1 then None else Some EBADMSG)"
  by (auto simp: dh_check_shared_def alloc sub_ui assms cmp_ui_1 cmp_le)

lemma write_residue:
  assumes "1 < p" "p \<le> 256 ^ l"
  obtains bs s where "mpi_write lib (a mod p) l = Inr (bs, s)" "0 \<le> s" "length bs = l" "int (be_val bs) = a mod p"
proof -
  have "0 \<le> a mod p" "a mod p < p" using assms(1) by simp_all
  with assms(2) have "0 \<le> a mod p" "a mod p < 256 ^ l" by linarith+
  from write_ok [OF this] that show thesis by blast
qed

text \<open>Both uses of the driver, as equivalences.\<close>

lemma public_value:
  assumes ok: "dh_ctx_ok p g xa ctx" and l: "p \<le> 256 ^ l"
  shows "\<exists>out. length out = l \<and> int (be_val out) = g ^ nat xa mod p \<and> dh_compute_value lib fips ctx None l =
    (if \<not> fips \<or> dh_value_ok p (g ^ nat xa mod p) then Inr out else Inl EAGAIN)"
proof -
  have c: "ctx_p ctx = Some p" "ctx_g ctx = Some g" "ctx_xa ctx = Some xa" "1 < p" "0 \<le> xa"
    using ok by (simp_all add: dh_ctx_ok_def)
  define v where "v = g ^ nat xa mod p"
  have cv: "compute_val lib ctx g = Inr v" using c powm [of xa p g] by (simp add: compute_val_def v_def)
  obtain bs s where w: "mpi_write lib v l = Inr (bs, s)" "0 \<le> s" "length bs = l" "int (be_val bs) = v"
    unfolding v_def by (rule write_residue [OF c(4) l])
  have "dh_compute_value lib fips ctx None l = (if \<not> fips \<or> dh_value_ok p v then Inr bs else Inl EAGAIN)"
    using w(2) by (simp add: dh_compute_value_def alloc c(2,3) cv w(1) pubkey_valid [OF c(1,4)])
  with w(3,4) show ?thesis unfolding v_def by blast
qed

lemma shared_value:
  fixes src :: bytes
  assumes ok: "dh_ctx_ok p g xa ctx" and l: "p \<le> 256 ^ l"
  defines "v \<equiv> int (be_val src) ^ nat xa mod p"
  shows "\<exists>out. length out = l \<and> int (be_val out) = v \<and> dh_compute_value lib fips ctx (Some src) l =
    (if \<not> fips then Inr out else if \<not> dh_value_ok p (int (be_val src)) then Inl EINVAL
     else if 1 < v \<and> v \<noteq> p - 1 then Inr out else Inl EBADMSG)"
proof -
  have c: "ctx_p ctx = Some p" "ctx_xa ctx = Some xa" "1 < p" "0 \<le> xa"
    using ok by (simp_all add: dh_ctx_ok_def)
  have cv: "compute_val lib ctx (int (be_val src)) = Inr v"
    using c powm [of xa p "int (be_val src)"] by (simp add: compute_val_def v_def)
  obtain bs s where w: "mpi_write lib v l = Inr (bs, s)" "0 \<le> s" "length bs = l" "int (be_val bs) = v"
    unfolding v_def by (rule write_residue [OF c(3) l])
  have "dh_compute_value lib fips ctx (Some src) l =
    (if \<not> fips then Inr bs else if \<not> dh_value_ok p (int (be_val src)) then Inl EINVAL
     else if 1 < v \<and> v \<noteq> p - 1 then Inr bs else Inl EBADMSG)"
    using w(2) by (simp add: dh_compute_value_def alloc c(2) read_ok cv w(1) pubkey_valid [OF c(1,3)] shared_ok [OF c(1)])
  with w(3,4) show ?thesis by blast
qed

text \<open>Both parties obtain the same secret: what each computes from the other's public value.\<close>

lemma agreement:
  assumes a: "dh_ctx_ok p g xa A" and b: "dh_ctx_ok p g xb B" and l: "p \<le> 256 ^ l"
    and ya: "dh_compute_value lib fips A None l = Inr ya" and yb: "dh_compute_value lib fips B None l = Inr yb"
  shows "\<exists>out. length out = l \<and> int (be_val out) = g ^ (nat xa * nat xb) mod p \<and>
    dh_compute_value lib fips A (Some yb) l = dh_compute_value lib fips B (Some ya) l \<and>
    dh_compute_value lib fips A (Some yb) l =
      (if fips \<and> \<not> (1 < int (be_val out) \<and> int (be_val out) \<noteq> p - 1) then Inl EBADMSG else Inr out)"
proof -
  define z where "z = g ^ (nat xa * nat xb) mod p"
  have va: "int (be_val ya) = g ^ nat xa mod p" "\<not> fips \<or> dh_value_ok p (int (be_val ya))"
    using public_value [OF a l, of fips] ya by (auto split: if_splits)
  have vb: "int (be_val yb) = g ^ nat xb mod p" "\<not> fips \<or> dh_value_ok p (int (be_val yb))"
    using public_value [OF b l, of fips] yb by (auto split: if_splits)
  have za: "int (be_val yb) ^ nat xa mod p = z" "int (be_val ya) ^ nat xb mod p = z"
    unfolding va vb z_def by (simp_all add: power_mod power_mult [symmetric] mult.commute)
  obtain oa where oa: "length oa = l" "int (be_val oa) = z" "dh_compute_value lib fips A (Some yb) l =
      (if \<not> fips then Inr oa else if \<not> dh_value_ok p (int (be_val yb)) then Inl EINVAL
       else if 1 < z \<and> z \<noteq> p - 1 then Inr oa else Inl EBADMSG)"
    using shared_value [OF a l, of yb fips] unfolding za by blast
  obtain ob where ob: "length ob = l" "int (be_val ob) = z" "dh_compute_value lib fips B (Some ya) l =
      (if \<not> fips then Inr ob else if \<not> dh_value_ok p (int (be_val ya)) then Inl EINVAL
       else if 1 < z \<and> z \<noteq> p - 1 then Inr ob else Inl EBADMSG)"
    using shared_value [OF b l, of ya fips] unfolding za by blast
  have "oa = ob" using oa(1,2) ob(1,2) by (intro be_val_inj) simp_all
  then show ?thesis using oa ob va(2) vb(2) unfolding z_def [symmetric] by (intro exI [of _ oa]) auto
qed

end

section \<open>Properties\<close>

text \<open>C35: two parties with the same prime and generator who exchange their public values compute the same
  secret, \<open>g\<close> to the product of their keys modulo \<open>p\<close>, as bytes of the length asked for; in FIPS mode both
  refuse it when it is 0, 1 or \<open>p - 1\<close>.\<close>

theorem dh_agreement:
  assumes "mpi_laws lib" "dh_ctx_ok p g xa A" "dh_ctx_ok p g xb B" "p \<le> 256 ^ l"
    and "dh_compute_value lib fips A None l = Inr ya" "dh_compute_value lib fips B None l = Inr yb"
  shows "\<exists>out. length out = l \<and> int (be_val out) = g ^ (nat xa * nat xb) mod p \<and>
    dh_compute_value lib fips A (Some yb) l = dh_compute_value lib fips B (Some ya) l \<and>
    dh_compute_value lib fips A (Some yb) l =
      (if fips \<and> \<not> (1 < int (be_val out) \<and> int (be_val out) \<noteq> p - 1) then Inl EBADMSG else Inr out)"
  by (rule mpi_laws.agreement [OF assms])


definition dh_example :: "int \<Rightarrow> dh_ctx" where
  "dh_example xa = \<lparr>ctx_p = Some 23, ctx_g = Some 2, ctx_xa = Some xa\<rparr>"

lemma dh_example_ok: "0 \<le> xa \<Longrightarrow> dh_ctx_ok 23 2 xa (dh_example xa)"
  by (simp add: dh_ctx_ok_def dh_example_def)

theorem dh_agreement_witness:
  "dh_compute_value int_mpi True (dh_example 5) (Some [13]) 1 = dh_compute_value int_mpi True (dh_example 7) (Some [9]) 1"
proof -
  have "dh_compute_value int_mpi True (dh_example 5) None 1 = Inr [9]"
    "dh_compute_value int_mpi True (dh_example 7) None 1 = Inr [13]"
    by (simp_all add: dh_compute_value_def dh_example_def int_mpi_def compute_val_def dh_is_pubkey_valid_def)
  from dh_agreement [OF int_mpi.mpi_laws_axioms dh_example_ok dh_example_ok _ this] show ?thesis by auto
qed


end
