(* ===== verification/DhSafePrime.thy ===== *)
theory DhSafePrime
  imports Dh
begin

text \<open>
  The safe-prime groups of RFC 7919 and their key generation (second half of \<open>dh.c\<close>). The random generator of the
  crypto layer is an argument: its answer is an error or the bytes. An array of \<open>__be64\<close> is the list of its
  numbers.
\<close>

record dh_safe_prime =
  max_strength :: nat
  sp_size :: u32
  sp_p :: bytes

section \<open>The groups\<close>

definition ffdhe2048_prime :: dh_safe_prime where
  "ffdhe2048_prime = \<lparr>max_strength = 112, sp_size = 256, sp_p = [
    0xff, 0xff, 0xff, 0xff, 0xff, 0xff, 0xff, 0xff, 0xad, 0xf8, 0x54, 0x58, 0xa2, 0xbb, 0x4a, 0x9a,
    0xaf, 0xdc, 0x56, 0x20, 0x27, 0x3d, 0x3c, 0xf1, 0xd8, 0xb9, 0xc5, 0x83, 0xce, 0x2d, 0x36, 0x95,
    0xa9, 0xe1, 0x36, 0x41, 0x14, 0x64, 0x33, 0xfb, 0xcc, 0x93, 0x9d, 0xce, 0x24, 0x9b, 0x3e, 0xf9,
    0x7d, 0x2f, 0xe3, 0x63, 0x63, 0x0c, 0x75, 0xd8, 0xf6, 0x81, 0xb2, 0x02, 0xae, 0xc4, 0x61, 0x7a,
    0xd3, 0xdf, 0x1e, 0xd5, 0xd5, 0xfd, 0x65, 0x61, 0x24, 0x33, 0xf5, 0x1f, 0x5f, 0x06, 0x6e, 0xd0,
    0x85, 0x63, 0x65, 0x55, 0x3d, 0xed, 0x1a, 0xf3, 0xb5, 0x57, 0x13, 0x5e, 0x7f, 0x57, 0xc9, 0x35,
    0x98, 0x4f, 0x0c, 0x70, 0xe0, 0xe6, 0x8b, 0x77, 0xe2, 0xa6, 0x89, 0xda, 0xf3, 0xef, 0xe8, 0x72,
    0x1d, 0xf1, 0x58, 0xa1, 0x36, 0xad, 0xe7, 0x35, 0x30, 0xac, 0xca, 0x4f, 0x48, 0x3a, 0x79, 0x7a,
    0xbc, 0x0a, 0xb1, 0x82, 0xb3, 0x24, 0xfb, 0x61, 0xd1, 0x08, 0xa9, 0x4b, 0xb2, 0xc8, 0xe3, 0xfb,
    0xb9, 0x6a, 0xda, 0xb7, 0x60, 0xd7, 0xf4, 0x68, 0x1d, 0x4f, 0x42, 0xa3, 0xde, 0x39, 0x4d, 0xf4,
    0xae, 0x56, 0xed, 0xe7, 0x63, 0x72, 0xbb, 0x19, 0x0b, 0x07, 0xa7, 0xc8, 0xee, 0x0a, 0x6d, 0x70,
    0x9e, 0x02, 0xfc, 0xe1, 0xcd, 0xf7, 0xe2, 0xec, 0xc0, 0x34, 0x04, 0xcd, 0x28, 0x34, 0x2f, 0x61,
    0x91, 0x72, 0xfe, 0x9c, 0xe9, 0x85, 0x83, 0xff, 0x8e, 0x4f, 0x12, 0x32, 0xee, 0xf2, 0x81, 0x83,
    0xc3, 0xfe, 0x3b, 0x1b, 0x4c, 0x6f, 0xad, 0x73, 0x3b, 0xb5, 0xfc, 0xbc, 0x2e, 0xc2, 0x20, 0x05,
    0xc5, 0x8e, 0xf1, 0x83, 0x7d, 0x16, 0x83, 0xb2, 0xc6, 0xf3, 0x4a, 0x26, 0xc1, 0xb2, 0xef, 0xfa,
    0x88, 0x6b, 0x42, 0x38, 0x61, 0x28, 0x5c, 0x97, 0xff, 0xff, 0xff, 0xff, 0xff, 0xff, 0xff, 0xff]\<rparr>"

definition ffdhe3072_prime :: dh_safe_prime where
  "ffdhe3072_prime = \<lparr>max_strength = 128, sp_size = 384, sp_p = [
    0xff, 0xff, 0xff, 0xff, 0xff, 0xff, 0xff, 0xff, 0xad, 0xf8, 0x54, 0x58, 0xa2, 0xbb, 0x4a, 0x9a,
    0xaf, 0xdc, 0x56, 0x20, 0x27, 0x3d, 0x3c, 0xf1, 0xd8, 0xb9, 0xc5, 0x83, 0xce, 0x2d, 0x36, 0x95,
    0xa9, 0xe1, 0x36, 0x41, 0x14, 0x64, 0x33, 0xfb, 0xcc, 0x93, 0x9d, 0xce, 0x24, 0x9b, 0x3e, 0xf9,
    0x7d, 0x2f, 0xe3, 0x63, 0x63, 0x0c, 0x75, 0xd8, 0xf6, 0x81, 0xb2, 0x02, 0xae, 0xc4, 0x61, 0x7a,
    0xd3, 0xdf, 0x1e, 0xd5, 0xd5, 0xfd, 0x65, 0x61, 0x24, 0x33, 0xf5, 0x1f, 0x5f, 0x06, 0x6e, 0xd0,
    0x85, 0x63, 0x65, 0x55, 0x3d, 0xed, 0x1a, 0xf3, 0xb5, 0x57, 0x13, 0x5e, 0x7f, 0x57, 0xc9, 0x35,
    0x98, 0x4f, 0x0c, 0x70, 0xe0, 0xe6, 0x8b, 0x77, 0xe2, 0xa6, 0x89, 0xda, 0xf3, 0xef, 0xe8, 0x72,
    0x1d, 0xf1, 0x58, 0xa1, 0x36, 0xad, 0xe7, 0x35, 0x30, 0xac, 0xca, 0x4f, 0x48, 0x3a, 0x79, 0x7a,
    0xbc, 0x0a, 0xb1, 0x82, 0xb3, 0x24, 0xfb, 0x61, 0xd1, 0x08, 0xa9, 0x4b, 0xb2, 0xc8, 0xe3, 0xfb,
    0xb9, 0x6a, 0xda, 0xb7, 0x60, 0xd7, 0xf4, 0x68, 0x1d, 0x4f, 0x42, 0xa3, 0xde, 0x39, 0x4d, 0xf4,
    0xae, 0x56, 0xed, 0xe7, 0x63, 0x72, 0xbb, 0x19, 0x0b, 0x07, 0xa7, 0xc8, 0xee, 0x0a, 0x6d, 0x70,
    0x9e, 0x02, 0xfc, 0xe1, 0xcd, 0xf7, 0xe2, 0xec, 0xc0, 0x34, 0x04, 0xcd, 0x28, 0x34, 0x2f, 0x61,
    0x91, 0x72, 0xfe, 0x9c, 0xe9, 0x85, 0x83, 0xff, 0x8e, 0x4f, 0x12, 0x32, 0xee, 0xf2, 0x81, 0x83,
    0xc3, 0xfe, 0x3b, 0x1b, 0x4c, 0x6f, 0xad, 0x73, 0x3b, 0xb5, 0xfc, 0xbc, 0x2e, 0xc2, 0x20, 0x05,
    0xc5, 0x8e, 0xf1, 0x83, 0x7d, 0x16, 0x83, 0xb2, 0xc6, 0xf3, 0x4a, 0x26, 0xc1, 0xb2, 0xef, 0xfa,
    0x88, 0x6b, 0x42, 0x38, 0x61, 0x1f, 0xcf, 0xdc, 0xde, 0x35, 0x5b, 0x3b, 0x65, 0x19, 0x03, 0x5b,
    0xbc, 0x34, 0xf4, 0xde, 0xf9, 0x9c, 0x02, 0x38, 0x61, 0xb4, 0x6f, 0xc9, 0xd6, 0xe6, 0xc9, 0x07,
    0x7a, 0xd9, 0x1d, 0x26, 0x91, 0xf7, 0xf7, 0xee, 0x59, 0x8c, 0xb0, 0xfa, 0xc1, 0x86, 0xd9, 0x1c,
    0xae, 0xfe, 0x13, 0x09, 0x85, 0x13, 0x92, 0x70, 0xb4, 0x13, 0x0c, 0x93, 0xbc, 0x43, 0x79, 0x44,
    0xf4, 0xfd, 0x44, 0x52, 0xe2, 0xd7, 0x4d, 0xd3, 0x64, 0xf2, 0xe2, 0x1e, 0x71, 0xf5, 0x4b, 0xff,
    0x5c, 0xae, 0x82, 0xab, 0x9c, 0x9d, 0xf6, 0x9e, 0xe8, 0x6d, 0x2b, 0xc5, 0x22, 0x36, 0x3a, 0x0d,
    0xab, 0xc5, 0x21, 0x97, 0x9b, 0x0d, 0xea, 0xda, 0x1d, 0xbf, 0x9a, 0x42, 0xd5, 0xc4, 0x48, 0x4e,
    0x0a, 0xbc, 0xd0, 0x6b, 0xfa, 0x53, 0xdd, 0xef, 0x3c, 0x1b, 0x20, 0xee, 0x3f, 0xd5, 0x9d, 0x7c,
    0x25, 0xe4, 0x1d, 0x2b, 0x66, 0xc6, 0x2e, 0x37, 0xff, 0xff, 0xff, 0xff, 0xff, 0xff, 0xff, 0xff]\<rparr>"

definition ffdhe4096_prime :: dh_safe_prime where
  "ffdhe4096_prime = \<lparr>max_strength = 152, sp_size = 512, sp_p = [
    0xff, 0xff, 0xff, 0xff, 0xff, 0xff, 0xff, 0xff, 0xad, 0xf8, 0x54, 0x58, 0xa2, 0xbb, 0x4a, 0x9a,
    0xaf, 0xdc, 0x56, 0x20, 0x27, 0x3d, 0x3c, 0xf1, 0xd8, 0xb9, 0xc5, 0x83, 0xce, 0x2d, 0x36, 0x95,
    0xa9, 0xe1, 0x36, 0x41, 0x14, 0x64, 0x33, 0xfb, 0xcc, 0x93, 0x9d, 0xce, 0x24, 0x9b, 0x3e, 0xf9,
    0x7d, 0x2f, 0xe3, 0x63, 0x63, 0x0c, 0x75, 0xd8, 0xf6, 0x81, 0xb2, 0x02, 0xae, 0xc4, 0x61, 0x7a,
    0xd3, 0xdf, 0x1e, 0xd5, 0xd5, 0xfd, 0x65, 0x61, 0x24, 0x33, 0xf5, 0x1f, 0x5f, 0x06, 0x6e, 0xd0,
    0x85, 0x63, 0x65, 0x55, 0x3d, 0xed, 0x1a, 0xf3, 0xb5, 0x57, 0x13, 0x5e, 0x7f, 0x57, 0xc9, 0x35,
    0x98, 0x4f, 0x0c, 0x70, 0xe0, 0xe6, 0x8b, 0x77, 0xe2, 0xa6, 0x89, 0xda, 0xf3, 0xef, 0xe8, 0x72,
    0x1d, 0xf1, 0x58, 0xa1, 0x36, 0xad, 0xe7, 0x35, 0x30, 0xac, 0xca, 0x4f, 0x48, 0x3a, 0x79, 0x7a,
    0xbc, 0x0a, 0xb1, 0x82, 0xb3, 0x24, 0xfb, 0x61, 0xd1, 0x08, 0xa9, 0x4b, 0xb2, 0xc8, 0xe3, 0xfb,
    0xb9, 0x6a, 0xda, 0xb7, 0x60, 0xd7, 0xf4, 0x68, 0x1d, 0x4f, 0x42, 0xa3, 0xde, 0x39, 0x4d, 0xf4,
    0xae, 0x56, 0xed, 0xe7, 0x63, 0x72, 0xbb, 0x19, 0x0b, 0x07, 0xa7, 0xc8, 0xee, 0x0a, 0x6d, 0x70,
    0x9e, 0x02, 0xfc, 0xe1, 0xcd, 0xf7, 0xe2, 0xec, 0xc0, 0x34, 0x04, 0xcd, 0x28, 0x34, 0x2f, 0x61,
    0x91, 0x72, 0xfe, 0x9c, 0xe9, 0x85, 0x83, 0xff, 0x8e, 0x4f, 0x12, 0x32, 0xee, 0xf2, 0x81, 0x83,
    0xc3, 0xfe, 0x3b, 0x1b, 0x4c, 0x6f, 0xad, 0x73, 0x3b, 0xb5, 0xfc, 0xbc, 0x2e, 0xc2, 0x20, 0x05,
    0xc5, 0x8e, 0xf1, 0x83, 0x7d, 0x16, 0x83, 0xb2, 0xc6, 0xf3, 0x4a, 0x26, 0xc1, 0xb2, 0xef, 0xfa,
    0x88, 0x6b, 0x42, 0x38, 0x61, 0x1f, 0xcf, 0xdc, 0xde, 0x35, 0x5b, 0x3b, 0x65, 0x19, 0x03, 0x5b,
    0xbc, 0x34, 0xf4, 0xde, 0xf9, 0x9c, 0x02, 0x38, 0x61, 0xb4, 0x6f, 0xc9, 0xd6, 0xe6, 0xc9, 0x07,
    0x7a, 0xd9, 0x1d, 0x26, 0x91, 0xf7, 0xf7, 0xee, 0x59, 0x8c, 0xb0, 0xfa, 0xc1, 0x86, 0xd9, 0x1c,
    0xae, 0xfe, 0x13, 0x09, 0x85, 0x13, 0x92, 0x70, 0xb4, 0x13, 0x0c, 0x93, 0xbc, 0x43, 0x79, 0x44,
    0xf4, 0xfd, 0x44, 0x52, 0xe2, 0xd7, 0x4d, 0xd3, 0x64, 0xf2, 0xe2, 0x1e, 0x71, 0xf5, 0x4b, 0xff,
    0x5c, 0xae, 0x82, 0xab, 0x9c, 0x9d, 0xf6, 0x9e, 0xe8, 0x6d, 0x2b, 0xc5, 0x22, 0x36, 0x3a, 0x0d,
    0xab, 0xc5, 0x21, 0x97, 0x9b, 0x0d, 0xea, 0xda, 0x1d, 0xbf, 0x9a, 0x42, 0xd5, 0xc4, 0x48, 0x4e,
    0x0a, 0xbc, 0xd0, 0x6b, 0xfa, 0x53, 0xdd, 0xef, 0x3c, 0x1b, 0x20, 0xee, 0x3f, 0xd5, 0x9d, 0x7c,
    0x25, 0xe4, 0x1d, 0x2b, 0x66, 0x9e, 0x1e, 0xf1, 0x6e, 0x6f, 0x52, 0xc3, 0x16, 0x4d, 0xf4, 0xfb,
    0x79, 0x30, 0xe9, 0xe4, 0xe5, 0x88, 0x57, 0xb6, 0xac, 0x7d, 0x5f, 0x42, 0xd6, 0x9f, 0x6d, 0x18,
    0x77, 0x63, 0xcf, 0x1d, 0x55, 0x03, 0x40, 0x04, 0x87, 0xf5, 0x5b, 0xa5, 0x7e, 0x31, 0xcc, 0x7a,
    0x71, 0x35, 0xc8, 0x86, 0xef, 0xb4, 0x31, 0x8a, 0xed, 0x6a, 0x1e, 0x01, 0x2d, 0x9e, 0x68, 0x32,
    0xa9, 0x07, 0x60, 0x0a, 0x91, 0x81, 0x30, 0xc4, 0x6d, 0xc7, 0x78, 0xf9, 0x71, 0xad, 0x00, 0x38,
    0x09, 0x29, 0x99, 0xa3, 0x33, 0xcb, 0x8b, 0x7a, 0x1a, 0x1d, 0xb9, 0x3d, 0x71, 0x40, 0x00, 0x3c,
    0x2a, 0x4e, 0xce, 0xa9, 0xf9, 0x8d, 0x0a, 0xcc, 0x0a, 0x82, 0x91, 0xcd, 0xce, 0xc9, 0x7d, 0xcf,
    0x8e, 0xc9, 0xb5, 0x5a, 0x7f, 0x88, 0xa4, 0x6b, 0x4d, 0xb5, 0xa8, 0x51, 0xf4, 0x41, 0x82, 0xe1,
    0xc6, 0x8a, 0x00, 0x7e, 0x5e, 0x65, 0x5f, 0x6a, 0xff, 0xff, 0xff, 0xff, 0xff, 0xff, 0xff, 0xff]\<rparr>"

definition ffdhe6144_prime :: dh_safe_prime where
  "ffdhe6144_prime = \<lparr>max_strength = 176, sp_size = 768, sp_p = [
    0xff, 0xff, 0xff, 0xff, 0xff, 0xff, 0xff, 0xff, 0xad, 0xf8, 0x54, 0x58, 0xa2, 0xbb, 0x4a, 0x9a,
    0xaf, 0xdc, 0x56, 0x20, 0x27, 0x3d, 0x3c, 0xf1, 0xd8, 0xb9, 0xc5, 0x83, 0xce, 0x2d, 0x36, 0x95,
    0xa9, 0xe1, 0x36, 0x41, 0x14, 0x64, 0x33, 0xfb, 0xcc, 0x93, 0x9d, 0xce, 0x24, 0x9b, 0x3e, 0xf9,
    0x7d, 0x2f, 0xe3, 0x63, 0x63, 0x0c, 0x75, 0xd8, 0xf6, 0x81, 0xb2, 0x02, 0xae, 0xc4, 0x61, 0x7a,
    0xd3, 0xdf, 0x1e, 0xd5, 0xd5, 0xfd, 0x65, 0x61, 0x24, 0x33, 0xf5, 0x1f, 0x5f, 0x06, 0x6e, 0xd0,
    0x85, 0x63, 0x65, 0x55, 0x3d, 0xed, 0x1a, 0xf3, 0xb5, 0x57, 0x13, 0x5e, 0x7f, 0x57, 0xc9, 0x35,
    0x98, 0x4f, 0x0c, 0x70, 0xe0, 0xe6, 0x8b, 0x77, 0xe2, 0xa6, 0x89, 0xda, 0xf3, 0xef, 0xe8, 0x72,
    0x1d, 0xf1, 0x58, 0xa1, 0x36, 0xad, 0xe7, 0x35, 0x30, 0xac, 0xca, 0x4f, 0x48, 0x3a, 0x79, 0x7a,
    0xbc, 0x0a, 0xb1, 0x82, 0xb3, 0x24, 0xfb, 0x61, 0xd1, 0x08, 0xa9, 0x4b, 0xb2, 0xc8, 0xe3, 0xfb,
    0xb9, 0x6a, 0xda, 0xb7, 0x60, 0xd7, 0xf4, 0x68, 0x1d, 0x4f, 0x42, 0xa3, 0xde, 0x39, 0x4d, 0xf4,
    0xae, 0x56, 0xed, 0xe7, 0x63, 0x72, 0xbb, 0x19, 0x0b, 0x07, 0xa7, 0xc8, 0xee, 0x0a, 0x6d, 0x70,
    0x9e, 0x02, 0xfc, 0xe1, 0xcd, 0xf7, 0xe2, 0xec, 0xc0, 0x34, 0x04, 0xcd, 0x28, 0x34, 0x2f, 0x61,
    0x91, 0x72, 0xfe, 0x9c, 0xe9, 0x85, 0x83, 0xff, 0x8e, 0x4f, 0x12, 0x32, 0xee, 0xf2, 0x81, 0x83,
    0xc3, 0xfe, 0x3b, 0x1b, 0x4c, 0x6f, 0xad, 0x73, 0x3b, 0xb5, 0xfc, 0xbc, 0x2e, 0xc2, 0x20, 0x05,
    0xc5, 0x8e, 0xf1, 0x83, 0x7d, 0x16, 0x83, 0xb2, 0xc6, 0xf3, 0x4a, 0x26, 0xc1, 0xb2, 0xef, 0xfa,
    0x88, 0x6b, 0x42, 0x38, 0x61, 0x1f, 0xcf, 0xdc, 0xde, 0x35, 0x5b, 0x3b, 0x65, 0x19, 0x03, 0x5b,
    0xbc, 0x34, 0xf4, 0xde, 0xf9, 0x9c, 0x02, 0x38, 0x61, 0xb4, 0x6f, 0xc9, 0xd6, 0xe6, 0xc9, 0x07,
    0x7a, 0xd9, 0x1d, 0x26, 0x91, 0xf7, 0xf7, 0xee, 0x59, 0x8c, 0xb0, 0xfa, 0xc1, 0x86, 0xd9, 0x1c,
    0xae, 0xfe, 0x13, 0x09, 0x85, 0x13, 0x92, 0x70, 0xb4, 0x13, 0x0c, 0x93, 0xbc, 0x43, 0x79, 0x44,
    0xf4, 0xfd, 0x44, 0x52, 0xe2, 0xd7, 0x4d, 0xd3, 0x64, 0xf2, 0xe2, 0x1e, 0x71, 0xf5, 0x4b, 0xff,
    0x5c, 0xae, 0x82, 0xab, 0x9c, 0x9d, 0xf6, 0x9e, 0xe8, 0x6d, 0x2b, 0xc5, 0x22, 0x36, 0x3a, 0x0d,
    0xab, 0xc5, 0x21, 0x97, 0x9b, 0x0d, 0xea, 0xda, 0x1d, 0xbf, 0x9a, 0x42, 0xd5, 0xc4, 0x48, 0x4e,
    0x0a, 0xbc, 0xd0, 0x6b, 0xfa, 0x53, 0xdd, 0xef, 0x3c, 0x1b, 0x20, 0xee, 0x3f, 0xd5, 0x9d, 0x7c,
    0x25, 0xe4, 0x1d, 0x2b, 0x66, 0x9e, 0x1e, 0xf1, 0x6e, 0x6f, 0x52, 0xc3, 0x16, 0x4d, 0xf4, 0xfb,
    0x79, 0x30, 0xe9, 0xe4, 0xe5, 0x88, 0x57, 0xb6, 0xac, 0x7d, 0x5f, 0x42, 0xd6, 0x9f, 0x6d, 0x18,
    0x77, 0x63, 0xcf, 0x1d, 0x55, 0x03, 0x40, 0x04, 0x87, 0xf5, 0x5b, 0xa5, 0x7e, 0x31, 0xcc, 0x7a,
    0x71, 0x35, 0xc8, 0x86, 0xef, 0xb4, 0x31, 0x8a, 0xed, 0x6a, 0x1e, 0x01, 0x2d, 0x9e, 0x68, 0x32,
    0xa9, 0x07, 0x60, 0x0a, 0x91, 0x81, 0x30, 0xc4, 0x6d, 0xc7, 0x78, 0xf9, 0x71, 0xad, 0x00, 0x38,
    0x09, 0x29, 0x99, 0xa3, 0x33, 0xcb, 0x8b, 0x7a, 0x1a, 0x1d, 0xb9, 0x3d, 0x71, 0x40, 0x00, 0x3c,
    0x2a, 0x4e, 0xce, 0xa9, 0xf9, 0x8d, 0x0a, 0xcc, 0x0a, 0x82, 0x91, 0xcd, 0xce, 0xc9, 0x7d, 0xcf,
    0x8e, 0xc9, 0xb5, 0x5a, 0x7f, 0x88, 0xa4, 0x6b, 0x4d, 0xb5, 0xa8, 0x51, 0xf4, 0x41, 0x82, 0xe1,
    0xc6, 0x8a, 0x00, 0x7e, 0x5e, 0x0d, 0xd9, 0x02, 0x0b, 0xfd, 0x64, 0xb6, 0x45, 0x03, 0x6c, 0x7a,
    0x4e, 0x67, 0x7d, 0x2c, 0x38, 0x53, 0x2a, 0x3a, 0x23, 0xba, 0x44, 0x42, 0xca, 0xf5, 0x3e, 0xa6,
    0x3b, 0xb4, 0x54, 0x32, 0x9b, 0x76, 0x24, 0xc8, 0x91, 0x7b, 0xdd, 0x64, 0xb1, 0xc0, 0xfd, 0x4c,
    0xb3, 0x8e, 0x8c, 0x33, 0x4c, 0x70, 0x1c, 0x3a, 0xcd, 0xad, 0x06, 0x57, 0xfc, 0xcf, 0xec, 0x71,
    0x9b, 0x1f, 0x5c, 0x3e, 0x4e, 0x46, 0x04, 0x1f, 0x38, 0x81, 0x47, 0xfb, 0x4c, 0xfd, 0xb4, 0x77,
    0xa5, 0x24, 0x71, 0xf7, 0xa9, 0xa9, 0x69, 0x10, 0xb8, 0x55, 0x32, 0x2e, 0xdb, 0x63, 0x40, 0xd8,
    0xa0, 0x0e, 0xf0, 0x92, 0x35, 0x05, 0x11, 0xe3, 0x0a, 0xbe, 0xc1, 0xff, 0xf9, 0xe3, 0xa2, 0x6e,
    0x7f, 0xb2, 0x9f, 0x8c, 0x18, 0x30, 0x23, 0xc3, 0x58, 0x7e, 0x38, 0xda, 0x00, 0x77, 0xd9, 0xb4,
    0x76, 0x3e, 0x4e, 0x4b, 0x94, 0xb2, 0xbb, 0xc1, 0x94, 0xc6, 0x65, 0x1e, 0x77, 0xca, 0xf9, 0x92,
    0xee, 0xaa, 0xc0, 0x23, 0x2a, 0x28, 0x1b, 0xf6, 0xb3, 0xa7, 0x39, 0xc1, 0x22, 0x61, 0x16, 0x82,
    0x0a, 0xe8, 0xdb, 0x58, 0x47, 0xa6, 0x7c, 0xbe, 0xf9, 0xc9, 0x09, 0x1b, 0x46, 0x2d, 0x53, 0x8c,
    0xd7, 0x2b, 0x03, 0x74, 0x6a, 0xe7, 0x7f, 0x5e, 0x62, 0x29, 0x2c, 0x31, 0x15, 0x62, 0xa8, 0x46,
    0x50, 0x5d, 0xc8, 0x2d, 0xb8, 0x54, 0x33, 0x8a, 0xe4, 0x9f, 0x52, 0x35, 0xc9, 0x5b, 0x91, 0x17,
    0x8c, 0xcf, 0x2d, 0xd5, 0xca, 0xce, 0xf4, 0x03, 0xec, 0x9d, 0x18, 0x10, 0xc6, 0x27, 0x2b, 0x04,
    0x5b, 0x3b, 0x71, 0xf9, 0xdc, 0x6b, 0x80, 0xd6, 0x3f, 0xdd, 0x4a, 0x8e, 0x9a, 0xdb, 0x1e, 0x69,
    0x62, 0xa6, 0x95, 0x26, 0xd4, 0x31, 0x61, 0xc1, 0xa4, 0x1d, 0x57, 0x0d, 0x79, 0x38, 0xda, 0xd4,
    0xa4, 0x0e, 0x32, 0x9c, 0xd0, 0xe4, 0x0e, 0x65, 0xff, 0xff, 0xff, 0xff, 0xff, 0xff, 0xff, 0xff]\<rparr>"

definition ffdhe8192_prime :: dh_safe_prime where
  "ffdhe8192_prime = \<lparr>max_strength = 200, sp_size = 1024, sp_p = [
    0xff, 0xff, 0xff, 0xff, 0xff, 0xff, 0xff, 0xff, 0xad, 0xf8, 0x54, 0x58, 0xa2, 0xbb, 0x4a, 0x9a,
    0xaf, 0xdc, 0x56, 0x20, 0x27, 0x3d, 0x3c, 0xf1, 0xd8, 0xb9, 0xc5, 0x83, 0xce, 0x2d, 0x36, 0x95,
    0xa9, 0xe1, 0x36, 0x41, 0x14, 0x64, 0x33, 0xfb, 0xcc, 0x93, 0x9d, 0xce, 0x24, 0x9b, 0x3e, 0xf9,
    0x7d, 0x2f, 0xe3, 0x63, 0x63, 0x0c, 0x75, 0xd8, 0xf6, 0x81, 0xb2, 0x02, 0xae, 0xc4, 0x61, 0x7a,
    0xd3, 0xdf, 0x1e, 0xd5, 0xd5, 0xfd, 0x65, 0x61, 0x24, 0x33, 0xf5, 0x1f, 0x5f, 0x06, 0x6e, 0xd0,
    0x85, 0x63, 0x65, 0x55, 0x3d, 0xed, 0x1a, 0xf3, 0xb5, 0x57, 0x13, 0x5e, 0x7f, 0x57, 0xc9, 0x35,
    0x98, 0x4f, 0x0c, 0x70, 0xe0, 0xe6, 0x8b, 0x77, 0xe2, 0xa6, 0x89, 0xda, 0xf3, 0xef, 0xe8, 0x72,
    0x1d, 0xf1, 0x58, 0xa1, 0x36, 0xad, 0xe7, 0x35, 0x30, 0xac, 0xca, 0x4f, 0x48, 0x3a, 0x79, 0x7a,
    0xbc, 0x0a, 0xb1, 0x82, 0xb3, 0x24, 0xfb, 0x61, 0xd1, 0x08, 0xa9, 0x4b, 0xb2, 0xc8, 0xe3, 0xfb,
    0xb9, 0x6a, 0xda, 0xb7, 0x60, 0xd7, 0xf4, 0x68, 0x1d, 0x4f, 0x42, 0xa3, 0xde, 0x39, 0x4d, 0xf4,
    0xae, 0x56, 0xed, 0xe7, 0x63, 0x72, 0xbb, 0x19, 0x0b, 0x07, 0xa7, 0xc8, 0xee, 0x0a, 0x6d, 0x70,
    0x9e, 0x02, 0xfc, 0xe1, 0xcd, 0xf7, 0xe2, 0xec, 0xc0, 0x34, 0x04, 0xcd, 0x28, 0x34, 0x2f, 0x61,
    0x91, 0x72, 0xfe, 0x9c, 0xe9, 0x85, 0x83, 0xff, 0x8e, 0x4f, 0x12, 0x32, 0xee, 0xf2, 0x81, 0x83,
    0xc3, 0xfe, 0x3b, 0x1b, 0x4c, 0x6f, 0xad, 0x73, 0x3b, 0xb5, 0xfc, 0xbc, 0x2e, 0xc2, 0x20, 0x05,
    0xc5, 0x8e, 0xf1, 0x83, 0x7d, 0x16, 0x83, 0xb2, 0xc6, 0xf3, 0x4a, 0x26, 0xc1, 0xb2, 0xef, 0xfa,
    0x88, 0x6b, 0x42, 0x38, 0x61, 0x1f, 0xcf, 0xdc, 0xde, 0x35, 0x5b, 0x3b, 0x65, 0x19, 0x03, 0x5b,
    0xbc, 0x34, 0xf4, 0xde, 0xf9, 0x9c, 0x02, 0x38, 0x61, 0xb4, 0x6f, 0xc9, 0xd6, 0xe6, 0xc9, 0x07,
    0x7a, 0xd9, 0x1d, 0x26, 0x91, 0xf7, 0xf7, 0xee, 0x59, 0x8c, 0xb0, 0xfa, 0xc1, 0x86, 0xd9, 0x1c,
    0xae, 0xfe, 0x13, 0x09, 0x85, 0x13, 0x92, 0x70, 0xb4, 0x13, 0x0c, 0x93, 0xbc, 0x43, 0x79, 0x44,
    0xf4, 0xfd, 0x44, 0x52, 0xe2, 0xd7, 0x4d, 0xd3, 0x64, 0xf2, 0xe2, 0x1e, 0x71, 0xf5, 0x4b, 0xff,
    0x5c, 0xae, 0x82, 0xab, 0x9c, 0x9d, 0xf6, 0x9e, 0xe8, 0x6d, 0x2b, 0xc5, 0x22, 0x36, 0x3a, 0x0d,
    0xab, 0xc5, 0x21, 0x97, 0x9b, 0x0d, 0xea, 0xda, 0x1d, 0xbf, 0x9a, 0x42, 0xd5, 0xc4, 0x48, 0x4e,
    0x0a, 0xbc, 0xd0, 0x6b, 0xfa, 0x53, 0xdd, 0xef, 0x3c, 0x1b, 0x20, 0xee, 0x3f, 0xd5, 0x9d, 0x7c,
    0x25, 0xe4, 0x1d, 0x2b, 0x66, 0x9e, 0x1e, 0xf1, 0x6e, 0x6f, 0x52, 0xc3, 0x16, 0x4d, 0xf4, 0xfb,
    0x79, 0x30, 0xe9, 0xe4, 0xe5, 0x88, 0x57, 0xb6, 0xac, 0x7d, 0x5f, 0x42, 0xd6, 0x9f, 0x6d, 0x18,
    0x77, 0x63, 0xcf, 0x1d, 0x55, 0x03, 0x40, 0x04, 0x87, 0xf5, 0x5b, 0xa5, 0x7e, 0x31, 0xcc, 0x7a,
    0x71, 0x35, 0xc8, 0x86, 0xef, 0xb4, 0x31, 0x8a, 0xed, 0x6a, 0x1e, 0x01, 0x2d, 0x9e, 0x68, 0x32,
    0xa9, 0x07, 0x60, 0x0a, 0x91, 0x81, 0x30, 0xc4, 0x6d, 0xc7, 0x78, 0xf9, 0x71, 0xad, 0x00, 0x38,
    0x09, 0x29, 0x99, 0xa3, 0x33, 0xcb, 0x8b, 0x7a, 0x1a, 0x1d, 0xb9, 0x3d, 0x71, 0x40, 0x00, 0x3c,
    0x2a, 0x4e, 0xce, 0xa9, 0xf9, 0x8d, 0x0a, 0xcc, 0x0a, 0x82, 0x91, 0xcd, 0xce, 0xc9, 0x7d, 0xcf,
    0x8e, 0xc9, 0xb5, 0x5a, 0x7f, 0x88, 0xa4, 0x6b, 0x4d, 0xb5, 0xa8, 0x51, 0xf4, 0x41, 0x82, 0xe1,
    0xc6, 0x8a, 0x00, 0x7e, 0x5e, 0x0d, 0xd9, 0x02, 0x0b, 0xfd, 0x64, 0xb6, 0x45, 0x03, 0x6c, 0x7a,
    0x4e, 0x67, 0x7d, 0x2c, 0x38, 0x53, 0x2a, 0x3a, 0x23, 0xba, 0x44, 0x42, 0xca, 0xf5, 0x3e, 0xa6,
    0x3b, 0xb4, 0x54, 0x32, 0x9b, 0x76, 0x24, 0xc8, 0x91, 0x7b, 0xdd, 0x64, 0xb1, 0xc0, 0xfd, 0x4c,
    0xb3, 0x8e, 0x8c, 0x33, 0x4c, 0x70, 0x1c, 0x3a, 0xcd, 0xad, 0x06, 0x57, 0xfc, 0xcf, 0xec, 0x71,
    0x9b, 0x1f, 0x5c, 0x3e, 0x4e, 0x46, 0x04, 0x1f, 0x38, 0x81, 0x47, 0xfb, 0x4c, 0xfd, 0xb4, 0x77,
    0xa5, 0x24, 0x71, 0xf7, 0xa9, 0xa9, 0x69, 0x10, 0xb8, 0x55, 0x32, 0x2e, 0xdb, 0x63, 0x40, 0xd8,
    0xa0, 0x0e, 0xf0, 0x92, 0x35, 0x05, 0x11, 0xe3, 0x0a, 0xbe, 0xc1, 0xff, 0xf9, 0xe3, 0xa2, 0x6e,
    0x7f, 0xb2, 0x9f, 0x8c, 0x18, 0x30, 0x23, 0xc3, 0x58, 0x7e, 0x38, 0xda, 0x00, 0x77, 0xd9, 0xb4,
    0x76, 0x3e, 0x4e, 0x4b, 0x94, 0xb2, 0xbb, 0xc1, 0x94, 0xc6, 0x65, 0x1e, 0x77, 0xca, 0xf9, 0x92,
    0xee, 0xaa, 0xc0, 0x23, 0x2a, 0x28, 0x1b, 0xf6, 0xb3, 0xa7, 0x39, 0xc1, 0x22, 0x61, 0x16, 0x82,
    0x0a, 0xe8, 0xdb, 0x58, 0x47, 0xa6, 0x7c, 0xbe, 0xf9, 0xc9, 0x09, 0x1b, 0x46, 0x2d, 0x53, 0x8c,
    0xd7, 0x2b, 0x03, 0x74, 0x6a, 0xe7, 0x7f, 0x5e, 0x62, 0x29, 0x2c, 0x31, 0x15, 0x62, 0xa8, 0x46,
    0x50, 0x5d, 0xc8, 0x2d, 0xb8, 0x54, 0x33, 0x8a, 0xe4, 0x9f, 0x52, 0x35, 0xc9, 0x5b, 0x91, 0x17,
    0x8c, 0xcf, 0x2d, 0xd5, 0xca, 0xce, 0xf4, 0x03, 0xec, 0x9d, 0x18, 0x10, 0xc6, 0x27, 0x2b, 0x04,
    0x5b, 0x3b, 0x71, 0xf9, 0xdc, 0x6b, 0x80, 0xd6, 0x3f, 0xdd, 0x4a, 0x8e, 0x9a, 0xdb, 0x1e, 0x69,
    0x62, 0xa6, 0x95, 0x26, 0xd4, 0x31, 0x61, 0xc1, 0xa4, 0x1d, 0x57, 0x0d, 0x79, 0x38, 0xda, 0xd4,
    0xa4, 0x0e, 0x32, 0x9c, 0xcf, 0xf4, 0x6a, 0xaa, 0x36, 0xad, 0x00, 0x4c, 0xf6, 0x00, 0xc8, 0x38,
    0x1e, 0x42, 0x5a, 0x31, 0xd9, 0x51, 0xae, 0x64, 0xfd, 0xb2, 0x3f, 0xce, 0xc9, 0x50, 0x9d, 0x43,
    0x68, 0x7f, 0xeb, 0x69, 0xed, 0xd1, 0xcc, 0x5e, 0x0b, 0x8c, 0xc3, 0xbd, 0xf6, 0x4b, 0x10, 0xef,
    0x86, 0xb6, 0x31, 0x42, 0xa3, 0xab, 0x88, 0x29, 0x55, 0x5b, 0x2f, 0x74, 0x7c, 0x93, 0x26, 0x65,
    0xcb, 0x2c, 0x0f, 0x1c, 0xc0, 0x1b, 0xd7, 0x02, 0x29, 0x38, 0x88, 0x39, 0xd2, 0xaf, 0x05, 0xe4,
    0x54, 0x50, 0x4a, 0xc7, 0x8b, 0x75, 0x82, 0x82, 0x28, 0x46, 0xc0, 0xba, 0x35, 0xc3, 0x5f, 0x5c,
    0x59, 0x16, 0x0c, 0xc0, 0x46, 0xfd, 0x82, 0x51, 0x54, 0x1f, 0xc6, 0x8c, 0x9c, 0x86, 0xb0, 0x22,
    0xbb, 0x70, 0x99, 0x87, 0x6a, 0x46, 0x0e, 0x74, 0x51, 0xa8, 0xa9, 0x31, 0x09, 0x70, 0x3f, 0xee,
    0x1c, 0x21, 0x7e, 0x6c, 0x38, 0x26, 0xe5, 0x2c, 0x51, 0xaa, 0x69, 0x1e, 0x0e, 0x42, 0x3c, 0xfc,
    0x99, 0xe9, 0xe3, 0x16, 0x50, 0xc1, 0x21, 0x7b, 0x62, 0x48, 0x16, 0xcd, 0xad, 0x9a, 0x95, 0xf9,
    0xd5, 0xb8, 0x01, 0x94, 0x88, 0xd9, 0xc0, 0xa0, 0xa1, 0xfe, 0x30, 0x75, 0xa5, 0x77, 0xe2, 0x31,
    0x83, 0xf8, 0x1d, 0x4a, 0x3f, 0x2f, 0xa4, 0x57, 0x1e, 0xfc, 0x8c, 0xe0, 0xba, 0x8a, 0x4f, 0xe8,
    0xb6, 0x85, 0x5d, 0xfe, 0x72, 0xb0, 0xa6, 0x6e, 0xde, 0xd2, 0xfb, 0xab, 0xfb, 0xe5, 0x8a, 0x30,
    0xfa, 0xfa, 0xbe, 0x1c, 0x5d, 0x71, 0xa8, 0x7e, 0x2f, 0x74, 0x1e, 0xf8, 0xc1, 0xfe, 0x86, 0xfe,
    0xa6, 0xbb, 0xfd, 0xe5, 0x30, 0x67, 0x7f, 0x0d, 0x97, 0xd1, 0x1d, 0x49, 0xf7, 0xa8, 0x44, 0x3d,
    0x08, 0x22, 0xe5, 0x06, 0xa9, 0xf4, 0x61, 0x4e, 0x01, 0x1e, 0x2a, 0x94, 0x83, 0x8f, 0xf8, 0x8c,
    0xd6, 0x8c, 0x8b, 0xb7, 0xc5, 0xc6, 0x42, 0x4c, 0xff, 0xff, 0xff, 0xff, 0xff, 0xff, 0xff, 0xff]\<rparr>"

definition safe_prime_g :: bytes where
  "safe_prime_g = [2]"

definition safe_prime_groups :: "dh_safe_prime list" where
  "safe_prime_groups = [ffdhe2048_prime, ffdhe3072_prime, ffdhe4096_prime, ffdhe6144_prime, ffdhe8192_prime]"

section \<open>Private keys\<close>

text \<open>The addition runs from the last word towards the first while there is a carry.\<close>

fun add_words_rev :: "u64 list \<Rightarrow> u64 \<Rightarrow> u64 list \<times> u64" where
  "add_words_rev [] val = ([], val)"
| "add_words_rev (d # ds) val =
    (if val = 0 then (d # ds, val)
     else
       let tmp = d + val; carry = (if tmp \<ge> val then 0 else 1); (ds', r) = add_words_rev ds carry
       in (tmp # ds', r))"

definition add_u64_to_be :: "u64 list \<Rightarrow> u64 \<Rightarrow> u64 list \<times> u64" where
  "add_u64_to_be dst val = (let (ds, r) = add_words_rev (rev dst) val in (rev ds, r))"

fun words_be :: "nat \<Rightarrow> bytes \<Rightarrow> u64 list" where
  "words_be 0 bs = []"
| "words_be (Suc n) bs = get_be64 bs # words_be n (drop 8 bs)"

fun roundup_pow_of_two_from :: "nat \<Rightarrow> nat \<Rightarrow> nat \<Rightarrow> nat" where
  "roundup_pow_of_two_from 0 p n = p"
| "roundup_pow_of_two_from (Suc fuel) p n = (if n \<le> p then p else roundup_pow_of_two_from fuel (2 * p) n)"

text \<open>The kernel's \<open>roundup_pow_of_two\<close>: the least power of two not below its argument, at most \<open>2 ^ 32\<close>.\<close>

definition roundup_pow_of_two :: "nat \<Rightarrow> nat" where
  "roundup_pow_of_two n = roundup_pow_of_two_from 32 1 n"

definition dh_safe_prime_gen_privkey ::
    "dh_safe_prime \<Rightarrow> bool \<Rightarrow> bool \<Rightarrow> (nat \<Rightarrow> errno + bytes) \<Rightarrow> errno + bytes" where
  "dh_safe_prime_gen_privkey safe_prime alloc no_rng rng =
    (let n = drop_bit 6 (roundup_pow_of_two (2 * max_strength safe_prime)); oversampling_size = (n + 1) * 8
     in if \<not> alloc then Inl ENOMEM
        else if no_rng then Inl EFAULT
        else bind_err (rng oversampling_size) (\<lambda>bs.
          let key = words_be (n + 1) bs; h = hd key;
              (k1, h) = add_u64_to_be (tl key) h;
              (k2, h) = add_u64_to_be k1 h;
              (k3, carry) = add_u64_to_be k2 1;
              k4 = (if carry \<noteq> 0 then k3[n - 1 := 1] else k3)
          in Inr (concat (map put_be64 k4))))"

section \<open>Setting a secret\<close>

text \<open>
  The underlying \<open>dh\<close> receives the packed parameters. \<open>buffer\<close> is the caller's packed key, absent for a
  generated one; \<open>alloc\<close> tells whether the allocations of the key and of the packed buffer succeed.
\<close>

definition dh_safe_prime_params :: "dh_safe_prime \<Rightarrow> bytes \<Rightarrow> u32 \<Rightarrow> dh" where
  "dh_safe_prime_params sp key key_size =
    \<lparr>dh_key = key, dh_p = sp_p sp, dh_g = safe_prime_g, dh_key_size = key_size, dh_p_size = sp_size sp, dh_g_size = 1\<rparr>"

definition dh_safe_prime_set_child ::
    "kpp_abi \<Rightarrow> (bytes option \<Rightarrow> (errno option \<times> 'c) option) \<Rightarrow> 'c \<Rightarrow> bool \<Rightarrow> dh \<Rightarrow> (errno option \<times> 'c) option" where
  "dh_safe_prime_set_child abi child_set_secret child alloc params =
    (if \<not> alloc then Some (Some ENOMEM, child)
     else case crypto_dh_encode_key abi False (crypto_dh_key_len abi params) params of
       None \<Rightarrow> None
     | Some (Inl err) \<Rightarrow> Some (Some err, child)
     | Some (Inr buf) \<Rightarrow> child_set_secret (Some buf))"

definition dh_safe_prime_set_secret ::
    "kpp_abi \<Rightarrow> (bytes option \<Rightarrow> (errno option \<times> 'c) option) \<Rightarrow> 'c \<Rightarrow> dh_safe_prime \<Rightarrow> (nat \<Rightarrow> bool) \<Rightarrow>
     bool \<Rightarrow> (nat \<Rightarrow> errno + bytes) \<Rightarrow> bytes option \<Rightarrow> (errno option \<times> 'c) option" where
  "dh_safe_prime_set_secret abi child_set_secret child sp alloc no_rng rng buffer =
    (let decoded = (case buffer of
         None \<Rightarrow> Inr ([], 0)
       | Some b \<Rightarrow> bind_err (dh_decode_key_raw abi (Some b)) (\<lambda>params.
           if dh_p_size params \<noteq> 0 \<or> dh_g_size params \<noteq> 0 then Inl EINVAL
           else Inr (dh_key params, dh_key_size params)))
     in case decoded of
       Inl err \<Rightarrow> Some (Some err, child)
     | Inr (key, key_size) \<Rightarrow>
       if key_size \<noteq> 0 then dh_safe_prime_set_child abi child_set_secret child (alloc 1) (dh_safe_prime_params sp key key_size)
       else case dh_safe_prime_gen_privkey sp (alloc 0) no_rng rng of
         Inl err \<Rightarrow> Some (Some err, child)
       | Inr key \<Rightarrow>
         dh_safe_prime_set_child abi child_set_secret child (alloc 1) (dh_safe_prime_params sp key (of_nat (length key))))"

text \<open>Requests are passed on to the underlying \<open>dh\<close>.\<close>

definition dh_safe_prime_compute :: "mpi_lib \<Rightarrow> bool \<Rightarrow> dh_ctx \<Rightarrow> bytes option \<Rightarrow> nat \<Rightarrow> errno + bytes" where
  "dh_safe_prime_compute lib fips_enabled child src dst_len = dh_compute_value lib fips_enabled child src dst_len"

section \<open>The value of a private key\<close>

fun words_le_val :: "u64 list \<Rightarrow> nat" where
  "words_le_val [] = 0"
| "words_le_val (w # ws) = unat w + 2 ^ 64 * words_le_val ws"

definition words_val :: "u64 list \<Rightarrow> nat" where
  "words_val ws = words_le_val (rev ws)"

lemma words_le_val_append: "words_le_val (xs @ ys) = words_le_val xs + (2 ^ 64) ^ length xs * words_le_val ys"
  by (induction xs) (auto simp: algebra_simps)

lemma words_val_Cons: "words_val (w # ws) = unat w * (2 ^ 64) ^ length ws + words_val ws"
  by (simp add: words_val_def words_le_val_append)

lemma words_le_val_less: "words_le_val ws < (2 ^ 64) ^ length ws"
proof (induction ws)
  case (Cons w ws)
  have "unat w < 2 ^ LENGTH(64)" by (rule unsigned_less)
  then have "unat w + 2 ^ 64 * words_le_val ws < 2 ^ 64 * (words_le_val ws + 1)" by simp
  also have "\<dots> \<le> 2 ^ 64 * (2 ^ 64) ^ length ws" using Cons by (intro mult_le_mono2) simp
  finally show ?case by simp
qed simp

lemma words_val_less: "words_val ws < (2 ^ 64) ^ length ws"
  using words_le_val_less [of "rev ws"] by (simp add: words_val_def)

lemma words_le_val_0: "words_le_val ws = 0 \<Longrightarrow> ws = replicate (length ws) 0"
proof (induction ws)
  case (Cons w ws)
  then have "unat w = 0" by simp
  with Cons show ?case by (simp add: unat_eq_zero)
qed simp

lemma add_carry:
  "unat (d + val :: u64) + 2 ^ 64 * (if d + val \<ge> val then 0 else 1) = unat d + unat val"
proof -
  have d: "unat d < 2 ^ 64" "unat val < 2 ^ 64" using unsigned_less [of d] unsigned_less [of val] by simp_all
  have s: "unat (d + val) = (unat d + unat val) mod 2 ^ 64" by (simp add: unat_word_ariths)
  show ?thesis
  proof (cases "unat d + unat val < 2 ^ 64")
    case True
    then show ?thesis using s by (simp add: word_le_nat_alt)
  next
    case False
    then have "(unat d + unat val) mod 2 ^ 64 = unat d + unat val - 2 ^ 64" using d by (simp add: le_mod_geq)
    then show ?thesis using s d False by (auto simp: word_le_nat_alt)
  qed
qed

lemma add_words_rev:
  "add_words_rev ds val = (ds', r) \<Longrightarrow> length ds' = length ds \<and>
    words_le_val ds' + (2 ^ 64) ^ length ds * unat r = words_le_val ds + unat val \<and> (ds \<noteq> [] \<longrightarrow> unat r \<le> 1)"
proof (induction ds val arbitrary: ds' r rule: add_words_rev.induct)
  case (2 d ds val)
  show ?case
  proof (cases "val = 0")
    case False
    define c :: u64 where "c = (if d + val \<ge> val then 0 else 1)"
    obtain es where es: "add_words_rev ds c = (es, r)" "ds' = (d + val) # es"
      using 2(2) False by (auto simp: c_def Let_def split: prod.splits)
    from 2(1) [OF False refl c_def es(1)]
    have IH: "length es = length ds" "words_le_val es + (2 ^ 64) ^ length ds * unat r = words_le_val ds + unat c"
        "ds \<noteq> [] \<longrightarrow> unat r \<le> 1" by simp_all
    have c: "unat (d + val) + 2 ^ 64 * unat c = unat d + unat val" using add_carry [of d val]
      by (cases "val \<le> d + val") (simp_all add: c_def)
    have "unat c \<le> 1" by (simp add: c_def)
    then have r: "unat r \<le> 1" using IH(3) es(1) by (cases ds) auto
    have "words_le_val ds' + (2 ^ 64) ^ length (d # ds) * unat r =
        unat (d + val) + 2 ^ 64 * (words_le_val es + (2 ^ 64) ^ length ds * unat r)"
      by (simp add: es(2) algebra_simps)
    also have "\<dots> = unat d + unat val + 2 ^ 64 * words_le_val ds" unfolding IH(2) using c by (simp add: algebra_simps)
    finally show ?thesis using r IH(1) es(2) by simp
  qed (use 2(2) in auto)
qed simp

lemma add_u64_to_be:
  assumes "add_u64_to_be ws val = (ws', r)" "ws \<noteq> []"
  shows "length ws' = length ws" "words_val ws' + (2 ^ 64) ^ length ws * unat r = words_val ws + unat val" "unat r \<le> 1"
proof -
  obtain ds where d: "add_words_rev (rev ws) val = (ds, r)" "ws' = rev ds"
    using assms(1) by (auto simp: add_u64_to_be_def split: prod.splits)
  from add_words_rev [OF d(1)] assms(2)
  show "length ws' = length ws" "words_val ws' + (2 ^ 64) ^ length ws * unat r = words_val ws + unat val" "unat r \<le> 1"
    by (simp_all add: d(2) words_val_def)
qed

lemma words_be: "length bs = 8 * n \<Longrightarrow> length (words_be n bs) = n \<and> words_val (words_be n bs) = be_val bs"
proof (induction n arbitrary: bs)
  case (Suc n)
  have l: "length (take 8 bs) = 8" "length (drop 8 bs) = 8 * n" using Suc.prems by simp_all
  have "be_val bs = be_val (take 8 bs) * 256 ^ (8 * n) + be_val (drop 8 bs)"
    using be_val_append [of "take 8 bs" "drop 8 bs"] l(2) by simp
  moreover have "unat (get_be64 bs) = be_val (take 8 bs)" using unat_get_be64 [OF l(1)] by simp
  moreover have "(256 :: nat) ^ (8 * n) = (2 ^ 64) ^ n" by (simp add: power_mult)
  ultimately show ?case using Suc.IH [OF l(2)] by (simp add: words_val_Cons)
qed (simp add: words_val_def)

lemma be_val_words: "be_val (concat (map put_be64 ws)) = words_val ws \<and> length (concat (map put_be64 ws)) = 8 * length ws"
proof (induction ws)
  case (Cons w ws)
  have "be_val (put_be64 w) = unat w" using unat_get_be64 [of "put_be64 w"] by simp
  moreover have "(256 :: nat) ^ (8 * length ws) = (2 ^ 64) ^ length ws" by (simp add: power_mult)
  ultimately show ?case using Cons by (simp add: words_val_Cons be_val_append)
qed (simp add: words_val_def)

text \<open>The two additions reduce modulo \<open>2 ^ N - 1\<close>, up to the representation of zero.\<close>

lemma twice_added:
  fixes M :: nat
  assumes "l < M" "h < M" "1 < M" "k1 + M * h1 = l + h" "h1 \<le> 1" "k2 + M * h2 = k1 + h1" "k1 < M" "h2 \<le> 1"
  shows "h2 = 0 \<and> k2 < M \<and> (k2 + 1 = M \<or> k2 = (h * M + l) mod (M - 1)) \<and> (k2 + 1 = M \<longrightarrow> (h * M + l) mod (M - 1) = 0)"
proof -
  have "h1 = 0 \<or> h1 = 1" using assms(5) by auto
  then have k: "h2 = 0 \<and> k2 = k1 + h1 \<and> k2 < M"
  proof
    assume h1: "h1 = 1"
    then have "k1 + M = l + h" using assms(4) by simp
    then have "k1 + 1 < M" using assms(1,2) by linarith
    moreover have "h2 = 0 \<or> h2 = 1" using assms(8) by auto
    ultimately show ?thesis using assms(6) h1 by auto
  next
    assume h1: "h1 = 0"
    moreover have "h2 = 0 \<or> h2 = 1" using assms(8) by auto
    ultimately show ?thesis using assms(6,7) by auto
  qed
  have "h * M + l = k2 + (h + h1) * (M - 1)"
  proof -
    obtain m where m: "M = Suc m" using assms(3) by (cases M) auto
    show ?thesis using assms(4) k by (simp add: m algebra_simps)
  qed
  then have r: "(h * M + l) mod (M - 1) = k2 mod (M - 1)" by simp
  show ?thesis
  proof (cases "k2 + 1 = M")
    case True
    then have "k2 = M - 1" by simp
    then show ?thesis using k r by simp
  next
    case False
    then have "k2 mod (M - 1) = k2" using k by (intro mod_less) linarith
    then show ?thesis using k r False by metis
  qed
qed

lemma gen_privkey_words:
  assumes "length bs = 8 * (n + 1)" "0 < n"
  defines "key \<equiv> words_be (n + 1) bs"
  assumes k1: "add_u64_to_be (tl key) (hd key) = (k1, h1)" and k2: "add_u64_to_be k1 h1 = (k2, h2)"
    and k3: "add_u64_to_be k2 1 = (k3, carry)"
  shows "length (if carry \<noteq> 0 then k3[n - 1 := 1] else k3) = n \<and>
    words_val (if carry \<noteq> 0 then k3[n - 1 := 1] else k3) = be_val bs mod ((2 ^ 64) ^ n - 1) + 1"
proof -
  define M :: nat where "M = (2 ^ 64) ^ n"
  have M: "2 ^ 64 \<le> M" unfolding M_def using assms(2) by (intro self_le_power) simp_all
  have key: "length key = n + 1" "words_val key = be_val bs" unfolding key_def using words_be [of bs "n + 1"] assms(1) by simp_all
  then obtain h l where hl: "key = h # l" "length l = n" by (cases key) auto
  have v: "be_val bs = unat h * M + words_val l" using key(2) hl by (simp add: words_val_Cons M_def)
  have ne: "l \<noteq> []" using hl(2) assms(2) by auto
  note a1 = add_u64_to_be [of l h k1 h1, OF _ ne] and a2 = add_u64_to_be [OF k2] and a3 = add_u64_to_be [OF k3]
  have l1: "length k1 = n" "words_val k1 + M * unat h1 = words_val l + unat h" "unat h1 \<le> 1"
    using a1 k1 hl by (simp_all add: M_def)
  then have ne1: "k1 \<noteq> []" using assms(2) by auto
  have l2: "length k2 = n" "words_val k2 + M * unat h2 = words_val k1 + unat h1" "unat h2 \<le> 1"
    using a2 ne1 l1(1) by (simp_all add: M_def)
  then have ne2: "k2 \<noteq> []" using assms(2) by auto
  have l3: "length k3 = n" "words_val k3 + M * unat carry = words_val k2 + 1" "unat carry \<le> 1"
    using a3 ne2 l2(1) by (simp_all add: M_def)
  have b: "words_val l < M" "words_val k1 < M" "words_val k2 < M" "words_val k3 < M"
    using words_val_less [of l] words_val_less [of k1] words_val_less [of k2] words_val_less [of k3]
    by (simp_all add: M_def hl(2) l1(1) l2(1) l3(1))
  have "unat h < 2 ^ LENGTH(64)" by (rule unsigned_less)
  then have h: "unat h < M" using M by simp
  have t: "words_val k2 + 1 = M \<or> words_val k2 = be_val bs mod (M - 1)" "words_val k2 + 1 = M \<longrightarrow> be_val bs mod (M - 1) = 0"
    using twice_added [OF b(1) h _ l1(2,3) l2(2) b(2) l2(3)] M unfolding v by auto
  show ?thesis
  proof (cases "words_val k2 + 1 = M")
    case True
    then have c: "unat carry = 1" using l3 b(4) by (cases "unat carry") auto
    then have "words_val k3 = 0" using l3(2) True by simp
    then have k0: "k3 = replicate n 0" using words_le_val_0 [of "rev k3"] l3(1) by (simp add: words_val_def rev_swap)
    have "k3[n - 1 := 1] = replicate (n - 1) 0 @ [1]"
    proof -
      have "replicate n (0 :: u64) = replicate (n - 1) 0 @ [0]" using assms(2)
        by (metis Suc_diff_1 replicate_Suc replicate_append_same)
      then show ?thesis unfolding k0 by (simp add: list_update_append)
    qed
    moreover have "words_val (replicate m 0 @ [1]) = 1" for m
      by (simp add: words_val_def) (induction m, simp_all add: words_le_val_append replicate_append_same [symmetric])
    moreover have "carry \<noteq> 0" using c by auto
    ultimately show ?thesis unfolding M_def [symmetric] using t(2) True l3(1) assms(2) by simp
  next
    case False
    then have "unat carry = 0" using l3 b(3) by (cases "unat carry") auto
    then have "carry = 0" by (simp add: unat_eq_zero)
    then show ?thesis unfolding M_def [symmetric] using t(1) False l3 by simp
  qed
qed

definition privkey_words :: "dh_safe_prime \<Rightarrow> nat" where
  "privkey_words sp = drop_bit 6 (roundup_pow_of_two (2 * max_strength sp))"

lemma gen_privkey:
  assumes n: "privkey_words sp = n" "0 < n" and r: "rng (8 * (n + 1)) = Inr bs" "length bs = 8 * (n + 1)"
  shows "\<exists>key. dh_safe_prime_gen_privkey sp True False rng = Inr key \<and> length key = 8 * n \<and>
    be_val key = be_val bs mod ((2 ^ 64) ^ n - 1) + 1"
proof -
  define key where "key = words_be (Suc n) bs"
  obtain k1 h1 where k1: "add_u64_to_be (tl key) (hd key) = (k1, h1)" by (cases "add_u64_to_be (tl key) (hd key)")
  obtain k2 h2 where k2: "add_u64_to_be k1 h1 = (k2, h2)" by (cases "add_u64_to_be k1 h1")
  obtain k3 c where k3: "add_u64_to_be k2 1 = (k3, c)" by (cases "add_u64_to_be k2 1")
  define k4 where "k4 = (if c \<noteq> 0 then k3[n - 1 := 1] else k3)"
  have v: "length k4 = n" "words_val k4 = be_val bs mod ((2 ^ 64) ^ n - 1) + 1"
    using gen_privkey_words [OF r(2) n(2) _ k2 k3] k1 by (simp_all only: k4_def key_def Suc_eq_plus1)
  have "rng ((n + 1) * 8) = Inr bs" using r(1) by (simp only: mult.commute)
  then have "dh_safe_prime_gen_privkey sp True False rng = Inr (concat (map put_be64 k4))"
    unfolding dh_safe_prime_gen_privkey_def n(1) [unfolded privkey_words_def] Let_def
    by (simp add: key_def [symmetric] k1 k2 k3 k4_def del: words_be.simps)
  then show ?thesis using be_val_words [of k4] v by metis
qed

section \<open>The five groups\<close>

text \<open>What the code assumes of an entry: the size of the prime, an odd value, and room for private keys below \<open>q\<close>.\<close>

definition group_ok :: "dh_safe_prime \<Rightarrow> bool" where
  "group_ok sp \<longleftrightarrow> (let n = privkey_words sp in
    4 \<le> n \<and> roundup_pow_of_two (2 * max_strength sp) = 64 * n \<and> length (sp_p sp) = unat (sp_size sp) \<and>
    256 \<le> unat (sp_size sp) \<and> unat (sp_size sp) \<le> 1024 \<and> 8 * n + 2 \<le> unat (sp_size sp) \<and>
    sp_p sp \<noteq> [] \<and> hd (sp_p sp) = 0xff \<and> odd (unat (last (sp_p sp))))"

lemma roundup_values:
  "roundup_pow_of_two 224 = 256" "roundup_pow_of_two 256 = 256" "roundup_pow_of_two 304 = 512"
  "roundup_pow_of_two 352 = 512" "roundup_pow_of_two 400 = 512"
  by (simp_all add: roundup_pow_of_two_def numeral_eq_Suc)

lemma drop_6: "drop_bit 6 (256 :: nat) = 4" "drop_bit 6 (512 :: nat) = 8"
  by (simp_all add: drop_bit_eq_div)

lemma group_2048: "group_ok ffdhe2048_prime"
  by code_simp

lemma group_3072: "group_ok ffdhe3072_prime"
  by code_simp

lemma group_4096: "group_ok ffdhe4096_prime"
  by code_simp

lemma group_6144: "group_ok ffdhe6144_prime"
  by code_simp

lemma group_8192: "group_ok ffdhe8192_prime"
  by code_simp

lemma groups_ok: "sp \<in> set safe_prime_groups \<Longrightarrow> group_ok sp"
  using group_2048 group_3072 group_4096 group_6144 group_8192 by (auto simp: safe_prime_groups_def)

lemma group_prime_large:
  assumes "group_ok sp"
  shows "2 * (2 ^ 64) ^ privkey_words sp + 1 < be_val (sp_p sp)" "odd (be_val (sp_p sp))"
proof -
  define n where "n = privkey_words sp"
  have g: "8 * n + 2 \<le> length (sp_p sp)" "sp_p sp \<noteq> []" "hd (sp_p sp) = 0xff" "odd (unat (last (sp_p sp)))"
    using assms by (simp_all add: group_ok_def Let_def n_def)
  obtain t where t: "sp_p sp = 0xff # t" using g(2,3) by (cases "sp_p sp") auto
  have v: "be_val (sp_p sp) = 255 * 256 ^ length t + be_val t" using be_val_append [of "[0xff]" t] t by simp
  have "(256 :: nat) ^ (8 * n + 1) \<le> 256 ^ length t" using g(1) t by (intro power_increasing) simp_all
  moreover have "(256 :: nat) ^ (8 * n + 1) = 256 * (2 ^ 64) ^ n" by (simp add: power_mult)
  moreover have "1 \<le> ((2 :: nat) ^ 64) ^ n" by simp
  ultimately show "2 * (2 ^ 64) ^ privkey_words sp + 1 < be_val (sp_p sp)" unfolding v n_def [symmetric] by linarith
  have "sp_p sp = butlast (sp_p sp) @ [last (sp_p sp)]" using g(2) by simp
  then have "be_val (sp_p sp) = be_val (butlast (sp_p sp)) * 256 + unat (last (sp_p sp))"
    using be_val_append [of "butlast (sp_p sp)" "[last (sp_p sp)]"] by simp
  then show "odd (be_val (sp_p sp))" using g(4) by simp
qed

lemma privkey_range:
  assumes "group_ok sp" "length bs = 8 * (privkey_words sp + 1)"
  shows "be_val bs mod ((2 ^ 64) ^ privkey_words sp - 1) + 1 < (be_val (sp_p sp) - 1) div 2"
proof -
  define M :: nat where "M = (2 ^ 64) ^ privkey_words sp"
  have "4 \<le> privkey_words sp" using assms(1) by (simp add: group_ok_def Let_def)
  then have "2 ^ 64 \<le> M" unfolding M_def by (intro self_le_power) simp_all
  then have "be_val bs mod (M - 1) < M - 1" by (intro mod_less_divisor) simp
  moreover have "2 * M + 1 < be_val (sp_p sp)" using group_prime_large(1) [OF assms(1)] by (simp add: M_def)
  then have "M \<le> (be_val (sp_p sp) - 1) div 2" by linarith
  ultimately show ?thesis unfolding M_def [symmetric] by linarith
qed

section \<open>Setting a key of a group\<close>

lemma params_length_ok:
  assumes "256 \<le> unat (w :: u32)" "unat w \<le> 1024"
  shows "dh_check_params_length fips (push_bit 3 w) = None"
proof -
  have "unat (push_bit 3 w) = 8 * unat w" using assms by (simp add: push_bit_eq_mult unat_word_ariths)
  then have "\<not> push_bit 3 w < 2048" "\<not> push_bit 3 w < 1536" using assms by (simp_all add: word_less_nat_alt)
  then show ?thesis by (simp add: dh_check_params_length_def)
qed

lemma group_params_wf:
  assumes "kpp_layout abi" "group_ok sp" "length key = unat ks" "unat ks \<le> unat (sp_size sp)"
  shows "dh_wf abi (dh_safe_prime_params sp key ks)"
proof -
  have "unat (sp_size sp) \<le> 1024" "length (sp_p sp) = unat (sp_size sp)"
    using assms(2) by (simp_all add: group_ok_def Let_def)
  moreover have "secret_size abi < 2 ^ 8" by (rule kpp_layout.small [OF assms(1)])
  ultimately show ?thesis using assms(3,4) by (simp add: dh_wf_def dh_safe_prime_params_def safe_prime_g_def)
qed

lemma set_child:
  assumes lib: "mpi_laws lib" and abi: "kpp_layout abi" and sp: "group_ok sp"
    and k: "length key = unat ks" "unat ks \<le> unat (sp_size sp)"
  shows "dh_safe_prime_set_child abi (dh_set_secret lib abi fips) child True (dh_safe_prime_params sp key ks) =
    Some (None, \<lparr>ctx_p = Some (int (be_val (sp_p sp))), ctx_g = Some 2, ctx_xa = Some (int (be_val key))\<rparr>)"
proof -
  let ?p = "dh_safe_prime_params sp key ks"
  have wf: "dh_wf abi ?p" by (rule group_params_wf [OF abi sp k])
  obtain buf where b: "crypto_dh_encode_key abi False (crypto_dh_key_len abi ?p) ?p = Some (Inr buf)"
    using kpp_layout.dh_encode [OF abi wf] by blast
  have g: "length (sp_p sp) = unat (sp_size sp)" "256 \<le> unat (sp_size sp)" "unat (sp_size sp) \<le> 1024"
      "sp_p sp \<noteq> []" "hd (sp_p sp) = 0xff" using sp by (simp_all add: group_ok_def Let_def)
  have "1 \<le> sp_size sp" using g(2) by (simp add: word_le_nat_alt)
  moreover have "\<exists>b \<in> set (sp_p sp). b \<noteq> 0" using g(4,5) by (cases "sp_p sp") auto
  ultimately have d: "crypto_dh_decode_key abi (Some buf) =
      Some (Inr (?p\<lparr>dh_key := key @ sp_p sp @ safe_prime_g, dh_p := sp_p sp @ safe_prime_g\<rparr>))"
    using kpp_layout.dh_decode_checks [OF abi wf b] k(2) by (simp add: dh_safe_prime_params_def word_le_nat_alt)
  have "dh_set_secret lib abi fips (Some buf) =
      Some (None, \<lparr>ctx_p = Some (int (be_val (sp_p sp))), ctx_g = Some 2, ctx_xa = Some (int (be_val key))\<rparr>)"
    unfolding dh_set_secret_def d
    by (simp add: dh_set_params_def dh_safe_prime_params_def params_length_ok g(1-3) dh_read_def k(1)
      mpi_laws.read_ok [OF lib] safe_prime_g_def dh_clear_ctx_def)
  then show ?thesis by (simp add: dh_safe_prime_set_child_def b)
qed

section \<open>Properties\<close>

text \<open>C34: the private key generated for any of the groups is the random number modulo \<open>2 ^ N - 1\<close>, plus one:
  computed without a division, it lies in \<open>[1, q - 1]\<close> for \<open>q = (p - 1) / 2\<close>.\<close>

theorem dh_safe_prime_privkey:
  assumes "sp \<in> set safe_prime_groups" "n = privkey_words sp" "rng (8 * (n + 1)) = Inr bs" "length bs = 8 * (n + 1)"
  shows "\<exists>key. dh_safe_prime_gen_privkey sp True False rng = Inr key \<and> length key = 8 * n \<and>
    be_val key = be_val bs mod (2 ^ (64 * n) - 1) + 1 \<and>
    1 \<le> be_val key \<and> be_val key < (be_val (sp_p sp) - 1) div 2"
proof -
  have n: "privkey_words sp = n" by (rule assms(2) [symmetric])
  have "0 < n" using groups_ok [OF assms(1)] assms(2) by (simp add: group_ok_def Let_def)
  moreover have "(2 :: nat) ^ (64 * n) = (2 ^ 64) ^ n" by (rule power_mult)
  ultimately show ?thesis
    using gen_privkey [of sp n rng bs, OF n _ assms(3,4)] privkey_range [OF groups_ok [OF assms(1)], of bs] assms(2,4)
    by auto
qed

text \<open>C37: setting an empty secret on a group hands the generated key, the prime and the generator 2 to the
  underlying \<open>dh\<close>, which accepts them, in FIPS mode too: its context holds a key in \<open>[1, q - 1]\<close> for an odd
  modulus, so that the agreement theorem applies.\<close>

theorem dh_safe_prime_ephemeral:
  assumes "mpi_laws lib" "kpp_layout abi" "sp \<in> set safe_prime_groups" "\<forall>i. alloc i"
    and "n = privkey_words sp" "rng (8 * (n + 1)) = Inr bs" "length bs = 8 * (n + 1)"
  shows "\<exists>ctx xa. dh_safe_prime_set_secret abi (dh_set_secret lib abi fips) child sp alloc False rng None = Some (None, ctx) \<and>
    dh_ctx_ok (int (be_val (sp_p sp))) 2 xa ctx \<and> odd (be_val (sp_p sp)) \<and>
    1 \<le> xa \<and> xa < (int (be_val (sp_p sp)) - 1) div 2"
proof -
  have sp: "group_ok sp" by (rule groups_ok [OF assms(3)])
  have w: "privkey_words sp = n" by (rule assms(5) [symmetric])
  have n: "0 < n" "8 * n + 2 \<le> unat (sp_size sp)" "unat (sp_size sp) \<le> 1024"
    using sp assms(5) by (simp_all add: group_ok_def Let_def)
  obtain key where key: "dh_safe_prime_gen_privkey sp True False rng = Inr key" "length key = 8 * n"
      "be_val key = be_val bs mod ((2 ^ 64) ^ n - 1) + 1"
    using gen_privkey [of sp n rng bs, OF w n(1) assms(6,7)] by blast
  have ks: "length key = unat (of_nat (length key) :: u32)"
    using key(2) n by (simp only: unsigned_of_nat) (simp add: take_bit_nat_eq_self)
  define ctx where "ctx = \<lparr>ctx_p = Some (int (be_val (sp_p sp))), ctx_g = Some 2, ctx_xa = Some (int (be_val key))\<rparr>"
  have "dh_safe_prime_set_secret abi (dh_set_secret lib abi fips) child sp alloc False rng None = Some (None, ctx)"
    using set_child [OF assms(1,2) sp ks] ks key(2) n assms(4)
    by (simp add: dh_safe_prime_set_secret_def key(1) ctx_def)
  moreover have r: "1 \<le> be_val key" "be_val key < (be_val (sp_p sp) - 1) div 2"
    using privkey_range [OF sp, of bs] key(3) assms(5,7) by simp_all
  then have "int (be_val key) < (int (be_val (sp_p sp)) - 1) div 2" by linarith
  moreover have "dh_ctx_ok (int (be_val (sp_p sp))) 2 (int (be_val key)) ctx" using r by (simp add: dh_ctx_ok_def ctx_def)
  ultimately show ?thesis using r(1) group_prime_large(2) [OF sp] by (intro exI [of _ ctx] exI [of _ "int (be_val key)"]) simp
qed

lemma privkey_words_2048: "privkey_words ffdhe2048_prime = 4"
  by (simp add: privkey_words_def ffdhe2048_prime_def roundup_values drop_6)

lemma be_val_zeros: "be_val (replicate n 0) = 0"
  by (induction n) (simp_all add: be_val_def replicate_append_same [symmetric] le_val_append)

theorem dh_safe_prime_privkey_witness:
  "\<exists>key. dh_safe_prime_gen_privkey ffdhe2048_prime True False (\<lambda>n. Inr (replicate (n - 1) 0 @ [5])) = Inr key \<and> be_val key = 6"
proof -
  have "be_val (replicate 39 0 @ [5]) = 5" by (simp add: be_val_append be_val_zeros)
  then show ?thesis
    using dh_safe_prime_privkey [of ffdhe2048_prime 4 "\<lambda>n. Inr (replicate (n - 1) 0 @ [5])" "replicate 39 0 @ [5]"]
    by (auto simp: privkey_words_2048 safe_prime_groups_def)
qed

theorem dh_safe_prime_ephemeral_witness:
  "\<exists>ctx. dh_safe_prime_set_secret kpp_example_abi (dh_set_secret int_mpi kpp_example_abi True) dh_clear_ctx ffdhe2048_prime
    (\<lambda>i. True) False (\<lambda>n. Inr (replicate n 0)) None = Some (None, ctx)"
  using dh_safe_prime_ephemeral [OF int_mpi.mpi_laws_axioms kpp_example.kpp_layout_axioms,
      of ffdhe2048_prime "\<lambda>i. True" 4 "\<lambda>n. Inr (replicate n 0)" "replicate 40 0" True]
  by (auto simp: privkey_words_2048 safe_prime_groups_def)

end
