(* ===== verification/Cbc.thy ===== *)
theory Cbc
  imports SkcipherWalk Tea
begin

text \<open>
  CBC (\<open>kernel-crypto/cbc.cs\<close>, a C file) under the scatterlist driver of \<open>lskcipher.c\<close>, over any block cipher. Decryption
  in place runs backwards over the buffer; the others are block loops.
\<close>

section \<open>The loops\<close>

definition crypto_cbc_encrypt_segment :: "nat \<Rightarrow> (bytes \<Rightarrow> bytes) \<Rightarrow> bytes \<Rightarrow> bytes \<Rightarrow> bytes \<times> bytes \<times> nat" where
  "crypto_cbc_encrypt_segment bsize enc =
     block_loop bsize (\<lambda>iv src. let iv1 = xor_bytes iv src; dst = enc iv1 in (dst, dst))"

definition crypto_cbc_encrypt_inplace :: "nat \<Rightarrow> (bytes \<Rightarrow> bytes) \<Rightarrow> bytes \<Rightarrow> bytes \<Rightarrow> bytes \<times> bytes \<times> nat" where
  "crypto_cbc_encrypt_inplace bsize enc =
     block_loop bsize (\<lambda>iv src. let src1 = xor_bytes src iv; src2 = enc src1 in (src2, src2))"

definition crypto_cbc_decrypt_segment :: "nat \<Rightarrow> (bytes \<Rightarrow> bytes) \<Rightarrow> bytes \<Rightarrow> bytes \<Rightarrow> bytes \<times> bytes \<times> nat" where
  "crypto_cbc_decrypt_segment bsize dec =
     block_loop bsize (\<lambda>iv src. let dst = dec src; dst1 = xor_bytes dst iv in (src, dst1))"

definition nth_block :: "nat \<Rightarrow> nat \<Rightarrow> bytes \<Rightarrow> bytes" where
  "nth_block b i buf = take b (drop (i * b) buf)"

definition set_block :: "nat \<Rightarrow> nat \<Rightarrow> bytes \<Rightarrow> bytes \<Rightarrow> bytes" where
  "set_block b i blk buf = take (i * b) buf @ blk @ drop (i * b + b) buf"

text \<open>From block \<open>i\<close> back to the first: decrypt, then combine with the block before, still encrypted.\<close>

fun cbc_back :: "nat \<Rightarrow> (bytes \<Rightarrow> bytes) \<Rightarrow> nat \<Rightarrow> bytes \<Rightarrow> bytes" where
  "cbc_back b dec 0 buf = set_block b 0 (dec (nth_block b 0 buf)) buf"
| "cbc_back b dec (Suc i) buf =
    (let buf1 = set_block b (Suc i) (dec (nth_block b (Suc i) buf)) buf;
         buf2 = set_block b (Suc i) (xor_bytes (nth_block b (Suc i) buf1) (nth_block b i buf1)) buf1
     in cbc_back b dec i buf2)"

definition crypto_cbc_decrypt_inplace :: "nat \<Rightarrow> (bytes \<Rightarrow> bytes) \<Rightarrow> bytes \<Rightarrow> bytes \<Rightarrow> bytes \<times> bytes \<times> nat" where
  "crypto_cbc_decrypt_inplace bsize dec iv src =
    (if length src < bsize then (iv, [], length src)
     else
       let n = length src div bsize; last_iv = nth_block bsize (n - 1) src;
           buf = cbc_back bsize dec (n - 1) src;
           first = xor_bytes (nth_block bsize 0 buf) iv
       in (last_iv, first @ drop bsize (take (n * bsize) buf), length src mod bsize))"

definition crypto_cbc_encrypt :: "nat \<Rightarrow> (bytes \<Rightarrow> bytes) \<Rightarrow> bool \<Rightarrow> bool \<Rightarrow> bytes \<Rightarrow> bytes \<Rightarrow> bytes \<times> bytes \<times> (errno + nat)" where
  "crypto_cbc_encrypt bsize enc same final iv src =
    (case (if same then crypto_cbc_encrypt_inplace bsize enc iv src else crypto_cbc_encrypt_segment bsize enc iv src) of
       (iv', out, rem) \<Rightarrow> (iv', out, if rem \<noteq> 0 \<and> final then Inl EINVAL else Inr rem))"

definition crypto_cbc_decrypt :: "nat \<Rightarrow> (bytes \<Rightarrow> bytes) \<Rightarrow> bool \<Rightarrow> bool \<Rightarrow> bytes \<Rightarrow> bytes \<Rightarrow> bytes \<times> bytes \<times> (errno + nat)" where
  "crypto_cbc_decrypt bsize dec same final iv src =
    (case (if same then crypto_cbc_decrypt_inplace bsize dec iv src else crypto_cbc_decrypt_segment bsize dec iv src) of
       (iv', out, rem) \<Rightarrow> (iv', out, if rem \<noteq> 0 \<and> final then Inl EINVAL else Inr rem))"

text \<open>The requests: \<open>crypto_lskcipher_crypt_sg\<close> of \<open>lskcipher.c\<close> on these operations.\<close>

definition cbc_sg ::
    "(bool \<Rightarrow> bool \<Rightarrow> bytes \<Rightarrow> bytes \<Rightarrow> bytes \<times> bytes \<times> (errno + nat)) \<Rightarrow> nat \<Rightarrow> layout \<Rightarrow> bytes \<Rightarrow> bytes \<Rightarrow>
     (errno option \<times> bytes \<times> bytes) option" where
  "cbc_sg crypt bsize env iv data =
    (case skcipher_walk 1 (\<lambda>w iv chunk. crypt (wk_same w) (wk_nbytes w = wk_total w) iv chunk) bsize bsize env iv data of
       None \<Rightarrow> None
     | Some (err, w, iv', out, rest) \<Rightarrow> Some (err, iv', out))"

section \<open>In place or not\<close>

lemma cbc_encrypt_inplace: "crypto_cbc_encrypt_inplace bsize enc = crypto_cbc_encrypt_segment bsize enc"
  by (simp add: crypto_cbc_encrypt_inplace_def crypto_cbc_encrypt_segment_def Let_def xor_bytes_commute)

fun cbc_forward :: "nat \<Rightarrow> (bytes \<Rightarrow> bytes) \<Rightarrow> nat \<Rightarrow> bytes \<Rightarrow> bytes \<Rightarrow> bytes" where
  "cbc_forward b dec 0 iv src = []"
| "cbc_forward b dec (Suc n) iv src = xor_bytes (dec (take b src)) iv @ cbc_forward b dec n (take b src) (drop b src)"

lemma cbc_forward_snoc:
  "cbc_forward b dec (Suc n) iv src = cbc_forward b dec n iv src @
     xor_bytes (dec (nth_block b n src)) (if n = 0 then iv else nth_block b (n - 1) src)"
proof (induction n arbitrary: iv src)
  case (Suc n)
  have "cbc_forward b dec (Suc (Suc n)) iv src =
      xor_bytes (dec (take b src)) iv @ cbc_forward b dec (Suc n) (take b src) (drop b src)" by simp
  also have "\<dots> = cbc_forward b dec (Suc n) iv src @
      xor_bytes (dec (nth_block b n (drop b src))) (if n = 0 then take b src else nth_block b (n - 1) (drop b src))"
    unfolding Suc.IH [of "take b src" "drop b src"] by simp
  also have "nth_block b n (drop b src) = nth_block b (Suc n) src" by (simp add: nth_block_def add.commute)
  also have "(if n = 0 then take b src else nth_block b (n - 1) (drop b src)) = nth_block b n src"
    by (cases n) (simp_all add: nth_block_def add.commute)
  finally show ?case by simp
qed (simp add: nth_block_def)

lemma cbc_forward_prefix: "n * b \<le> k \<Longrightarrow> cbc_forward b dec n iv (take k src) = cbc_forward b dec n iv src"
proof (induction n arbitrary: iv src k)
  case (Suc n)
  then have "min b k = b" "n * b \<le> k - b" by simp_all
  then show ?case using Suc.IH [of "k - b" "take b src" "drop b src"] by (simp add: drop_take)
qed simp

lemma cbc_forward_append: "n * b \<le> length xs \<Longrightarrow> cbc_forward b dec n iv (xs @ ys) = cbc_forward b dec n iv xs"
  using cbc_forward_prefix [of n b "length xs" dec iv "xs @ ys"] by simp

context block_cipher
begin

lemma length_cbc_forward:
  "length iv = bsize \<Longrightarrow> n * bsize \<le> length src \<Longrightarrow> length (cbc_forward bsize dec n iv src) = n * bsize"
  by (induction n arbitrary: iv src) (simp_all add: length_dec)

lemma cbc_back:
  assumes "Suc i * bsize \<le> length buf"
  shows "cbc_back bsize dec i buf =
    dec (take bsize buf) @ cbc_forward bsize dec i (take bsize buf) (drop bsize buf) @ drop (Suc i * bsize) buf"
  using assms
proof (induction i arbitrary: buf)
  case 0
  then show ?case by (simp add: set_block_def nth_block_def)
next
  case (Suc i)
  let ?k = "Suc i * bsize"
  define c where "c = nth_block bsize (Suc i) buf"
  have lc: "length c = bsize" "length (take ?k buf) = ?k" using Suc.prems by (simp_all add: c_def nth_block_def)
  have lb: "length (nth_block bsize i buf) = bsize" using Suc.prems by (simp add: nth_block_def)
  define x where "x = xor_bytes (dec c) (nth_block bsize i buf)"
  have lx: "length x = bsize" using lc lb by (simp add: x_def length_dec)
  define buf1 where "buf1 = take ?k buf @ dec c @ drop (?k + bsize) buf"
  define buf2 where "buf2 = take ?k buf @ x @ drop (?k + bsize) buf"
  have b1: "set_block bsize (Suc i) (dec c) buf = buf1" by (simp add: set_block_def buf1_def)
  have "nth_block bsize (Suc i) buf1 = dec c"
    unfolding nth_block_def buf1_def using lc by (simp add: length_dec del: mult_Suc)
  moreover have "drop (i * bsize) buf1 = take bsize (drop (i * bsize) buf) @ dec c @ drop (?k + bsize) buf"
    unfolding buf1_def using lc(2) by (simp add: drop_take)
  then have "nth_block bsize i buf1 = nth_block bsize i buf" using lb by (simp add: nth_block_def)
  ultimately have n1: "nth_block bsize (Suc i) buf1 = dec c" "nth_block bsize i buf1 = nth_block bsize i buf" by simp_all
  have b2: "set_block bsize (Suc i) x buf1 = buf2"
    using lc by (simp add: set_block_def buf1_def buf2_def length_dec)
  have "cbc_back bsize dec (Suc i) buf = cbc_back bsize dec i buf2"
    by (simp add: Let_def c_def [symmetric] b1 n1 x_def [symmetric] b2)
  also have "\<dots> = dec (take bsize buf2) @ cbc_forward bsize dec i (take bsize buf2) (drop bsize buf2) @ drop ?k buf2"
    using Suc.prems lc lx by (intro Suc.IH) (simp add: buf2_def)
  also have "take bsize buf2 = take bsize buf" using lc by (simp add: buf2_def min_def)
  also have "drop ?k buf2 = x @ drop (?k + bsize) buf" using lc by (simp add: buf2_def)
  also have "drop bsize buf2 = take (i * bsize) (drop bsize buf) @ x @ drop (?k + bsize) buf"
    using lc Suc.prems by (simp add: buf2_def drop_take)
  also have "cbc_forward bsize dec i (take bsize buf) (take (i * bsize) (drop bsize buf) @ x @ drop (?k + bsize) buf) =
      cbc_forward bsize dec i (take bsize buf) (drop bsize buf)"
    using Suc.prems by (subst cbc_forward_append) (simp_all add: cbc_forward_prefix)
  also have "\<dots> @ x @ drop (?k + bsize) buf =
      cbc_forward bsize dec (Suc i) (take bsize buf) (drop bsize buf) @ drop (Suc (Suc i) * bsize) buf"
  proof -
    have "nth_block bsize i (drop bsize buf) = c" by (simp add: c_def nth_block_def add.commute)
    moreover have "(if i = 0 then take bsize buf else nth_block bsize (i - 1) (drop bsize buf)) = nth_block bsize i buf"
      by (cases i) (simp_all add: nth_block_def add.commute)
    ultimately show ?thesis unfolding cbc_forward_snoc x_def by (simp add: add.commute add.left_commute)
  qed
  finally show ?case .
qed

lemma block_loop_cbc_dec:
  "length src = n * bsize + r \<Longrightarrow> r < bsize \<Longrightarrow>
    block_loop bsize (\<lambda>iv src. let dst = dec src; dst1 = xor_bytes dst iv in (src, dst1)) iv src =
      (if n = 0 then iv else nth_block bsize (n - 1) src, cbc_forward bsize dec n iv src, r)"
proof (induction n arbitrary: iv src)
  case (Suc n)
  have "nth_block bsize n src = (if n = 0 then take bsize src else nth_block bsize (n - 1) (drop bsize src))"
    by (cases n) (simp_all add: nth_block_def add.commute)
  then show ?case using Suc.IH [of "drop bsize src" "take bsize src"] Suc.prems bsize_pos
    by (simp add: block_loop_step Let_def)
qed simp

lemma cbc_decrypt_inplace: "crypto_cbc_decrypt_inplace bsize dec iv src = crypto_cbc_decrypt_segment bsize dec iv src"
proof (cases "length src < bsize")
  case False
  let ?n = "length src div bsize" let ?r = "length src mod bsize"
  have n: "0 < ?n" using False bsize_pos by (simp add: div_greater_zero_iff)
  have ls: "length src = ?n * bsize + ?r" by simp
  have r: "?r < bsize" using bsize_pos by simp
  obtain m where m: "?n = Suc m" using n by (cases ?n) auto
  have le: "Suc m * bsize \<le> length src" using ls m by (metis le_add1)
  define c where "c = take bsize src"
  have lc: "length c = bsize" using False by (simp add: c_def)
  have b: "cbc_back bsize dec m src = dec c @ cbc_forward bsize dec m c (drop bsize src) @ drop (Suc m * bsize) src"
    unfolding c_def by (rule cbc_back [OF le])
  have lf: "length (cbc_forward bsize dec m c (drop bsize src)) = m * bsize"
    using le by (intro length_cbc_forward [OF lc]) simp
  have "nth_block bsize 0 (cbc_back bsize dec m src) = dec c"
    "drop bsize (take (Suc m * bsize) (cbc_back bsize dec m src)) = cbc_forward bsize dec m c (drop bsize src)"
    unfolding b using lc lf by (simp_all add: nth_block_def length_dec drop_take)
  then show ?thesis
    using block_loop_cbc_dec [OF ls r, of iv] False
    by (simp add: crypto_cbc_decrypt_inplace_def crypto_cbc_decrypt_segment_def Let_def m c_def)
qed (simp add: crypto_cbc_decrypt_inplace_def crypto_cbc_decrypt_segment_def)

section \<open>Over a scatterlist\<close>

text \<open>The two bodies on one block, made total in the chaining value for the contract of the walk.\<close>

definition cbc_enc_body :: "bytes \<Rightarrow> bytes \<Rightarrow> bytes \<times> bytes" where
  "cbc_enc_body iv src = (if length iv = bsize then let d = enc (xor_bytes iv src) in (d, d) else (iv, src))"

definition cbc_dec_body :: "bytes \<Rightarrow> bytes \<Rightarrow> bytes \<times> bytes" where
  "cbc_dec_body iv src = (if length iv = bsize then (src, xor_bytes (dec src) iv) else (iv, src))"

lemma cbc_body_lengths:
  "length blk = bsize \<Longrightarrow> length iv = bsize \<Longrightarrow> length (fst (cbc_enc_body iv blk)) = bsize"
  "length blk = bsize \<Longrightarrow> length (snd (cbc_enc_body iv blk)) = bsize"
  "length blk = bsize \<Longrightarrow> length iv = bsize \<Longrightarrow> length (fst (cbc_dec_body iv blk)) = bsize"
  "length blk = bsize \<Longrightarrow> length (snd (cbc_dec_body iv blk)) = bsize"
  by (simp_all add: cbc_enc_body_def cbc_dec_body_def length_enc length_dec Let_def)

lemma cbc_enc_segment:
  "length iv = bsize \<Longrightarrow> crypto_cbc_encrypt_segment bsize enc iv src = block_loop bsize cbc_enc_body iv src \<and>
    length (fst (block_loop bsize cbc_enc_body iv src)) = bsize"
proof (induction src arbitrary: iv rule: length_induct)
  case (1 src)
  show ?case
  proof (cases "length src < bsize")
    case False
    let ?d = "enc (xor_bytes iv (take bsize src))"
    have l: "length ?d = bsize" using 1(2) False by (simp add: length_enc)
    have "length (drop bsize src) < length src" using False bsize_pos by simp
    with 1(1) l have "crypto_cbc_encrypt_segment bsize enc ?d (drop bsize src) = block_loop bsize cbc_enc_body ?d (drop bsize src) \<and>
        length (fst (block_loop bsize cbc_enc_body ?d (drop bsize src))) = bsize" by blast
    moreover have "cbc_enc_body iv (take bsize src) = (?d, ?d)" using 1(2) by (simp add: cbc_enc_body_def Let_def)
    ultimately show ?thesis using False bsize_pos
      by (cases "block_loop bsize cbc_enc_body ?d (drop bsize src)")
        (simp add: crypto_cbc_encrypt_segment_def block_loop_step Let_def)
  qed (use 1(2) in \<open>simp add: crypto_cbc_encrypt_segment_def\<close>)
qed

lemma cbc_dec_segment:
  "length iv = bsize \<Longrightarrow> crypto_cbc_decrypt_segment bsize dec iv src = block_loop bsize cbc_dec_body iv src \<and>
    length (fst (block_loop bsize cbc_dec_body iv src)) = bsize"
proof (induction src arbitrary: iv rule: length_induct)
  case (1 src)
  show ?case
  proof (cases "length src < bsize")
    case False
    let ?d = "take bsize src"
    have l: "length ?d = bsize" using False by simp
    have "length (drop bsize src) < length src" using False bsize_pos by simp
    with 1(1) l have "crypto_cbc_decrypt_segment bsize dec ?d (drop bsize src) = block_loop bsize cbc_dec_body ?d (drop bsize src) \<and>
        length (fst (block_loop bsize cbc_dec_body ?d (drop bsize src))) = bsize" by blast
    moreover have "cbc_dec_body iv (take bsize src) = (?d, xor_bytes (dec ?d) iv)" using 1(2) by (simp add: cbc_dec_body_def)
    ultimately show ?thesis using False bsize_pos
      by (cases "block_loop bsize cbc_dec_body ?d (drop bsize src)")
        (simp add: crypto_cbc_decrypt_segment_def block_loop_step Let_def)
  qed (use 1(2) in \<open>simp add: crypto_cbc_decrypt_segment_def\<close>)
qed

definition cbc_chunk :: "(bytes \<Rightarrow> bytes \<Rightarrow> bytes \<times> bytes) \<Rightarrow> bytes chunk_fun" where
  "cbc_chunk body w iv chunk = (case block_loop bsize body iv chunk of (iv', out, left) \<Rightarrow>
     (iv', out, if left \<noteq> 0 \<and> wk_nbytes w = wk_total w then Inl EINVAL else Inr left))"

lemma cbc_chunk_mode:
  assumes "\<And>iv blk. length blk = bsize \<Longrightarrow> length (snd (body iv blk)) = bsize"
  shows "block_mode bsize bsize 1 True body (cbc_chunk body)"
  by unfold_locales (use assms bsize_pos bsize_page in \<open>simp_all add: PAGE_SIZE_def cbc_chunk_def\<close>)

lemma cbc_sg_flat:
  assumes body: "\<And>iv blk. length blk = bsize \<Longrightarrow> length (snd (body iv blk)) = bsize"
    and crypt: "\<And>same final iv src. length iv = bsize \<Longrightarrow> crypt same final iv src =
      (case block_loop bsize body iv src of (iv', out, left) \<Rightarrow> (iv', out, if left \<noteq> 0 \<and> final then Inl EINVAL else Inr left))"
    and keep: "\<And>iv src. length iv = bsize \<Longrightarrow> length (fst (block_loop bsize body iv src)) = bsize"
    and iv: "length iv = bsize"
  obtains err iv' out where "cbc_sg crypt bsize env iv data = Some (err, iv', out)"
    "err \<noteq> Some ENOMEM \<Longrightarrow> block_loop bsize body iv (take (length data - length data mod bsize) data) = (iv', out, 0)"
    "err \<noteq> Some ENOMEM \<Longrightarrow> err = (if bsize dvd length data then None else Some EINVAL)"
    "allocates env \<Longrightarrow> err \<noteq> Some ENOMEM"
proof -
  have "skcipher_walk 1 (\<lambda>w iv chunk. crypt (wk_same w) (wk_nbytes w = wk_total w) iv chunk) bsize bsize env iv data =
      skcipher_walk 1 (cbc_chunk body) bsize bsize env iv data"
    by (rule skcipher_walk_cong [where P = "\<lambda>iv. length iv = bsize"])
      (use keep in \<open>auto simp: crypt cbc_chunk_def iv split: prod.splits\<close>, metis fst_conv)
  then show thesis
    by (rule_tac block_mode.walk_flatE [OF cbc_chunk_mode [OF body], where env = env and iv = iv and data = data])
      (assumption, rule that, simp_all add: cbc_sg_def dvd_eq_mod_eq_0)
qed

lemma cbc_encrypt_flat:
  assumes "length iv = bsize"
  obtains err iv' out where "cbc_sg (crypto_cbc_encrypt bsize enc) bsize env iv data = Some (err, iv', out)"
    "err \<noteq> Some ENOMEM \<Longrightarrow> crypto_cbc_encrypt_segment bsize enc iv (take (length data - length data mod bsize) data) = (iv', out, 0)"
    "err \<noteq> Some ENOMEM \<Longrightarrow> err = (if bsize dvd length data then None else Some EINVAL)"
    "allocates env \<Longrightarrow> err \<noteq> Some ENOMEM"
  by (rule cbc_sg_flat [of cbc_enc_body "crypto_cbc_encrypt bsize enc" iv env data])
    (use cbc_enc_segment cbc_body_lengths assms in \<open>simp_all add: crypto_cbc_encrypt_def cbc_encrypt_inplace\<close>)

lemma cbc_decrypt_flat:
  assumes "length iv = bsize"
  obtains err iv' out where "cbc_sg (crypto_cbc_decrypt bsize dec) bsize env iv data = Some (err, iv', out)"
    "err \<noteq> Some ENOMEM \<Longrightarrow> crypto_cbc_decrypt_segment bsize dec iv (take (length data - length data mod bsize) data) = (iv', out, 0)"
    "err \<noteq> Some ENOMEM \<Longrightarrow> err = (if bsize dvd length data then None else Some EINVAL)"
    "allocates env \<Longrightarrow> err \<noteq> Some ENOMEM"
  by (rule cbc_sg_flat [of cbc_dec_body "crypto_cbc_decrypt bsize dec" iv env data])
    (use cbc_dec_segment cbc_body_lengths assms in \<open>simp_all add: crypto_cbc_decrypt_def cbc_decrypt_inplace\<close>)

lemma cbc_segment_inverse:
  assumes "length iv = bsize" "bsize dvd length src"
  shows "case crypto_cbc_encrypt_segment bsize enc iv src of (iv', out, _) \<Rightarrow>
    length out = length src \<and> crypto_cbc_decrypt_segment bsize dec iv out = (iv', src, 0)"
  unfolding crypto_cbc_encrypt_segment_def crypto_cbc_decrypt_segment_def
  by (rule block_loop_inverse [where P = "\<lambda>iv. length iv = bsize", OF bsize_pos _ assms])
    (auto simp: Let_def length_enc dec_enc xor_bytes_commute)

end

end
