(* ===== verification/Cts.thy ===== *)
theory Cts
  imports Cbc
begin

text \<open>
  CBC with ciphertext stealing (\<open>kernel-crypto/cts.c\<close>) over a child request that answers at once: the completions do
  the same when it answers later. A child takes the IV and the data and gives an error, the IV it leaves and its
  output. \<open>inplace\<close> says that source and destination are the same buffer.
\<close>

type_synonym skcipher_child = "bytes \<Rightarrow> bytes \<Rightarrow> errno option \<times> bytes \<times> bytes"

definition write_at :: "nat \<Rightarrow> bytes \<Rightarrow> bytes \<Rightarrow> bytes" where
  "write_at off xs buf = take off buf @ xs @ drop (off + length xs) buf"

section \<open>Encryption\<close>

definition cts_cbc_encrypt ::
    "skcipher_child \<Rightarrow> nat \<Rightarrow> bool \<Rightarrow> nat \<Rightarrow> bytes \<Rightarrow> bytes \<Rightarrow> bytes \<Rightarrow> errno option \<times> bytes \<times> bytes" where
  "cts_cbc_encrypt child bsize inplace offset iv src dst =
    (let lastn = length src - offset;
         prev = take bsize (drop (offset - bsize) dst);
         tail = take lastn (drop offset (if inplace then dst else src));
         d = tail @ replicate (bsize - lastn) 0 @ prev;
         dst1 = write_at (offset - bsize) (take (bsize + lastn) d) dst;
         (err, iv', out) = child iv (take bsize (drop (offset - bsize) dst1))
     in (err, iv', write_at (offset - bsize) out dst1))"

definition cts_offset :: "nat \<Rightarrow> nat \<Rightarrow> nat" where
  "cts_offset bsize nbytes = (nbytes - 1) - (nbytes - 1) mod bsize"

definition crypto_cts_encrypt ::
    "skcipher_child \<Rightarrow> nat \<Rightarrow> bool \<Rightarrow> bytes \<Rightarrow> bytes \<Rightarrow> bytes \<Rightarrow> errno option \<times> bytes \<times> bytes" where
  "crypto_cts_encrypt child bsize inplace iv src dst =
    (let nbytes = length src; offset = cts_offset bsize nbytes
     in if nbytes < bsize then (Some EINVAL, iv, dst)
        else if nbytes = bsize then (case child iv src of (err, iv', out) \<Rightarrow> (err, iv', write_at 0 out dst))
        else case child iv (take offset src) of (err, iv', out) \<Rightarrow>
          let dst1 = write_at 0 out dst
          in if err \<noteq> None then (err, iv', dst1)
             else cts_cbc_encrypt child bsize inplace offset iv' src dst1)"

section \<open>Decryption\<close>

definition cts_cbc_decrypt ::
    "skcipher_child \<Rightarrow> nat \<Rightarrow> bool \<Rightarrow> nat \<Rightarrow> bytes \<Rightarrow> bytes \<Rightarrow> bytes \<Rightarrow> errno option \<times> bytes \<times> bytes" where
  "cts_cbc_decrypt child bsize inplace offset space src dst =
    (let lastn = length src - offset;
         dn = xor_bytes (take bsize (drop (offset - bsize) dst)) space;
         tail = take lastn (drop offset (if inplace then dst else src));
         xn = xor_bytes (take lastn dn) tail @ drop lastn dn;
         d = tail @ drop lastn xn @ xn;
         dst1 = write_at (offset - bsize) (take (bsize + lastn) d) dst;
         (err, iv', out) = child space (take bsize (drop (offset - bsize) dst1))
     in (err, iv', write_at (offset - bsize) out dst1))"

definition crypto_cts_decrypt ::
    "skcipher_child \<Rightarrow> nat \<Rightarrow> bool \<Rightarrow> bytes \<Rightarrow> bytes \<Rightarrow> bytes \<Rightarrow> errno option \<times> bytes \<times> bytes" where
  "crypto_cts_decrypt child bsize inplace iv src dst =
    (let nbytes = length src; offset = cts_offset bsize nbytes
     in if nbytes < bsize then (Some EINVAL, iv, dst)
        else if nbytes = bsize then (case child iv src of (err, iv', out) \<Rightarrow> (err, iv', write_at 0 out dst))
        else
          let space = (if offset \<le> bsize then iv else take bsize (drop (offset - 2 * bsize) src))
          in case child iv (take offset src) of (err, iv', out) \<Rightarrow>
            let dst1 = write_at 0 out dst
            in if err \<noteq> None then (err, iv', dst1)
               else cts_cbc_decrypt child bsize inplace offset space src dst1)"

section \<open>The mode\<close>

text \<open>
  The ciphertext of RFC 3962: CBC on the whole blocks but the last, the last (padded) block, and what is stolen
  of the one before.
\<close>

definition cbc_all :: "nat \<Rightarrow> (bytes \<Rightarrow> bytes) \<Rightarrow> bytes \<Rightarrow> bytes \<Rightarrow> bytes" where
  "cbc_all b enc iv src = fst (snd (crypto_cbc_encrypt_segment b enc iv src))"

definition cts_spec :: "nat \<Rightarrow> (bytes \<Rightarrow> bytes) \<Rightarrow> bytes \<Rightarrow> bytes \<Rightarrow> bytes" where
  "cts_spec b enc iv msg =
    (if length msg = b then cbc_all b enc iv msg
     else
       let offset = cts_offset b (length msg); lastn = length msg - offset;
           c = cbc_all b enc iv (take offset msg);
           stolen = drop (offset - b) c
       in take (offset - b) c @ enc (xor_bytes (drop offset msg @ replicate (b - lastn) 0) stolen) @ take lastn stolen)"

locale cbc_child = block_cipher bsize enc dec for bsize enc dec +
  fixes cenc cdec :: skcipher_child
  assumes cenc: "length iv = bsize \<Longrightarrow> bsize dvd length src \<Longrightarrow>
      (case crypto_cbc_encrypt_segment bsize enc iv src of (iv', out, _) \<Rightarrow> cenc iv src = (None, iv', out))"
    and cdec: "length iv = bsize \<Longrightarrow> bsize dvd length src \<Longrightarrow>
      (case crypto_cbc_decrypt_segment bsize dec iv src of (iv', out, _) \<Rightarrow> cdec iv src = (None, iv', out))"
begin

lemma cenc_block: "length iv = bsize \<Longrightarrow> length blk = bsize \<Longrightarrow> cenc iv blk = (None, enc (xor_bytes iv blk), enc (xor_bytes iv blk))"
  using cenc [of iv blk] bsize_pos by (simp add: crypto_cbc_encrypt_segment_def block_loop_step Let_def)

lemma cdec_block: "length iv = bsize \<Longrightarrow> length blk = bsize \<Longrightarrow> cdec iv blk = (None, blk, xor_bytes (dec blk) iv)"
  using cdec [of iv blk] bsize_pos by (simp add: crypto_cbc_decrypt_segment_def block_loop_step Let_def)

text \<open>The chaining value CBC leaves is its last block.\<close>

lemma cbc_enc_last:
  "length iv = bsize \<Longrightarrow> length src = Suc n * bsize \<Longrightarrow>
    crypto_cbc_encrypt_segment bsize enc iv src = (drop (n * bsize) (cbc_all bsize enc iv src), cbc_all bsize enc iv src, 0) \<and>
    length (cbc_all bsize enc iv src) = Suc n * bsize"
proof (induction n arbitrary: iv src)
  case 0
  then show ?case using bsize_pos
    by (simp add: cbc_all_def crypto_cbc_encrypt_segment_def block_loop_step Let_def length_enc)
next
  case (Suc n)
  let ?d = "enc (xor_bytes iv (take bsize src))"
  have l: "length ?d = bsize" "length (drop bsize src) = Suc n * bsize" using Suc.prems by (simp_all add: length_enc)
  define o2 where "o2 = cbc_all bsize enc ?d (drop bsize src)"
  have IH: "crypto_cbc_encrypt_segment bsize enc ?d (drop bsize src) = (drop (n * bsize) o2, o2, 0)" "length o2 = Suc n * bsize"
    using Suc.IH [OF l] by (simp_all add: o2_def)
  have "crypto_cbc_encrypt_segment bsize enc iv src =
      (case crypto_cbc_encrypt_segment bsize enc ?d (drop bsize src) of (iv', o2, left) \<Rightarrow> (iv', ?d @ o2, left))"
    using Suc.prems bsize_pos by (simp add: crypto_cbc_encrypt_segment_def block_loop_step Let_def)
  then have e: "crypto_cbc_encrypt_segment bsize enc iv src = (drop (n * bsize) o2, ?d @ o2, 0)"
    unfolding IH(1) by simp
  then have "cbc_all bsize enc iv src = ?d @ o2" by (simp add: cbc_all_def)
  with e IH(2) l(1) show ?case by simp
qed

lemma cbc_enc_append:
  assumes "length iv = bsize" "length xs = n * bsize" "length ys = Suc m * bsize"
  shows "cbc_all bsize enc iv (xs @ ys) = cbc_all bsize enc iv xs @
    cbc_all bsize enc (if n = 0 then iv else drop ((n - 1) * bsize) (cbc_all bsize enc iv xs)) ys"
proof (cases n)
  case 0
  then show ?thesis using assms bsize_pos by (simp add: cbc_all_def crypto_cbc_encrypt_segment_def)
next
  case (Suc k)
  then have e: "crypto_cbc_encrypt_segment bsize enc iv xs =
      (drop (k * bsize) (cbc_all bsize enc iv xs), cbc_all bsize enc iv xs, 0)"
    using cbc_enc_last [OF assms(1), of xs k] assms(2) by simp
  have "bsize dvd length xs" using assms(2) by simp
  then show ?thesis
    using block_loop_append [OF bsize_pos, of xs "\<lambda>iv src. let iv1 = xor_bytes iv src; dst = enc iv1 in (dst, dst)" iv ys]
      e Suc by (simp add: cbc_all_def crypto_cbc_encrypt_segment_def split: prod.splits)
qed

end

lemma cts_offset:
  assumes "0 < b" "b < nbytes"
  shows "\<exists>n. cts_offset b nbytes = Suc n * b" "cts_offset b nbytes < nbytes" "nbytes - cts_offset b nbytes \<le> b"
proof -
  let ?q = "(nbytes - 1) div b"
  have o: "cts_offset b nbytes = ?q * b" by (simp add: cts_offset_def minus_mod_eq_div_mult)
  have "0 < ?q" using assms by (simp add: div_greater_zero_iff)
  then show "\<exists>n. cts_offset b nbytes = Suc n * b" unfolding o by (cases ?q) auto
  have m: "(nbytes - 1) mod b < b" "(nbytes - 1) mod b \<le> nbytes - 1" using assms(1) by simp_all
  then show "cts_offset b nbytes < nbytes" "nbytes - cts_offset b nbytes \<le> b"
    using assms(2) unfolding cts_offset_def by linarith+
qed

section \<open>Encryption is the mode of RFC 3962\<close>

text \<open>A message longer than a block: whole blocks \<open>pa\<close> and \<open>pb\<close>, and a tail of at most a block.\<close>

lemma cts_split:
  assumes "0 < b" "b < length msg"
  obtains n pa pb tail where "msg = pa @ pb @ tail" "length pa = n * b" "length pb = b" "tail \<noteq> []" "length tail \<le> b"
    "cts_offset b (length msg) = Suc n * b"
proof -
  obtain n where o: "cts_offset b (length msg) = Suc n * b" using cts_offset(1) [OF assms] by blast
  have l: "Suc n * b < length msg" "length msg - Suc n * b \<le> b" using cts_offset(2,3) [OF assms] o by simp_all
  show thesis
  proof (rule that [of "take (n * b) msg" "take b (drop (n * b) msg)" "drop (Suc n * b) msg" n])
    show "msg = take (n * b) msg @ take b (drop (n * b) msg) @ drop (Suc n * b) msg"
      by (metis append_take_drop_id drop_drop mult_Suc)
  qed (use l o in auto)
qed

context cbc_child
begin

lemma cts_parts:
  assumes iv: "length iv = bsize" and p: "length pa = n * bsize" "length pb = bsize"
  defines "space \<equiv> (if n = 0 then iv else drop ((n - 1) * bsize) (cbc_all bsize enc iv pa))"
  shows "length space = bsize" "length (cbc_all bsize enc iv pa) = n * bsize"
    "cbc_all bsize enc iv (pa @ pb) = cbc_all bsize enc iv pa @ enc (xor_bytes space pb)"
    "cenc iv (pa @ pb) = (None, enc (xor_bytes space pb), cbc_all bsize enc iv pa @ enc (xor_bytes space pb))"
proof -
  show la: "length (cbc_all bsize enc iv pa) = n * bsize"
  proof (cases n)
    case 0
    then show ?thesis using p(1) bsize_pos by (simp add: cbc_all_def crypto_cbc_encrypt_segment_def)
  next
    case (Suc k)
    then show ?thesis using cbc_enc_last [OF iv, of pa k] p(1) by simp
  qed
  show ls: "length space = bsize" using iv la by (cases n) (simp_all add: space_def)
  have b: "cbc_all bsize enc space pb = enc (xor_bytes space pb)"
    using p(2) bsize_pos by (simp add: cbc_all_def crypto_cbc_encrypt_segment_def block_loop_step Let_def)
  show a: "cbc_all bsize enc iv (pa @ pb) = cbc_all bsize enc iv pa @ enc (xor_bytes space pb)"
    using cbc_enc_append [OF iv p(1), of pb 0] p(2) b by (simp add: space_def)
  have l: "length (pa @ pb) = Suc n * bsize" using p by simp
  have "crypto_cbc_encrypt_segment bsize enc iv (pa @ pb) =
      (enc (xor_bytes space pb), cbc_all bsize enc iv pa @ enc (xor_bytes space pb), 0)"
    using cbc_enc_last [OF iv l] la unfolding a by simp
  moreover have "bsize dvd length (pa @ pb)" unfolding l by simp
  ultimately show "cenc iv (pa @ pb) = (None, enc (xor_bytes space pb), cbc_all bsize enc iv pa @ enc (xor_bytes space pb))"
    using cenc [OF iv, of "pa @ pb"] by simp
qed

lemma cts_encrypt:
  assumes iv: "length iv = bsize" and len: "bsize \<le> length msg" "length dst = length msg" and ip: "inplace \<longrightarrow> dst = msg"
  shows "\<exists>iv'. crypto_cts_encrypt cenc bsize inplace iv msg dst = (None, iv', cts_spec bsize enc iv msg)"
proof (cases "length msg = bsize")
  case True
  then show ?thesis
    using cts_parts [OF iv, of "[]" 0 msg] len(2) bsize_pos
    by (simp add: crypto_cts_encrypt_def cts_spec_def write_at_def Let_def length_enc)
next
  case False
  then have "bsize < length msg" using len(1) by simp
  then obtain n pa pb tail where m: "msg = pa @ pb @ tail" "length pa = n * bsize" "length pb = bsize"
      "tail \<noteq> []" "length tail \<le> bsize" and off: "cts_offset bsize (length msg) = Suc n * bsize"
    by (rule cts_split [OF bsize_pos])
  define space where "space = (if n = 0 then iv else drop ((n - 1) * bsize) (cbc_all bsize enc iv pa))"
  define X where "X = cbc_all bsize enc iv pa"
  define stolen where "stolen = enc (xor_bytes space pb)"
  define z where "z = tail @ replicate (bsize - length tail) 0"
  define cn where "cn = enc (xor_bytes stolen z)"
  have parts: "length space = bsize" "length X = n * bsize" "cbc_all bsize enc iv (pa @ pb) = X @ stolen"
      "cenc iv (pa @ pb) = (None, stolen, X @ stolen)"
    using cts_parts [OF iv m(2,3)] by (simp_all add: space_def X_def stolen_def)
  have ls: "length stolen = bsize" using parts(1) m(3) by (simp add: stolen_def length_enc)
  have lz: "length z = bsize" using m(5) by (simp add: z_def)
  have lc: "length cn = bsize" using ls lz by (simp add: cn_def length_enc)
  have t: "take (Suc n * bsize) msg = pa @ pb" "drop (Suc n * bsize) msg = tail" using m(1-3) by simp_all
  have lm: "length msg - Suc n * bsize = length tail" using m(1-3) by simp
  have spec: "cts_spec bsize enc iv msg = X @ cn @ take (length tail) stolen"
    unfolding cts_spec_def Let_def off t lm parts(3) if_not_P [OF False]
    using parts(2) by (simp add: cn_def z_def xor_bytes_commute)
  define dst1 where "dst1 = (X @ stolen) @ drop (Suc n * bsize) dst"
  have d1: "write_at 0 (X @ stolen) dst = dst1" using parts(2) ls by (simp add: write_at_def dst1_def add.commute)
  have dt: "drop (Suc n * bsize) (if inplace then dst1 else msg) = tail"
    using ip t(2) parts(2) ls by (simp add: dst1_def)
  have prev: "take bsize (drop (Suc n * bsize - bsize) dst1) = stolen" using parts(2) ls by (simp add: dst1_def)
  define dst2 where "dst2 = X @ z @ take (length tail) stolen"
  have w: "write_at (Suc n * bsize - bsize) (take (bsize + length tail) (tail @ replicate (bsize - length tail) 0 @ stolen)) dst1 = dst2"
  proof -
    have "take (bsize + length tail) (tail @ replicate (bsize - length tail) 0 @ stolen) = z @ take (length tail) stolen"
      using m(5) by (simp add: z_def)
    moreover have "length dst = n * bsize + (bsize + length tail)" using len(2) m(1-3) by simp
    ultimately show ?thesis using parts(2) ls lz m(5) by (simp add: write_at_def dst1_def dst2_def min_def)
  qed
  have blk: "take bsize (drop (Suc n * bsize - bsize) dst2) = z" using parts(2) lz by (simp add: dst2_def)
  have fin: "write_at (Suc n * bsize - bsize) cn dst2 = X @ cn @ take (length tail) stolen"
    using parts(2) lz lc by (simp add: write_at_def dst2_def)
  have last: "cts_cbc_encrypt cenc bsize inplace (Suc n * bsize) stolen msg dst1 = (None, cn, X @ cn @ take (length tail) stolen)"
    unfolding cts_cbc_encrypt_def lm Let_def dt prev
    using cenc_block [OF ls lz] blk w fin m(5) by (simp add: cn_def)
  have "crypto_cts_encrypt cenc bsize inplace iv msg dst =
      (case cenc iv (pa @ pb) of (err, iv', out) \<Rightarrow>
          let dst1 = write_at 0 out dst
          in if err \<noteq> None then (err, iv', dst1) else cts_cbc_encrypt cenc bsize inplace (Suc n * bsize) iv' msg dst1)"
    using False len(1) by (simp only: crypto_cts_encrypt_def Let_def off t(1)) simp
  then show ?thesis unfolding parts(4) spec using d1 last by simp
qed

lemma cts_decrypt:
  assumes iv: "length iv = bsize" and len: "bsize \<le> length msg" "length dst = length msg"
    and ip: "inplace \<longrightarrow> dst = cts_spec bsize enc iv msg"
  shows "\<exists>iv'. crypto_cts_decrypt cdec bsize inplace iv (cts_spec bsize enc iv msg) dst = (None, iv', msg)"
proof (cases "length msg = bsize")
  case True
  then have e: "cts_spec bsize enc iv msg = enc (xor_bytes iv msg)"
    using cts_parts [OF iv, of "[]" 0 msg] bsize_pos
    by (simp add: cts_spec_def cbc_all_def crypto_cbc_encrypt_segment_def block_loop_step Let_def)
  have l: "length (enc (xor_bytes iv msg)) = bsize" using True iv by (simp add: length_enc)
  show ?thesis
    unfolding e using cdec_block [OF iv l] True iv len(2) by (simp add: crypto_cts_decrypt_def write_at_def Let_def l dec_enc)
next
  case False
  then have "bsize < length msg" using len(1) by simp
  then obtain n pa pb tail where m: "msg = pa @ pb @ tail" "length pa = n * bsize" "length pb = bsize"
      "tail \<noteq> []" "length tail \<le> bsize" and off: "cts_offset bsize (length msg) = Suc n * bsize"
    by (rule cts_split [OF bsize_pos])
  define space where "space = (if n = 0 then iv else drop ((n - 1) * bsize) (cbc_all bsize enc iv pa))"
  define X where "X = cbc_all bsize enc iv pa"
  define stolen where "stolen = enc (xor_bytes space pb)"
  define z where "z = tail @ replicate (bsize - length tail) 0"
  define cn where "cn = enc (xor_bytes stolen z)"
  define st where "st = take (length tail) stolen"
  have parts: "length space = bsize" "length X = n * bsize" "cbc_all bsize enc iv (pa @ pb) = X @ stolen"
    using cts_parts [OF iv m(2,3)] by (simp_all add: space_def X_def stolen_def)
  have ls: "length stolen = bsize" using parts(1) m(3) by (simp add: stolen_def length_enc)
  have lz: "length z = bsize" using m(5) by (simp add: z_def)
  have lc: "length cn = bsize" using ls lz by (simp add: cn_def length_enc)
  have lt: "length st = length tail" using ls m(5) by (simp add: st_def)
  have t: "take (Suc n * bsize) msg = pa @ pb" "drop (Suc n * bsize) msg = tail" using m(1-3) by simp_all
  have lm: "length msg - Suc n * bsize = length tail" using m(1-3) by simp
  define ct where "ct = X @ cn @ st"
  have spec: "cts_spec bsize enc iv msg = ct"
    unfolding cts_spec_def Let_def off t lm parts(3) if_not_P [OF False]
    using parts(2) by (simp add: cn_def z_def xor_bytes_commute ct_def st_def)
  have lct: "length ct = length msg" using parts(2) lc lt m(1-3) by (simp add: ct_def)
  have tc: "take (Suc n * bsize) ct = X @ cn" "drop (Suc n * bsize) ct = st" using parts(2) lc by (simp_all add: ct_def)
  have sp: "(if Suc n * bsize \<le> bsize then iv else take bsize (drop (Suc n * bsize - 2 * bsize) ct)) = space"
  proof (cases n)
    case (Suc k)
    then have "\<not> Suc n * bsize \<le> bsize" "Suc n * bsize - 2 * bsize = k * bsize" using bsize_pos by simp_all
    moreover have "take bsize (drop (k * bsize) ct) = drop (k * bsize) X" using Suc parts(2) by (simp add: ct_def)
    ultimately show ?thesis using Suc by (simp only: if_not_P) (simp add: space_def X_def)
  qed (simp add: space_def)
  have inv: "crypto_cbc_decrypt_segment bsize dec iv X = (space, pa, 0)"
  proof (cases n)
    case 0
    then show ?thesis using m(2) parts(2) bsize_pos by (simp add: crypto_cbc_decrypt_segment_def space_def)
  next
    case (Suc k)
    then show ?thesis
      using cbc_segment_inverse [OF iv, of pa] cbc_enc_last [OF iv, of pa k] m(2) by (simp add: space_def X_def)
  qed
  have "crypto_cbc_decrypt_segment bsize dec iv (X @ cn) = (cn, pa @ xor_bytes (dec cn) space, 0)"
    using block_loop_append [OF bsize_pos, of X "\<lambda>iv src. let dst = dec src; dst1 = xor_bytes dst iv in (src, dst1)" iv cn]
      inv parts(2) lc bsize_pos by (simp add: crypto_cbc_decrypt_segment_def block_loop_step Let_def)
  moreover have "bsize dvd length (X @ cn)" using parts(2) lc by simp
  ultimately have first: "cdec iv (X @ cn) = (None, cn, pa @ xor_bytes (dec cn) space)" using cdec [OF iv, of "X @ cn"] by simp
  define dn where "dn = xor_bytes stolen z"
  have ldn: "length dn = bsize" using ls lz by (simp add: dn_def)
  have dcn: "dec cn = dn" using ls lz by (simp add: cn_def dn_def dec_enc)
  define dst1 where "dst1 = (pa @ xor_bytes dn space) @ drop (Suc n * bsize) dst"
  have d1: "write_at 0 (pa @ xor_bytes dn space) dst = dst1"
    using m(2) ldn parts(1) by (simp add: write_at_def dst1_def add.commute)
  have dt: "drop (Suc n * bsize) (if inplace then dst1 else ct) = st"
    using ip spec tc(2) m(2) ldn parts(1) by (simp add: dst1_def)
  have prev: "xor_bytes (take bsize (drop (Suc n * bsize - bsize) dst1)) space = dn"
    using m(2) ldn parts(1) by (simp add: dst1_def)
  have lm': "length ct - Suc n * bsize = length tail" using lct lm by simp
  have stolen_split: "stolen = st @ drop (length tail) stolen" by (simp add: st_def)
  have "dn = xor_bytes (st @ drop (length tail) stolen) (tail @ replicate (bsize - length tail) 0)"
    by (simp add: dn_def z_def st_def)
  also have "\<dots> = xor_bytes st tail @ drop (length tail) stolen"
    using lt ls by (simp add: xor_bytes_append xor_bytes_zeros)
  finally have dns: "dn = xor_bytes st tail @ drop (length tail) stolen" .
  then have td: "take (length tail) dn = xor_bytes st tail" "drop (length tail) dn = drop (length tail) stolen" using lt by simp_all
  define dst2 where "dst2 = pa @ stolen @ tail"
  have w: "write_at (Suc n * bsize - bsize) (take (bsize + length tail)
      (st @ drop (length tail) (tail @ drop (length tail) stolen) @ tail @ drop (length tail) stolen)) dst1 = dst2"
  proof -
    have "take (bsize + length tail)
        (st @ drop (length tail) (tail @ drop (length tail) stolen) @ tail @ drop (length tail) stolen) = stolen @ tail"
      using lt ls m(5) stolen_split by simp
    moreover have "length dst = n * bsize + (bsize + length tail)" using len(2) m(1-3) by simp
    ultimately show ?thesis using m(2) ls ldn parts(1) m(5) by (simp add: write_at_def dst1_def dst2_def min_def)
  qed
  have blk: "take bsize (drop (Suc n * bsize - bsize) dst2) = stolen" using m(2) ls by (simp add: dst2_def)
  have c2: "cdec space stolen = (None, stolen, pb)"
    using cdec_block [OF parts(1) ls] parts(1) m(3) by (simp add: stolen_def dec_enc)
  have fin: "write_at (Suc n * bsize - bsize) pb dst2 = msg" using m(1-3) ls by (simp add: write_at_def dst2_def)
  have "xor_bytes (xor_bytes st tail) st = tail" using lt by simp
  then have last: "cts_cbc_decrypt cdec bsize inplace (Suc n * bsize) space ct dst1 = (None, stolen, msg)"
    unfolding cts_cbc_decrypt_def lm' Let_def dt prev td using blk w fin c2 lt by simp
  have "crypto_cts_decrypt cdec bsize inplace iv ct dst =
      (case cdec iv (X @ cn) of (err, iv', out) \<Rightarrow>
          let dst1 = write_at 0 out dst
          in if err \<noteq> None then (err, iv', dst1) else cts_cbc_decrypt cdec bsize inplace (Suc n * bsize) space ct dst1)"
    using False len(1) by (simp only: crypto_cts_decrypt_def Let_def lct off tc(1) sp) simp
  then show ?thesis unfolding spec first dcn using d1 last by simp
qed

end

section \<open>Over CBC on scatterlists\<close>

definition cbc_encrypt_child :: "nat \<Rightarrow> (bytes \<Rightarrow> bytes) \<Rightarrow> layout \<Rightarrow> skcipher_child" where
  "cbc_encrypt_child bsize enc env iv data = the (cbc_sg (crypto_cbc_encrypt bsize enc) bsize env iv data)"

definition cbc_decrypt_child :: "nat \<Rightarrow> (bytes \<Rightarrow> bytes) \<Rightarrow> layout \<Rightarrow> skcipher_child" where
  "cbc_decrypt_child bsize dec env iv data = the (cbc_sg (crypto_cbc_decrypt bsize dec) bsize env iv data)"

context block_cipher
begin

lemma cbc_is_child:
  assumes "allocates env" "allocates env'"
  shows "cbc_child bsize enc dec (cbc_encrypt_child bsize enc env) (cbc_decrypt_child bsize dec env')"
proof unfold_locales
  fix iv src :: bytes
  assume iv: "length iv = bsize" and src: "bsize dvd length src"
  then have m: "length src mod bsize = 0" by simp
  show "case crypto_cbc_encrypt_segment bsize enc iv src of (iv', out, _) \<Rightarrow> cbc_encrypt_child bsize enc env iv src = (None, iv', out)"
    by (rule cbc_encrypt_flat [OF iv, of env src]) (use assms(1) src m in \<open>simp add: cbc_encrypt_child_def\<close>)
  show "case crypto_cbc_decrypt_segment bsize dec iv src of (iv', out, _) \<Rightarrow> cbc_decrypt_child bsize dec env' iv src = (None, iv', out)"
    by (rule cbc_decrypt_flat [OF iv, of env' src]) (use assms(2) src m in \<open>simp add: cbc_decrypt_child_def\<close>)
qed

end

text \<open>C39: ciphertext stealing over CBC on any block cipher, for any layouts with memory and whether or not source and
  destination are the same buffer: encryption gives the ciphertext of RFC 3962, of the length of the message,
  decryption gives the message back, and a message shorter than a block is refused.\<close>

theorem cts_roundtrip:
  assumes "block_cipher n enc dec" "allocates env" "allocates env'" "length iv = n" "length dst = length msg"
    "length dst' = length msg" "inplace \<longrightarrow> dst = msg" "inplace' \<longrightarrow> dst' = cts_spec n enc iv msg"
  shows "(if n \<le> length msg then
      (\<exists>iv1 iv2. crypto_cts_encrypt (cbc_encrypt_child n enc env) n inplace iv msg dst = (None, iv1, cts_spec n enc iv msg) \<and>
        crypto_cts_decrypt (cbc_decrypt_child n dec env') n inplace' iv (cts_spec n enc iv msg) dst' = (None, iv2, msg))
    else fst (crypto_cts_encrypt (cbc_encrypt_child n enc env) n inplace iv msg dst) = Some EINVAL \<and>
      fst (crypto_cts_decrypt (cbc_decrypt_child n dec env') n inplace' iv msg dst') = Some EINVAL)"
proof -
  have c: "cbc_child n enc dec (cbc_encrypt_child n enc env) (cbc_decrypt_child n dec env')"
    by (rule block_cipher.cbc_is_child [OF assms(1-3)])
  show ?thesis
    using cbc_child.cts_encrypt [OF c assms(4) _ assms(5,7)] cbc_child.cts_decrypt [OF c assms(4) _ assms(6,8)]
    by (auto simp: crypto_cts_encrypt_def crypto_cts_decrypt_def)
qed

text \<open>The mode on TEA.\<close>

interpretation tea_cts: cbc_child 8 "tea_encrypt k" "tea_decrypt k" "cbc_encrypt_child 8 (tea_encrypt k) ragged"
    "cbc_decrypt_child 8 (tea_decrypt k) ragged" for k
  by (rule tea.cbc_is_child [OF ragged_allocates ragged_allocates])

theorem cts_roundtrip_witness:
  "\<exists>iv1 c iv2. crypto_cts_encrypt (cbc_encrypt_child 8 (tea_encrypt [1, 2, 3, 4]) ragged) 8 True (replicate 8 7) (replicate 27 65)
      (replicate 27 65) = (None, iv1, c) \<and>
    crypto_cts_decrypt (cbc_decrypt_child 8 (tea_decrypt [1, 2, 3, 4]) ragged) 8 False (replicate 8 7) c (replicate 27 0) =
      (None, iv2, replicate 27 65)"
  using cts_roundtrip [OF tea.block_cipher_axioms ragged_allocates ragged_allocates,
      of "replicate 8 7" "replicate 27 65" "replicate 27 65" "replicate 27 0" True False "[1, 2, 3, 4]"]
  by auto

end
