(* ===== verification/Xts.thy ===== *)
theory Xts
  imports Ecb Cts Seed
begin

text \<open>
  XTS (\<open>kernel-crypto/xts.c\<close>) over an ECB child and a tweak cipher. The multiplication by \<open>x\<close> in the field of the tweaks
  (\<open>gf128mul_x_ble\<close>) and the key check (\<open>xts_verify_key\<close>) are inline functions of kernel headers and parameters here.
  The two passes over the data use the walk of \<open>SkcipherWalk\<close>; a request that is not a multiple of the block size leaves
  its loop at the last full block.
\<close>

definition XTS_BLOCK_SIZE :: nat where
  "XTS_BLOCK_SIZE = 16"

section \<open>The passes\<close>

text \<open>
  The loop over the blocks of a chunk: \<open>ahead\<close> is \<open>w.total - w.nbytes\<close>. The result tells whether the function
  returned from inside the loop, then the tweak, the tweak kept in the request and the output.
\<close>

function xts_blocks ::
    "(bytes \<Rightarrow> bytes) \<Rightarrow> bool \<Rightarrow> bool \<Rightarrow> bool \<Rightarrow> nat \<Rightarrow> bytes \<Rightarrow> bytes \<Rightarrow> bytes \<Rightarrow> bool \<times> bytes \<times> bytes \<times> bytes" where
  "xts_blocks mulx cts enc second_pass ahead t rt data =
    (let wsrc = take 16 data; avail = length data
     in if cts \<and> ahead + avail < 2 * 16 then
          let rt1 = (if \<not> enc \<and> second_pass then t else rt);
              t1 = (if enc then t else mulx t);
              wdst = xor_bytes t1 wsrc;
              rt2 = (if enc \<and> second_pass then mulx t1 else rt1)
          in (True, t1, rt2, wdst)
        else
          let wdst = xor_bytes t wsrc; t1 = mulx t
          in if avail - 16 \<ge> 16
             then (case xts_blocks mulx cts enc second_pass ahead t1 rt (drop 16 data) of
                 (stop, t2, rt2, out) \<Rightarrow> (stop, t2, rt2, wdst @ out))
             else (False, t1, rt, wdst))"
  by pat_completeness auto
termination
  by (relation "measure (\<lambda>(m, c, e, s, k, t, r, d). length d)") auto

declare xts_blocks.simps [simp del]

fun xts_walk_loop ::
    "(bytes \<Rightarrow> bytes) \<Rightarrow> bool \<Rightarrow> bool \<Rightarrow> bool \<Rightarrow> layout \<Rightarrow> nat \<Rightarrow> nat \<Rightarrow> errno option \<times> walk \<Rightarrow> bytes \<Rightarrow> bytes \<Rightarrow>
     bytes \<Rightarrow> bytes \<Rightarrow> (errno option \<times> bytes \<times> bytes) option" where
  "xts_walk_loop mulx cts enc second_pass env fuel i (err, w) t rt data out =
    (if wk_nbytes w = 0 then Some (err, rt, out)
     else case fuel of
       0 \<Rightarrow> None
     | Suc fuel' \<Rightarrow>
       (case xts_blocks mulx cts enc second_pass (wk_total w - wk_nbytes w) t rt (take (wk_nbytes w) data) of
          (stop, t', rt', chunk) \<Rightarrow>
            if stop then Some (None, rt', out @ chunk)
            else
              let avail = wk_nbytes w mod 16
              in xts_walk_loop mulx cts enc second_pass env fuel' (Suc i)
                   (skcipher_walk_done 16 16 env (Suc i) (Inr avail) w) t' rt' (drop (wk_nbytes w - avail) data) (out @ chunk)))"

declare xts_walk_loop.simps [simp del]

definition xts_xor_tweak ::
    "(bytes \<Rightarrow> bytes) \<Rightarrow> bool \<Rightarrow> bool \<Rightarrow> bool \<Rightarrow> layout \<Rightarrow> bytes \<Rightarrow> bytes \<Rightarrow> (errno option \<times> bytes \<times> bytes) option" where
  "xts_xor_tweak mulx cts second_pass enc env t data =
    xts_walk_loop mulx cts enc second_pass env (length data) 0 (skcipher_walk_virt 16 16 env (length data)) t t data []"

section \<open>Requests\<close>

type_synonym ecb_child = "bytes \<Rightarrow> errno option \<times> bytes"

definition xts_cts_final :: "ecb_child \<Rightarrow> bool \<Rightarrow> bytes \<Rightarrow> bytes \<Rightarrow> bytes \<Rightarrow> errno option \<times> bytes" where
  "xts_cts_final crypt inplace t src dst =
    (let offset = length src - length src mod 16; tail = length src mod 16;
         b0 = take 16 (drop (offset - 16) dst); b1 = b0;
         b0' = take tail (drop offset (if inplace then dst else src)) @ drop tail b0;
         b0'' = xor_bytes t b0';
         dst1 = write_at (offset - 16) (take (16 + tail) (b0'' @ b1)) dst
     in case crypt (take 16 (drop (offset - 16) dst1)) of
          (err, out) \<Rightarrow>
            let dst2 = write_at (offset - 16) out dst1
            in if err \<noteq> None then (err, dst2)
               else (None, write_at (offset - 16) (xor_bytes t (take 16 (drop (offset - 16) dst2))) dst2))"

text \<open>\<open>xts_encrypt\<close> and \<open>xts_decrypt\<close> differ in the flag and in the child's operation.\<close>

definition xts_crypt ::
    "(bytes \<Rightarrow> bytes) \<Rightarrow> (bytes \<Rightarrow> bytes) \<Rightarrow> ecb_child \<Rightarrow> bool \<Rightarrow> layout \<Rightarrow> layout \<Rightarrow> bool \<Rightarrow> bytes \<Rightarrow> bytes \<Rightarrow> bytes \<Rightarrow>
     (errno option \<times> bytes) option" where
  "xts_crypt mulx tweak crypt enc env1 env2 inplace iv src dst =
    (let cts = (length src mod 16 \<noteq> 0); whole = length src - length src mod 16
     in if length src < XTS_BLOCK_SIZE then Some (Some EINVAL, dst)
        else
          let t = tweak iv
          in case xts_xor_tweak mulx cts False enc env1 t src of
               None \<Rightarrow> None
             | Some (err, rt, out) \<Rightarrow>
               let dst1 = write_at 0 out dst
               in if err \<noteq> None then Some (err, dst1)
                  else case crypt (take whole dst1) of
                    (err, out) \<Rightarrow>
                      let dst2 = write_at 0 out dst1
                      in if err \<noteq> None then Some (err, dst2)
                         else case xts_xor_tweak mulx cts True enc env2 rt (take whole dst2) of
                           None \<Rightarrow> None
                         | Some (err, rt, out) \<Rightarrow>
                           let dst3 = write_at 0 out dst2
                           in if err \<noteq> None \<or> \<not> cts then Some (err, dst3)
                              else Some (xts_cts_final crypt inplace rt src dst3))"

definition xts_encrypt where
  "xts_encrypt mulx tweak child_encrypt = xts_crypt mulx tweak child_encrypt True"

definition xts_decrypt where
  "xts_decrypt mulx tweak child_decrypt = xts_crypt mulx tweak child_decrypt False"

text \<open>The key: the check first, then the second half for the tweak and the first for the data.\<close>

definition xts_setkey ::
    "(bytes \<Rightarrow> errno option) \<Rightarrow> (bytes \<Rightarrow> errno option) \<Rightarrow> (bytes \<Rightarrow> errno option) \<Rightarrow> bytes \<Rightarrow> errno option" where
  "xts_setkey verify_key tweak_setkey child_setkey key =
    (case verify_key key of
       Some err \<Rightarrow> Some err
     | None \<Rightarrow>
       let keylen = length key div 2
       in case tweak_setkey (take keylen (drop keylen key)) of
            Some err \<Rightarrow> Some err
          | None \<Rightarrow> child_setkey (take keylen key))"

section \<open>The passes on a flat message\<close>

fun xts_flat :: "(bytes \<Rightarrow> bytes) \<Rightarrow> nat \<Rightarrow> bytes \<Rightarrow> bytes \<Rightarrow> bytes" where
  "xts_flat mulx 0 t data = []"
| "xts_flat mulx (Suc n) t data = xor_bytes t (take 16 data) @ xts_flat mulx n (mulx t) (drop 16 data)"

text \<open>The \<open>n\<close> full blocks of a request with a partial one: in decryption the last takes the next tweak.\<close>

definition xts_steal :: "(bytes \<Rightarrow> bytes) \<Rightarrow> bool \<Rightarrow> nat \<Rightarrow> bytes \<Rightarrow> bytes \<Rightarrow> bytes" where
  "xts_steal mulx enc m t data = xts_flat mulx m t data @
    xor_bytes ((mulx ^^ (if enc then m else Suc m)) t) (take 16 (drop (16 * m) data))"

definition xts_kept :: "(bytes \<Rightarrow> bytes) \<Rightarrow> bool \<Rightarrow> bool \<Rightarrow> nat \<Rightarrow> bytes \<Rightarrow> bytes \<Rightarrow> bytes" where
  "xts_kept mulx enc second_pass m t rt = (if second_pass then (mulx ^^ (if enc then Suc m else m)) t else rt)"

lemma xts_blocks_stop:
  "length data = 16 * Suc m + r \<Longrightarrow> ahead + r < 16 \<Longrightarrow>
    \<exists>t'. xts_blocks mulx True enc second_pass ahead t rt data =
      (True, t', xts_kept mulx enc second_pass m t rt, xts_steal mulx enc m t data)"
proof (induction m arbitrary: t data)
  case 0
  then show ?case
    by (subst xts_blocks.simps) (auto simp: Let_def xts_kept_def xts_steal_def)
next
  case (Suc m)
  obtain t' where "xts_blocks mulx True enc second_pass ahead (mulx t) rt (drop 16 data) =
      (True, t', xts_kept mulx enc second_pass m (mulx t) rt, xts_steal mulx enc m (mulx t) (drop 16 data))"
    using Suc.IH [of "drop 16 data" "mulx t"] Suc.prems by auto
  then show ?case using Suc.prems
    by (subst xts_blocks.simps) (auto simp: Let_def xts_kept_def xts_steal_def funpow_swap1 add.commute)
qed

lemma xts_blocks_go:
  "length data = 16 * Suc m + r \<Longrightarrow> r < 16 \<Longrightarrow> cts \<longrightarrow> 16 \<le> ahead + r \<Longrightarrow>
    xts_blocks mulx cts enc second_pass ahead t rt data =
      (False, (mulx ^^ Suc m) t, rt, xts_flat mulx (Suc m) t data)"
proof (induction m arbitrary: t data)
  case 0
  then show ?case by (subst xts_blocks.simps) (auto simp: Let_def)
next
  case (Suc m)
  then have "xts_blocks mulx cts enc second_pass ahead (mulx t) rt (drop 16 data) =
      (False, (mulx ^^ Suc m) (mulx t), rt, xts_flat mulx (Suc m) (mulx t) (drop 16 data))"
    by (intro Suc.IH) simp_all
  then show ?case using Suc.prems
    by (subst xts_blocks.simps) (auto simp: Let_def funpow_swap1 xts_flat.simps(2) [of mulx "Suc m" t data] simp del: xts_flat.simps(2))
qed

lemma xts_flat_add: "xts_flat mulx (m + n) t data = xts_flat mulx m t data @ xts_flat mulx n ((mulx ^^ m) t) (drop (16 * m) data)"
  by (induction m arbitrary: t data) (simp_all add: funpow_swap1 add.commute)

lemma xts_flat_take: "16 * n \<le> k \<Longrightarrow> xts_flat mulx n t (take k data) = xts_flat mulx n t data"
  by (induction n arbitrary: t data k) (simp_all add: drop_take min_def)

text \<open>The contract of the walk with blocks of 16 bytes, for its steps only.\<close>

interpretation xts_steps: block_mode 16 16 1 False "\<lambda>iv blk. (iv, blk)"
    "\<lambda>w iv chunk. case block_loop 16 (\<lambda>iv blk. (iv, blk)) iv chunk of (iv', out, left) \<Rightarrow> (iv', out, Inr left)"
  by unfold_locales (auto simp: PAGE_SIZE_def)

definition xts_pass :: "(bytes \<Rightarrow> bytes) \<Rightarrow> bool \<Rightarrow> bool \<Rightarrow> bool \<Rightarrow> nat \<Rightarrow> bytes \<Rightarrow> bytes \<Rightarrow> bytes \<Rightarrow> bytes \<times> bytes" where
  "xts_pass mulx cts enc second_pass m t rt data =
    (if cts then (xts_kept mulx enc second_pass m t rt, xts_steal mulx enc m t data)
     else (rt, xts_flat mulx (Suc m) t data))"

lemma xts_steal_add:
  "xts_steal mulx enc (k + m) t data = xts_flat mulx k t data @ xts_steal mulx enc m ((mulx ^^ k) t) (drop (16 * k) data)"
proof -
  have p: "(mulx ^^ (k + m)) t = (mulx ^^ m) ((mulx ^^ k) t)" for m
    by (metis add.commute comp_apply funpow_add)
  have d: "drop (16 * (k + m)) data = drop (16 * m) (drop (16 * k) data)"
    by (simp add: distrib_left add.commute)
  show ?thesis
    unfolding xts_steal_def xts_flat_add d by (simp add: p p [of "Suc m", simplified])
qed

lemma xts_kept_add: "xts_kept mulx enc second_pass (k + m) t rt = xts_kept mulx enc second_pass m ((mulx ^^ k) t) rt"
  by (simp add: xts_kept_def funpow_add add.commute [of k m])

lemma xts_walk_flat:
  assumes "walk_ok 16 16 (length data) (err, w)" "length data \<le> fuel" "length data = 16 * Suc m + r" "r < 16" "\<not> cts \<longrightarrow> r = 0"
  shows "\<exists>err' rt' out'. xts_walk_loop mulx cts enc second_pass env fuel i (err, w) t rt data out = Some (err', rt', out @ out') \<and>
    (err' = Some ENOMEM \<or> err' = None \<and> (rt', out') = xts_pass mulx cts enc second_pass m t rt data) \<and>
    (allocates env \<longrightarrow> err \<noteq> Some ENOMEM \<longrightarrow> err' \<noteq> Some ENOMEM)"
  using assms
proof (induction m arbitrary: err w i t data out fuel rule: less_induct)
  case (less m)
  show ?case
  proof (cases "wk_nbytes w = 0")
    case True
    then have "err = Some ENOMEM" using less.prems(1,3) by (auto simp: walk_ok_def)
    then show ?thesis using True by (subst xts_walk_loop.simps) auto
  next
    case False
    let ?n = "wk_nbytes w"
    have n: "16 \<le> ?n" "?n \<le> length data" "wk_total w = length data" "err = None"
      using less.prems(1) False xts_steps.full_chunk [OF less.prems(1)] by (auto simp: walk_ok_def split: if_splits)
    obtain fuel' where fu: "fuel = Suc fuel'" using less.prems(2,3) by (cases fuel) auto
    obtain k where k: "?n = 16 * Suc k + ?n mod 16"
    proof -
      have "0 < ?n div 16" using n(1) by simp
      then obtain k where "?n div 16 = Suc k" by (cases "?n div 16") auto
      then show thesis using that [of k] by (metis mult_div_mod_eq)
    qed
    define s where "s = ?n mod 16"
    have s: "s < 16" "?n = 16 * Suc k + s" using k by (simp_all add: s_def)
    define ahead where "ahead = length data - ?n"
    have tot: "16 * Suc m + r = 16 * Suc k + (s + ahead)" using n(2) s(2) less.prems(3) by (simp add: ahead_def)
    then have tot': "16 * m + r = 16 * k + (s + ahead)" by simp
    have lt: "length (take ?n data) = 16 * Suc k + s" using n(2) s(2) by simp
    show ?thesis
    proof (cases "cts \<and> ahead + s < 16")
      case True
      then have "ahead + s < 16" by simp
      then have "k \<le> m" "m \<le> k" using tot' less.prems(4) by linarith+
      then have km: "k = m" by simp
      obtain t' where b: "xts_blocks mulx True enc second_pass ahead t rt (take ?n data) =
          (True, t', xts_kept mulx enc second_pass k t rt, xts_steal mulx enc k t (take ?n data))"
        using xts_blocks_stop [OF lt, of ahead mulx enc second_pass t rt] True by auto
      have "xts_steal mulx enc m t (take ?n data) = xts_steal mulx enc m t data"
        using s(2) km by (simp add: xts_steal_def xts_flat_take drop_take min_def)
      then show ?thesis
        using b True False n(3,4) km
        by (subst xts_walk_loop.simps) (auto simp: fu ahead_def [symmetric] xts_pass_def)
    next
      case no: False
      have b: "xts_blocks mulx cts enc second_pass ahead t rt (take ?n data) =
          (False, (mulx ^^ Suc k) t, rt, xts_flat mulx (Suc k) t (take ?n data))"
        using no s(1) by (intro xts_blocks_go [OF lt]) auto
      have fl: "xts_flat mulx (Suc k) t (take ?n data) = xts_flat mulx (Suc k) t data"
        using s(2) by (intro xts_flat_take) simp
      define data' where "data' = drop (16 * Suc k) data"
      obtain e2 w2 where d: "skcipher_walk_done 16 16 env (Suc i) (Inr s) w = (e2, w2)"
        by (cases "skcipher_walk_done 16 16 env (Suc i) (Inr s) w")
      have step: "xts_walk_loop mulx cts enc second_pass env fuel i (err, w) t rt data out =
          xts_walk_loop mulx cts enc second_pass env fuel' (Suc i) (e2, w2) ((mulx ^^ Suc k) t) rt data'
            (out @ xts_flat mulx (Suc k) t data)"
      proof -
        have ns: "?n - s = 16 * Suc k" using s(2) by simp
        have "xts_walk_loop mulx cts enc second_pass env fuel i (err, w) t rt data out =
            (case xts_blocks mulx cts enc second_pass (wk_total w - ?n) t rt (take ?n data) of
              (stop, t', rt', chunk) \<Rightarrow>
                if stop then Some (None, rt', out @ chunk)
                else xts_walk_loop mulx cts enc second_pass env fuel' (Suc i)
                  (skcipher_walk_done 16 16 env (Suc i) (Inr s) w) t' rt' (drop (?n - s) data) (out @ chunk))"
          using False by (subst xts_walk_loop.simps) (simp add: fu s_def Let_def split: prod.split)
        then show ?thesis unfolding n(3) ahead_def [symmetric] b fl ns d data'_def by simp
      qed
      have cr: "xts_steps.chunk_result w = Inr s" by (simp add: xts_steps.chunk_result_def s_def)
      have "?n - s = 16 * Suc k" using s(2) by simp
      then have ldd: "length data' = length data - (?n - s)" by (simp only: data'_def length_drop)
      have ok: "walk_ok 16 16 (length data') (e2, w2)"
        using xts_steps.done_ok [OF less.prems(1) n(1), of env "Suc i"] unfolding cr d s_def [symmetric] ldd .
      have e2: "allocates env \<Longrightarrow> e2 \<noteq> Some ENOMEM"
        using allocates_done [of env "Inr s" 16 16 "Suc i" w] d by simp
      show ?thesis
      proof (cases "length data' = 0")
        case True
        then have c: "\<not> cts" "k = m" using no tot less.prems(3,4) s(2) by (auto simp: data'_def)
        have "wk_nbytes w2 = 0" "e2 = Some ENOMEM \<or> e2 = None" using ok True by (auto simp: walk_ok_def split: if_splits)
        then show ?thesis unfolding step
          using c e2 by (subst xts_walk_loop.simps) (auto simp: xts_pass_def)
      next
        case nz: False
        have ld: "length data' = s + ahead" using n(2) s(2) by (simp add: data'_def ahead_def)
        have big: "16 \<le> s + ahead"
        proof (cases cts)
          case False
          then have "r = 0" using less.prems(5) by simp
          then have "16 dvd s + ahead" using tot by presburger
          then show ?thesis using nz ld by (auto dest: dvd_imp_le)
        qed (use no in simp)
        define m' where "m' = m - Suc k"
        have "Suc k \<le> m" using tot' big less.prems(4) by linarith
        then have mm: "m = Suc k + m'" by (simp add: m'_def)
        have mr: "s + ahead = 16 * Suc m' + r" using tot unfolding mm by simp
        have "\<exists>err' rt' out'. xts_walk_loop mulx cts enc second_pass env fuel' (Suc i) (e2, w2) ((mulx ^^ Suc k) t) rt data'
              (out @ xts_flat mulx (Suc k) t data) = Some (err', rt', (out @ xts_flat mulx (Suc k) t data) @ out') \<and>
            (err' = Some ENOMEM \<or> err' = None \<and> (rt', out') = xts_pass mulx cts enc second_pass m' ((mulx ^^ Suc k) t) rt data') \<and>
            (allocates env \<longrightarrow> e2 \<noteq> Some ENOMEM \<longrightarrow> err' \<noteq> Some ENOMEM)"
          using mm ok less.prems(2,4,5) ld mr fu tot by (intro less.IH) (simp_all add: data'_def)
        then obtain err' rt' out' where IH: "xts_walk_loop mulx cts enc second_pass env fuel' (Suc i) (e2, w2) ((mulx ^^ Suc k) t) rt data'
              (out @ xts_flat mulx (Suc k) t data) = Some (err', rt', (out @ xts_flat mulx (Suc k) t data) @ out')"
            "err' = Some ENOMEM \<or> err' = None \<and> (rt', out') = xts_pass mulx cts enc second_pass m' ((mulx ^^ Suc k) t) rt data'"
            "allocates env \<longrightarrow> e2 \<noteq> Some ENOMEM \<longrightarrow> err' \<noteq> Some ENOMEM" by blast
        have "(rt', xts_flat mulx (Suc k) t data @ out') = xts_pass mulx cts enc second_pass m t rt data"
          if "(rt', out') = xts_pass mulx cts enc second_pass m' ((mulx ^^ Suc k) t) rt data'"
          using that unfolding mm data'_def xts_pass_def xts_kept_add xts_steal_add
          by (simp only: add_Suc_right [symmetric] xts_flat_add split: if_splits) simp_all
        with IH e2 show ?thesis unfolding step by auto
      qed
    qed
  qed
qed

lemma xts_xor_tweak_flat:
  assumes "length data = 16 * Suc m + r" "r < 16" "\<not> cts \<longrightarrow> r = 0" "allocates env"
  shows "xts_xor_tweak mulx cts second_pass enc env t data = Some (None, xts_pass mulx cts enc second_pass m t t data)"
proof -
  obtain e0 w0 where v: "skcipher_walk_virt 16 16 env (length data) = (e0, w0)"
    by (cases "skcipher_walk_virt 16 16 env (length data)")
  have ok: "walk_ok 16 16 (length data) (e0, w0)" using xts_steps.virt_ok [of "length data" env] v by simp
  have "e0 \<noteq> Some ENOMEM" using allocates_virt [OF assms(4), of 16 16 "length data"] v by simp
  with xts_walk_flat [OF ok le_refl assms(1-3), of mulx enc second_pass env 0 t t "[]"] assms(4)
  show ?thesis by (auto simp: xts_xor_tweak_def v)
qed

section \<open>The mode\<close>

text \<open>One block under a tweak, and the mode of IEEE 1619 with \<open>f\<close> the cipher or its inverse.\<close>

definition xts_block :: "(bytes \<Rightarrow> bytes) \<Rightarrow> bytes \<Rightarrow> bytes \<Rightarrow> bytes" where
  "xts_block f t blk = xor_bytes t (f (xor_bytes t blk))"

fun xts_whole :: "(bytes \<Rightarrow> bytes) \<Rightarrow> (bytes \<Rightarrow> bytes) \<Rightarrow> nat \<Rightarrow> bytes \<Rightarrow> bytes \<Rightarrow> bytes" where
  "xts_whole mulx f 0 t data = []"
| "xts_whole mulx f (Suc n) t data = xts_block f t (take 16 data) @ xts_whole mulx f n (mulx t) (drop 16 data)"

definition xts_mode :: "(bytes \<Rightarrow> bytes) \<Rightarrow> (bytes \<Rightarrow> bytes) \<Rightarrow> bool \<Rightarrow> bytes \<Rightarrow> bytes \<Rightarrow> bytes" where
  "xts_mode mulx f enc t msg =
    (if length msg mod 16 = 0 then xts_whole mulx f (length msg div 16) t msg
     else
       let m = length msg div 16 - 1; r = length msg mod 16;
           u = (mulx ^^ (if enc then m else Suc m)) t; v = (mulx ^^ (if enc then Suc m else m)) t;
           cc = xts_block f u (take 16 (drop (16 * m) msg))
       in xts_whole mulx f m t msg @ xts_block f v (drop (16 * Suc m) msg @ drop r cc) @ take r cc)"

locale xts_cipher = block_cipher 16 enc dec for enc dec +
  fixes mulx :: "bytes \<Rightarrow> bytes"
  assumes length_mulx: "length t = 16 \<Longrightarrow> length (mulx t) = 16"
begin

lemma length_tweaks: "length t = 16 \<Longrightarrow> length ((mulx ^^ n) t) = 16"
  by (induction n) (simp_all add: length_mulx)

lemma length_xts_block:
  assumes "\<And>b. length b = 16 \<Longrightarrow> length (f b) = 16"
  shows "length t = 16 \<Longrightarrow> length blk = 16 \<Longrightarrow> length (xts_block f t blk) = 16"
  by (simp add: xts_block_def assms)

lemma length_xts_flat: "length t = 16 \<Longrightarrow> 16 * n \<le> length data \<Longrightarrow> length (xts_flat mulx n t data) = 16 * n"
  by (induction n arbitrary: t data) (simp_all add: length_mulx)

lemma length_xts_whole:
  assumes "\<And>b. length b = 16 \<Longrightarrow> length (f b) = 16"
  shows "length t = 16 \<Longrightarrow> 16 * n \<le> length data \<Longrightarrow> length (xts_whole mulx f n t data) = 16 * n"
  by (induction n arbitrary: t data) (simp_all add: length_mulx length_xts_block [OF assms])

lemma xts_whole_add:
  "xts_whole mulx f (m + n) t data = xts_whole mulx f m t data @ xts_whole mulx f n ((mulx ^^ m) t) (drop (16 * m) data)"
  by (induction m arbitrary: t data) (simp_all add: funpow_swap1 add.commute)

text \<open>Tweaking, the cipher on each block, and tweaking again.\<close>

lemma xts_two_passes:
  assumes f: "\<And>b. length b = 16 \<Longrightarrow> length (f b) = 16"
  shows "length t = 16 \<Longrightarrow> 16 * n \<le> length data \<Longrightarrow>
    xts_flat mulx n t (map_blocks 16 f n (xts_flat mulx n t data @ rest) @ rest') = xts_whole mulx f n t data"
proof (induction n arbitrary: t data)
  case (Suc n)
  have l: "length (xor_bytes t (take 16 data)) = 16" "length (f (xor_bytes t (take 16 data))) = 16" using Suc.prems f by simp_all
  have "xts_flat mulx n (mulx t) (map_blocks 16 f n (xts_flat mulx n (mulx t) (drop 16 data) @ rest) @ rest') =
      xts_whole mulx f n (mulx t) (drop 16 data)"
    using Suc.prems length_mulx by (intro Suc.IH) simp_all
  then show ?case using l by (simp add: xts_block_def)
qed simp

lemma xts_steal_passes:
  assumes f: "\<And>b. length b = 16 \<Longrightarrow> length (f b) = 16" and t: "length t = 16" and d: "16 * Suc m \<le> length data"
  shows "xts_steal mulx e m t (map_blocks 16 f (Suc m) (xts_steal mulx e m t data)) =
    xts_whole mulx f m t data @ xts_block f ((mulx ^^ (if e then m else Suc m)) t) (take 16 (drop (16 * m) data))"
proof -
  define u where "u = (mulx ^^ (if e then m else Suc m)) t"
  define b where "b = take 16 (drop (16 * m) data)"
  define x where "x = xor_bytes u b"
  have lu: "length u = 16" unfolding u_def by (rule length_tweaks [OF t])
  have lf: "length (xts_flat mulx m t data) = 16 * m" using d by (intro length_xts_flat [OF t]) simp
  have lx: "length x = 16" using lu d by (simp add: x_def b_def)
  have st: "xts_steal mulx e m t z = xts_flat mulx m t z @ xor_bytes u (take 16 (drop (16 * m) z))" for z
    by (simp only: xts_steal_def u_def)
  have st1: "xts_steal mulx e m t data = xts_flat mulx m t data @ x" unfolding st x_def b_def ..
  have mb: "map_blocks 16 f (Suc m) (xts_flat mulx m t data @ x) = map_blocks 16 f m (xts_flat mulx m t data @ x) @ f x"
    using map_blocks_add [of 16 f m 1 "xts_flat mulx m t data @ x"] lf lx by (simp add: mult.commute)
  have lm: "length (map_blocks 16 f m (xts_flat mulx m t data @ x)) = 16 * m"
    using length_map_blocks [of 16 f m] f lf by (simp add: mult.commute)
  have "16 * m \<le> length data" using d by simp
  then have p: "xts_flat mulx m t (map_blocks 16 f m (xts_flat mulx m t data @ x) @ f x) = xts_whole mulx f m t data"
    by (intro xts_two_passes f t)
  show ?thesis
    unfolding st1 unfolding mb unfolding st p unfolding u_def [symmetric] b_def [symmetric] using lm f [OF lx] by (simp add: xts_block_def x_def)
qed

text \<open>The mode undoes itself.\<close>

lemma xts_block_inverse: "length t = 16 \<Longrightarrow> length blk = 16 \<Longrightarrow> xts_block dec t (xts_block enc t blk) = blk"
  by (simp add: xts_block_def length_enc dec_enc xor_bytes_commute)

lemma xts_whole_inverse:
  "length t = 16 \<Longrightarrow> 16 * n \<le> length data \<Longrightarrow>
    xts_whole mulx dec n t (xts_whole mulx enc n t data @ rest) = take (16 * n) data"
proof (induction n arbitrary: t data)
  case (Suc n)
  have l: "length (xts_block enc t (take 16 data)) = 16" using Suc.prems by (intro length_xts_block length_enc) simp_all
  have "xts_whole mulx dec n (mulx t) (xts_whole mulx enc n (mulx t) (drop 16 data) @ rest) = take (16 * n) (drop 16 data)"
    using Suc.prems length_mulx by (intro Suc.IH) simp_all
  then show ?case using l Suc.prems xts_block_inverse by (simp add: take_add)
qed simp

lemma xts_mode_inverse:
  assumes t: "length t = 16" and msg: "16 \<le> length msg"
  shows "length (xts_mode mulx enc True t msg) = length msg \<and>
    xts_mode mulx dec False t (xts_mode mulx enc True t msg) = msg"
proof (cases "length msg mod 16 = 0")
  case True
  let ?n = "length msg div 16"
  have n: "length msg = 16 * ?n" using True by presburger
  have l: "length (xts_whole mulx enc ?n t msg) = 16 * ?n" using n by (intro length_xts_whole length_enc t) simp_all
  have "xts_whole mulx dec ?n t (xts_whole mulx enc ?n t msg) = msg"
    using xts_whole_inverse [OF t, of ?n msg "[]"] n by simp
  then show ?thesis using True n l by (simp add: xts_mode_def)
next
  case False
  define m where "m = length msg div 16 - 1"
  define r where "r = length msg mod 16"
  have r: "r \<noteq> 0" "r < 16" using False by (simp_all add: r_def)
  have "0 < length msg div 16" using msg by simp
  then have lm: "length msg = 16 * Suc m + r" by (simp add: m_def r_def)
  define cc where "cc = xts_block enc ((mulx ^^ m) t) (take 16 (drop (16 * m) msg))"
  define tail where "tail = drop (16 * Suc m) msg"
  define last where "last = xts_block enc ((mulx ^^ Suc m) t) (tail @ drop r cc)"
  define X where "X = xts_whole mulx enc m t msg"
  have lt: "length tail = r" using lm by (simp add: tail_def)
  have lcc: "length cc = 16" unfolding cc_def using lm by (intro length_xts_block length_enc length_tweaks t) simp_all
  have ll: "length last = 16" unfolding last_def using lt lcc r by (intro length_xts_block length_enc length_tweaks t) simp_all
  have lX: "length X = 16 * m" unfolding X_def using lm by (intro length_xts_whole length_enc t) simp_all
  have c: "xts_mode mulx enc True t msg = X @ last @ take r cc"
    unfolding xts_mode_def Let_def m_def [symmetric] r_def [symmetric] using r(1)
    by (simp add: X_def last_def cc_def tail_def)
  have lc: "length (X @ last @ take r cc) = 16 * Suc m + r" using lX ll lcc r by simp
  have "(16 * Suc m + r) mod 16 = r" unfolding mod_mult_self4 using r by simp
  moreover have "(16 * Suc m + r) div 16 = Suc m" using div_mult_self4 [of "16 :: nat" "Suc m" r] r by simp
  ultimately have dm: "length (X @ last @ take r cc) div 16 - 1 = m" "length (X @ last @ take r cc) mod 16 = r"
    unfolding lc by simp_all
  have b: "xts_block dec ((mulx ^^ Suc m) t) last = tail @ drop r cc"
    unfolding last_def using lt lcc r by (intro xts_block_inverse length_tweaks t) simp
  have p: "xts_block dec ((mulx ^^ m) t) cc = take 16 (drop (16 * m) msg)"
    unfolding cc_def using lm by (intro xts_block_inverse length_tweaks t) simp
  have "xts_mode mulx dec False t (X @ last @ take r cc) =
      xts_whole mulx dec m t (X @ last @ take r cc) @
      xts_block dec ((mulx ^^ m) t) (take r cc @ drop r (tail @ drop r cc)) @ take r (tail @ drop r cc)"
    unfolding xts_mode_def dm using r(1) lX ll b by (simp add: Let_def)
  also have "\<dots> = take (16 * m) msg @ take 16 (drop (16 * m) msg) @ tail"
    using xts_whole_inverse [OF t, of m msg "last @ take r cc"] lm lt p by (simp add: X_def)
  also have "\<dots> = msg" by (simp add: tail_def) (metis append_take_drop_id drop_drop)
  finally show ?thesis using c lc lm by simp
qed

text \<open>The requests compute it, with the child in either direction.\<close>

lemma xts_crypt_mode:
  assumes f: "\<And>b. length b = 16 \<Longrightarrow> length (f b) = 16"
    and crypt: "\<And>n src. length src = 16 * n \<Longrightarrow> crypt src = (None, map_blocks 16 f n src)"
    and t: "length (tweak iv) = 16" and al: "allocates env1" "allocates env2"
    and len: "16 \<le> length src" "length dst = length src" and ip: "inplace \<longrightarrow> dst = src"
  shows "xts_crypt mulx tweak crypt e env1 env2 inplace iv src dst = Some (None, xts_mode mulx f e (tweak iv) src)"
proof -
  define m where "m = length src div 16 - 1"
  define r where "r = length src mod 16"
  define t0 where "t0 = tweak iv"
  have "0 < length src div 16" using len(1) by simp
  then have ls: "length src = 16 * Suc m + r" "length src div 16 = Suc m" by (simp_all add: m_def r_def)
  have r: "r < 16" by (simp add: r_def)
  have lt: "length t0 = 16" using t by (simp add: t0_def)
  have whole: "length src - r = 16 * Suc m" using ls by simp
  have big: "\<not> length src < XTS_BLOCK_SIZE" using len(1) by (simp add: XTS_BLOCK_SIZE_def)
  let ?cts = "r \<noteq> 0"
  define D1 where "D1 = snd (xts_pass mulx ?cts e False m t0 t0 src)"
  have p1: "xts_xor_tweak mulx ?cts False e env1 t0 src = Some (None, t0, D1)"
    using xts_xor_tweak_flat [OF ls(1) r _ al(1), of ?cts mulx False e t0] by (auto simp: D1_def xts_pass_def xts_kept_def)
  have f0: "length (xts_flat mulx k t0 src) = 16 * k" if "k \<le> Suc m" for k using ls(1) that by (intro length_xts_flat lt) simp
  have l1: "length D1 = 16 * Suc m"
    using f0 [of m] f0 [of "Suc m"] ls(1) length_tweaks [OF lt, of m] length_tweaks [OF lt, of "Suc m"]
    by (simp add: D1_def xts_pass_def xts_steal_def)
  define D2 where "D2 = map_blocks 16 f (Suc m) D1"
  have l2: "length D2 = 16 * Suc m" using length_map_blocks [of 16 f "Suc m" D1] f l1 by (simp add: D2_def mult.commute)
  have c1: "crypt D1 = (None, D2)" using crypt [OF l1] by (simp add: D2_def)
  have p2: "xts_xor_tweak mulx ?cts True e env2 t0 D2 = Some (None, xts_pass mulx ?cts e True m t0 t0 D2)"
    using l2 by (intro xts_xor_tweak_flat [OF _ _ _ al(2), of _ _ 0]) simp_all
  obtain rt D3 where p3: "xts_pass mulx ?cts e True m t0 t0 D2 = (rt, D3)" by fastforce
  define rest where "rest = drop (16 * Suc m) dst"
  have w1: "write_at 0 D1 dst = D1 @ rest" "take (16 * Suc m) (D1 @ rest) = D1"
      "write_at 0 D2 (D1 @ rest) = D2 @ rest" "take (16 * Suc m) (D2 @ rest) = D2"
    using l1 l2 by (simp_all add: write_at_def rest_def)
  have run: "xts_crypt mulx tweak crypt e env1 env2 inplace iv src dst =
      (if r = 0 then Some (None, write_at 0 D3 (D2 @ rest)) else Some (xts_cts_final crypt inplace rt src (write_at 0 D3 (D2 @ rest))))"
    by (simp only: xts_crypt_def Let_def r_def [symmetric] t0_def [symmetric] whole big if_False p1 option.case prod.case w1 c1 p2 p3)
      simp
  have w3: "write_at 0 D (D2 @ rest) = D @ rest" if "length D = 16 * Suc m" for D
    using that l2 by (simp add: write_at_def)
  have d16: "16 * Suc m \<le> length src" using ls(1) by simp
  show ?thesis
  proof (cases "r = 0")
    case True
    have D1: "D1 = xts_flat mulx (Suc m) t0 src" using True by (simp add: D1_def xts_pass_def del: xts_flat.simps)
    have D3: "D3 = xts_whole mulx f (Suc m) t0 src"
      using p3 True xts_two_passes [of f t0 "Suc m" src "[]" "[]", OF f lt d16] by (auto simp: xts_pass_def D2_def D1 simp del: xts_flat.simps map_blocks.simps xts_whole.simps)
    have l3: "length D3 = 16 * Suc m" unfolding D3 using d16 by (intro length_xts_whole f lt) simp_all
    have "rest = []" using True ls(1) len(2) by (simp add: rest_def)
    then have "xts_crypt mulx tweak crypt e env1 env2 inplace iv src dst = Some (None, D3)"
      unfolding run using w3 [OF l3] True by simp
    then show ?thesis using True by (simp add: xts_mode_def r_def t0_def D3 ls(2) del: xts_whole.simps)
  next
    case False
    define u where "u = (mulx ^^ (if e then m else Suc m)) t0"
    define v where "v = (mulx ^^ (if e then Suc m else m)) t0"
    define W where "W = xts_whole mulx f m t0 src"
    define cc where "cc = xts_block f u (take 16 (drop (16 * m) src))"
    have D1: "D1 = xts_steal mulx e m t0 src" using False by (simp add: D1_def xts_pass_def)
    have p3': "rt = v" "D3 = W @ cc"
      using p3 False xts_steal_passes [of f t0 m src e, OF f lt d16] by (simp_all add: xts_pass_def xts_kept_def D2_def D1 v_def u_def W_def cc_def)
    have lv: "length v = 16" "length u = 16" unfolding v_def u_def by (rule length_tweaks [OF lt])+
    have lcc: "length cc = 16" unfolding cc_def using d16 by (intro length_xts_block f lv) simp_all
    have lW: "length W = 16 * m" unfolding W_def using d16 by (intro length_xts_whole f lt) simp_all
    have l3: "length (W @ cc) = 16 * Suc m" using lW lcc by simp
    define tail where "tail = drop (16 * Suc m) src"
    have ltail: "length tail = r" "length rest = r" using ls(1) len(2) by (simp_all add: tail_def rest_def)
    define b where "b = xor_bytes v (tail @ drop r cc)"
    have lb: "length b = 16" using ltail lcc lv r by (simp add: b_def)
    have dt: "drop (16 * Suc m) (if inplace then (W @ cc) @ rest else src) = tail"
      using ip l3 by (simp add: tail_def rest_def del: append_assoc)
    have off: "16 * Suc m - 16 = 16 * m" by simp
    have b0: "take 16 (drop (16 * m) ((W @ cc) @ rest)) = cc" using lW lcc by simp
    have w1: "write_at (16 * m) (take (16 + r) (b @ cc)) ((W @ cc) @ rest) = W @ b @ take r cc"
      using lW lcc lb ltail r by (simp add: write_at_def)
    have w2: "take 16 (drop (16 * m) (W @ x @ take r cc)) = x" "write_at (16 * m) y (W @ x @ take r cc) = W @ y @ take r cc"
      if "length x = 16" "length y = 16" for x y
      using that lW by (simp_all add: write_at_def)
    have cb: "crypt b = (None, f b)" using crypt [of b 1] lb by simp
    have lfb: "length (f b) = 16" by (rule f [OF lb])
    have fin: "xts_cts_final crypt inplace v src ((W @ cc) @ rest) = (None, W @ xor_bytes v (f b) @ take r cc)"
      unfolding xts_cts_final_def r_def [symmetric] whole Let_def off dt b0
      using ltail(1) b_def w1 w2 cb lb lfb lv(1) by simp
    have "xts_crypt mulx tweak crypt e env1 env2 inplace iv src dst =
        Some (xts_cts_final crypt inplace v src ((W @ cc) @ rest))"
      unfolding run using w3 [OF l3] p3' False by simp
    moreover have "xts_mode mulx f e (tweak iv) src = W @ xor_bytes v (f b) @ take r cc"
      unfolding xts_mode_def Let_def r_def [symmetric] ls(2) t0_def [symmetric] diff_Suc_1 using False
      by (simp add: W_def cc_def u_def v_def b_def tail_def xts_block_def)
    ultimately show ?thesis unfolding fin by simp
  qed
qed

end

section \<open>Over ECB on scatterlists\<close>

definition ecb_child :: "(bytes \<Rightarrow> bytes) \<Rightarrow> layout \<Rightarrow> ecb_child" where
  "ecb_child fn env data = (case the (ecb_sg 16 fn env data) of (err, iv, out) \<Rightarrow> (err, out))"

lemma ecb_child_blocks:
  assumes b: "block_cipher 16 enc dec" and al: "allocates env" and src: "length src = 16 * n"
    and fn: "\<And>blk. length blk = 16 \<Longrightarrow> length (fn blk) = 16"
  shows "ecb_child fn env src = (None, map_blocks 16 fn n src)"
proof -
  obtain err v out where "ecb_sg 16 fn env src = Some (err, v, out)" "err = Some ENOMEM \<or>
     (out = map_blocks 16 fn (length src div 16) src \<and> err = (if 16 dvd length src then None else Some EINVAL))"
    "allocates env \<longrightarrow> err \<noteq> Some ENOMEM"
    using block_cipher.ecb_sg_flat [OF b, of fn env src] fn by blast
  then show ?thesis using al src by (simp add: ecb_child_def)
qed

text \<open>C40: XTS over any cipher with 16-byte blocks and any tweak arithmetic, for any layouts with memory and whether or not
  source and destination are the same: both directions compute the mode of IEEE 1619, stealing from the last full
  block when the length is not a multiple of 16, decryption undoes encryption, and less than a block is refused.\<close>

theorem xts_roundtrip:
  assumes "xts_cipher enc dec mulx" "length (tweak iv) = 16" "\<forall>env \<in> {e1, e2, e3, e4, e5, e6}. allocates env"
    and "length dst = length msg" "length dst' = length msg" "ip \<longrightarrow> dst = msg"
    and "ip' \<longrightarrow> dst' = xts_mode mulx enc True (tweak iv) msg"
  shows "(if 16 \<le> length msg then
      (\<exists>ct. ct = xts_mode mulx enc True (tweak iv) msg \<and> length ct = length msg \<and>
        xts_encrypt mulx tweak (ecb_child enc e1) e2 e3 ip iv msg dst = Some (None, ct) \<and>
        xts_decrypt mulx tweak (ecb_child dec e4) e5 e6 ip' iv ct dst' = Some (None, msg))
    else xts_encrypt mulx tweak (ecb_child enc e1) e2 e3 ip iv msg dst = Some (Some EINVAL, dst))"
proof (cases "16 \<le> length msg")
  case True
  have b: "block_cipher 16 enc dec" using assms(1) by (simp add: xts_cipher_def)
  have l: "length (enc x) = 16" "length (dec x) = 16" if "length x = 16" for x
    using b that by (simp_all add: block_cipher_def block_fun_def block_cipher_axioms_def)
  define ct where "ct = xts_mode mulx enc True (tweak iv) msg"
  have inv: "length ct = length msg" "xts_mode mulx dec False (tweak iv) ct = msg"
    using xts_cipher.xts_mode_inverse [OF assms(1,2) True] by (simp_all add: ct_def)
  have "xts_encrypt mulx tweak (ecb_child enc e1) e2 e3 ip iv msg dst = Some (None, ct)"
    unfolding xts_encrypt_def ct_def
    by (rule xts_cipher.xts_crypt_mode [OF assms(1)]) (use assms l True ecb_child_blocks [OF b] in auto)
  moreover have "xts_decrypt mulx tweak (ecb_child dec e4) e5 e6 ip' iv ct dst' = Some (None, msg)"
    unfolding xts_decrypt_def inv(2) [symmetric]
    by (subst inv(2), rule xts_cipher.xts_crypt_mode [OF assms(1), THEN trans])
      (use assms l True inv ecb_child_blocks [OF b] in \<open>auto simp: ct_def\<close>)
  ultimately show ?thesis using True inv(1) ct_def by auto
next
  case False
  then show ?thesis by (simp add: xts_encrypt_def xts_crypt_def XTS_BLOCK_SIZE_def Let_def)
qed

text \<open>The tweak arithmetic of IEEE 1619, and the mode on SEED.\<close>

definition ble_double :: "bytes \<Rightarrow> bytes" where
  "ble_double t = (let w = (get_le t :: 128 word) in put_le 16 (push_bit 1 w XOR (if bit w 127 then 0x87 else 0)))"

interpretation seed_xts: xts_cipher "seed_encrypt ks" "seed_decrypt ks" ble_double for ks
  by (intro xts_cipher.intro seed.block_cipher_axioms xts_cipher_axioms.intro) (simp add: ble_double_def Let_def)

theorem xts_roundtrip_witness:
  "\<exists>ct. xts_encrypt ble_double (seed_encrypt [1]) (ecb_child (seed_encrypt []) ragged) ragged ragged True (replicate 16 3) (replicate 37 65)
      (replicate 37 65) = Some (None, ct) \<and>
    xts_decrypt ble_double (seed_encrypt [1]) (ecb_child (seed_decrypt []) ragged) ragged ragged False (replicate 16 3) ct
      (replicate 37 0) = Some (None, replicate 37 65)"
  using xts_roundtrip [OF seed_xts.xts_cipher_axioms, of "seed_encrypt [1]" "replicate 16 3" ragged ragged ragged ragged ragged ragged
      "replicate 37 65" "replicate 37 65" "replicate 37 0" True False "[]"] ragged_allocates
  by (auto simp: seed.length_enc)

end
