(* ===== verification/Spec2Isabelle.thy ===== *)
theory Spec2Isabelle
  imports Server6 Client6 Cryptd CryptoInc Ecb Pcbc Ctr Keywrap EccCurve
    Tea Seed Blowfish Fcrypt Cast5 Cast6
    MdHash Michael Hmac Cmac Sha3 Drbg Pkcs1pad DhSafePrime Cts Xts
begin

text \<open>
  \<^bold>\<open>cloning-ipv6-server: the C programs and the kernel crypto sources they ship with\<close>

  The repository holds an IPv6 echo server in three variants of which the C one is the first
  (\<open>src/c-server6/server6.c\<close>, \<open>server66.c\<close>, \<open>client6.c\<close>, \<open>socket6.h\<close>), and a copy of the crypto
  directory of the Linux kernel (\<open>src/c-server6/kernel-crypto\<close>). The development follows the C code.

  \<^bold>\<open>The echo server and its client.\<close>
  \<open>Server6\<close>: the echo loop of \<open>handle_client\<close> over the results of successive \<open>recv\<close> calls, the
  argument parsing and the boot sequence of \<open>main\<close> with every exit, one round of the accept loop
  (\<open>clone\<close>, the \<open>fork\<close> fallback, the parent's bookkeeping), the wait loop, and the reachable states of
  the loop in \<open>server6\<close> and in \<open>server66\<close>, where the wait loop is commented out. The parent's state is
  the record \<open>parent\<close>: open descriptors, mapped stacks, children not yet reaped.
  \<open>Client6\<close>: the message assembly and \<open>ping\<close>, with fixed buffers whose bytes may be uninitialised, so
  that overreads and overflows are values. The two components meet in the claim on \<open>ping\<close>, which
  takes the server's echo loop as the peer.

  \<^bold>\<open>Request queues.\<close>
  \<open>CryptoQueue\<close>: \<open>struct crypto_queue\<close> of \<open>algapi.c\<close>, a circular list with a backlog pointer, and its
  four operations, refined to a specification by two lists (admitted and backlogged). \<open>Cryptd\<close>: the
  per-CPU daemon of \<open>cryptd.c\<close> as a step relation over that queue, with its reachable states.

  \<^bold>\<open>Block ciphers.\<close>
  \<open>BlockCipher\<close> holds the interface (locale \<open>block_cipher\<close>: a block size and a permutation of blocks
  with its inverse) and \<open>Feistel\<close> the argument that a Feistel network is one; \<open>Tea\<close> (TEA, XTEA, XETA),
  \<open>Seed\<close>, \<open>Blowfish\<close>, \<open>Fcrypt\<close>, \<open>Cast5\<close> and \<open>Cast6\<close> (tables shared in \<open>CastCommon\<close>) translate the
  ciphers with their key schedules and tables, and interpret the interface.

  \<^bold>\<open>Modes of operation.\<close>
  \<open>SkcipherWalk\<close>: the scatterlist walk of \<open>skcipher.c\<close>, which cuts a message into contiguous chunks, with
  bounce buffers whose allocation may fail. The layout of the two scatterlists and the success of each
  allocation are functions of the step number, left arbitrary. Its locale \<open>block_mode\<close> is what a mode
  promises about one chunk; it shows that the walk of any such mode is the mode on the whole message.
  \<open>Ecb\<close> (with the drivers of \<open>lskcipher.c\<close>), \<open>Pcbc\<close> and \<open>Ctr\<close> (with RFC 3686, and \<open>CryptoInc\<close> for the
  counter) are instances, and \<open>Cbc\<close> (\<open>cbc.cs\<close>, C code in spite of its suffix). \<open>Cts\<close> (\<open>cts.c\<close>) is ciphertext stealing
  over any CBC child (locale \<open>cbc_child\<close>, which \<open>Cbc\<close> over TEA provides), and \<open>Xts\<close> (\<open>xts.c\<close>) the tweaked mode over an
  ECB child, whose two passes leave the walk at the last full block when they steal from it.
  \<open>Keywrap\<close> is RFC 3394 key wrapping.

  \<^bold>\<open>Hashes and message authentication.\<close>
  \<open>HashStream\<close>: the blocks of a message and the contract of a driver that receives it in chunks
  (locale \<open>stream_hash\<close>, and \<open>bounded_stream\<close> for drivers that overrun a buffer near \<open>2 ^ 32\<close> bytes): the
  digest is a function of the concatenation. \<open>MdHash\<close> (\<open>md4.c\<close>, \<open>md5.c\<close>, \<open>rmd160.c\<close>), \<open>Michael\<close>
  (\<open>michael_mic.c\<close>), \<open>Sha3\<close> (\<open>sha3_generic.c\<close>, its permutation shown to be the standard's) and \<open>Cmac\<close>
  (\<open>cmac.c\<close>, \<open>xcbc.c\<close>, over any block cipher) are instances. \<open>Hmac\<close> (\<open>hmac.c\<close> over \<open>shash.c\<close>) is a client of
  the interface \<open>shash\<close>, which MD4, MD5 and RIPEMD-160 provide, errors of every call included.

  \<^bold>\<open>Random bits.\<close>
  The generators of \<open>drbg.c\<close>. \<open>DrbgBase\<close>: the table of generators and the state; \<open>DrbgHash\<close>, \<open>DrbgHmac\<close>,
  \<open>DrbgCtrDf\<close> and \<open>DrbgCtr\<close>: the three kinds, each refined to the functions of SP 800-90A over any hash, keyed
  hash or block cipher with its counter mode (locale \<open>ctr_backend\<close>, provided by \<open>Ctr\<close> over SEED; the models
  of \<open>MdHash\<close> and \<open>Hmac\<close> provide the others). \<open>Drbg\<close>: seeding, the FIPS test of the noise source with its
  panic, the reseed policy, and the life of a handle as a set of reachable states; what it relies on is
  the locale \<open>drbg_generator\<close>, which all three kinds satisfy.

  \<^bold>\<open>Public keys.\<close>
  \<open>Rsa\<close> (\<open>rsa.c\<close>, \<open>rsa_helper.c\<close>): the actions of the ASN.1 decoder, the checks on a new key, and the two
  operations, decryption by the Chinese remainder theorem. The multi-precision library is outside the
  repository: \<open>Mpi\<close> holds it as the record \<open>mpi_lib\<close> of functions with the laws of the locale \<open>mpi_laws\<close>, which
  the integers satisfy, and the number theory. \<open>Pkcs1pad\<close> (\<open>rsa-pkcs1pad.c\<close>): the padding template over any
  child, and over that RSA. \<open>Proth\<close> certifies the primes of the example key.
  \<open>KppSecret\<close> (\<open>dh_helper.c\<close>, \<open>ecdh_helper.c\<close>): the packed form of Diffie-Hellman secrets, with pointers into the
  caller's buffer; the header struct is a parameter (locale \<open>kpp_layout\<close>). \<open>Dh\<close> and \<open>DhSafePrime\<close> (\<open>dh.c\<close>): key
  agreement and its FIPS checks over \<open>mpi_lib\<close>, the five groups of RFC 7919, and the key generation without
  division.

  \<^bold>\<open>Multi-precision arithmetic.\<close>
  \<open>Vli\<close> and \<open>VliMult\<close>: the little-endian arrays of 64-bit digits of \<open>ecc.c\<close>, with comparison, shifts,
  addition, subtraction, modular addition and subtraction, and the multiplications, in both
  configurations (with and without \<open>__int128\<close>). \<open>VliMod\<close>, \<open>VliReduce\<close> and \<open>VliSpecial\<close>: every
  reduction modulo a curve prime or order; \<open>VliInv\<close>: modular inversion. \<open>EccCurve\<close>: the nine curves of
  \<open>ecc_curve_defs.c\<close> and \<open>ecrdsa_defs.c\<close>, the reduction chosen for each, and the validation of private
  and public keys. \<open>vli_mult\<close> can lose a carry (a theorem shows where), so what rests on it carries
  the hypothesis \<open>vli_mult_exact\<close>, an executable check that none is lost.

  \<^bold>\<open>Conventions.\<close> Machine integers are words of their width. A byte buffer is a list of 8-bit words
  whose length is the buffer's size. Errors are the constructors of \<open>errno\<close>, or \<open>Inl\<close> of one. What an
  operating system or the kernel decides (results of system calls, allocation, layout of memory,
  scheduling) is an argument or a nondeterministic step, never fixed. \<open>Prelude\<close> holds these types, the
  loads and stores of words, \<open>crypto_xor_cpy\<close> and shared lemmas; the inline functions the sources take
  from kernel headers (\<open>get_unaligned_be32\<close>, \<open>rol32\<close>, \<open>crypto_xor\<close>, list primitives) are modelled by
  their documented behaviour there.

  \<^bold>\<open>Bounds and fuel.\<close> The walk runs under fuel \<open>length data + 1\<close>: each chunk consumes at least one byte, and
  the lemmas show that the fuel never runs out (the result is always \<open>Some\<close>). The echo loop and the wait
  loop are recursions over the list of answers the peer or the kernel gives; a list that ends is a loop
  still waiting, which is a value of its own. The loops of the reductions
  and of the inversion are partial functions, proved to end. All other loops are structural or have a
  measure.

  \<^bold>\<open>Not modelled\<close>: the Java and C# servers; registration, templates and tfm life cycle (\<open>api.c\<close>, most of
  \<open>algapi.c\<close>), the socket interface (\<open>af_alg.c\<close>, \<open>algif_*.c\<close>), the test managers, the elliptic-curve point
  operations of \<open>ecc.c\<close>, the other hashes, AEADs, the other random number generators, asymmetric keys
  and the remaining ciphers. Memory aliasing between source and destination is modelled where the code
  has two bodies for it (PCBC, CBC, CTR in place), and scatterlist walks as far as the sequence of chunks.
\<close>

section \<open>The ciphers behind the modes\<close>

text \<open>
  C24: every modelled cipher, under the schedule of any key (CAST5 and CAST6: under any schedule at
  all), is a permutation of its blocks that the decryption function inverts: it satisfies the whole
  contract the modes of operation rely on.
\<close>

theorem block_ciphers_invertible:
  "block_cipher 8 (tea_encrypt (tea_setkey key)) (tea_decrypt (tea_setkey key)) \<and>
   block_cipher 16 (seed_encrypt (seed_set_key key)) (seed_decrypt (seed_set_key key)) \<and>
   block_cipher 8 (bf_encrypt (blowfish_setkey key)) (bf_decrypt (blowfish_setkey key)) \<and>
   block_cipher 8 (fcrypt_encrypt (fcrypt_setkey wide key)) (fcrypt_decrypt (fcrypt_setkey wide key)) \<and>
   block_cipher 8 (cast5_encrypt c5) (cast5_decrypt c5) \<and>
   block_cipher 16 (cast6_encrypt c6) (cast6_decrypt c6)"
  using tea.block_cipher_axioms seed.block_cipher_axioms bf.block_cipher_axioms
    fcrypt.block_cipher_axioms cast5.block_cipher_axioms cast6.block_cipher_axioms by blast

end
